(* ===== verification/Prelude.thy ===== *)
theory Prelude
  imports Main "HOL-Library.Word" "HOL-Library.Signed_Division" "HOL-Library.Product_Lexorder"
begin

text \<open>
  Shared vocabulary of the development: names for the machine integers of the C sources, the
  collections of facts that carry the component proofs, and generic lemmas on lists and words.

  \<^item> \<open>u8\<close>, \<open>u16\<close>, \<open>u32\<close>, \<open>s16\<close>, \<open>s32\<close> are the integer types of \<^verbatim>\<open>sys_idl/nbase.idl\<close>; a signed
    type is the same word type read through \<^const>\<open>sint\<close>.
  \<^item> C's \<open>%\<close> truncates towards zero; it is \<^const>\<open>signed_modulo\<close> on \<^typ>\<open>int\<close>.
  \<^item> \<open>frame\<close> collects facts saying what an operation leaves alone, \<open>inv_intros\<close> the
    preservation lemmas of the component invariants.
\<close>

unbundle bit_operations_syntax

type_synonym u8 = "8 word"
type_synonym u16 = "16 word"
type_synonym u32 = "32 word"
type_synonym u64 = "64 word"
type_synonym s16 = "16 word"
type_synonym s32 = "32 word"

named_theorems frame
named_theorems inv_intros

section \<open>Lists\<close>

text \<open>Removing one occurrence, as unlinking one element of a linked list does.\<close>

lemma count_list_remove1:
  "count_list (remove1 x xs) y = (if x = y then count_list xs y - 1 else count_list xs y)"
  by (induction xs) (auto simp: count_list_0_iff)

lemma length_filter_remove1:
  "x \<in> set xs \<Longrightarrow> length (filter P (remove1 x xs)) =
     (if P x then length (filter P xs) - 1 else length (filter P xs))"
proof (induction xs)
  case Nil
  then show ?case by simp
next
  case (Cons a xs)
  show ?case
  proof (cases "a = x")
    case True
    then show ?thesis by simp
  next
    case False
    with Cons.prems have x: "x \<in> set xs" by simp
    have "0 < length (filter P xs)" if "P x"
      using x that by (metis filter_empty_conv length_greater_0_conv)
    with False Cons.IH[OF x] show ?thesis by auto
  qed
qed

section \<open>Lexicographic comparison\<close>

lemma lex_less:
  "(a :: 'a :: linorder, b :: 'b :: linorder) < (c, d) \<longleftrightarrow> a < c \<or> a = c \<and> b < d"
  by (auto simp: less_prod_simp)

definition cmp_int :: "'a :: linorder \<Rightarrow> 'a \<Rightarrow> int" where
  "cmp_int a b = (if a < b then -1 else if a = b then 0 else 1)"

lemma cmp_int_pair: "cmp_int (a, b) (c, d) = (if a = c then cmp_int b d else if a < c then -1 else 1)"
  by (auto simp: cmp_int_def lex_less)

section \<open>Words\<close>

lemma unat_ucast_u8_u16 [simp]: "unat (ucast (b :: u8) :: u16) = unat b"
  by (simp add: unsigned_ucast_eq take_bit_nat_eq_self less_le_trans [OF unsigned_less])

lemma unat_u8_le: "unat (b :: u8) \<le> 255"
  using unsigned_less [of b, where ?'a = nat] by simp

lemma unat_u16_less: "unat (b :: u16) < 65536"
  using unsigned_less [of b, where ?'a = nat] by simp

lemma unat_u32_less: "unat (b :: u32) < 4294967296"
  using unsigned_less [of b, where ?'a = nat] by simp

text \<open>The sign bit of a 32 bit word, and the carry out of a 32 bit addition.\<close>

lemma and_exp: "x AND 2 ^ k = (if bit x k then 2 ^ k else 0)" for x :: "'a :: len word"
  by (rule bit_word_eqI) (auto simp: bit_simps)

lemma sign_bit_tests:
  fixes x y :: u32
  shows "x AND 0x80000000 = 0 \<longleftrightarrow> \<not> bit x 31"
    and "(x AND 0x80000000) XOR (y AND 0x80000000) = 0 \<longleftrightarrow> (bit x 31 \<longleftrightarrow> bit y 31)"
proof -
  have nz: "(0x80000000 :: u32) \<noteq> 0" by simp
  have *: "x AND 0x80000000 = (if bit x 31 then 0x80000000 else 0)" for x :: u32
    using and_exp [of x 31] by simp
  show "x AND 0x80000000 = 0 \<longleftrightarrow> \<not> bit x 31"
    unfolding * using nz by presburger
  show "(x AND 0x80000000) XOR (y AND 0x80000000) = 0 \<longleftrightarrow> (bit x 31 \<longleftrightarrow> bit y 31)"
    unfolding * using nz by (cases "bit x 31"; cases "bit y 31") (simp_all only: if_True if_False
        xor_self_eq bit.xor_left_self xor.right_neutral xor.left_neutral simp_thms)
qed

lemma bit31_iff: "bit x 31 \<longleftrightarrow> 2147483648 \<le> unat x" for x :: u32
proof -
  have "bit x 31 \<longleftrightarrow> bit (unat x) 31" by (simp add: bit_simps)
  then have "bit x 31 \<longleftrightarrow> odd (unat x div 2147483648)" by (simp add: bit_iff_odd)
  moreover have "unat x div 2147483648 = (if unat x < 2147483648 then 0 else 1)"
    using unat_u32_less [of x] by (simp add: div_if [of "unat x"] div_less)
  ultimately show ?thesis by (simp add: not_less split: if_splits)
qed

lemma mod_2_32: "n < 8589934592 \<Longrightarrow> n mod 4294967296 = (if n < 4294967296 then n else n - 4294967296)"
  for n :: nat
  by (simp add: mod_if)

lemma unat_add_u32: "unat (a + b) = (unat a + unat b) mod 4294967296" for a b :: u32
  by (simp add: unat_word_ariths)

lemma digits_inject:
  "b < K \<Longrightarrow> d < K \<Longrightarrow> a * K + b = c * K + d \<longleftrightarrow> a = c \<and> b = d" for a b c d K :: nat
  by (metis add.commute add_cancel_right_left div_less div_mult_self3 mod_less mod_mult_self1
      not_less_zero)

text \<open>Halves of a 32 bit word.\<close>

lemma unat_and_low: "unat (x AND 0xffff) = unat x mod 65536" for x :: u32
proof -
  have "x AND 0xffff = take_bit 16 x"
    by (simp only: take_bit_eq_mask mask_eq_exp_minus_1) simp
  then show ?thesis by (simp only: unsigned_take_bit_eq) (simp add: take_bit_eq_mod)
qed

lemma unat_shift_high: "unat (drop_bit 16 x) = unat x div 65536" for x :: u32
  by (simp only: unsigned_drop_bit_eq)
    (use unat_u32_less [of x] in \<open>simp add: drop_bit_eq_div take_bit_nat_eq_self\<close>)

lemma unat_mult_u32: "unat x * unat y < 4294967296 \<Longrightarrow> unat (x * y) = unat x * unat y" for x y :: u32
  by (simp add: unat_word_ariths)

lemma unat_plus_u32: "unat x + unat y < 4294967296 \<Longrightarrow> unat (x + y) = unat x + unat y" for x y :: u32
  by (simp add: unat_word_ariths)

lemma unat_push_low: "unat x < 65536 \<Longrightarrow> unat (push_bit 16 x) = unat x * 65536" for x :: u32
  by (simp add: push_bit_eq_mult unat_word_ariths)

text \<open>
  Knuth's schoolbook product of two 32 bit words from 16 bit halves: the numbers, then the same
  computation on words, where no intermediate result overflows.
\<close>

lemma halves_product:
  fixes u1 u2 v1 v2 K :: nat
  defines "t1 \<equiv> u2 * v2"
  defines "t2 \<equiv> u1 * v2 + t1 div K"
  defines "t3 \<equiv> u2 * v1 + t2 mod K"
  shows "t1 mod K + (t3 mod K) * K + K * K * (t2 div K + (u1 * v1 + t3 div K))
    = (u1 * K + u2) * (v1 * K + v2)"
proof -
  define q1 r1 q2 r2 q3 r3 where
    "q1 = t1 div K" "r1 = t1 mod K" "q2 = t2 div K" "r2 = t2 mod K" "q3 = t3 div K" "r3 = t3 mod K"
  have 1: "u2 * v2 = q1 * K + r1" unfolding q1_r1_q2_r2_q3_r3_def t1_def by simp
  have 2: "u1 * v2 + q1 = q2 * K + r2"
    unfolding q1_r1_q2_r2_q3_r3_def using div_mult_mod_eq [of t2 K] by (simp only: t2_def)
  have 3: "u2 * v1 + r2 = q3 * K + r3"
    unfolding q1_r1_q2_r2_q3_r3_def using div_mult_mod_eq [of t3 K] by (simp only: t3_def)
  have "(u1 * K + u2) * (v1 * K + v2) + q1 * K + r2 * K
      = u1 * v1 * (K * K) + (u1 * v2 + q1) * K + (u2 * v1 + r2) * K + u2 * v2"
    by (simp add: algebra_simps)
  also have "\<dots> = r1 + r3 * K + K * K * (q2 + (u1 * v1 + q3)) + q1 * K + r2 * K"
    unfolding 1 2 3 by (simp add: algebra_simps)
  finally have "(u1 * K + u2) * (v1 * K + v2) = r1 + r3 * K + K * K * (q2 + (u1 * v1 + q3))"
    by (simp only: add_right_cancel)
  then show ?thesis by (simp only: q1_r1_q2_r2_q3_r3_def)
qed

lemma half_bound: "(a :: nat) < 65536 \<Longrightarrow> b < 65536 \<Longrightarrow> c < 65536 \<Longrightarrow> a * b + c < 4294967296"
proof -
  assume "a < 65536" "b < 65536" "c < 65536"
  then have "a * b \<le> 65535 * 65535" by (intro mult_le_mono) simp_all
  with \<open>c < 65536\<close> show ?thesis by simp
qed

lemma knuth_product:
  fixes u v :: u32
  defines "u1 \<equiv> drop_bit 16 u" and "u2 \<equiv> u AND 0xffff" and "v1 \<equiv> drop_bit 16 v" and "v2 \<equiv> v AND 0xffff"
  defines "t1 \<equiv> u2 * v2"
  defines "t2 \<equiv> u1 * v2 + drop_bit 16 t1"
  defines "t3 \<equiv> u2 * v1 + (t2 AND 0xffff)"
  shows "unat ((t1 AND 0xffff) + push_bit 16 (t3 AND 0xffff)) +
    4294967296 * unat (drop_bit 16 t2 + (u1 * v1 + drop_bit 16 t3)) = unat u * unat v"
proof -
  define a1 a2 b1 b2 where "a1 = unat u div 65536" "a2 = unat u mod 65536"
    "b1 = unat v div 65536" "b2 = unat v mod 65536"
  note ab = a1_a2_b1_b2_def
  have bounds: "a1 < 65536" "a2 < 65536" "b1 < 65536" "b2 < 65536"
    using unat_u32_less [of u] unat_u32_less [of v] by (simp_all add: ab less_mult_imp_div_less)
  have hv: "unat u1 = a1" "unat u2 = a2" "unat v1 = b1" "unat v2 = b2"
    by (simp_all only: u1_def u2_def v1_def v2_def unat_and_low unat_shift_high ab)
  define s1 s2 s3 where "s1 = a2 * b2" "s2 = a1 * b2 + s1 div 65536" "s3 = a2 * b1 + s2 mod 65536"
  note ss = s1_s2_s3_def
  have s1: "s1 < 4294967296" using half_bound [OF bounds(2) bounds(4), of 0] by (simp add: ss)
  then have s1': "s1 div 65536 < 65536" by (simp add: less_mult_imp_div_less)
  then have s2: "s2 < 4294967296" using half_bound [OF bounds(1) bounds(4), of "s1 div 65536"] by (simp add: ss)
  have s3: "s3 < 4294967296" using half_bound [OF bounds(2) bounds(3), of "s2 mod 65536"] by (simp add: ss)
  have t1: "unat t1 = s1" using s1 by (simp add: t1_def unat_mult_u32 hv ss)
  have ab2: "a1 * b2 < 4294967296" "a2 * b1 < 4294967296" "a1 * b1 < 4294967296"
    using half_bound [of a1 b2 0] half_bound [of a2 b1 0] half_bound [of a1 b1 0] bounds by simp_all
  have t2: "unat t2 = s2"
    using s2 ab2 unfolding ss(2)
    by (simp add: t2_def unat_plus_u32 unat_mult_u32 hv unat_shift_high t1)
  have t3: "unat t3 = s3"
    using s3 ab2 unfolding ss(3)
    by (simp add: t3_def unat_plus_u32 unat_mult_u32 hv unat_and_low t2)
  have P: "s1 mod 65536 + (s3 mod 65536) * 65536 + 4294967296 * (s2 div 65536 + (a1 * b1 + s3 div 65536))
      = unat u * unat v"
    using halves_product [where ?u1.0 = a1 and ?u2.0 = a2 and ?v1.0 = b1 and ?v2.0 = b2 and K = 65536]
    by (simp add: ss) (simp add: ab)
  have top: "s2 div 65536 + (a1 * b1 + s3 div 65536) < 4294967296"
  proof (rule ccontr)
    assume "\<not> ?thesis"
    then have "4294967296 * 4294967296 \<le> 4294967296 * (s2 div 65536 + (a1 * b1 + s3 div 65536))"
      by (intro mult_le_mono) simp_all
    with P have "4294967296 * 4294967296 \<le> unat u * unat v" by linarith
    moreover have "unat u * unat v \<le> 4294967295 * 4294967295"
      using unat_u32_less [of u] unat_u32_less [of v] by (intro mult_le_mono) simp_all
    ultimately show False by simp
  qed
  have "unat (drop_bit 16 t2 + (u1 * v1 + drop_bit 16 t3)) = s2 div 65536 + (a1 * b1 + s3 div 65536)"
    using top ab2 by (simp add: unat_plus_u32 unat_mult_u32 hv unat_shift_high t2 t3)
  moreover have "unat ((t1 AND 0xffff) + push_bit 16 (t3 AND 0xffff)) = s1 mod 65536 + (s3 mod 65536) * 65536"
  proof -
    have *: "unat (push_bit 16 (t3 AND 0xffff)) = (s3 mod 65536) * 65536"
      by (subst unat_push_low) (simp_all add: unat_and_low t3)
    have "s1 mod 65536 < 65536" "s3 mod 65536 < 65536" by simp_all
    then have "s1 mod 65536 + (s3 mod 65536) * 65536 < 4294967296" by linarith
    with * show ?thesis by (simp add: unat_plus_u32 unat_and_low t1)
  qed
  ultimately show ?thesis using P by simp
qed

lemma sint_of_nat_s16: "n < 32768 \<Longrightarrow> sint (word_of_nat n :: s16) = int n"
  by (simp add: signed_of_nat signed_take_bit_int_eq_self)

text \<open>C's remainder followed by the usual correction of a negative result.\<close>

definition c_mod_fix :: "int \<Rightarrow> int \<Rightarrow> int" where
  "c_mod_fix a b = (let r = a smod b in if r < 0 then r + b else r)"

lemma c_mod_fix_pos:
  assumes "0 < b"
  shows "c_mod_fix a b = a mod b"
proof (cases "0 \<le> a")
  case True
  with assms show ?thesis
    by (cases "a = 0") (simp_all add: c_mod_fix_def signed_modulo_int_def signed_divide_int_def
        Let_def minus_div_mult_eq_mod not_less)
next
  case False
  define n where "n = - a"
  have n: "0 < n" "a = - n" using False by (auto simp: n_def)
  have r: "n smod b = n mod b"
    using assms n by (simp add: signed_modulo_int_def signed_divide_int_def
        minus_div_mult_eq_mod [symmetric])
  have "0 \<le> n mod b" using assms by simp
  then show ?thesis
    unfolding n(2) using assms
    by (cases "n mod b = 0") (simp_all add: c_mod_fix_def r Let_def zmod_zminus1_eq_if order.strict_iff_order)
qed

section \<open>Comparison functions\<close>

text \<open>
  The contract of a three-way comparison: it is a total order on the valid arguments, with 0 for
  equality only.
\<close>

locale three_way_comparison =
  fixes cmp :: "'a \<Rightarrow> 'a \<Rightarrow> int" and valid :: "'a \<Rightarrow> bool"
  assumes cmp_swap: "valid x \<Longrightarrow> valid y \<Longrightarrow> cmp y x = - cmp x y"
    and cmp_eq: "valid x \<Longrightarrow> valid y \<Longrightarrow> cmp x y = 0 \<longleftrightarrow> x = y"
    and cmp_trans: "valid x \<Longrightarrow> valid y \<Longrightarrow> valid z \<Longrightarrow> cmp x y \<le> 0 \<Longrightarrow> cmp y z \<le> 0 \<Longrightarrow> cmp x z \<le> 0"
begin

lemma cmp_less_trans:
  assumes "valid x" "valid y" "valid z" "cmp x y < 0" "cmp y z < 0"
  shows "cmp x z < 0"
proof -
  have le: "cmp x z \<le> 0" using assms cmp_trans [of x y z] by simp
  have "cmp x z \<noteq> 0"
  proof
    assume "cmp x z = 0"
    then have "x = z" using assms(1,3) cmp_eq by blast
    then show False using assms cmp_swap [of x y] by simp
  qed
  with le show ?thesis by simp
qed

lemma cmp_total: "valid x \<Longrightarrow> valid y \<Longrightarrow> cmp x y \<le> 0 \<or> cmp y x \<le> 0"
  using cmp_swap [of x y] by linarith

end

end
