(* ===== verification/Uuid.thy ===== *)
theory Uuid
  imports Prelude
begin

text \<open>
  The UUID values of \<^verbatim>\<open>src/rpc/runtime/uuid.c\<close> and the operations that only read them:
  structure check, equality, nil test, lexical comparison and hash.

  \<^item> \<open>uuid\<close> is \<open>uuid_t\<close> of \<^verbatim>\<open>nbase.idl\<close>; it is a one-constructor datatype whose selectors are
    the field names, so that it can be an instance of \<^verbatim>\<open>linorder\<close>.  \<open>node\<close> is a six byte array.
  \<^item> A pair \<open>(status, result)\<close> stands for the status out parameter and the function value.
  \<^item> \<open>NULL\<close> arguments are \<open>None\<close>.
  \<^item> \<open>uuid_mem\<close> is the sixteen byte memory image, on a little or a big endian host.

  The definitions model the routines after \<open>UUID_VERIFY_INIT\<close>, which is modelled in
  \<^verbatim>\<open>Uuid_Create\<close> (it never fails, and touches only the generator's state).
\<close>

section \<open>Data\<close>

datatype uuid_node = Uuid_node
  (node0: u8) (node1: u8) (node2: u8) (node3: u8) (node4: u8) (node5: u8)

datatype uuid = Uuid
  (time_low: u32) (time_mid: u16) (time_hi_and_version: u16)
  (clock_seq_hi_and_reserved: u8) (clock_seq_low: u8) (node: uuid_node)

datatype uuid_status = Uuid_s_ok | Uuid_s_bad_version | Uuid_s_invalid_string_uuid
  | Uuid_s_no_memory | Uuid_s_no_address | Uuid_s_internal_error

definition uuid_g_nil_uuid :: uuid where
  "uuid_g_nil_uuid = Uuid 0 0 0 0 0 (Uuid_node 0 0 0 0 0 0)"

fun node_bytes :: "uuid_node \<Rightarrow> u8 list" where
  "node_bytes (Uuid_node a b c d e f) = [a, b, c, d, e, f]"

definition mem16 :: "bool \<Rightarrow> u16 \<Rightarrow> u8 list" where
  "mem16 le w = (let bs = [ucast (drop_bit 8 w), ucast w] in if le then rev bs else bs)"

definition mem32 :: "bool \<Rightarrow> u32 \<Rightarrow> u8 list" where
  "mem32 le w =
     (let bs = [ucast (drop_bit 24 w), ucast (drop_bit 16 w), ucast (drop_bit 8 w), ucast w]
      in if le then rev bs else bs)"

definition uuid_mem :: "bool \<Rightarrow> uuid \<Rightarrow> u8 list" where
  "uuid_mem le u = mem32 le (time_low u) @ mem16 le (time_mid u) @ mem16 le (time_hi_and_version u)
     @ [clock_seq_hi_and_reserved u, clock_seq_low u] @ node_bytes (node u)"

section \<open>Operations\<close>

definition check_structure :: "uuid \<Rightarrow> bool" where
  "check_structure u \<longleftrightarrow>
     clock_seq_hi_and_reserved u AND 0x80 = 0x00 \<or>
     clock_seq_hi_and_reserved u AND 0xc0 = 0x80 \<or>
     clock_seq_hi_and_reserved u AND 0xe0 = 0xc0"

definition uuid_create_nil :: "uuid_status \<times> uuid" where
  "uuid_create_nil = (Uuid_s_ok, Uuid 0 0 0 0 0 (Uuid_node 0 0 0 0 0 0))"

definition uuid_equal :: "uuid \<Rightarrow> uuid \<Rightarrow> uuid_status \<times> bool" where
  "uuid_equal uuid1 uuid2 =
     (if \<not> check_structure uuid1 then (Uuid_s_bad_version, False)
      else if \<not> check_structure uuid2 then (Uuid_s_bad_version, False)
      else (Uuid_s_ok,
        time_low uuid1 = time_low uuid2 \<and>
        time_mid uuid1 = time_mid uuid2 \<and>
        time_hi_and_version uuid1 = time_hi_and_version uuid2 \<and>
        clock_seq_hi_and_reserved uuid1 = clock_seq_hi_and_reserved uuid2 \<and>
        clock_seq_low uuid1 = clock_seq_low uuid2 \<and>
        node_bytes (node uuid1) = node_bytes (node uuid2)))"

text \<open>\<open>memcmp\<close> over the sixteen bytes; the structure has no padding.\<close>

definition uuid_is_nil :: "bool \<Rightarrow> uuid \<Rightarrow> uuid_status \<times> bool" where
  "uuid_is_nil le u =
     (if \<not> check_structure u then (Uuid_s_bad_version, False)
      else (Uuid_s_ok, uuid_mem le u = uuid_mem le uuid_g_nil_uuid))"

text \<open>The loop over the node bytes at the end of \<open>uuid_compare\<close>.\<close>

fun node_cmp :: "u8 list \<Rightarrow> u8 list \<Rightarrow> int" where
  "node_cmp (x # xs) (y # ys) =
     (if x < y then -1 else if x > y then 1 else node_cmp xs ys)"
| "node_cmp _ _ = 0"

definition uuid_compare :: "bool \<Rightarrow> uuid option \<Rightarrow> uuid option \<Rightarrow> uuid_status \<times> int" where
  "uuid_compare le uuid1 uuid2 =
    (case (uuid1, uuid2) of
       (None, None) \<Rightarrow> (Uuid_s_ok, 0)
     | (None, Some u2) \<Rightarrow>
         if \<not> check_structure u2 then (Uuid_s_bad_version, -1)
         else (let (st, nil) = uuid_is_nil le u2 in (st, if nil then 0 else -1))
     | (Some u1, None) \<Rightarrow>
         if \<not> check_structure u1 then (Uuid_s_bad_version, -1)
         else (let (st, nil) = uuid_is_nil le u1 in (st, if nil then 0 else 1))
     | (Some u1, Some u2) \<Rightarrow>
         if \<not> check_structure u1 then (Uuid_s_bad_version, -1)
         else if \<not> check_structure u2 then (Uuid_s_bad_version, -1)
         else (Uuid_s_ok,
           if time_low u1 = time_low u2 then
             if time_mid u1 = time_mid u2 then
               if time_hi_and_version u1 = time_hi_and_version u2 then
                 if clock_seq_hi_and_reserved u1 = clock_seq_hi_and_reserved u2 then
                   if clock_seq_low u1 = clock_seq_low u2
                   then node_cmp (node_bytes (node u1)) (node_bytes (node u2))
                   else if clock_seq_low u1 < clock_seq_low u2 then -1 else 1
                 else if clock_seq_hi_and_reserved u1 < clock_seq_hi_and_reserved u2 then -1 else 1
               else if time_hi_and_version u1 < time_hi_and_version u2 then -1 else 1
             else if time_mid u1 < time_mid u2 then -1 else 1
           else if time_low u1 < time_low u2 then -1 else 1))"

text \<open>One of the sixteen unrolled steps of the hash loop: the counters are \<open>short\<close>s.\<close>

fun hash_step :: "s16 \<times> s16 \<Rightarrow> u8 \<Rightarrow> s16 \<times> s16" where
  "hash_step (c0, c1) b = (let c0' = c0 + ucast b in (c0', c1 + c0'))"

definition uuid_hash :: "bool \<Rightarrow> uuid \<Rightarrow> uuid_status \<times> u16" where
  "uuid_hash le u =
    (if \<not> check_structure u then (Uuid_s_bad_version, 0)
     else
       let (c0, c1) = foldl hash_step (0, 0) (uuid_mem le u);
           x = c_mod_fix (- sint c1) 255;
           y = c_mod_fix (sint c1 - sint c0) 255
       in (Uuid_s_ok, word_of_int (y * 256 + x)))"

section \<open>Equality and order\<close>

lemma node_bytes_inject [simp]: "node_bytes a = node_bytes b \<longleftrightarrow> a = b"
  by (cases a; cases b) simp

lemma length_uuid_mem [simp]: "length (uuid_mem le u) = 16"
  by (cases "node u") (simp add: uuid_mem_def mem32_def mem16_def Let_def)

lemma mem16_zero: "mem16 le w = mem16 le 0 \<longleftrightarrow> w = 0"
proof
  assume "mem16 le w = mem16 le 0"
  then have "(ucast (drop_bit 8 w) :: u8) = 0" "(ucast w :: u8) = 0"
    by (auto simp: mem16_def Let_def split: if_splits)
  then have "\<not> bit w (8 + k)" "\<not> bit w k" if "k < 8" for k
    using that by (auto simp: bit_eq_iff bit_simps)
  then have "\<not> bit w k" if "k < 16" for k
    using that by (cases "k < 8") (auto dest: less_imp_add_positive simp: not_less le_iff_add)
  then show "w = 0" by (intro bit_word_eqI) auto
qed (simp add: mem16_def)

lemma mem32_zero: "mem32 le w = mem32 le 0 \<longleftrightarrow> w = 0"
proof
  assume "mem32 le w = mem32 le 0"
  then have "(ucast (drop_bit 24 w) :: u8) = 0" "(ucast (drop_bit 16 w) :: u8) = 0"
    "(ucast (drop_bit 8 w) :: u8) = 0" "(ucast w :: u8) = 0"
    by (auto simp: mem32_def Let_def split: if_splits)
  then have b: "\<not> bit w (24 + k)" "\<not> bit w (16 + k)" "\<not> bit w (8 + k)" "\<not> bit w k" if "k < 8" for k
    using that by (auto simp: bit_eq_iff bit_simps)
  have "\<not> bit w k" if k: "k < 32" for k
  proof -
    have "k < 8 \<or> (\<exists>j<8. k = 8 + j) \<or> (\<exists>j<8. k = 16 + j) \<or> (\<exists>j<8. k = 24 + j)"
      using k by presburger
    then show ?thesis using b by blast
  qed
  then show "w = 0" by (intro bit_word_eqI) auto
qed (simp add: mem32_def)

lemma uuid_mem_nil: "uuid_mem le u = uuid_mem le uuid_g_nil_uuid \<longleftrightarrow> u = uuid_g_nil_uuid"
proof -
  have len: "length (mem16 le a) = 2" "length (mem32 le b) = 4" for a b
    by (simp_all add: mem16_def mem32_def Let_def)
  show ?thesis
    by (cases u; cases "node u")
      (auto simp: uuid_mem_def uuid_g_nil_uuid_def mem16_zero mem32_zero append_eq_append_conv len)
qed

lemma check_structure_nil [simp]: "check_structure uuid_g_nil_uuid"
  by (simp add: check_structure_def uuid_g_nil_uuid_def)

lemma uuid_is_nil_iff: "check_structure u \<Longrightarrow> uuid_is_nil le u = (Uuid_s_ok, u = uuid_g_nil_uuid)"
  by (simp add: uuid_is_nil_def uuid_mem_nil)

lemma uuid_equal_iff:
  "check_structure u \<Longrightarrow> check_structure v \<Longrightarrow> uuid_equal u v = (Uuid_s_ok, u = v)"
  by (cases u; cases v) (auto simp: uuid_equal_def)

text \<open>
  The lexical order: fields in declaration order, each compared as an unsigned number.
\<close>

fun node_key :: "uuid_node \<Rightarrow> u8 \<times> u8 \<times> u8 \<times> u8 \<times> u8 \<times> u8" where
  "node_key (Uuid_node a b c d e f) = (a, b, c, d, e, f)"

fun uuid_key :: "uuid \<Rightarrow> u32 \<times> u16 \<times> u16 \<times> u8 \<times> u8 \<times> u8 \<times> u8 \<times> u8 \<times> u8 \<times> u8 \<times> u8" where
  "uuid_key (Uuid a b c d e n) = (a, b, c, d, e, node_key n)"

lemma uuid_key_inject [simp]: "uuid_key u = uuid_key v \<longleftrightarrow> u = v"
  by (cases u; cases v; cases "node u"; cases "node v") auto

instantiation uuid :: linorder
begin

definition less_eq_uuid :: "uuid \<Rightarrow> uuid \<Rightarrow> bool" where
  "less_eq_uuid u v \<longleftrightarrow> uuid_key u \<le> uuid_key v"

definition less_uuid :: "uuid \<Rightarrow> uuid \<Rightarrow> bool" where
  "less_uuid u v \<longleftrightarrow> uuid_key u < uuid_key v"

instance
  by standard (auto simp: less_eq_uuid_def less_uuid_def less_le_not_le)

end

lemma node_key_inject [simp]: "node_key m = node_key n \<longleftrightarrow> m = n"
  by (cases m; cases n) simp

lemma node_cmp_Cons:
  "node_cmp (x # xs) (y # ys) = (if x = y then node_cmp xs ys else if x < y then -1 else 1)"
  by auto

lemma node_cmp_key: "node_cmp (node_bytes m) (node_bytes n) = cmp_int (node_key m) (node_key n)"
  by (cases m; cases n) (simp add: node_cmp_Cons cmp_int_pair cmp_int_def del: node_cmp.simps(1))

lemma uuid_compare_key:
  assumes "check_structure u" "check_structure v"
  shows "uuid_compare le (Some u) (Some v) = (Uuid_s_ok, cmp_int u v)"
proof -
  have "cmp_int u v = cmp_int (uuid_key u) (uuid_key v)"
    by (simp add: cmp_int_def less_uuid_def)
  then show ?thesis
    using assms by (cases u; cases v) (simp add: uuid_compare_def node_cmp_key cmp_int_pair)
qed

section \<open>Hash\<close>

text \<open>
  What the hash routine computes when no \<open>short\<close> overflows: the two Fletcher sums of the
  memory image, \<open>S1\<close> the sum of the bytes and \<open>S2\<close> the sum weighted 16 down to 1,
  and from them the two octets \<open>-S2 mod 255\<close> and \<open>(S2 - S1) mod 255\<close>.
\<close>

fun byte_sum :: "u8 list \<Rightarrow> nat" where
  "byte_sum [] = 0"
| "byte_sum (b # bs) = unat b + byte_sum bs"

fun weighted_sum :: "u8 list \<Rightarrow> nat" where
  "weighted_sum [] = 0"
| "weighted_sum (b # bs) = Suc (length bs) * unat b + weighted_sum bs"

definition fletcher_hash :: "u8 list \<Rightarrow> int" where
  "fletcher_hash bs =
     (int (weighted_sum bs) - int (byte_sum bs)) mod 255 * 256 + (- int (weighted_sum bs)) mod 255"

lemma foldl_hash_step:
  "foldl hash_step (c0, c1) bs =
     (c0 + of_nat (byte_sum bs), c1 + of_nat (length bs) * c0 + of_nat (weighted_sum bs))"
  by (induction bs arbitrary: c0 c1) (simp_all add: Let_def algebra_simps)

lemma byte_sum_le: "byte_sum bs \<le> 255 * length bs"
proof (induction bs)
  case (Cons b bs)
  then show ?case using unat_u8_le [of b] by simp
qed simp

lemma uuid_hash_no_overflow:
  assumes "check_structure u" "weighted_sum (uuid_mem le u) < 32768"
  shows "uuid_hash le u = (Uuid_s_ok, word_of_int (fletcher_hash (uuid_mem le u)))"
proof -
  have "byte_sum (uuid_mem le u) < 32768"
    using byte_sum_le [of "uuid_mem le u"] by simp
  with assms show ?thesis
    by (simp add: uuid_hash_def foldl_hash_step sint_of_nat_s16 fletcher_hash_def c_mod_fix_pos)
qed

lemma unat_high_byte: "unat (ucast (drop_bit 8 (w :: u16)) :: u8) = unat w div 256"
proof -
  have "unat (drop_bit 8 w) = unat w div 256"
    using unat_u16_less [of w]
    by (simp only: unsigned_drop_bit_eq) (simp add: drop_bit_eq_div take_bit_nat_eq_self)
  moreover have "unat w div 256 < 256"
    using unat_u16_less [of w] by (simp add: less_mult_imp_div_less)
  ultimately show ?thesis
    by (simp add: unsigned_ucast_eq take_bit_nat_eq_self del: unsigned_drop_bit_eq)
qed

lemma variant1_bound:
  assumes "(c :: u8) AND 0xc0 = 0x80"
  shows "unat c < 192"
proof -
  have "bit (c AND 0xc0) 6 = bit (0x80 :: u8) 6" using assms by simp
  then have "\<not> bit (unat c) 6" by (simp add: bit_simps)
  then have "unat c div 64 \<noteq> 3" by (auto simp: bit_iff_odd)
  moreover have "unat c div 64 < 4" using unat_u8_le [of c] by (simp add: less_mult_imp_div_less)
  ultimately have "unat c div 64 < 3" by simp
  then show ?thesis by (simp add: div_less_iff_less_mult)
qed

text \<open>
  The version and variant bits of a version 1 UUID keep the weighted sum below \<open>2^15\<close> (the
  sixteen bytes alone could reach 34680).
\<close>

lemma weighted_sum_mono:
  "list_all2 (\<lambda>b m. unat b \<le> unat (m :: u8)) bs ms \<Longrightarrow> weighted_sum bs \<le> weighted_sum ms"
proof (induction rule: list_all2_induct)
  case (Cons b bs m ms)
  then show ?case
    by (simp add: list_all2_lengthD) (intro add_mono mult_le_mono; simp)
qed simp

lemma weighted_sum16:
  assumes "unat b6 < 32 \<or> unat b7 < 32" "unat b8 < 192"
  shows "weighted_sum [b0, b1, b2, b3, b4, b5, b6, b7, b8, b9, b10, b11, b12, b13, b14, b15] < 32768"
proof -
  have "list_all2 (\<lambda>b m. unat b \<le> unat (m :: u8))
      [b0, b1, b2, b3, b4, b5, b6, b7, b8, b9, b10, b11, b12, b13, b14, b15]
      ([255, 255, 255, 255, 255, 255] @ (if unat b6 < 32 then [31, 255] else [255, 31]) @
       [191, 255, 255, 255, 255, 255, 255, 255])"
    using assms by (auto simp: unat_u8_le)
  from weighted_sum_mono [OF this] show ?thesis
    by (simp split: if_splits)
qed

lemma weighted_sum_v1:
  assumes "clock_seq_hi_and_reserved u AND 0xc0 = 0x80" "unat (time_hi_and_version u) < 0x2000"
  shows "weighted_sum (uuid_mem le u) < 32768"
proof -
  obtain a b c d e n where u: "u = Uuid a b c d e n" by (cases u)
  have h: "unat (ucast (drop_bit 8 c) :: u8) < 32"
    using assms(2) u by (simp add: unat_high_byte)
  have d: "unat d < 192" using assms(1) u by (simp add: variant1_bound)
  show ?thesis
    unfolding u uuid_mem_def mem32_def mem16_def Let_def
    using h d by (cases n; cases le) (simp_all add: weighted_sum16 del: weighted_sum.simps)
qed

text \<open>
  Without the version bits the sixteen bytes can overflow the second \<open>short\<close>: this UUID passes
  the structure check and its hash is not the checksum.
\<close>

lemma uuid_hash_wraps_value:
  "uuid_hash le (Uuid 0xffffffff 0xffff 0xffff 0xdf 0xff
      (Uuid_node 0xff 0xff 0xff 0xff 0xff 0xff)) = (Uuid_s_ok, 0x1e02)"
  by (cases le) (simp_all add: uuid_hash_def check_structure_def uuid_mem_def mem32_def mem16_def
      Let_def c_mod_fix_def signed_modulo_int_def signed_divide_int_def)

section \<open>Properties\<close>

interpretation uuid_lex:
  three_way_comparison "\<lambda>u v. snd (uuid_compare le (Some u) (Some v))" check_structure for le
  by unfold_locales (auto simp: uuid_compare_key cmp_int_def split: if_splits)

text \<open>
  \<open>uuid_compare\<close> is a total order on UUIDs of a known structure: swapping the arguments negates
  the result, the result is 0 exactly when \<open>uuid_equal\<close> answers true, the relation is transitive,
  and a \<open>NULL\<close> argument stands for the nil UUID.
\<close>

theorem uuid_compare_total_order:
  assumes "check_structure u" "check_structure v" "check_structure w"
  shows "snd (uuid_compare le (Some v) (Some u)) = - snd (uuid_compare le (Some u) (Some v)) \<and>
    (snd (uuid_compare le (Some u) (Some v)) = 0 \<longleftrightarrow> snd (uuid_equal u v)) \<and>
    (snd (uuid_compare le (Some u) (Some v)) < 0 \<and> snd (uuid_compare le (Some v) (Some w)) < 0 \<longrightarrow>
       snd (uuid_compare le (Some u) (Some w)) < 0) \<and>
    uuid_compare le (Some u) None = uuid_compare le (Some u) (Some uuid_g_nil_uuid) \<and>
    uuid_compare le None (Some u) = uuid_compare le (Some uuid_g_nil_uuid) (Some u)"
proof -
  have nil_least: "\<not> u < uuid_g_nil_uuid"
    by (cases u; cases "node u") (simp add: less_uuid_def uuid_g_nil_uuid_def lex_less)
  show ?thesis
    using assms uuid_lex.cmp_less_trans [of u v w le] uuid_lex.cmp_swap [of u v le] nil_least
    by (auto simp: uuid_equal_iff uuid_lex.cmp_eq uuid_compare_key cmp_int_def
        uuid_compare_def [of le _ None] uuid_compare_def [of le None] uuid_is_nil_iff)
qed

theorem uuid_compare_total_order_witness:
  "snd (uuid_compare True (Some (Uuid 2 0 0 0x80 0 (Uuid_node 0 0 0 0 0 0)))
                          (Some (Uuid 1 0 0 0x80 0 (Uuid_node 0 0 0 0 0 1)))) = 1 \<and>
   snd (uuid_compare True (Some (Uuid 1 0 0 0x80 0 (Uuid_node 0 0 0 0 0 1)))
                          (Some (Uuid 2 0 0 0x80 0 (Uuid_node 0 0 0 0 0 0)))) = - 1"
  using uuid_compare_total_order [of "Uuid 1 0 0 0x80 0 (Uuid_node 0 0 0 0 0 1)"
      "Uuid 2 0 0 0x80 0 (Uuid_node 0 0 0 0 0 0)" uuid_g_nil_uuid True]
  by (simp add: check_structure_def uuid_compare_def uuid_g_nil_uuid_def)

text \<open>The hash of a version 1 UUID of the DCE variant is the sixteen byte Fletcher checksum: although
  the counters are 16 bit \<open>short\<close>s and the unrolled loop has no reduction, no addition overflows,
  on either byte order.
\<close>

theorem uuid_hash_is_checksum:
  assumes "clock_seq_hi_and_reserved u AND 0xc0 = 0x80" "unat (time_hi_and_version u) div 0x1000 = 1"
  shows "uuid_hash le u = (Uuid_s_ok, word_of_int (fletcher_hash (uuid_mem le u)))"
proof -
  have "unat (time_hi_and_version u) < 0x2000"
    using assms(2) by simp
  with assms(1) show ?thesis
    by (intro uuid_hash_no_overflow weighted_sum_v1) (simp_all add: check_structure_def)
qed

theorem uuid_hash_is_checksum_witness:
  "uuid_hash False (Uuid 0x12345678 0x9abc 0x1def 0x80 1 (Uuid_node 8 0 0x2b 1 2 3)) =
     (Uuid_s_ok, word_of_int (fletcher_hash
        (uuid_mem False (Uuid 0x12345678 0x9abc 0x1def 0x80 1 (Uuid_node 8 0 0x2b 1 2 3)))))"
  by (rule uuid_hash_is_checksum) simp_all

text \<open>For UUIDs outside that shape the counters do overflow: a UUID that passes the structure check
  hashes to a value that is not its checksum.
\<close>

theorem uuid_hash_wraps:
  "check_structure (Uuid 0xffffffff 0xffff 0xffff 0xdf 0xff (Uuid_node 0xff 0xff 0xff 0xff 0xff 0xff)) \<and>
   uuid_hash le (Uuid 0xffffffff 0xffff 0xffff 0xdf 0xff (Uuid_node 0xff 0xff 0xff 0xff 0xff 0xff)) \<noteq>
   (Uuid_s_ok, word_of_int (fletcher_hash (uuid_mem le
      (Uuid 0xffffffff 0xffff 0xffff 0xdf 0xff (Uuid_node 0xff 0xff 0xff 0xff 0xff 0xff)))))"
  unfolding uuid_hash_wraps_value
  by (cases le) (simp_all add: check_structure_def fletcher_hash_def uuid_mem_def mem32_def mem16_def Let_def)

end
