(* ===== verification/Uuid_String.thy ===== *)
theory Uuid_String
  imports Uuid
begin

text \<open>
  Printing and parsing UUIDs: \<open>uuid_to_string\<close> and \<open>uuid_from_string\<close> of
  \<^verbatim>\<open>src/rpc/runtime/uuid.c\<close>.  The routines use \<open>sprintf\<close> and \<open>sscanf\<close>; of the C library the
  model has what they use: the \<open>%0wx\<close> conversion of a non-negative number, and \<open>sscanf\<close> on
  formats made of \<open>%wx\<close> conversions and ordinary characters.

  \<^item> A \<open>%wx\<close> conversion skips white space, then takes at most \<open>w\<close> characters of an optional sign, an
    optional \<open>0x\<close> and hexadecimal digits; it fails when there is no digit.
  \<^item> \<open>sscanf\<close> is the list of converted values up to the first failure; its length is the C function's
    result (where C returns \<open>EOF\<close> the list is empty: the callers only test for the full number).
  \<^item> A string is the characters before the terminating NUL; a \<open>NULL\<close> pointer is \<open>None\<close>.
\<close>

section \<open>The C library's hexadecimal conversions\<close>

definition hex_digit :: "nat \<Rightarrow> char" where
  "hex_digit d = char_of (if d < 10 then 48 + d else 87 + d)"

definition hex_value :: "char \<Rightarrow> nat option" where
  "hex_value c = (let n = of_char c in
     if 48 \<le> n \<and> n \<le> 57 then Some (n - 48)
     else if 97 \<le> n \<and> n \<le> 102 then Some (n - 87)
     else if 65 \<le> n \<and> n \<le> 70 then Some (n - 55)
     else None)"

definition c_isspace :: "char \<Rightarrow> bool" where
  "c_isspace c = (let n = of_char c :: nat in n = 32 \<or> 9 \<le> n \<and> n \<le> 13)"

fun to_hex :: "nat \<Rightarrow> string" where
  "to_hex n = (if n < 16 then [hex_digit n] else to_hex (n div 16) @ [hex_digit (n mod 16)])"

declare to_hex.simps [simp del]

definition printf_0x :: "nat \<Rightarrow> nat \<Rightarrow> string" where
  "printf_0x width n = replicate (width - length (to_hex n)) CHR ''0'' @ to_hex n"

fun scan_digits :: "nat \<Rightarrow> nat \<Rightarrow> nat \<Rightarrow> string \<Rightarrow> nat \<times> nat \<times> string" where
  "scan_digits (Suc w) count acc (c # cs) =
     (case hex_value c of
        Some d \<Rightarrow> scan_digits w (Suc count) (16 * acc + d) cs
      | None \<Rightarrow> (count, acc, c # cs))"
| "scan_digits _ count acc cs = (count, acc, cs)"

fun scan_sign :: "nat \<Rightarrow> string \<Rightarrow> int \<times> nat \<times> string" where
  "scan_sign (Suc w) (c # cs) =
     (if c = CHR ''-'' then (-1, w, cs) else if c = CHR ''+'' then (1, w, cs) else (1, Suc w, c # cs))"
| "scan_sign w cs = (1, w, cs)"

fun scan_prefix :: "nat \<Rightarrow> string \<Rightarrow> nat \<times> string" where
  "scan_prefix (Suc (Suc w)) (z # x # cs) =
     (if z = CHR ''0'' \<and> (x = CHR ''x'' \<or> x = CHR ''X'') then (w, cs) else (Suc (Suc w), z # x # cs))"
| "scan_prefix w cs = (w, cs)"

definition scan_hex :: "nat \<Rightarrow> string \<Rightarrow> (int \<times> string) option" where
  "scan_hex width s =
     (let (sgn, w, s1) = scan_sign width (dropWhile c_isspace s);
          (w', s2) = scan_prefix w s1;
          (count, v, rest) = scan_digits w' 0 0 s2
      in if count = 0 then None else Some (sgn * int v, rest))"

datatype directive = Hex nat | Lit char

fun sscanf :: "directive list \<Rightarrow> string \<Rightarrow> int list" where
  "sscanf [] s = []"
| "sscanf (Hex w # ds) s =
     (case scan_hex w s of Some (v, rest) \<Rightarrow> v # sscanf ds rest | None \<Rightarrow> [])"
| "sscanf (Lit c # ds) s =
     (case s of c' # rest \<Rightarrow> if c = c' then sscanf ds rest else [] | [] \<Rightarrow> [])"

section \<open>The routines\<close>

definition uuid_sprintf :: "uuid \<Rightarrow> string" where
  "uuid_sprintf u =
     printf_0x 8 (unat (time_low u)) @ ''-'' @ printf_0x 4 (unat (time_mid u)) @ ''-'' @
     printf_0x 4 (unat (time_hi_and_version u)) @ ''-'' @
     printf_0x 2 (unat (clock_seq_hi_and_reserved u)) @ printf_0x 2 (unat (clock_seq_low u)) @ ''-'' @
     printf_0x 2 (unat (node0 (node u))) @ printf_0x 2 (unat (node1 (node u))) @
     printf_0x 2 (unat (node2 (node u))) @ printf_0x 2 (unat (node3 (node u))) @
     printf_0x 2 (unat (node4 (node u))) @ printf_0x 2 (unat (node5 (node u)))"

text \<open>
  \<open>out_null\<close>: the output argument is \<open>NULL\<close>; \<open>alloc_ok\<close>: \<open>RPC_MEM_ALLOC\<close> delivered the buffer.
\<close>

definition uuid_to_string :: "bool \<Rightarrow> bool \<Rightarrow> uuid \<Rightarrow> uuid_status \<times> string option" where
  "uuid_to_string out_null alloc_ok u =
     (if out_null then (Uuid_s_ok, None)
      else if \<not> check_structure u then (Uuid_s_bad_version, None)
      else if \<not> alloc_ok then (Uuid_s_no_memory, None)
      else (Uuid_s_ok, Some (uuid_sprintf u)))"

definition uuid_format :: "directive list" where
  "uuid_format = [Hex 8, Lit CHR ''-'', Hex 4, Lit CHR ''-'', Hex 4, Lit CHR ''-'', Hex 2, Hex 2,
     Lit CHR ''-'', Hex 2, Hex 2, Hex 2, Hex 2, Hex 2, Hex 2]"

definition uuid_old_format :: "directive list" where
  "uuid_old_format = [Hex 8, Hex 4, Lit CHR ''.'', Hex 2, Lit CHR ''.'', Hex 2, Lit CHR ''.'', Hex 2,
     Lit CHR ''.'', Hex 2, Lit CHR ''.'', Hex 2, Lit CHR ''.'', Hex 2, Lit CHR ''.'', Hex 2,
     Lit CHR ''.'', Hex 2]"

text \<open>
  The two assignments of the scanned \<open>int\<close>s to the fields.  The old structure is read back through a
  pointer to the new one: same widths at the same offsets, \<open>reserved\<close> (zero) over
  \<open>time_hi_and_version\<close>, \<open>family\<close> over \<open>clock_seq_hi_and_reserved\<close>, \<open>host\<close> over the rest.
\<close>

fun uuid_of_scan :: "int list \<Rightarrow> uuid option" where
  "uuid_of_scan [low, mid, hiv, ch, cl, n0, n1, n2, n3, n4, n5] =
     Some (Uuid (word_of_int low) (word_of_int mid) (word_of_int hiv) (word_of_int ch) (word_of_int cl)
       (Uuid_node (word_of_int n0) (word_of_int n1) (word_of_int n2) (word_of_int n3)
          (word_of_int n4) (word_of_int n5)))"
| "uuid_of_scan _ = None"

fun uuid_old_of_scan :: "int list \<Rightarrow> uuid option" where
  "uuid_old_of_scan [high, low, fam, h0, h1, h2, h3, h4, h5, h6] =
     Some (Uuid (word_of_int high) (word_of_int low) 0 (word_of_int fam) (word_of_int h0)
       (Uuid_node (word_of_int h1) (word_of_int h2) (word_of_int h3) (word_of_int h4)
          (word_of_int h5) (word_of_int h6)))"
| "uuid_old_of_scan _ = None"

definition uuid_from_string :: "string option \<Rightarrow> uuid_status + uuid" where
  "uuid_from_string str =
    (case str of
       None \<Rightarrow> Inr uuid_g_nil_uuid
     | Some s \<Rightarrow>
         if s = [] then Inr uuid_g_nil_uuid
         else if length s \<noteq> 36 then Inl Uuid_s_invalid_string_uuid
         else
           (case (if s ! 8 = CHR ''-'' then uuid_of_scan (sscanf uuid_format s)
                  else uuid_old_of_scan (sscanf uuid_old_format s)) of
              None \<Rightarrow> Inl Uuid_s_invalid_string_uuid
            | Some u \<Rightarrow> if \<not> check_structure u then Inl Uuid_s_bad_version else Inr u))"

section \<open>Printed digits scan back\<close>

fun hex_pad :: "nat \<Rightarrow> nat \<Rightarrow> string" where
  "hex_pad 0 n = []"
| "hex_pad (Suc w) n = hex_pad w (n div 16) @ [hex_digit (n mod 16)]"

lemma length_hex_pad [simp]: "length (hex_pad w n) = w"
  by (induction w arbitrary: n) auto

lemma hex_digit_0 [simp]: "hex_digit 0 = CHR ''0''"
  by (simp add: hex_digit_def char_of_eq_iff take_bit_eq_mod)

lemma of_char_hex_digit: "d < 16 \<Longrightarrow> of_char (hex_digit d) = (if d < 10 then 48 + d else 87 + d)"
  by (simp add: hex_digit_def of_char_of)

lemma hex_pad_0: "hex_pad w 0 = replicate w CHR ''0''"
  by (induction w) (auto simp: replicate_append_same)

lemma hex_pad_to_hex:
  "n < 16 ^ w \<Longrightarrow> 0 < w \<Longrightarrow> length (to_hex n) \<le> w \<and> hex_pad w n = replicate (w - length (to_hex n)) CHR ''0'' @ to_hex n"
proof (induction w arbitrary: n)
  case (Suc w)
  show ?case
  proof (cases "n < 16")
    case True
    then show ?thesis by (simp add: to_hex.simps hex_pad_0)
  next
    case False
    then have "0 < w" using Suc.prems by (cases w) auto
    moreover have "n div 16 < 16 ^ w"
      using Suc.prems by (simp add: less_mult_imp_div_less mult.commute)
    ultimately show ?thesis
      using Suc.IH [of "n div 16"] False by (simp add: to_hex.simps [of n] Suc_diff_le)
  qed
qed simp

lemma printf_0x_hex_pad: "n < 16 ^ w \<Longrightarrow> 0 < w \<Longrightarrow> printf_0x w n = hex_pad w n"
  using hex_pad_to_hex by (simp add: printf_0x_def)

lemma hex_value_digit [simp]: "d < 16 \<Longrightarrow> hex_value (hex_digit d) = Some d"
  by (auto simp: hex_value_def hex_digit_def Let_def of_char_of)

lemma scan_digits_hex_pad:
  "n < 16 ^ w \<Longrightarrow> scan_digits (w + k) c acc (hex_pad w n @ rest) =
     scan_digits k (c + w) (16 ^ w * acc + n) rest"
proof (induction w arbitrary: n k c acc rest)
  case (Suc w)
  have "n div 16 < 16 ^ w"
    using Suc.prems by (simp add: less_mult_imp_div_less mult.commute)
  then have "scan_digits (w + Suc k) c acc (hex_pad w (n div 16) @ hex_digit (n mod 16) # rest) =
      scan_digits (Suc k) (c + w) (16 ^ w * acc + n div 16) (hex_digit (n mod 16) # rest)"
    by (rule Suc.IH)
  then show ?case by (simp add: algebra_simps)
qed simp

lemma hex_digit_plain:
  assumes "d < 16"
  shows "\<not> c_isspace (hex_digit d)" "hex_digit d \<noteq> CHR ''-''" "hex_digit d \<noteq> CHR ''+''"
    "hex_digit d \<noteq> CHR ''x''" "hex_digit d \<noteq> CHR ''X''"
proof -
  have n: "of_char (hex_digit d) \<in> {48..57} \<union> {97..(102 :: nat)}"
    using assms by (auto simp: of_char_hex_digit)
  then show "\<not> c_isspace (hex_digit d)"
    by (auto simp: c_isspace_def Let_def)
  show "hex_digit d \<noteq> CHR ''-''" "hex_digit d \<noteq> CHR ''+''"
    "hex_digit d \<noteq> CHR ''x''" "hex_digit d \<noteq> CHR ''X''"
    using n by auto
qed

lemma hex_pad_chars: "c \<in> set (hex_pad w n) \<Longrightarrow> \<exists>d<16. c = hex_digit d"
  by (induction w arbitrary: n) force+

lemma hex_pad_cases:
  assumes "0 < w"
  obtains c cs where "hex_pad w n = c # cs" "\<not> c_isspace c" "c \<noteq> CHR ''-''" "c \<noteq> CHR ''+''"
    "\<forall>x\<in>set cs. x \<noteq> CHR ''x'' \<and> x \<noteq> CHR ''X''"
proof -
  obtain c cs where eq: "hex_pad w n = c # cs"
    by (metis assms length_hex_pad list.exhaust list.size(3) less_irrefl)
  have digit: "\<exists>d<16. x = hex_digit d" if "x = c \<or> x \<in> set cs" for x
    using that hex_pad_chars [of x w n] eq by auto
  show ?thesis
  proof (rule that [OF eq])
    obtain d where "d < 16" "c = hex_digit d" using digit by blast
    then show "\<not> c_isspace c" "c \<noteq> CHR ''-''" "c \<noteq> CHR ''+''"
      by (simp_all only: hex_digit_plain not_False_eq_True)
    show "\<forall>x\<in>set cs. x \<noteq> CHR ''x'' \<and> x \<noteq> CHR ''X''"
      using digit hex_digit_plain(4,5) by metis
  qed
qed

lemma scan_prefix_plain:
  assumes "\<And>z x cs. s = z # x # cs \<Longrightarrow> 1 < w \<Longrightarrow> x \<noteq> CHR ''x'' \<and> x \<noteq> CHR ''X''"
  shows "scan_prefix w s = (w, s)"
  using assms by (cases "(w, s)" rule: scan_prefix.cases) auto

lemma scan_hex_hex_pad:
  assumes "n < 16 ^ w" "0 < w"
  shows "scan_hex w (hex_pad w n @ rest) = Some (int n, rest)"
proof -
  obtain c cs where eq: "hex_pad w n = c # cs" "\<not> c_isspace c" "c \<noteq> CHR ''-''" "c \<noteq> CHR ''+''"
    "\<forall>x\<in>set cs. x \<noteq> CHR ''x'' \<and> x \<noteq> CHR ''X''"
    using assms(2) by (rule hex_pad_cases)
  have len: "w = Suc (length cs)" by (metis eq(1) length_hex_pad length_Cons)
  have pre: "scan_prefix w (hex_pad w n @ rest) = (w, hex_pad w n @ rest)"
  proof (rule scan_prefix_plain)
    fix z x xs
    assume a: "hex_pad w n @ rest = z # x # xs" "1 < w"
    have "cs \<noteq> []" using a(2) len by (metis length_0_conv One_nat_def less_irrefl)
    then obtain y ys where "cs = y # ys" by (cases cs) auto
    with a(1) eq(1,5) show "x \<noteq> CHR ''x'' \<and> x \<noteq> CHR ''X''" by simp
  qed
  have sgn: "scan_sign w (hex_pad w n @ rest) = (1, w, hex_pad w n @ rest)"
    using eq(3,4) assms(2) unfolding eq(1) by (cases w) simp_all
  have "dropWhile c_isspace (hex_pad w n @ rest) = hex_pad w n @ rest"
    using eq(2) unfolding eq(1) by simp
  then show ?thesis
    using scan_digits_hex_pad [OF assms(1), of 0 0 0 rest] assms(2)
    by (simp add: scan_hex_def pre sgn)
qed

lemma uuid_sprintf_hex_pad:
  "uuid_sprintf u =
     hex_pad 8 (unat (time_low u)) @ CHR ''-'' # hex_pad 4 (unat (time_mid u)) @ CHR ''-'' #
     hex_pad 4 (unat (time_hi_and_version u)) @ CHR ''-'' #
     hex_pad 2 (unat (clock_seq_hi_and_reserved u)) @ hex_pad 2 (unat (clock_seq_low u)) @ CHR ''-'' #
     hex_pad 2 (unat (node0 (node u))) @ hex_pad 2 (unat (node1 (node u))) @
     hex_pad 2 (unat (node2 (node u))) @ hex_pad 2 (unat (node3 (node u))) @
     hex_pad 2 (unat (node4 (node u))) @ hex_pad 2 (unat (node5 (node u)))"
proof -
  have "unat (b :: u8) < 16 ^ 2" for b using unat_u8_le [of b] by simp
  moreover have "unat (h :: u16) < 16 ^ 4" for h using unat_u16_less [of h] by simp
  moreover have "unat (w :: u32) < 16 ^ 8" for w using unat_u32_less [of w] by simp
  ultimately show ?thesis
    by (simp add: uuid_sprintf_def printf_0x_hex_pad del: power_Suc)
qed

lemma scan_hex_u8: "scan_hex 2 (hex_pad 2 (unat (b :: u8)) @ rest) = Some (uint b, rest)"
  using scan_hex_hex_pad [of "unat b" 2 rest] unat_u8_le [of b] by simp

lemma scan_hex_u8_end: "scan_hex 2 (hex_pad 2 (unat (b :: u8))) = Some (uint b, [])"
  using scan_hex_u8 [of b "[]"] by simp

lemma scan_hex_u16: "scan_hex 4 (hex_pad 4 (unat (h :: u16)) @ rest) = Some (uint h, rest)"
  using scan_hex_hex_pad [of "unat h" 4 rest] unat_u16_less [of h] by simp

lemma scan_hex_u32: "scan_hex 8 (hex_pad 8 (unat (w :: u32)) @ rest) = Some (uint w, rest)"
  using scan_hex_hex_pad [of "unat w" 8 rest] unat_u32_less [of w] by simp

lemmas scan_hex_fields = scan_hex_u8 scan_hex_u8_end scan_hex_u16 scan_hex_u32

lemma sscanf_sprintf: "uuid_of_scan (sscanf uuid_format (uuid_sprintf u)) = Some u"
  by (cases u; cases "node u") (simp add: uuid_format_def uuid_sprintf_hex_pad scan_hex_fields)

lemma length_uuid_sprintf: "length (uuid_sprintf u) = 36"
  by (simp add: uuid_sprintf_hex_pad)

lemma uuid_sprintf_dash: "uuid_sprintf u ! 8 = CHR ''-''"
  by (simp add: uuid_sprintf_hex_pad nth_append)

section \<open>Properties\<close>

text \<open>C27.
  Every UUID of a known structure survives printing and parsing: \<open>uuid_to_string\<close> yields a string,
  and \<open>uuid_from_string\<close> reads the same sixteen bytes back from it.
\<close>

theorem uuid_string_roundtrip:
  assumes "check_structure u"
  shows "\<exists>s. uuid_to_string False True u = (Uuid_s_ok, Some s) \<and> length s = 36 \<and>
    uuid_from_string (Some s) = Inr u"
proof -
  have "uuid_sprintf u \<noteq> []" using length_uuid_sprintf [of u] by auto
  then have "uuid_from_string (Some (uuid_sprintf u)) = Inr u"
    using assms by (simp add: uuid_from_string_def length_uuid_sprintf uuid_sprintf_dash sscanf_sprintf)
  with assms show ?thesis by (simp add: uuid_to_string_def length_uuid_sprintf)
qed

theorem uuid_string_roundtrip_witness:
  "\<exists>s. uuid_to_string False True (Uuid 0x12345678 0x9abc 0x1def 0x80 1 (Uuid_node 8 0 0x2b 1 2 3)) =
       (Uuid_s_ok, Some s) \<and> length s = 36 \<and>
     uuid_from_string (Some s) = Inr (Uuid 0x12345678 0x9abc 0x1def 0x80 1 (Uuid_node 8 0 0x2b 1 2 3))"
  by (rule uuid_string_roundtrip) (simp add: check_structure_def)

text \<open>Whatever \<open>uuid_from_string\<close> accepts is a UUID of a known structure; it refuses every non-empty
  string that is not 36 characters long, and maps \<open>NULL\<close> and the empty string to the nil UUID.
\<close>

theorem uuid_from_string_result:
  "(case uuid_from_string str of
      Inr u \<Rightarrow> check_structure u \<and>
        (str = None \<or> str = Some [] \<longrightarrow> u = uuid_g_nil_uuid) \<and>
        (\<forall>s. str = Some s \<and> s \<noteq> [] \<longrightarrow> length s = 36)
    | Inl st \<Rightarrow> (\<exists>s. str = Some s \<and> s \<noteq> [] \<and>
        (st = Uuid_s_invalid_string_uuid \<or> st = Uuid_s_bad_version \<and> length s = 36)))"
  by (auto simp: uuid_from_string_def split: option.splits if_splits)

theorem uuid_from_string_result_witness:
  "uuid_from_string (Some ''abc'') = Inl Uuid_s_invalid_string_uuid \<and>
   uuid_from_string (Some []) = Inr uuid_g_nil_uuid"
  using uuid_from_string_result [of "Some ''abc''"] uuid_from_string_result [of "Some []"]
  by (simp add: uuid_from_string_def)

text \<open>The parser is laxer than the format \<open>tttttttt-tttt-cccc-cccc-nnnnnnnnnnnn\<close>: the conversions take
  fewer digits than the field has, a sign, or a \<open>0x\<close> prefix, and nothing checks that the whole
  string was read.  The three strings below, all 36 characters long, are accepted.
\<close>

theorem uuid_from_string_lax:
  "uuid_from_string (Some ''00000001-2-3-8004-050607080900zzzzzz'') =
     Inr (Uuid 1 2 3 0x80 4 (Uuid_node 5 6 7 8 9 0)) \<and>
   uuid_from_string (Some ''-0000001-0002-0003-8004-050607080900'') =
     Inr (Uuid 0xffffffff 2 3 0x80 4 (Uuid_node 5 6 7 8 9 0)) \<and>
   uuid_from_string (Some ''0x000001-0002-0003-8004-050607080900'') =
     Inr (Uuid 1 2 3 0x80 4 (Uuid_node 5 6 7 8 9 0))"
  by code_simp

end
