(* ===== verification/Uuid_Create.thy ===== *)
theory Uuid_Create
  imports Uuid
begin

text \<open>
  The UUID generator of \<^verbatim>\<open>src/rpc/runtime/uuid.c\<close>: the module's static variables, its random
  numbers, the clock sequence and \<open>uuid_create\<close>; with the 64 bit arithmetic of \<^verbatim>\<open>uuidp.h\<close> and the
  conversion of the system time of \<^verbatim>\<open>uuidsys.c\<close>.

  \<^item> \<open>uuid_gen\<close> is the record of the statics.  The operating system is a parameter \<open>os_env\<close>:
    successive readings of \<open>gettimeofday\<close>, the process id, the answers of \<open>dce_get_802_addr\<close>.  Two
    counters in the state say how many readings have been taken.
  \<^item> \<open>UUID_NONVOLATILE_CLOCK\<close> and \<open>CMA_INCLUDE\<close> are not defined (the shipped configuration).
  \<^item> \<open>uuid_create\<close> loops while it waits for the clock; the loop is a \<^theory_text>\<open>partial_function\<close>, with \<open>None\<close>
    for a call that never returns.
\<close>

section \<open>64 bit times\<close>

record uuid_time =
  lo :: u32
  hi :: u32

definition time_val :: "uuid_time \<Rightarrow> nat" where
  "time_val t = unat (hi t) * 2 ^ 32 + unat (lo t)"

definition uadd_uvlw_2_uvlw :: "uuid_time \<Rightarrow> uuid_time \<Rightarrow> uuid_time" where
  "uadd_uvlw_2_uvlw add1 add2 =
     (if (lo add1 AND 0x80000000) XOR (lo add2 AND 0x80000000) = 0 then
        if lo add1 AND 0x80000000 \<noteq> 0
        then \<lparr>lo = lo add1 + lo add2, hi = hi add1 + hi add2 + 1\<rparr>
        else \<lparr>lo = lo add1 + lo add2, hi = hi add1 + hi add2\<rparr>
      else
        let s = \<lparr>lo = lo add1 + lo add2, hi = hi add1 + hi add2\<rparr>
        in if lo s AND 0x80000000 = 0 then s\<lparr>hi := hi s + 1\<rparr> else s)"

definition uadd_ulw_2_uvlw :: "u32 \<Rightarrow> uuid_time \<Rightarrow> uuid_time" where
  "uadd_ulw_2_uvlw add1 add2 =
     (let s = \<lparr>lo = add1 + lo add2, hi = hi add2\<rparr>
      in if add1 AND lo add2 AND 0x80000000 \<noteq> 0 then s\<lparr>hi := hi s + 1\<rparr>
         else if lo s AND 0x80000000 = 0 then s\<lparr>hi := hi s + 1\<rparr> else s)"

definition uadd_uw_2_uvlw :: "u16 \<Rightarrow> uuid_time \<Rightarrow> uuid_time" where
  "uadd_uw_2_uvlw add1 add2 =
     (let s = \<lparr>lo = ucast add1 + lo add2, hi = hi add2\<rparr>
      in if lo add2 AND 0x80000000 \<noteq> 0
         then if lo s AND 0x80000000 = 0 then s\<lparr>hi := hi s + 1\<rparr> else s
         else s)"

definition uuid__uemul :: "u32 \<Rightarrow> u32 \<Rightarrow> uuid_time" where
  "uuid__uemul u v =
     (let u1 = drop_bit 16 u; u2 = u AND 0xffff;
          v1 = drop_bit 16 v; v2 = v AND 0xffff;
          temp = u2 * v2;
          lo0 = temp AND 0xffff;
          temp = u1 * v2 + drop_bit 16 temp;
          hi0 = drop_bit 16 temp;
          temp = u2 * v1 + (temp AND 0xffff);
          lo1 = lo0 + push_bit 16 (temp AND 0xffff);
          hi1 = hi0 + (u1 * v1 + drop_bit 16 temp)
      in \<lparr>lo = lo1, hi = hi1\<rparr>)"

datatype uuid_compval = Uuid_e_less_than | Uuid_e_equal_to | Uuid_e_greater_than

definition time_cmp :: "uuid_time \<Rightarrow> uuid_time \<Rightarrow> uuid_compval" where
  "time_cmp time1 time2 =
     (if hi time1 < hi time2 then Uuid_e_less_than
      else if hi time1 > hi time2 then Uuid_e_greater_than
      else if lo time1 < lo time2 then Uuid_e_less_than
      else if lo time1 > lo time2 then Uuid_e_greater_than
      else Uuid_e_equal_to)"

section \<open>State\<close>

record os_env =
  os_timeofday :: "nat \<Rightarrow> u32 \<times> u32"
  os_pid :: u32
  os_address :: "nat \<Rightarrow> uuid_node option"

record uuid_gen =
  saved_addr :: uuid_node
  saved_st :: uuid_status
  time_now :: uuid_time
  time_last :: uuid_time
  time_adjust :: u16
  clock_seq :: u16
  rand_m :: u32
  rand_ia :: u32
  rand_ib :: u32
  rand_irand :: u32
  got_address :: bool
  uuid_init_done :: bool
  ticks :: nat
  addr_calls :: nat

definition uuid_gen_0 :: uuid_gen where
  "uuid_gen_0 = \<lparr>saved_addr = Uuid_node 0 0 0 0 0 0, saved_st = Uuid_s_ok,
     time_now = \<lparr>lo = 0, hi = 0\<rparr>, time_last = \<lparr>lo = 0, hi = 0\<rparr>, time_adjust = 0, clock_seq = 0,
     rand_m = 0, rand_ia = 0, rand_ib = 0, rand_irand = 0, got_address = False,
     uuid_init_done = False, ticks = 0, addr_calls = 0\<rparr>"

section \<open>Operations\<close>

definition uuid__get_os_time :: "os_env \<Rightarrow> uuid_gen \<Rightarrow> uuid_time \<times> uuid_gen" where
  "uuid__get_os_time e g =
     (let (tv_sec, tv_usec) = os_timeofday e (ticks g);
          utc = uuid__uemul tv_sec 10000000;
          usecs = uuid__uemul tv_usec 10;
          utc = uadd_uvlw_2_uvlw usecs utc
      in (uadd_uvlw_2_uvlw utc \<lparr>lo = 0x13814000, hi = 0x01B21DD2\<rparr>, g\<lparr>ticks := Suc (ticks g)\<rparr>))"

definition true_random_init :: "os_env \<Rightarrow> uuid_gen \<Rightarrow> uuid_gen" where
  "true_random_init e g =
     (let g = g\<lparr>rand_m := 971, rand_ia := 11113, rand_ib := 104322, rand_irand := 4181\<rparr>;
          (t, g) = uuid__get_os_time e g;
          seed = (ucast (lo t) :: u16) XOR ucast (drop_bit 16 (lo t))
                 XOR ucast (hi t) XOR ucast (drop_bit 16 (hi t))
      in g\<lparr>rand_irand := rand_irand g + (ucast seed + os_pid e)\<rparr>)"

definition true_random :: "uuid_gen \<Rightarrow> u16 \<times> uuid_gen" where
  "true_random g =
     (let m = rand_m g + 7; ia = rand_ia g + 1907; ib = rand_ib g + 73939;
          m = (if m \<ge> 9973 then m - 9871 else m);
          ia = (if ia \<ge> 99991 then ia - 89989 else ia);
          ib = (if ib \<ge> 224729 then ib - 96233 else ib);
          irand = rand_irand g * m + ia + ib
      in (ucast (drop_bit 16 irand XOR (irand AND 0x3fff)),
          g\<lparr>rand_m := m, rand_ia := ia, rand_ib := ib, rand_irand := irand\<rparr>))"

definition uuid_init :: "os_env \<Rightarrow> uuid_gen \<Rightarrow> uuid_gen" where
  "uuid_init e g =
     (let g = true_random_init e g;
          (t, g) = uuid__get_os_time e g;
          g = g\<lparr>time_last := t\<rparr>;
          (r, g) = true_random g
      in g\<lparr>clock_seq := r, uuid_init_done := True\<rparr>)"

definition uuid_verify_init :: "os_env \<Rightarrow> uuid_gen \<Rightarrow> uuid_gen" where
  "uuid_verify_init e g = (if \<not> uuid_init_done g then uuid_init e g else g)"

definition new_clock_seq :: "uuid_gen \<Rightarrow> uuid_gen" where
  "new_clock_seq g =
     (let g = (if clock_seq g = 0 then let (r, g) = true_random g in g\<lparr>clock_seq := r\<rparr> else g);
          g = g\<lparr>clock_seq := (clock_seq g + 1) AND 0x3fff\<rparr>
      in if clock_seq g = 0 then g\<lparr>clock_seq := clock_seq g + 1\<rparr> else g)"

definition uuid_get_address :: "os_env \<Rightarrow> uuid_gen \<Rightarrow> (uuid_status \<times> uuid_node option) \<times> uuid_gen" where
  "uuid_get_address e g =
     (if got_address g then ((saved_st g, Some (saved_addr g)), g)
      else
        let a = os_address e (addr_calls g); g = g\<lparr>addr_calls := Suc (addr_calls g)\<rparr>
        in case a of
             Some addr \<Rightarrow> ((Uuid_s_ok, Some addr), g\<lparr>got_address := True, saved_addr := addr\<rparr>)
           | None \<Rightarrow> ((Uuid_s_no_address, None), g))"

text \<open>One pass of the \<open>do\<close> loop of \<open>uuid_create\<close>, with the flag \<open>got_no_time\<close>.\<close>

definition uuid_create_step :: "os_env \<Rightarrow> bool \<times> uuid_gen \<Rightarrow> bool \<times> uuid_gen" where
  "uuid_create_step e s =
     (let (got_no_time, g) = s;
          (t, g) = uuid__get_os_time e g;
          g = g\<lparr>time_now := t\<rparr>
      in case time_cmp (time_now g) (time_last g) of
           Uuid_e_less_than \<Rightarrow> (got_no_time, (new_clock_seq g)\<lparr>time_adjust := 0\<rparr>)
         | Uuid_e_greater_than \<Rightarrow> (got_no_time, g\<lparr>time_adjust := 0\<rparr>)
         | Uuid_e_equal_to \<Rightarrow>
             if time_adjust g = 0x7fff then (True, g)
             else (got_no_time, g\<lparr>time_adjust := time_adjust g + 1\<rparr>))"

partial_function (option) uuid_create_loop :: "os_env \<Rightarrow> bool \<times> uuid_gen \<Rightarrow> uuid_gen option" where
  "uuid_create_loop e s =
     (let s' = uuid_create_step e s
      in if fst s' then uuid_create_loop e s' else Some (snd s'))"

definition uuid_fields :: "uuid_time \<Rightarrow> u16 \<Rightarrow> uuid_node \<Rightarrow> uuid" where
  "uuid_fields t cs eaddr =
     Uuid (lo t) (ucast (hi t AND 0x0000ffff))
       (ucast (drop_bit 16 (hi t AND 0x0fff0000)) OR push_bit 12 1)
       (ucast (drop_bit 8 (cs AND 0x3f00)) OR 0x80) (ucast (cs AND 0xff)) eaddr"

definition uuid_create :: "os_env \<Rightarrow> uuid_gen \<Rightarrow> ((uuid_status + uuid) \<times> uuid_gen) option" where
  "uuid_create e g =
     (let g = uuid_verify_init e g;
          ((st, eaddr), g) = uuid_get_address e g
      in case (st, eaddr) of
           (Uuid_s_ok, Some addr) \<Rightarrow>
             (case uuid_create_loop e (False, g) of
                None \<Rightarrow> None
              | Some g \<Rightarrow>
                  let g = g\<lparr>time_last := time_now g\<rparr>;
                      g = (if time_adjust g \<noteq> 0
                           then g\<lparr>time_now := uadd_uw_2_uvlw (time_adjust g) (time_now g)\<rparr> else g)
                  in Some (Inr (uuid_fields (time_now g) (clock_seq g) addr), g))
         | _ \<Rightarrow> Some (Inl st, g))"

section \<open>The 64 bit arithmetic\<close>

text \<open>Adding with a carry out of the low word, as the macros decide it from the sign bits.\<close>

lemma time_val_carry:
  assumes "c = (if 4294967296 \<le> unat a + unat b then 1 else 0)"
  shows "time_val \<lparr>lo = a + b, hi = h + c\<rparr> = (unat h * 2 ^ 32 + unat a + unat b) mod 2 ^ 64"
proof -
  define K :: nat where "K = 4294967296"
  have lo: "unat (a + b) + K * unat c = unat a + unat b"
    using unat_u32_less [of a] unat_u32_less [of b] assms by (simp add: K_def unat_add_u32 mod_2_32)
  have hi: "unat (h + c) * K = ((unat h + unat c) * K) mod (K * K)"
    by (simp only: unat_add_u32 mult_mod_left K_def)
  have KK: "(2 :: nat) ^ 64 = K * K" "(2 :: nat) ^ 32 = K" by (simp_all add: K_def)
  have "(unat (h + c) * K + unat (a + b)) mod (K * K)
      = ((unat h + unat c) * K + unat (a + b)) mod (K * K)"
    unfolding hi by (rule mod_add_left_eq)
  also have "(unat h + unat c) * K + unat (a + b) = unat h * K + unat a + unat b"
    using lo by (simp add: algebra_simps)
  finally have "(unat (h + c) * K + unat (a + b)) mod (K * K) = (unat h * K + unat a + unat b) mod (K * K)" .
  moreover have "unat (h + c) * K + unat (a + b) < K * K"
    using unat_u32_less [of "h + c"] unat_u32_less [of "a + b"] by (simp add: K_def)
  ultimately show ?thesis unfolding time_val_def KK by simp
qed

lemma sign_bits_carry:
  fixes a b :: u32
  shows "4294967296 \<le> unat a + unat b \<longleftrightarrow>
    (bit a 31 \<and> bit b 31) \<or> (bit a 31 \<noteq> bit b 31 \<and> \<not> bit (a + b) 31)"
  using unat_u32_less [of a] unat_u32_less [of b]
  by (auto simp: bit31_iff unat_add_u32 mod_2_32)

lemma time_val_uadd_uvlw:
  "time_val (uadd_uvlw_2_uvlw s t) = (time_val s + time_val t) mod 2 ^ 64"
proof -
  define c :: u32 where "c = (if 4294967296 \<le> unat (lo s) + unat (lo t) then 1 else 0)"
  have "uadd_uvlw_2_uvlw s t = \<lparr>lo = lo s + lo t, hi = (hi s + hi t) + c\<rparr>"
    by (auto simp: uadd_uvlw_2_uvlw_def sign_bit_tests c_def sign_bits_carry)
  then have "time_val (uadd_uvlw_2_uvlw s t) =
      (unat (hi s + hi t) * 2 ^ 32 + unat (lo s) + unat (lo t)) mod 2 ^ 64"
    using time_val_carry [OF c_def] by simp
  also have "\<dots> = ((unat (hi s + hi t) * 2 ^ 32) mod 2 ^ 64 + (unat (lo s) + unat (lo t))) mod 2 ^ 64"
    by (simp only: mod_add_left_eq add.assoc)
  also have "(unat (hi s + hi t) * 2 ^ 32) mod 2 ^ 64 = ((unat (hi s) + unat (hi t)) * 2 ^ 32) mod 2 ^ 64"
    by (simp only: unat_add_u32 mult_mod_left) simp
  also have "(\<dots> + (unat (lo s) + unat (lo t))) mod 2 ^ 64 = (time_val s + time_val t) mod 2 ^ 64"
    unfolding mod_add_left_eq by (simp add: time_val_def algebra_simps)
  finally show ?thesis .
qed

lemma time_val_uadd_uw:
  "time_val (uadd_uw_2_uvlw a t) = (time_val t + unat a) mod 2 ^ 64"
proof -
  define c :: u32 where "c = (if 4294967296 \<le> unat (lo t) + unat (ucast a :: u32) then 1 else 0)"
  have ua: "unat (ucast a :: u32) = unat a"
    by (simp add: unsigned_ucast_eq take_bit_nat_eq_self less_le_trans [OF unsigned_less])
  have "\<not> bit (ucast a :: u32) 31"
    using unat_u16_less [of a] by (simp add: bit31_iff ua)
  then have "uadd_uw_2_uvlw a t = \<lparr>lo = lo t + ucast a, hi = hi t + c\<rparr>"
    using sign_bits_carry [of "lo t" "ucast a"]
    by (auto simp: uadd_uw_2_uvlw_def sign_bit_tests c_def Let_def add.commute)
  then show ?thesis
    using time_val_carry [OF c_def] by (simp add: ua time_val_def)
qed

lemma time_val_uemul: "time_val (uuid__uemul u v) = unat u * unat v"
  using knuth_product [of u v] by (simp add: uuid__uemul_def time_val_def Let_def)

lemma time_val_uadd_ulw:
  "time_val (uadd_ulw_2_uvlw a t) =
    (time_val t + unat a + (if unat a + unat (lo t) < 2 ^ 31 then 2 ^ 32 else 0)) mod 2 ^ 64"
proof -
  define c :: u32 where "c = (if 4294967296 \<le> unat a + unat (lo t) then 1 else 0)"
  define x :: u32 where "x = (if unat a + unat (lo t) < 2147483648 then 1 else 0)"
  have b: "bit a 31 \<longleftrightarrow> 2147483648 \<le> unat a" "bit (lo t) 31 \<longleftrightarrow> 2147483648 \<le> unat (lo t)"
    "bit (a + lo t) 31 \<longleftrightarrow> 2147483648 \<le> unat (a + lo t)" by (simp_all add: bit31_iff)
  have "(a AND lo t AND 0x80000000 \<noteq> 0) \<longleftrightarrow> bit a 31 \<and> bit (lo t) 31"
    using sign_bit_tests(1) [of "a AND lo t"] by (simp add: and.assoc bit_and_iff)
  then have "uadd_ulw_2_uvlw a t = \<lparr>lo = a + lo t, hi = (hi t + x) + c\<rparr>"
    using unat_u32_less [of a] unat_u32_less [of "lo t"]
    by (auto simp: uadd_ulw_2_uvlw_def sign_bit_tests Let_def c_def x_def b unat_add_u32 mod_2_32)
  then have "time_val (uadd_ulw_2_uvlw a t) =
      (unat (hi t + x) * 2 ^ 32 + unat a + unat (lo t)) mod 2 ^ 64"
    using time_val_carry [OF c_def, of "hi t + x"] by simp
  also have "\<dots> = ((unat (hi t + x) * 2 ^ 32) mod 2 ^ 64 + (unat a + unat (lo t))) mod 2 ^ 64"
    by (simp only: mod_add_left_eq add.assoc)
  also have "(unat (hi t + x) * 2 ^ 32) mod 2 ^ 64 = ((unat (hi t) + unat x) * 2 ^ 32) mod 2 ^ 64"
    by (simp only: unat_add_u32 mult_mod_left) simp
  also have "(\<dots> + (unat a + unat (lo t))) mod 2 ^ 64 = (time_val t + unat a + unat x * 2 ^ 32) mod 2 ^ 64"
    unfolding mod_add_left_eq by (simp add: time_val_def algebra_simps)
  finally show ?thesis by (simp add: x_def)
qed

lemma time_val_inject: "time_val s = time_val t \<longleftrightarrow> s = t"
proof
  assume "time_val s = time_val t"
  then have "unat (hi s) = unat (hi t) \<and> unat (lo s) = unat (lo t)"
    unfolding time_val_def by (subst (asm) digits_inject) (use unat_u32_less in simp_all)
  then show "s = t" by (cases s; cases t) (simp add: word_unat_eq_iff)
qed simp

lemma time_cmp_val:
  "time_cmp s t = (if time_val s < time_val t then Uuid_e_less_than
     else if time_val s = time_val t then Uuid_e_equal_to else Uuid_e_greater_than)"
  using unat_u32_less [of "lo s"] unat_u32_less [of "lo t"]
  by (auto simp: time_cmp_def time_val_def word_less_nat_alt word_unat_eq_iff)

section \<open>The clock sequence\<close>

lemma and_3fff: "unat (x AND 0x3fff) = unat x mod 16384" for x :: u16
proof -
  have "x AND 0x3fff = take_bit 14 x"
    by (simp only: take_bit_eq_mask mask_eq_exp_minus_1) simp
  then show ?thesis by (simp only: unsigned_take_bit_eq) (simp add: take_bit_eq_mod)
qed

lemma and_3fff_neq: "x AND 0x3fff \<noteq> y AND 0x3fff \<longleftrightarrow> unat x mod 16384 \<noteq> unat y mod 16384" for x y :: u16
  by (simp add: word_unat_eq_iff and_3fff)

lemma unat_add_u16: "unat (a + b) = (unat a + unat b) mod 65536" for a b :: u16
  by (simp add: unat_word_ariths)

text \<open>The sequence number stays in 1 to 0x3fff, and its fourteen bits always change.\<close>

lemma new_clock_seq_fresh:
  "clock_seq (new_clock_seq g) AND 0x3fff \<noteq> clock_seq g AND 0x3fff \<and>
   0 < unat (clock_seq (new_clock_seq g)) \<and> unat (clock_seq (new_clock_seq g)) < 16384"
proof -
  define r where "r = fst (true_random g)"
  define c where "c = (if clock_seq g = 0 then r else clock_seq g)"
  define d where "d = (c + 1) AND 0x3fff"
  have new: "clock_seq (new_clock_seq g) = (if d = 0 then 1 else d)"
    by (cases "true_random g") (simp add: new_clock_seq_def Let_def c_def d_def r_def)
  have d: "unat d = (unat c + 1) mod 16384"
    unfolding d_def and_3fff by (simp add: unat_add_u16 mod_mod_cancel)
  have d0: "unat (if d = 0 then 1 else d) = (if unat d = 0 then 1 else unat d)"
    by (simp add: unat_eq_0)
  have c: "unat (clock_seq g) = (if clock_seq g = 0 then 0 else unat c)"
    by (simp add: c_def)
  have arith: "(if (n + 1) mod 16384 = 0 then 1 else (n + 1) mod 16384) mod 16384 \<noteq> m mod 16384"
    if "m = 0 \<or> m = n" for m n :: nat
    using that by (elim disjE) (simp_all add: mod_Suc)
  show ?thesis
    unfolding new and_3fff_neq d0 d using arith [of "unat (clock_seq g)" "unat c"] c
    by (cases "clock_seq g = 0") (simp_all split: if_splits)
qed

section \<open>The loop\<close>

definition os_reading :: "os_env \<Rightarrow> nat \<Rightarrow> uuid_time" where
  "os_reading e k = fst (uuid__get_os_time e (uuid_gen_0\<lparr>ticks := k\<rparr>))"

lemma get_os_time [simp]:
  "uuid__get_os_time e g = (os_reading e (ticks g), g\<lparr>ticks := Suc (ticks g)\<rparr>)"
  by (simp add: os_reading_def uuid__get_os_time_def Let_def split: prod.splits)

lemma new_clock_seq_frame [simp, frame]:
  "time_now (new_clock_seq g) = time_now g" "time_last (new_clock_seq g) = time_last g"
  "time_adjust (new_clock_seq g) = time_adjust g" "ticks (new_clock_seq g) = ticks g"
  "saved_addr (new_clock_seq g) = saved_addr g" "saved_st (new_clock_seq g) = saved_st g"
  "got_address (new_clock_seq g) = got_address g" "uuid_init_done (new_clock_seq g) = uuid_init_done g"
  by (cases "true_random g"; simp add: new_clock_seq_def true_random_def Let_def; auto)+

text \<open>Once set, \<open>got_no_time\<close> stays set, and the loop does not end.\<close>

lemma uuid_create_step_stuck: "fst s \<Longrightarrow> fst (uuid_create_step e s)"
  by (cases s) (simp add: uuid_create_step_def Let_def split: uuid_compval.split)

lemma uuid_create_loop_stuck: "fst s \<Longrightarrow> uuid_create_loop e s = None"
proof (rule ccontr)
  assume "fst s" and "uuid_create_loop e s \<noteq> None"
  then obtain r where "uuid_create_loop e s = Some r" by auto
  then have "\<not> fst s"
    by (rule uuid_create_loop.raw_induct [where P = "\<lambda>e s r. \<not> fst s", rotated])
      (auto simp: Let_def dest: uuid_create_step_stuck split: if_splits)
  with \<open>fst s\<close> show False by simp
qed

lemma uuid_create_loop_first:
  "uuid_create_loop e (False, g) =
    (if os_reading e (ticks g) = time_last g \<and> time_adjust g = 0x7fff then None
     else Some (snd (uuid_create_step e (False, g))))"
  by (subst uuid_create_loop.simps)
    (auto simp: Let_def uuid_create_loop_stuck uuid_create_step_def time_cmp_val time_val_inject
      split: if_splits)

lemma uuid_create_loop_result:
  assumes "uuid_create_loop e (False, g) = Some g'"
  shows "time_now g' = os_reading e (ticks g)" and "ticks g' = Suc (ticks g)"
    and "saved_addr g' = saved_addr g" and "saved_st g' = saved_st g"
    and "got_address g' = got_address g" and "uuid_init_done g' = uuid_init_done g"
    and "time_val (os_reading e (ticks g)) < time_val (time_last g) \<Longrightarrow>
      time_adjust g' = 0 \<and> clock_seq g' AND 0x3fff \<noteq> clock_seq g AND 0x3fff"
    and "time_val (time_last g) < time_val (os_reading e (ticks g)) \<Longrightarrow>
      time_adjust g' = 0 \<and> clock_seq g' = clock_seq g"
    and "os_reading e (ticks g) = time_last g \<Longrightarrow>
      time_adjust g \<noteq> 0x7fff \<and> time_adjust g' = time_adjust g + 1 \<and> clock_seq g' = clock_seq g"
  using assms new_clock_seq_fresh [of "g\<lparr>ticks := Suc (ticks g), time_now := os_reading e (ticks g)\<rparr>"]
  by (auto simp: uuid_create_loop_first uuid_create_step_def time_cmp_val time_val_inject Let_def
      split: if_splits)

section \<open>The fields of a created UUID\<close>

definition uuid_timestamp :: "uuid \<Rightarrow> nat" where
  "uuid_timestamp u = unat (time_low u) + unat (time_mid u) * 2 ^ 32
     + unat (time_hi_and_version u AND 0x0fff) * 2 ^ 48"

definition uuid_sequence :: "uuid \<Rightarrow> nat" where
  "uuid_sequence u = unat (clock_seq_low u) + unat (clock_seq_hi_and_reserved u AND 0x3f) * 2 ^ 8"

lemma masks:
  "(0x0fff0000 :: u32) = push_bit 16 (mask 12)" "(0x0000ffff :: u32) = mask 16"
  "(0x0fff :: u16) = mask 12" "(0x3f00 :: u16) = push_bit 8 (mask 6)" "(0xff :: u16) = mask 8"
  "(0x80 :: u8) = push_bit 7 1" "(0x3f :: u8) = mask 6" "(0xc0 :: u8) = push_bit 6 (mask 2)"
  "(0xf000 :: u16) = push_bit 12 (mask 4)" "(0x1000 :: u16) = push_bit 12 1"
  by (simp_all add: push_bit_eq_mult mask_eq_exp_minus_1)

lemma bit_single:
  "bit (128 :: u8) n \<longleftrightarrow> n = 7" "bit (4096 :: u16) n \<longleftrightarrow> n = 12"
  "bit (128 :: int) n \<longleftrightarrow> n = 7" "bit (4096 :: int) n \<longleftrightarrow> n = 12"
  "bit (128 :: nat) n \<longleftrightarrow> n = 7" "bit (4096 :: nat) n \<longleftrightarrow> n = 12"
  using bit_exp_iff [of 7 n, where ?'a = u8] bit_exp_iff [of 12 n, where ?'a = u16]
    bit_exp_iff [of 7 n, where ?'a = int] bit_exp_iff [of 12 n, where ?'a = int]
    bit_exp_iff [of 7 n, where ?'a = nat] bit_exp_iff [of 12 n, where ?'a = nat]
  by auto

lemma fields_words:
  "(ucast (drop_bit 16 (h AND 0x0fff0000)) OR push_bit 12 1) AND 0x0fff = (ucast (take_bit 12 (drop_bit 16 h)) :: u16)"
  "(ucast (drop_bit 16 (h AND 0x0fff0000)) OR push_bit 12 1) AND 0xf000 = (0x1000 :: u16)"
  "(ucast (h AND 0x0000ffff) :: u16) = ucast h"
  for h :: u32
  unfolding masks by (rule bit_word_eqI; auto simp: bit_simps bit_single)+

lemma fields_bytes:
  "(ucast (drop_bit 8 (c AND 0x3f00)) OR 0x80) AND 0x3f = (ucast (take_bit 6 (drop_bit 8 c)) :: u8)"
  "(ucast (drop_bit 8 (c AND 0x3f00)) OR 0x80) AND 0xc0 = (0x80 :: u8)"
  "(ucast (c AND 0xff) :: u8) = ucast c"
  for c :: u16
  unfolding masks by (rule bit_word_eqI; auto simp: bit_simps bit_single)+

lemma sequence_fields: "uuid_sequence (uuid_fields t cs a) = unat (cs AND 0x3fff)"
proof -
  have "unat cs mod 16384 = unat cs mod 256 + (unat cs div 256 mod 64) * 256"
    using mod_mult2_eq [of "unat cs" 256 64] by simp
  moreover have "unat (ucast cs :: u8) = unat cs mod 256"
    by (simp add: unsigned_ucast_eq take_bit_eq_mod)
  moreover have "unat (ucast (take_bit 6 (drop_bit 8 cs)) :: u8) = unat cs div 256 mod 64"
  proof -
    have "unat (ucast (take_bit 6 (drop_bit 8 cs)) :: u8) = take_bit 8 (take_bit 6 (unat (drop_bit 8 cs)))"
      by (simp only: unsigned_ucast_eq unsigned_take_bit_eq take_bit_take_bit) simp
    also have "unat (drop_bit 8 cs) = unat cs div 256" using unat_u16_less [of cs]
      by (simp only: unsigned_drop_bit_eq) (simp add: drop_bit_eq_div take_bit_nat_eq_self)
    finally show ?thesis by (simp add: take_bit_eq_mod mod_mod_cancel)
  qed
  ultimately show ?thesis
    by (simp only: uuid_sequence_def uuid_fields_def uuid.sel fields_bytes and_3fff) simp
qed

lemma timestamp_fields: "uuid_timestamp (uuid_fields t cs a) = time_val t mod 2 ^ 60"
proof -
  define h where "h = unat (hi t)"
  have 1: "unat (ucast (hi t) :: u16) = h mod 65536"
    by (simp add: unsigned_ucast_eq take_bit_eq_mod h_def)
  have 2: "unat (ucast (take_bit 12 (drop_bit 16 (hi t))) :: u16) = h div 65536 mod 4096"
  proof -
    have "unat (ucast (take_bit 12 (drop_bit 16 (hi t))) :: u16) = take_bit 16 (take_bit 12 (unat (drop_bit 16 (hi t))))"
      by (simp only: unsigned_ucast_eq unsigned_take_bit_eq take_bit_take_bit) simp
    then show ?thesis by (simp add: unat_shift_high take_bit_eq_mod mod_mod_cancel h_def del: unat_drop_bit_eq)
  qed
  have "h mod 268435456 = h mod 65536 + (h div 65536 mod 4096) * 65536"
    using mod_mult2_eq [of h 65536 4096] by simp
  moreover have "(h * 4294967296 + unat (lo t)) mod (4294967296 * 268435456)
      = unat (lo t) + (h mod 268435456) * 4294967296"
    using unat_u32_less [of "lo t"] by (subst mod_mult2_eq) simp
  ultimately show ?thesis
    by (simp only: uuid_timestamp_def uuid_fields_def uuid.sel fields_words 1 2 time_val_def h_def) simp
qed
text \<open>A generator that has been initialised and knows the address: the steady state.\<close>

definition uuid_ready :: "uuid_gen \<Rightarrow> bool" where
  "uuid_ready g \<longleftrightarrow> uuid_init_done g \<and> got_address g \<and> saved_st g = Uuid_s_ok"

lemma uuid_fields_wf:
  "time_hi_and_version (uuid_fields t cs a) AND 0xf000 = 0x1000"
  "clock_seq_hi_and_reserved (uuid_fields t cs a) AND 0xc0 = 0x80"
  "check_structure (uuid_fields t cs a)"
  by (simp_all only: uuid_fields_def uuid.sel fields_words fields_bytes check_structure_def simp_thms)

lemma uuid_create_ready:
  assumes "uuid_ready g"
  shows "uuid_create e g =
    (case uuid_create_loop e (False, g) of None \<Rightarrow> None
     | Some g1 \<Rightarrow>
        let t = time_now g1; a = time_adjust g1;
            t' = (if a \<noteq> 0 then uadd_uw_2_uvlw a t else t)
        in Some (Inr (uuid_fields t' (clock_seq g1) (saved_addr g)), g1\<lparr>time_last := t, time_now := t'\<rparr>))"
  using assms by (auto simp: uuid_create_def uuid_ready_def uuid_verify_init_def uuid_get_address_def Let_def
      split: option.split)

definition stamp :: "uuid_gen \<Rightarrow> nat" where
  "stamp g = time_val (time_last g) + unat (time_adjust g)"

lemma uuid_create_result:
  assumes "uuid_ready g" and "uuid_create e g = Some (r, g')"
  shows "\<exists>u. r = Inr u \<and> node u = saved_addr g \<and> uuid_timestamp u = stamp g' mod 2 ^ 60
    \<and> uuid_sequence u = unat (clock_seq g' AND 0x3fff)"
    and "uuid_ready g'" and "saved_addr g' = saved_addr g" and "ticks g' = Suc (ticks g)"
    and "time_last g' = os_reading e (ticks g)"
    and "time_val (os_reading e (ticks g)) < time_val (time_last g) \<Longrightarrow>
      time_adjust g' = 0 \<and> clock_seq g' AND 0x3fff \<noteq> clock_seq g AND 0x3fff"
    and "time_val (time_last g) < time_val (os_reading e (ticks g)) \<Longrightarrow>
      time_adjust g' = 0 \<and> clock_seq g' = clock_seq g"
    and "os_reading e (ticks g) = time_last g \<Longrightarrow>
      time_adjust g \<noteq> 0x7fff \<and> time_adjust g' = time_adjust g + 1 \<and> clock_seq g' = clock_seq g"
proof -
  obtain g1 where g1: "uuid_create_loop e (False, g) = Some g1"
    using assms by (cases "uuid_create_loop e (False, g)") (simp_all add: uuid_create_ready)
  note res = uuid_create_loop_result [OF g1]
  define t' where "t' = (if time_adjust g1 \<noteq> 0 then uadd_uw_2_uvlw (time_adjust g1) (time_now g1) else time_now g1)"
  have rg: "r = Inr (uuid_fields t' (clock_seq g1) (saved_addr g))"
    "g' = g1\<lparr>time_last := time_now g1, time_now := t'\<rparr>"
    using assms(2) by (simp_all add: uuid_create_ready [OF assms(1)] g1 Let_def t'_def)
  have "time_val t' mod 2 ^ 60 = stamp g' mod 2 ^ 60"
    by (simp add: t'_def time_val_uadd_uw stamp_def rg mod_mod_cancel)
  then show "\<exists>u. r = Inr u \<and> node u = saved_addr g \<and> uuid_timestamp u = stamp g' mod 2 ^ 60
    \<and> uuid_sequence u = unat (clock_seq g' AND 0x3fff)"
    by (auto simp: rg timestamp_fields sequence_fields) (simp add: uuid_fields_def)
  show "uuid_ready g'" using assms(1) res by (simp add: uuid_ready_def rg)
  show "saved_addr g' = saved_addr g" "ticks g' = Suc (ticks g)" "time_last g' = os_reading e (ticks g)"
    using res by (simp_all add: rg)
  show "time_val (os_reading e (ticks g)) < time_val (time_last g) \<Longrightarrow>
      time_adjust g' = 0 \<and> clock_seq g' AND 0x3fff \<noteq> clock_seq g AND 0x3fff"
    "time_val (time_last g) < time_val (os_reading e (ticks g)) \<Longrightarrow>
      time_adjust g' = 0 \<and> clock_seq g' = clock_seq g"
    "os_reading e (ticks g) = time_last g \<Longrightarrow>
      time_adjust g \<noteq> 0x7fff \<and> time_adjust g' = time_adjust g + 1 \<and> clock_seq g' = clock_seq g"
    using res by (simp_all add: rg)
qed

text \<open>A run of the generator: the UUIDs of \<open>n\<close> successive calls.\<close>

primrec uuid_run :: "os_env \<Rightarrow> uuid_gen \<Rightarrow> nat \<Rightarrow> uuid list option" where
  "uuid_run e g 0 = Some []"
| "uuid_run e g (Suc n) =
     (case uuid_create e g of Some (Inr u, g') \<Rightarrow> map_option ((#) u) (uuid_run e g' n) | _ \<Rightarrow> None)"

text \<open>
  The clock as the generator needs it: it never goes back, and when it moves it moves by more than
  the adjustments that may have been added to the old reading.
\<close>

definition clock_value :: "os_env \<Rightarrow> uuid_gen \<Rightarrow> nat \<Rightarrow> nat" where
  "clock_value e g k =
     (if k = 0 then time_val (time_last g) else time_val (os_reading e (ticks g + (k - 1))))"

definition coarse_clock :: "os_env \<Rightarrow> uuid_gen \<Rightarrow> nat \<Rightarrow> bool" where
  "coarse_clock e g n \<longleftrightarrow>
     (\<forall>k < n. (clock_value e g (Suc k) = clock_value e g k \<or> clock_value e g k + 0x7fff < clock_value e g (Suc k))
       \<and> clock_value e g (Suc k) + 0x7fff < 2 ^ 60)"

lemma coarse_clock_Suc:
  assumes "coarse_clock e g (Suc n)" and "time_last g' = os_reading e (ticks g)" and "ticks g' = Suc (ticks g)"
  shows "(os_reading e (ticks g) = time_last g \<or> time_val (time_last g) + 0x7fff < time_val (os_reading e (ticks g)))"
    and "time_val (os_reading e (ticks g)) + 0x7fff < 2 ^ 60" and "coarse_clock e g' n"
proof -
  have r0: "clock_value e g 0 = time_val (time_last g)" "clock_value e g (Suc 0) = time_val (os_reading e (ticks g))"
    by (simp_all add: clock_value_def)
  show "(os_reading e (ticks g) = time_last g \<or> time_val (time_last g) + 0x7fff < time_val (os_reading e (ticks g)))"
    "time_val (os_reading e (ticks g)) + 0x7fff < 2 ^ 60"
    using assms(1) unfolding coarse_clock_def by (auto simp: r0 time_val_inject dest: spec [of _ 0])
  have "clock_value e g' k = clock_value e g (Suc k)" for k
    using assms(2,3) by (cases k) (simp_all add: clock_value_def)
  then show "coarse_clock e g' n"
    using assms(1) unfolding coarse_clock_def by auto
qed

lemma uuid_create_some:
  assumes "uuid_ready g" and "\<not> (os_reading e (ticks g) = time_last g \<and> time_adjust g = 0x7fff)"
  obtains u g' where "uuid_create e g = Some (Inr u, g')"
  using assms by (simp add: uuid_create_ready uuid_create_loop_first Let_def)

lemma uuid_run_stamps:
  assumes "uuid_ready g" and "unat (time_adjust g) + n \<le> 0x7fff" and "coarse_clock e g n"
  shows "\<exists>us. uuid_run e g n = Some us \<and> length us = n \<and> (\<forall>u \<in> set us. stamp g < uuid_timestamp u)
    \<and> sorted_wrt (<) (map uuid_timestamp us)
    \<and> (\<forall>u \<in> set us. node u = saved_addr g \<and> uuid_sequence u = unat (clock_seq g AND 0x3fff))"
  using assms
proof (induction n arbitrary: g)
  case 0
  then show ?case by simp
next
  case (Suc n)
  have adj: "time_adjust g \<noteq> 0x7fff"
    using Suc.prems(2) by (auto simp: word_unat_eq_iff)
  obtain u g' where cr: "uuid_create e g = Some (Inr u, g')"
    using uuid_create_some [OF Suc.prems(1)] adj by blast
  note res = uuid_create_result [OF Suc.prems(1) cr]
  have u: "node u = saved_addr g" "uuid_timestamp u = stamp g' mod 2 ^ 60"
      "uuid_sequence u = unat (clock_seq g' AND 0x3fff)" using res(1) by auto
  note cc = coarse_clock_Suc [OF Suc.prems(3) res(5) res(4)]
  have step: "stamp g < stamp g' \<and> unat (time_adjust g') + n \<le> 0x7fff \<and> clock_seq g' = clock_seq g"
  proof (cases "os_reading e (ticks g) = time_last g")
    case True
    then have "time_adjust g' = time_adjust g + 1" "clock_seq g' = clock_seq g"
      using res(8) by auto
    then show ?thesis
      using Suc.prems(2) True res(5) by (simp add: stamp_def unat_add_u16)
  next
    case False
    then show ?thesis using cc(1) res(5,7) Suc.prems(2) by (simp add: stamp_def)
  qed
  then have st: "stamp g' < 2 ^ 60" using cc(2) res(5) by (simp add: stamp_def)
  obtain us where us: "uuid_run e g' n = Some us" "length us = n" "\<forall>u \<in> set us. stamp g' < uuid_timestamp u"
    "sorted_wrt (<) (map uuid_timestamp us)"
    "\<forall>u \<in> set us. node u = saved_addr g' \<and> uuid_sequence u = unat (clock_seq g' AND 0x3fff)"
    using Suc.IH [OF res(2) _ cc(3)] step by blast
  show ?case
    using us step u st res(3) by (intro exI [of _ "u # us"]) (auto simp: cr)
qed

lemma time_val_os_reading:
  "time_val (os_reading e k) = (unat (fst (os_timeofday e k)) * 10000000
     + unat (snd (os_timeofday e k)) * 10 + 122192928000000000) mod 2 ^ 64"
proof -
  have *: "time_val \<lparr>lo = 0x13814000, hi = 0x01B21DD2\<rparr> = 122192928000000000"
    by (simp add: time_val_def)
  have n: "unat (10 :: u32) = 10" "unat (10000000 :: u32) = 10000000" by simp_all
  obtain s u where su: "os_timeofday e k = (s, u)" by fastforce
  have "os_reading e k = uadd_uvlw_2_uvlw (uadd_uvlw_2_uvlw (uuid__uemul u 10) (uuid__uemul s 10000000))
      \<lparr>lo = 0x13814000, hi = 0x01B21DD2\<rparr>"
    by (simp add: os_reading_def uuid__get_os_time_def Let_def su uuid_gen_0_def del: get_os_time)
  then have "time_val (os_reading e k) =
      ((unat u * unat (10 :: u32) + unat s * unat (10000000 :: u32)) mod 2 ^ 64 + 122192928000000000) mod 2 ^ 64"
    by (simp only: time_val_uadd_uvlw time_val_uemul *)
  then show ?thesis unfolding mod_add_left_eq by (simp only: su fst_conv snd_conv n add.commute)
qed

text \<open>The 64 bit arithmetic under the timestamps: \<open>uuid__uemul\<close> is the exact product, and the sums of a
  64 bit time with a 64 bit and with a 16 bit number are exact modulo \<open>2 ^ 64\<close>.\<close>

theorem uuid_time_arithmetic:
  "time_val (uuid__uemul a b) = unat a * unat b \<and>
   time_val (uadd_uvlw_2_uvlw s t) = (time_val s + time_val t) mod 2 ^ 64 \<and>
   time_val (uadd_uw_2_uvlw w t) = (time_val t + unat w) mod 2 ^ 64"
  by (simp only: time_val_uemul time_val_uadd_uvlw time_val_uadd_uw)

text \<open>The third macro, \<open>UADD_ULW_2_UVLW\<close>, is wrong exactly when the low words add up to less than
  \<open>2 ^ 31\<close>: it then carries into the high word, as for 0 + 0.\<close>

theorem uadd_ulw_2_uvlw_carry:
  "time_val (uadd_ulw_2_uvlw a t) =
     (time_val t + unat a + (if unat a + unat (lo t) < 2 ^ 31 then 2 ^ 32 else 0)) mod 2 ^ 64 \<and>
   time_val (uadd_ulw_2_uvlw 0 \<lparr>lo = 0, hi = 0\<rparr>) = 2 ^ 32"
  by (simp add: time_val_uadd_ulw) (simp add: time_val_def)

text \<open>C30.
  A call of \<open>uuid_create\<close> on an initialised generator returns, except when the clock still shows the
  last reading and \<open>time_adjust\<close> is used up: that call never returns, whatever the clock does next.\<close>

theorem uuid_create_returns_iff:
  assumes "uuid_ready g"
  shows "uuid_create e g = None \<longleftrightarrow> os_reading e (ticks g) = time_last g \<and> time_adjust g = 0x7fff"
  by (auto simp: uuid_create_ready [OF assms] uuid_create_loop_first Let_def split: option.split)

definition test_clock :: "(nat \<Rightarrow> u32 \<times> u32) \<Rightarrow> os_env" where
  "test_clock f = \<lparr>os_timeofday = f, os_pid = 7, os_address = \<lambda>_. Some (Uuid_node 8 0 43 1 2 3)\<rparr>"

definition gen_at :: "uuid_time \<Rightarrow> u16 \<Rightarrow> uuid_gen" where
  "gen_at t a = uuid_gen_0\<lparr>uuid_init_done := True, got_address := True, clock_seq := 5,
     saved_addr := Uuid_node 8 0 43 1 2 3, time_last := t, time_adjust := a\<rparr>"

lemma gen_at [simp]:
  "uuid_ready (gen_at t a)" "time_last (gen_at t a) = t" "time_adjust (gen_at t a) = a" "ticks (gen_at t a) = 0"
  by (simp_all add: gen_at_def uuid_ready_def uuid_gen_0_def)

lemma test_clock_timeofday [simp]: "os_timeofday (test_clock f) = f"
  by (simp add: test_clock_def)

lemma uuid_create_returns_iff_witness:
  "uuid_create (test_clock (\<lambda>_. (0, 0))) (gen_at (os_reading (test_clock (\<lambda>_. (0, 0))) 0) 0x7fff) = None"
  by (subst uuid_create_returns_iff) simp_all

text \<open>
  What \<open>uuid_create\<close> returns: a version 1 UUID of the DCE variant (so every other operation accepts
  it) that carries the host's address, the low 60 bits of the last reading plus the adjustment, and
  the low 14 bits of the clock sequence.\<close>

theorem uuid_create_fields:
  assumes "uuid_ready g" and "uuid_create e g = Some (r, g')"
  shows "\<exists>u. r = Inr u \<and> check_structure u \<and> time_hi_and_version u AND 0xf000 = 0x1000
    \<and> clock_seq_hi_and_reserved u AND 0xc0 = 0x80 \<and> node u = saved_addr g
    \<and> time_last g' = os_reading e (ticks g)
    \<and> uuid_timestamp u = (time_val (time_last g') + unat (time_adjust g')) mod 2 ^ 60
    \<and> uuid_sequence u = unat (clock_seq g') mod 2 ^ 14"
proof -
  obtain t c a where r: "r = Inr (uuid_fields t c a)"
    using assms by (auto simp: uuid_create_ready Let_def split: option.splits)
  show ?thesis
    using uuid_create_result(1) [OF assms] uuid_create_result(5) [OF assms] uuid_fields_wf [of t c a]
    by (auto simp add: r stamp_def and_3fff)
qed

lemma uuid_create_fields_witness:
  "\<exists>u g'. uuid_create (test_clock (\<lambda>k. (of_nat k, 0))) (gen_at \<lparr>lo = 1, hi = 2\<rparr> 3) = Some (Inr u, g') \<and> check_structure u"
proof -
  obtain u g' where "uuid_create (test_clock (\<lambda>k. (of_nat k, 0))) (gen_at \<lparr>lo = 1, hi = 2\<rparr> 3) = Some (Inr u, g')"
    by (rule uuid_create_some [of "gen_at \<lparr>lo = 1, hi = 2\<rparr> 3"]) simp_all
  then show ?thesis using uuid_create_fields [of "gen_at \<lparr>lo = 1, hi = 2\<rparr> 3"] by fastforce
qed

text \<open>C21.
  Uniqueness in time: as long as the clock does not go back and moves, when it moves, by more than
  \<open>0x7fff\<close> units, successive UUIDs of one generator have strictly increasing timestamps, so they
  are distinct, under one clock sequence and one address.\<close>

theorem uuid_run_distinct:
  assumes "uuid_ready g" and "unat (time_adjust g) + n \<le> 0x7fff" and "coarse_clock e g n"
  shows "\<exists>us. uuid_run e g n = Some us \<and> length us = n \<and> distinct us \<and> sorted_wrt (<) (map uuid_timestamp us)
    \<and> (\<forall>u \<in> set us. node u = saved_addr g \<and> uuid_sequence u = unat (clock_seq g AND 0x3fff))"
proof -
  have "distinct us" if "sorted_wrt (<) (map uuid_timestamp us)" for us
    using that strict_sorted_iff distinct_map by blast
  then show ?thesis using uuid_run_stamps [OF assms] by blast
qed

lemma uuid_run_distinct_witness:
  "\<exists>us. uuid_run (test_clock (\<lambda>k. (of_nat (k div 2), 0))) (gen_at (os_reading (test_clock (\<lambda>k. (0, 0))) 0) 0) 3 = Some us
    \<and> length us = 3 \<and> distinct us"
proof -
  let ?e = "test_clock (\<lambda>k. (of_nat (k div 2), 0))" and ?g = "gen_at (os_reading (test_clock (\<lambda>k. (0, 0))) 0) 0"
  have "coarse_clock ?e ?g 3"
    unfolding coarse_clock_def clock_value_def time_val_os_reading numeral_3_eq_3 All_less_Suc
    by (simp add: time_val_os_reading)
  then show ?thesis using uuid_run_distinct [of ?g 3 ?e] by auto
qed

text \<open>Without that assumption the timestamps repeat: when \<open>k\<close> UUIDs were made at one reading and the clock
  then moves on by exactly \<open>k\<close> units, as a microsecond clock does with \<open>k = 10\<close>, the next UUID is the
  one made before it.\<close>

theorem uuid_create_repeats:
  assumes "uuid_ready g" and "unat (time_adjust g) < 0x7fff"
    and "os_reading e (ticks g) = time_last g"
    and "os_reading e (Suc (ticks g)) = uadd_uw_2_uvlw (time_adjust g + 1) (time_last g)"
    and "time_val (time_last g) + 0x7fff < 2 ^ 64"
  shows "\<exists>u. uuid_run e g 2 = Some [u, u]"
proof -
  let ?t = "uadd_uw_2_uvlw (time_adjust g + 1) (time_last g)"
  have adj: "unat (time_adjust g + 1) = unat (time_adjust g) + 1"
    using assms(2) by (simp add: unat_add_u16)
  then have nz: "time_adjust g + 1 \<noteq> 0" "time_adjust g \<noteq> 0x7fff"
    using assms(2) by (auto simp: word_unat_eq_iff)
  obtain g1 where g1: "uuid_create e g = Some (Inr (uuid_fields ?t (clock_seq g) (saved_addr g)), g1)"
    using assms(1,3) nz
    by (simp add: uuid_create_ready uuid_create_loop_first uuid_create_step_def Let_def time_cmp_val)
  note r = uuid_create_result [OF assms(1) g1]
  have last: "time_last g1 = time_last g" "ticks g1 = Suc (ticks g)" "clock_seq g1 = clock_seq g"
    using r assms(3) by auto
  have later: "time_val (time_last g1) < time_val (os_reading e (ticks g1))"
    using assms(2,4,5) adj by (simp add: time_val_uadd_uw last)
  then have "uuid_create e g1 \<noteq> None"
    using r(2) by (auto simp: uuid_create_ready uuid_create_loop_first Let_def)
  moreover have "fst (the (uuid_create e g1)) = Inr (uuid_fields ?t (clock_seq g) (saved_addr g))"
    using r(2) later last(3) assms(4) r(3)
    by (auto simp: uuid_create_ready uuid_create_loop_first uuid_create_step_def Let_def time_cmp_val last(2))
  ultimately show ?thesis by (auto simp: numeral_2_eq_2 g1)
qed

lemma uuid_create_repeats_witness:
  "\<exists>u. uuid_run (test_clock (\<lambda>k. (0, of_nat k))) (gen_at (os_reading (test_clock (\<lambda>k. (0, of_nat k))) 0) 9) 2
    = Some [u, u]"
proof (rule uuid_create_repeats)
  let ?e = "test_clock (\<lambda>k. (0, of_nat k))"
  have v: "time_val (os_reading ?e 0) = 122192928000000000" "time_val (os_reading ?e 1) = 122192928000000010"
    unfolding time_val_os_reading by simp_all
  then have "time_val (os_reading ?e 1) = time_val (uadd_uw_2_uvlw 10 (os_reading ?e 0))"
    by (simp add: time_val_uadd_uw)
  then show "os_reading ?e (Suc (ticks (gen_at (os_reading ?e 0) 9))) =
      uadd_uw_2_uvlw (time_adjust (gen_at (os_reading ?e 0) 9) + 1) (time_last (gen_at (os_reading ?e 0) 9))"
    by (simp add: time_val_inject)
  show "time_val (time_last (gen_at (os_reading ?e 0) 9)) + 0x7fff < 2 ^ 64" using v by simp
qed simp_all

text \<open>
  When the clock has gone back, the next UUID is made under another clock sequence, which is never
  zero and keeps to 14 bits: it differs from the one made just before.\<close>

theorem uuid_create_clock_back:
  assumes "uuid_ready g" and "\<not> (os_reading e (ticks g) = time_last g \<and> time_adjust g = 0x7fff)"
    and "time_val (os_reading e (Suc (ticks g))) < time_val (os_reading e (ticks g))"
  shows "\<exists>u v. uuid_run e g 2 = Some [u, v] \<and> uuid_sequence u \<noteq> uuid_sequence v \<and> u \<noteq> v"
proof -
  obtain u g1 where u: "uuid_create e g = Some (Inr u, g1)"
    using uuid_create_some [OF assms(1,2)] by blast
  note r1 = uuid_create_result [OF assms(1) u]
  obtain v g2 where v: "uuid_create e g1 = Some (Inr v, g2)"
  proof (rule uuid_create_some [OF r1(2), of e])
    show "\<not> (os_reading e (ticks g1) = time_last g1 \<and> time_adjust g1 = 0x7fff)"
      using assms(3) by (auto simp: r1(4,5))
  qed
  note r2 = uuid_create_result [OF r1(2) v]
  have "clock_seq g2 AND 0x3fff \<noteq> clock_seq g1 AND 0x3fff"
    using r2(6) assms(3) r1(4,5) by simp
  then have "uuid_sequence u \<noteq> uuid_sequence v"
    using r1(1) r2(1) by (auto simp: word_unat_eq_iff)
  then show ?thesis by (auto simp: numeral_2_eq_2 u v)
qed

lemma uuid_create_clock_back_witness:
  "\<exists>u v. uuid_run (test_clock (\<lambda>k. (if k = 0 then 9 else 5, 0))) (gen_at \<lparr>lo = 1, hi = 2\<rparr> 3) 2 = Some [u, v] \<and> u \<noteq> v"
  using uuid_create_clock_back [of "gen_at \<lparr>lo = 1, hi = 2\<rparr> 3" "test_clock (\<lambda>k. (if k = 0 then 9 else 5, 0))"]
  by (simp add: time_val_os_reading) blast

end
