(* ===== verification/Ubik.thy ===== *)
theory Ubik
  imports Uuid
begin

text \<open>
  Quorum and votes of the replicated database Ubik: \<^verbatim>\<open>src/file/ncsubik/vote.c\<close>, \<^verbatim>\<open>beacon.c\<close>, and the
  reset entry points of \<^verbatim>\<open>recovery.c\<close> and \<^verbatim>\<open>ubik.c\<close> they call.

  \<^item> \<open>ubik_state\<close> is the record of the module globals of one server process; its fields have the
    variables' names (\<open>ubik_\<close> dropped where the variable has that prefix).
  \<^item> A call of \<open>time(0)\<close> is an argument \<open>now\<close> of the operation, and times are integers (seconds).  A
    \<open>long\<close> flag is an integer that is zero or not, a \<open>char\<close> flag a \<open>bool\<close>.
  \<^item> Addresses are 32 bit words in network order; comparisons go through \<open>ntohl\<close>, which depends on the
    host's byte order \<open>le\<close>.
  \<^item> The RPC runtime, the registry and the security service are parameters: their answers are
    arguments.  Exceptions raised by the runtime are the status \<open>UEXCEPTION\<close> of an answer.
\<close>

section \<open>Data\<close>

datatype ucode = U_ok | USKEWED | UNOTMEMBER | UNOTSYNC | UEXCEPTION | UNOMEM | UINTERNAL | UBADCELL
  | UBADTYPE | USYNC | UNOENT | UNOSPC | UNOACCESS | UIOERROR | UBADF | UBADPATH | UBADLOG | UDONE | UTWOENDS | UEOF
  | EINVAL | EWOULDBLOCK | Rpc_s nat | U_other nat

abbreviation (input) "BIGTIME \<equiv> 140 :: int"
abbreviation (input) "SMALLTIME \<equiv> 90 :: int"
abbreviation (input) "MAXSKEW \<equiv> 40 :: int"

record ubik_version = v_epoch :: int v_counter :: int
record ubik_tid = t_epoch :: int t_counter :: int

record ubik_server =
  addr :: u32
  realm :: uuid
  principal :: uuid
  lastVoteTime :: int
  lastBeaconSent :: int
  lastVote :: bool
  up :: bool
  beaconSinceDown :: bool
  magic :: bool
  badhost :: bool

record ubik_state =
  lastYesTime :: int
  lastYesHost :: u32
  lastYesRealm :: uuid
  lastYesPrinc :: uuid
  lastYesClaim :: int
  lastYesState :: int
  lowestTime :: int
  lowestHost :: u32
  syncTime :: int
  syncHost :: u32
  dbVersion :: ubik_version
  dbTid :: ubik_tid
  amSyncSite :: bool
  syncSiteUntil :: int
  nServers :: int
  amIMagic :: bool
  servers :: "ubik_server list"
  host :: ubik_server
  beacon_ResetState :: bool
  recovery_state :: u32
  recovery_ResetState :: bool
  currentTrans :: "ubik_tid option"
  epochTime :: int
  dbWriting :: bool
  dbaseVersion :: ubik_version
  tidCounter :: int
  writeTidCounter :: int

definition ntohl :: "bool \<Rightarrow> u32 \<Rightarrow> u32" where
  "ntohl le w =
     (if le then push_bit 24 w OR (push_bit 8 w AND 0x00ff0000) OR (drop_bit 8 w AND 0x0000ff00) OR drop_bit 24 w
      else w)"

section \<open>Recovery entry points and resets\<close>

definition urecovery_ResetState :: "bool \<Rightarrow> ubik_state \<Rightarrow> ubik_state" where
  "urecovery_ResetState wakeup s =
     (let s = s\<lparr>recovery_state := 0\<rparr> in if wakeup then s\<lparr>recovery_ResetState := True\<rparr> else s)"

definition urecovery_LostServer :: "ubik_state \<Rightarrow> ubik_state" where
  "urecovery_LostServer s = s\<lparr>recovery_state := recovery_state s AND NOT 0x10\<rparr>"

definition urecovery_CheckTid :: "ubik_tid \<Rightarrow> ubik_state \<Rightarrow> ubik_state" where
  "urecovery_CheckTid atid s =
     (case currentTrans s of
        None \<Rightarrow> s
      | Some t \<Rightarrow> if t_epoch atid \<noteq> t_epoch t \<or> t_counter atid > t_counter t
                 then s\<lparr>currentTrans := None\<rparr> else s)"

definition uvote_ResetState :: "int \<Rightarrow> ubik_state \<Rightarrow> ubik_state" where
  "uvote_ResetState now s = s\<lparr>lastYesTime := now, lastYesHost := 0xffffffff, lastYesClaim := 0,
     lastYesState := 0, lowestTime := 0, lowestHost := 0xffffffff, syncTime := 0, syncHost := 0\<rparr>"

definition server_reset :: "ubik_server \<Rightarrow> ubik_server" where
  "server_reset ts = ts\<lparr>lastVoteTime := 0, lastBeaconSent := 0, lastVote := False, up := False,
     beaconSinceDown := False\<rparr>"

definition ubeacon_ResetState :: "ubik_state \<Rightarrow> ubik_state" where
  "ubeacon_ResetState s = s\<lparr>amSyncSite := False, servers := map server_reset (servers s),
     host := server_reset (host s), beacon_ResetState := True\<rparr>"

definition ubik_ResetState :: "int \<Rightarrow> ubik_state \<Rightarrow> ubik_state" where
  "ubik_ResetState now s = urecovery_ResetState True (uvote_ResetState now (ubeacon_ResetState s))"

section \<open>Voting\<close>

definition uvote_ShouldIRun :: "bool \<Rightarrow> int \<Rightarrow> ubik_state \<Rightarrow> bool" where
  "uvote_ShouldIRun le now s =
     (if BIGTIME + lastYesTime s < now then True
      else if lastYesState s \<noteq> 0 \<and> lastYesHost s \<noteq> addr (host s) then False
      else if ntohl le (lastYesHost s) < ntohl le (addr (host s)) then False
      else True)"

definition uvote_CheckSyncSite :: "int \<Rightarrow> ubik_state \<Rightarrow> bool" where
  "uvote_CheckSyncSite now s \<longleftrightarrow> lastYesState s \<noteq> 0 \<and> SMALLTIME + lastYesClaim s \<ge> now"

text \<open>
  \<open>SUBIKVOTE_Beacon\<close> in the order of the code: the checks made before the lock is taken, the
  candidate's identity, then, under the lock, who is lowest, who is synchronization site, the vote.
\<close>

definition beacon_skewed :: "int \<Rightarrow> int \<Rightarrow> int \<Rightarrow> ubik_state \<Rightarrow> (ubik_state) option" where
  "beacon_skewed now now' astart s =
     (if now > astart \<and> now - astart > MAXSKEW then Some s
      else if astart > now \<and> astart - now > MAXSKEW then Some (ubik_ResetState now' s)
      else if lastYesTime s > now then Some (ubik_ResetState now' s)
      else if lastYesTime s > astart \<and> lastYesTime s - astart > MAXSKEW then Some s
      else None)"

record ubik_caller =
  auth_code :: ucode
  ident_code :: ucode
  ident_realm :: uuid
  ident_princ :: uuid

definition find_server :: "uuid \<Rightarrow> uuid \<Rightarrow> ubik_server list \<Rightarrow> ubik_server option" where
  "find_server otherRealm otherPrinc ss =
     find (\<lambda>ts. snd (uuid_equal (principal ts) otherPrinc) \<and> snd (uuid_equal (realm ts) otherRealm)) ss"

definition beacon_candidate :: "ubik_caller option \<Rightarrow> ubik_state \<Rightarrow> ucode + u32 \<times> uuid \<times> uuid" where
  "beacon_candidate rxcall s =
     (case rxcall of
        None \<Rightarrow> Inr (addr (host s), realm (host s), principal (host s))
      | Some c \<Rightarrow>
          if ident_code c \<noteq> U_ok then Inl (ident_code c)
          else case find_server (ident_realm c) (ident_princ c) (servers s) of
                 None \<Rightarrow> Inl UNOTMEMBER
               | Some ts \<Rightarrow> Inr (addr ts, ident_realm c, ident_princ c))"

definition beacon_lowest :: "bool \<Rightarrow> int \<Rightarrow> u32 \<Rightarrow> ubik_state \<Rightarrow> ubik_state" where
  "beacon_lowest le now otherHost s =
     (let s = (if ntohl le otherHost \<le> ntohl le (lowestHost s) \<or> lowestTime s + BIGTIME < now
               then s\<lparr>lowestTime := now, lowestHost := otherHost\<rparr> else s)
      in if ntohl le (addr (host s)) \<le> ntohl le (lowestHost s) \<or> lowestTime s + BIGTIME < now
         then s\<lparr>lowestTime := now, lowestHost := addr (host s)\<rparr> else s)"

definition beacon_sync :: "int \<Rightarrow> int \<Rightarrow> u32 \<Rightarrow> ubik_state \<Rightarrow> ubik_state" where
  "beacon_sync now astate otherHost s =
     (let s = (if astate \<noteq> 0 \<and> syncTime s \<le> now then s\<lparr>syncHost := otherHost, syncTime := now\<rparr> else s)
      in if syncTime s + BIGTIME < now then s\<lparr>syncHost := 0, syncTime := 0\<rparr> else s)"

definition beacon_vote ::
  "bool \<Rightarrow> int \<Rightarrow> u32 \<times> uuid \<times> uuid \<Rightarrow> int \<Rightarrow> int \<Rightarrow> ubik_version \<Rightarrow> ubik_tid \<Rightarrow> ubik_state \<Rightarrow> int \<times> ubik_state" where
  "beacon_vote le now cand astate astart avers atid s =
     (let (otherHost, otherRealm, otherPrinc) = cand;
          s = beacon_sync now astate otherHost (beacon_lowest le now otherHost s)
      in if astate = 0 \<and> lowestHost s \<noteq> otherHost \<and> lowestTime s + BIGTIME \<ge> now then (0, s)
         else if astate = 0 \<and> syncHost s \<noteq> 0 \<and> syncHost s \<noteq> otherHost then (0, s)
         else if lastYesTime s \<le> now \<and> lastYesClaim s \<le> astart
                 \<and> (lastYesTime s + BIGTIME < now \<or> otherHost = lastYesHost s)
         then (now, urecovery_CheckTid atid (s\<lparr>lastYesTime := now, lastYesClaim := astart,
                lastYesHost := otherHost, lastYesRealm := otherRealm, lastYesPrinc := otherPrinc,
                lastYesState := astate, dbVersion := avers, dbTid := atid\<rparr>))
         else (0, s))"

definition SUBIKVOTE_Beacon ::
  "bool \<Rightarrow> int \<Rightarrow> int \<Rightarrow> ubik_caller option \<Rightarrow> int \<Rightarrow> int \<Rightarrow> ubik_version \<Rightarrow> ubik_tid
    \<Rightarrow> ubik_state \<Rightarrow> (ucode \<times> int) \<times> ubik_state" where
  "SUBIKVOTE_Beacon le now now' rxcall astate astart avers atid s =
     (if case rxcall of Some c \<Rightarrow> auth_code c \<noteq> U_ok | None \<Rightarrow> False
      then ((auth_code (the rxcall), 0), s)
      else
        case beacon_skewed now now' astart s of
          Some s' \<Rightarrow> ((USKEWED, 0), s')
        | None \<Rightarrow>
           (case beacon_candidate rxcall s of
              Inl code \<Rightarrow> ((code, 0), s)
            | Inr cand \<Rightarrow>
                let (t, s') = beacon_vote le now cand astate astart avers atid s in ((U_ok, t), s')))"

definition SUBIKVOTE_GetSyncSite :: "bool \<Rightarrow> int \<Rightarrow> ubik_state \<Rightarrow> ucode \<times> u32" where
  "SUBIKVOTE_GetSyncSite le now s =
     (U_ok, if lastYesState s \<noteq> 0 \<and> SMALLTIME + lastYesClaim s \<ge> now then ntohl le (lastYesHost s) else 0)"

definition SUBIKVOTE_GetSyncSiteIdentity :: "int \<Rightarrow> ubik_state \<Rightarrow> ucode \<times> (uuid \<times> uuid) option" where
  "SUBIKVOTE_GetSyncSiteIdentity now s =
     (if lastYesState s \<noteq> 0 \<and> SMALLTIME + lastYesClaim s \<ge> now
      then (U_ok, Some (lastYesRealm s, lastYesPrinc s)) else (UNOTSYNC, None))"

definition uvote_Init :: "int \<Rightarrow> ubik_state \<Rightarrow> ubik_state" where
  "uvote_Init now s = s\<lparr>lastYesTime := now, lastYesPrinc := snd uuid_create_nil, lastYesRealm := snd uuid_create_nil\<rparr>"

section \<open>Beacons\<close>

definition ubeacon_AmSyncSite :: "int \<Rightarrow> ubik_state \<Rightarrow> bool \<times> ubik_state" where
  "ubeacon_AmSyncSite now s =
     (if nServers s = 1 then (True, s)
      else
        let (rcode, s) =
          (if \<not> amSyncSite s then (False, s)
           else if syncSiteUntil s \<le> now then (False, s\<lparr>amSyncSite := False\<rparr>)
           else (True, s))
        in if \<not> rcode then (rcode, urecovery_ResetState False s) else (rcode, s))"

definition vcmp :: "ubik_version \<Rightarrow> ubik_version \<Rightarrow> int" where
  "vcmp a b = (if v_epoch a = v_epoch b then v_counter a - v_counter b else v_epoch a - v_epoch b)"

definition urecovery_AllBetter :: "int \<Rightarrow> bool \<Rightarrow> ubik_state \<Rightarrow> bool \<times> ubik_state" where
  "urecovery_AllBetter now areadAny s =
     (if areadAny then (True, s)
      else
        let (sync, s) = ubeacon_AmSyncSite now s
        in if sync \<and> recovery_state s AND 8 \<noteq> 0 then (True, s)
           else (uvote_CheckSyncSite now s \<and> vcmp (dbVersion s) (dbaseVersion s) = 0, s))"

text \<open>
  \<open>ubeacon_InitServerList\<close>: what the RPC runtime and the registry answer for each binding of each
  host is a record; \<open>h_alloc\<close> says whether \<open>malloc\<close> succeeds.
\<close>

record ubik_binding =
  sockaddr_code :: int
  ipaddr_code :: int
  ipaddr :: u32
  copy_disk_st :: ucode
  copy_vote_st :: ucode
  pname_st :: ucode
  cell_name :: string
  cell_uuid :: uuid
  p_uuid :: uuid
  auth_disk_st :: ucode
  auth_vote_st :: ucode

record ubik_bv_server =
  h_alloc :: bool
  h_bindings :: "ubik_binding list"

definition zero_server :: ubik_server where
  "zero_server = \<lparr>addr = 0, realm = uuid_g_nil_uuid, principal = uuid_g_nil_uuid, lastVoteTime = 0,
     lastBeaconSent = 0, lastVote = False, up = False, beaconSinceDown = False, magic = False, badhost = False\<rparr>"

definition addr_code :: "int \<Rightarrow> ucode" where
  "addr_code code = (if code = -1 then UINTERNAL else U_other (nat code))"

text \<open>The loop over one host's bindings, with the count of bindings taken and the first cell name.\<close>

fun init_bindings ::
  "bool \<Rightarrow> string \<Rightarrow> nat \<Rightarrow> string \<Rightarrow> ubik_binding list \<Rightarrow> ubik_server \<Rightarrow> ucode \<times> ubik_server" where
  "init_bindings le nsCell n firstCell [] ts = (U_ok, ts)"
| "init_bindings le nsCell n firstCell (b # bs) ts =
     (if sockaddr_code b \<noteq> 0 then (addr_code (sockaddr_code b), ts)
      else if ipaddr_code b \<noteq> 0 then (addr_code (ipaddr_code b), ts)
      else
        let ts = (if ntohl le (ipaddr b) < ntohl le (addr ts) \<or> addr ts = 0 then ts\<lparr>addr := ipaddr b\<rparr> else ts)
        in if copy_disk_st b \<noteq> U_ok then (copy_disk_st b, ts)
           else if copy_vote_st b \<noteq> U_ok then (copy_vote_st b, ts)
           else if pname_st b \<noteq> U_ok then (pname_st b, ts)
           else if nsCell \<noteq> cell_name b then (UBADCELL, ts)
           else
             let bindingCount = n + 1;
                 ts = (if bindingCount = 1 then ts\<lparr>realm := cell_uuid b, principal := p_uuid b\<rparr> else ts);
                 first = (if bindingCount = 1 then cell_name b else firstCell)
             in if bindingCount \<noteq> 1 \<and> firstCell \<noteq> cell_name b then (UBADCELL, ts)
                else if auth_disk_st b \<noteq> U_ok then (U_ok, ts\<lparr>badhost := True, up := False\<rparr>)
                else if auth_vote_st b \<noteq> U_ok then (U_ok, ts\<lparr>badhost := True, up := False\<rparr>)
                else init_bindings le nsCell bindingCount first bs (ts\<lparr>up := True, badhost := False\<rparr>))"

text \<open>The loop over the hosts: the servers made so far, latest first, and the magic host so far.\<close>

fun init_hosts ::
  "bool \<Rightarrow> string \<Rightarrow> ubik_bv_server list \<Rightarrow> ubik_server list \<Rightarrow> u32 \<times> nat option
    \<Rightarrow> ucode \<times> ubik_server list \<times> nat option" where
  "init_hosts le nsCell [] acc mh = (U_ok, acc, snd mh)"
| "init_hosts le nsCell (h # hs) acc mh =
     (if \<not> h_alloc h then (UNOMEM, acc, snd mh)
      else
        let (st, ts) = init_bindings le nsCell 0 [] (h_bindings h) zero_server
        in if st \<noteq> U_ok then (st, ts # acc, snd mh)
           else init_hosts le nsCell hs (ts # acc)
             (if ntohl le (addr ts) < fst mh \<and> \<not> badhost ts then (ntohl le (addr ts), Some (length acc)) else mh))"

definition ubeacon_InitServerList ::
  "bool \<Rightarrow> u32 \<Rightarrow> ucode \<times> string \<Rightarrow> ucode \<Rightarrow> ubik_bv_server list \<Rightarrow> ubik_state \<Rightarrow> ucode \<times> ubik_state" where
  "ubeacon_InitServerList le ame cell site_st bv s =
     (let (cell_st, nsCell) = cell
      in if cell_st \<noteq> U_ok then (cell_st, s)
         else if site_st \<noteq> U_ok then (site_st, s)
         else
           let (st, new, magicServer) = init_hosts le nsCell bv [] (ntohl le ame, None)
           in if st \<noteq> U_ok then (st, s\<lparr>servers := new @ servers s\<rparr>)
              else
                let new = (case magicServer of
                             Some i \<Rightarrow> new[length new - 1 - i := (new ! (length new - 1 - i))\<lparr>magic := True\<rparr>]
                           | None \<Rightarrow> new);
                    s = (if magicServer = None then s\<lparr>amIMagic := True\<rparr> else s);
                    s = s\<lparr>nServers := int (length bv) + 1\<rparr>;
                    s = (if nServers s = 1 then s\<lparr>amSyncSite := True, syncSiteUntil := 0x7fffffff\<rparr> else s)
                in (U_ok, s\<lparr>servers := filter (\<lambda>ts. \<not> badhost ts) new @ servers s\<rparr>))"

text \<open>
  \<open>ubeacon_send_beacon\<close>: the answer of the \<open>k\<close>-th attempt on binding \<open>i\<close> is \<open>rpc k i\<close>.  The first RPC
  failure resets all bindings and tries the same one again, each further one moves to the next.
\<close>

function send_beacon_loop ::
  "(nat \<Rightarrow> nat \<Rightarrow> ucode \<times> int) \<Rightarrow> nat \<Rightarrow> nat \<Rightarrow> bool \<Rightarrow> nat \<Rightarrow> ucode \<times> int \<Rightarrow> ucode \<times> int" where
  "send_beacon_loop rpc n i doneReset k args =
     (if i < n then
        case rpc k i of
          (Rpc_s e, t) \<Rightarrow>
            if doneReset then send_beacon_loop rpc n (i + 1) doneReset (k + 1) (Rpc_s e, t)
            else send_beacon_loop rpc n i True (k + 1) (Rpc_s e, t)
        | r \<Rightarrow> r
      else args)"
  by pat_completeness auto
termination
  by (relation "measure (\<lambda>(rpc, n, i, d, k, args). 2 * (n - i) + (if d then 0 else 1))") auto

definition ubeacon_send_beacon :: "(nat \<Rightarrow> nat \<Rightarrow> ucode \<times> int) \<Rightarrow> nat \<Rightarrow> ucode \<times> int" where
  "ubeacon_send_beacon rpc n = send_beacon_loop rpc n 0 False 0 (U_ok, 0)"

text \<open>The message of a round; \<open>b_servers\<close> are the indices of the servers asked.\<close>

record ubik_round =
  b_servers :: "nat list"
  b_syncsite :: int
  b_startTime :: int
  b_version :: ubik_version
  b_ttid :: ubik_tid

definition ubeacon_local_beacon ::
  "bool \<Rightarrow> int \<Rightarrow> int \<Rightarrow> int \<Rightarrow> ubik_round \<Rightarrow> ubik_state \<Rightarrow> (ucode \<times> int) \<times> ubik_state" where
  "ubeacon_local_beacon le now now' syncsite r s =
     SUBIKVOTE_Beacon le now now' None syncsite (b_startTime r) (b_version r) (b_ttid r) s"

definition upd_server :: "nat \<Rightarrow> (ubik_server \<Rightarrow> ubik_server) \<Rightarrow> ubik_state \<Rightarrow> ubik_state" where
  "upd_server i f s = (if i < length (servers s) then s\<lparr>servers := (servers s)[i := f (servers s ! i)]\<rparr> else s)"

text \<open>The answers collected: the result is \<open>Inl\<close> after a reset, \<open>Inr (yesVotes, voteTime)\<close> otherwise.\<close>

fun collect_votes ::
  "int \<Rightarrow> (nat \<times> ucode \<times> int) list \<Rightarrow> int \<times> int \<Rightarrow> ubik_state \<Rightarrow> (bool \<times> int \<times> int) \<times> ubik_state" where
  "collect_votes now [] yv s = ((True, yv), s)"
| "collect_votes now ((i, st, vt) # rs) (yesVotes, voteTime) s =
     (let s = upd_server i (\<lambda>ts. ts\<lparr>lastBeaconSent := now\<rparr>) s
      in if st \<noteq> U_ok then
           let s = urecovery_LostServer (upd_server i (\<lambda>ts. ts\<lparr>up := False, beaconSinceDown := False\<rparr>) s)
           in if st = USKEWED then ((False, 0, 0x7fffffff), ubik_ResetState now s)
              else collect_votes now rs (yesVotes, voteTime) s
         else if vt = 0 then
           collect_votes now rs (yesVotes, voteTime)
             (upd_server i (\<lambda>ts. ts\<lparr>lastVoteTime := now, lastVote := False, up := True, beaconSinceDown := True\<rparr>) s)
         else
           collect_votes now rs
             (yesVotes + 2 + (if i < length (servers s) \<and> magic (servers s ! i) then 1 else 0), min vt voteTime)
             (upd_server i (\<lambda>ts. ts\<lparr>lastVoteTime := vt, lastVote := True, up := True, beaconSinceDown := True\<rparr>) s))"

definition ubeacon_wait_for_votes ::
  "int \<Rightarrow> (nat \<times> ucode \<times> int) list \<Rightarrow> ucode \<times> int \<Rightarrow> ubik_state \<Rightarrow> (int \<times> int) \<times> ubik_state" where
  "ubeacon_wait_for_votes now rs loc s =
     (let ((go, yesVotes, voteTime), s) = collect_votes now rs (0, 0x7fffffff) s
      in if \<not> go then ((yesVotes, voteTime), s)
         else if fst loc = U_ok \<and> snd loc \<noteq> 0
         then ((yesVotes + 2 + (if amIMagic s then 1 else 0), min (snd loc) voteTime), s)
         else ((yesVotes, voteTime), s))"

text \<open>
  The body of the loop of \<open>ubeacon_Interact\<close> after the sleep, in two halves: what is sent, and what
  is made of the answers (the lock is released between them, so other operations may intervene).
\<close>

definition interact_start :: "bool \<Rightarrow> int \<Rightarrow> bool \<Rightarrow> ubik_state \<Rightarrow> ubik_round option \<times> ubik_state" where
  "interact_start le now parset s =
     (if nServers s = 1 then (None, s)
      else if \<not> uvote_ShouldIRun le now s then (None, s)
      else
        let idx = filter (\<lambda>i. up (servers s ! i) \<and> addr (servers s ! i) \<noteq> addr (host s)) [0..<length (servers s)];
            ttid = \<lparr>t_epoch = epochTime s,
                    t_counter = (if dbWriting s then writeTidCounter s else tidCounter s + 1)\<rparr>;
            (sync, s) = ubeacon_AmSyncSite now s
        in if \<not> parset then (None, s)
           else (Some \<lparr>b_servers = idx, b_syncsite = of_bool sync, b_startTime = now,
                       b_version = dbaseVersion s, b_ttid = ttid\<rparr>, s))"

definition interact_finish :: "int \<Rightarrow> (nat \<times> ucode \<times> int) list \<Rightarrow> ucode \<times> int \<Rightarrow> ubik_state \<Rightarrow> ubik_state" where
  "interact_finish now rs loc s =
     (let ((yesVotes, oldestYesVote), s) = ubeacon_wait_for_votes now rs loc s
      in if yesVotes > nServers s then
           let temp = oldestYesVote + SMALLTIME; s = s\<lparr>amSyncSite := True\<rparr>
           in if syncSiteUntil s < temp then s\<lparr>syncSiteUntil := temp\<rparr> else s
         else urecovery_ResetState False (s\<lparr>amSyncSite := False\<rparr>))"

text \<open>
  One round of the beacon thread: what it sends, the vote of its own voter, and the answers \<open>rs\<close> of the servers that
  were asked.  Nothing else happens between the steps.
\<close>

definition interact_round ::
  "bool \<Rightarrow> int \<Rightarrow> int \<Rightarrow> int \<Rightarrow> (nat \<times> ucode \<times> int) list \<Rightarrow> ubik_state \<Rightarrow> ubik_state" where
  "interact_round le now voted counted rs s =
     (case interact_start le now True s of
        (None, s) \<Rightarrow> s
      | (Some r, s) \<Rightarrow>
          let (loc, s) = ubeacon_local_beacon le voted voted (b_syncsite r) r s
          in interact_finish counted (filter (\<lambda>(i, _). i \<in> set (b_servers r)) rs) loc s)"

end
