(* ===== verification/Ubik_Safety.thy ===== *)
theory Ubik_Safety
  imports Ubik
begin

text \<open>
  At most one synchronization site: a system of Ubik servers whose steps are the operations of
  \<^verbatim>\<open>Ubik\<close>, in any order, with lost and late messages, restarts and resets.

  \<^item> \<open>weighted_quorum\<close> is the interface of the counting of votes, interpreted on the model's weights
    (two per server and one more for the magic host).
  \<^item> A system state has the real time \<open>tau\<close>, the servers' states, and the history of yes votes
    \<open>(voter, candidate, voter's time)\<close>.  \<open>clk h tau\<close> is what \<open>time(0)\<close> reads on host \<open>h\<close>.
  \<^item> \<open>Vote\<close> is the part of \<open>SUBIKVOTE_Beacon\<close> under the lock, with a reading of the clock that may be
    old; \<open>Reset\<close> may happen at any moment.  Every run of the handler is one of them or no change.
\<close>

section \<open>Weighted quorums\<close>

locale weighted_quorum =
  fixes H :: "'h set" and w :: "'h \<Rightarrow> int" and n :: int
  assumes finite_H: "finite H"
    and w_nonneg: "h \<in> H \<Longrightarrow> 0 \<le> w h"
    and w_total: "sum w H \<le> 2 * n + 1"
begin

definition quorum :: "'h set \<Rightarrow> bool" where
  "quorum Q \<longleftrightarrow> Q \<subseteq> H \<and> n < sum w Q"

lemma quorums_meet:
  assumes "quorum P" and "quorum Q"
  shows "\<exists>v. v \<in> P \<and> v \<in> Q"
proof (rule ccontr)
  assume "\<not> ?thesis"
  then have disj: "P \<inter> Q = {}" by auto
  have fin: "finite P" "finite Q"
    using assms finite_H by (auto simp: quorum_def intro: finite_subset)
  have "sum w P + sum w Q = sum w (P \<union> Q)" using disj fin by (simp add: sum.union_disjoint)
  also have "\<dots> \<le> sum w H"
    using assms finite_H w_nonneg by (intro sum_mono2) (auto simp: quorum_def)
  finally show False using assms w_total by (simp add: quorum_def)
qed

lemma quorum_not_empty: "quorum Q \<Longrightarrow> 0 \<le> n \<Longrightarrow> Q \<noteq> {}"
  by (auto simp: quorum_def)

end

definition vote_weight :: "u32 \<Rightarrow> u32 \<Rightarrow> int" where
  "vote_weight m h = 2 + (if h = m then 1 else 0)"

lemma sum_vote_weight: "finite S \<Longrightarrow> sum (vote_weight m) S = 2 * int (card S) + (if m \<in> S then 1 else 0)"
  by (simp add: vote_weight_def sum.distrib)

interpretation uq: weighted_quorum "set hs" "vote_weight m" "int (card (set hs))" for hs m
  by unfold_locales (simp_all add: sum_vote_weight, simp add: vote_weight_def)

section \<open>The system\<close>

record ubik_sys =
  tau :: int
  nodes :: "u32 \<Rightarrow> ubik_state"
  hist :: "(u32 \<times> u32 \<times> int) set"

text \<open>What a server's configuration says, and what no operation changes.\<close>

definition node_cfg :: "u32 list \<Rightarrow> u32 \<Rightarrow> u32 \<Rightarrow> ubik_state \<Rightarrow> bool" where
  "node_cfg hs m h s \<longleftrightarrow>
     addr (host s) = h \<and> nServers s = int (card (set hs)) \<and> (amIMagic s \<longleftrightarrow> h = m) \<and>
     distinct (map addr (servers s)) \<and>
     (\<forall>ts \<in> set (servers s). addr ts \<in> set hs \<and> addr ts \<noteq> h \<and> (magic ts \<longleftrightarrow> addr ts = m))"

definition node_fresh :: "u32 list \<Rightarrow> u32 \<Rightarrow> u32 \<Rightarrow> int \<Rightarrow> ubik_state \<Rightarrow> bool" where
  "node_fresh hs m h now s \<longleftrightarrow>
     (\<exists>s0. s = uvote_Init now s0 \<and> node_cfg hs m h s0 \<and> lastYesHost s0 = 0xffffffff
       \<and> \<not> amSyncSite s0 \<and> syncSiteUntil s0 = 0)"

text \<open>The clocks: not negative, never back, and never further apart than \<open>BIGTIME - SMALLTIME\<close>.\<close>

definition clocks :: "(u32 \<Rightarrow> int \<Rightarrow> int) \<Rightarrow> u32 list \<Rightarrow> bool" where
  "clocks clk hs \<longleftrightarrow>
     (\<forall>h \<in> set hs. \<forall>t. 0 \<le> clk h t \<and> (\<forall>t' \<ge> t. clk h t \<le> clk h t')
       \<and> (\<forall>g \<in> set hs. clk h t \<le> clk g t + (BIGTIME - SMALLTIME)))"

inductive ubik_step ::
  "bool \<Rightarrow> (u32 \<Rightarrow> int \<Rightarrow> int) \<Rightarrow> u32 list \<Rightarrow> u32 \<Rightarrow> ubik_sys \<Rightarrow> ubik_sys \<Rightarrow> bool"
  for le clk hs m where
  Tick: "tau y \<le> t \<Longrightarrow> ubik_step le clk hs m y (y\<lparr>tau := t\<rparr>)"
| Vote: "v \<in> set hs \<Longrightarrow> c \<in> set hs \<Longrightarrow> now \<le> clk v (tau y) \<Longrightarrow>
    beacon_vote le now (c, r, p) astate astart avers atid (nodes y v) = (t, s') \<Longrightarrow>
    ubik_step le clk hs m y (y\<lparr>nodes := (nodes y)(v := s'), hist := (if t \<noteq> 0 then insert (v, c, t) (hist y) else hist y)\<rparr>)"
| Reset: "v \<in> set hs \<Longrightarrow>
    ubik_step le clk hs m y (y\<lparr>nodes := (nodes y)(v := ubik_ResetState (clk v (tau y)) (nodes y v))\<rparr>)"
| Decide: "a \<in> set hs \<Longrightarrow> distinct (map fst rs) \<Longrightarrow> \<forall>(i, st, vt) \<in> set rs. i < length (servers (nodes y a)) \<Longrightarrow>
    \<forall>(i, st, vt) \<in> set rs. st = U_ok \<and> vt \<noteq> 0 \<longrightarrow> (addr (servers (nodes y a) ! i), a, vt) \<in> hist y \<Longrightarrow>
    fst loc = U_ok \<and> snd loc \<noteq> 0 \<longrightarrow> (a, a, snd loc) \<in> hist y \<Longrightarrow>
    ubik_step le clk hs m y (y\<lparr>nodes := (nodes y)(a := interact_finish (clk a (tau y)) rs loc (nodes y a))\<rparr>)"
| Query: "a \<in> set hs \<Longrightarrow>
    ubik_step le clk hs m y (y\<lparr>nodes := (nodes y)(a := snd (ubeacon_AmSyncSite (clk a (tau y)) (nodes y a)))\<rparr>)"
| Restart: "h \<in> set hs \<Longrightarrow> node_fresh hs m h (clk h (tau y)) s' \<Longrightarrow>
    ubik_step le clk hs m y (y\<lparr>nodes := (nodes y)(h := s')\<rparr>)"

inductive ubik_reach :: "bool \<Rightarrow> (u32 \<Rightarrow> int \<Rightarrow> int) \<Rightarrow> u32 list \<Rightarrow> u32 \<Rightarrow> ubik_sys \<Rightarrow> bool"
  for le clk hs m where
  Start: "\<forall>h \<in> set hs. node_fresh hs m h (clk h (tau y)) (nodes y h) \<Longrightarrow> hist y = {} \<Longrightarrow> ubik_reach le clk hs m y"
| Step: "ubik_reach le clk hs m y \<Longrightarrow> ubik_step le clk hs m y z \<Longrightarrow> ubik_reach le clk hs m z"

section \<open>Frames\<close>

lemma ball_addr_magic:
  "(\<forall>ts \<in> set xs. P (addr ts) (magic ts)) \<longleftrightarrow> (\<forall>q \<in> set (zip (map addr xs) (map magic xs)). P (fst q) (snd q))"
  by (induction xs) auto

lemma node_cfg_frame:
  assumes "map addr (servers s') = map addr (servers s)" and "map magic (servers s') = map magic (servers s)"
    and "addr (host s') = addr (host s)" and "nServers s' = nServers s" and "amIMagic s' = amIMagic s"
  shows "node_cfg hs m h s' = node_cfg hs m h s"
  using ball_addr_magic [of "servers s" "\<lambda>a g. a \<in> set hs \<and> a \<noteq> h \<and> (g \<longleftrightarrow> a = m)"]
    ball_addr_magic [of "servers s'" "\<lambda>a g. a \<in> set hs \<and> a \<noteq> h \<and> (g \<longleftrightarrow> a = m)"]
  by (simp add: node_cfg_def assms)

lemma beacon_parts_frame [simp, frame]:
  "servers (beacon_sync now a c s) = servers s" "host (beacon_sync now a c s) = host s"
  "nServers (beacon_sync now a c s) = nServers s" "amIMagic (beacon_sync now a c s) = amIMagic s"
  "amSyncSite (beacon_sync now a c s) = amSyncSite s" "syncSiteUntil (beacon_sync now a c s) = syncSiteUntil s"
  "lastYesTime (beacon_sync now a c s) = lastYesTime s" "lastYesHost (beacon_sync now a c s) = lastYesHost s"
  "lastYesClaim (beacon_sync now a c s) = lastYesClaim s"
  "servers (beacon_lowest le now c s) = servers s" "host (beacon_lowest le now c s) = host s"
  "nServers (beacon_lowest le now c s) = nServers s" "amIMagic (beacon_lowest le now c s) = amIMagic s"
  "amSyncSite (beacon_lowest le now c s) = amSyncSite s" "syncSiteUntil (beacon_lowest le now c s) = syncSiteUntil s"
  "lastYesTime (beacon_lowest le now c s) = lastYesTime s" "lastYesHost (beacon_lowest le now c s) = lastYesHost s"
  "lastYesClaim (beacon_lowest le now c s) = lastYesClaim s"
  by (simp_all add: beacon_sync_def beacon_lowest_def Let_def)

lemma urecovery_CheckTid_frame [simp, frame]:
  "servers (urecovery_CheckTid t s) = servers s" "host (urecovery_CheckTid t s) = host s"
  "nServers (urecovery_CheckTid t s) = nServers s" "amIMagic (urecovery_CheckTid t s) = amIMagic s"
  "amSyncSite (urecovery_CheckTid t s) = amSyncSite s" "syncSiteUntil (urecovery_CheckTid t s) = syncSiteUntil s"
  "lastYesTime (urecovery_CheckTid t s) = lastYesTime s" "lastYesHost (urecovery_CheckTid t s) = lastYesHost s"
  "lastYesState (urecovery_CheckTid t s) = lastYesState s" "lastYesClaim (urecovery_CheckTid t s) = lastYesClaim s"
  by (simp_all add: urecovery_CheckTid_def split: option.split)

text \<open>The vote itself: what it depends on and what it promises.\<close>

lemma beacon_vote_cases:
  obtains (no) s1 where "beacon_vote le now (c, r, p) astate astart avers atid s = (0, beacon_sync now astate c (beacon_lowest le now c s))"
  | (yes) "lastYesTime s \<le> now" "lastYesClaim s \<le> astart" "lastYesTime s + BIGTIME < now \<or> c = lastYesHost s"
    "beacon_vote le now (c, r, p) astate astart avers atid s =
      (now, urecovery_CheckTid atid (beacon_sync now astate c (beacon_lowest le now c s)
        \<lparr>lastYesTime := now, lastYesClaim := astart, lastYesHost := c, lastYesRealm := r, lastYesPrinc := p,
         lastYesState := astate, dbVersion := avers, dbTid := atid\<rparr>))"
  unfolding beacon_vote_def Let_def prod.case
  by (simp only: beacon_parts_frame split: if_split_asm) metis

lemma beacon_vote_frame [frame]:
  assumes "beacon_vote le now (c, r, p) astate astart avers atid s = (t, s')"
  shows "servers s' = servers s" "host s' = host s" "nServers s' = nServers s" "amIMagic s' = amIMagic s"
    "amSyncSite s' = amSyncSite s" "syncSiteUntil s' = syncSiteUntil s"
  using assms by (cases rule: beacon_vote_cases [of le now c r p astate astart avers atid s]; auto)+

lemma beacon_vote_result:
  assumes "beacon_vote le now (c, r, p) astate astart avers atid s = (t, s')"
  shows "t = 0 \<and> lastYesTime s' = lastYesTime s \<and> lastYesHost s' = lastYesHost s
    \<or> t = now \<and> lastYesTime s \<le> now \<and> lastYesTime s' = now \<and> lastYesHost s' = c
      \<and> (lastYesTime s + BIGTIME < now \<or> c = lastYesHost s)"
  using assms by (cases rule: beacon_vote_cases [of le now c r p astate astart avers atid s]) auto

lemma ubik_ResetState_frame [simp]:
  "map addr (servers (ubik_ResetState now s)) = map addr (servers s)"
  "map magic (servers (ubik_ResetState now s)) = map magic (servers s)"
  "addr (host (ubik_ResetState now s)) = addr (host s)" "nServers (ubik_ResetState now s) = nServers s"
  "amIMagic (ubik_ResetState now s) = amIMagic s" "\<not> amSyncSite (ubik_ResetState now s)"
  "syncSiteUntil (ubik_ResetState now s) = syncSiteUntil s"
  "lastYesTime (ubik_ResetState now s) = now" "lastYesHost (ubik_ResetState now s) = 0xffffffff"
  by (simp_all add: ubik_ResetState_def urecovery_ResetState_def uvote_ResetState_def ubeacon_ResetState_def
      server_reset_def Let_def comp_def)

section \<open>Counting the answers\<close>

lemma upd_server_frame [simp, frame]:
  assumes "\<And>ts. addr (f ts) = addr ts" and "\<And>ts. magic (f ts) = magic ts"
  shows "map addr (servers (upd_server i f s)) = map addr (servers s)"
    and "map magic (servers (upd_server i f s)) = map magic (servers s)"
    and "length (servers (upd_server i f s)) = length (servers s)"
    and "host (upd_server i f s) = host s" and "nServers (upd_server i f s) = nServers s"
    and "amIMagic (upd_server i f s) = amIMagic s" and "amSyncSite (upd_server i f s) = amSyncSite s"
    and "syncSiteUntil (upd_server i f s) = syncSiteUntil s" and "lastYesTime (upd_server i f s) = lastYesTime s"
    and "lastYesHost (upd_server i f s) = lastYesHost s"
  using assms by (auto simp: upd_server_def map_update list_update_same_conv)

lemma urecovery_LostServer_frame [simp, frame]:
  "servers (urecovery_LostServer s) = servers s" "host (urecovery_LostServer s) = host s"
  "nServers (urecovery_LostServer s) = nServers s" "amIMagic (urecovery_LostServer s) = amIMagic s"
  "amSyncSite (urecovery_LostServer s) = amSyncSite s" "syncSiteUntil (urecovery_LostServer s) = syncSiteUntil s"
  "lastYesTime (urecovery_LostServer s) = lastYesTime s" "lastYesHost (urecovery_LostServer s) = lastYesHost s"
  by (simp_all add: urecovery_LostServer_def)

definition yes_answers :: "(nat \<times> ucode \<times> int) list \<Rightarrow> (nat \<times> ucode \<times> int) list" where
  "yes_answers rs = filter (\<lambda>(i, st, vt). st = U_ok \<and> vt \<noteq> 0) rs"

lemma yes_answers_simps [simp]:
  "yes_answers [] = []"
  "yes_answers ((i, st, vt) # rs) = (if st = U_ok \<and> vt \<noteq> 0 then (i, st, vt) # yes_answers rs else yes_answers rs)"
  by (simp_all add: yes_answers_def)

text \<open>What the operations of a round keep: the configuration, and who was voted for.\<close>

definition same_node :: "ubik_state \<Rightarrow> ubik_state \<Rightarrow> bool" where
  "same_node s s' \<longleftrightarrow> map addr (servers s') = map addr (servers s) \<and> map magic (servers s') = map magic (servers s)
     \<and> addr (host s') = addr (host s) \<and> nServers s' = nServers s \<and> amIMagic s' = amIMagic s
     \<and> syncSiteUntil s' = syncSiteUntil s"

lemma same_node_trans: "same_node a b \<Longrightarrow> same_node b c \<Longrightarrow> same_node a c"
  by (simp add: same_node_def)

lemma same_node_upd [simp]:
  "(\<And>ts. addr (f ts) = addr ts) \<Longrightarrow> (\<And>ts. magic (f ts) = magic ts) \<Longrightarrow> same_node s (upd_server i f s)"
  by (simp add: same_node_def)

lemma same_node_reset [simp]: "same_node s (ubik_ResetState now s)" and
  same_node_lost [simp]: "same_node s (urecovery_LostServer s)"
  by (simp_all add: same_node_def)

lemma same_node_nth:
  "same_node s s' \<Longrightarrow> i < length (servers s) \<Longrightarrow>
    addr (servers s' ! i) = addr (servers s ! i) \<and> magic (servers s' ! i) = magic (servers s ! i)"
  unfolding same_node_def by (metis length_map nth_map)

lemma same_node_length: "same_node s s' \<Longrightarrow> length (servers s') = length (servers s)"
  unfolding same_node_def by (metis length_map)

text \<open>The three ways an answer is taken into account.\<close>

lemma collect_votes_Cons:
  obtains (bad) s1 where "st \<noteq> U_ok" "st \<noteq> USKEWED" "same_node s s1" "lastYesTime s1 = lastYesTime s"
      "lastYesHost s1 = lastYesHost s" "collect_votes now ((i, st, vt) # rs) (y, t) s = collect_votes now rs (y, t) s1"
  | (skewed) s1 where "same_node s s1" "st = USKEWED"
      "collect_votes now ((i, st, vt) # rs) (y, t) s = ((False, 0, 0x7fffffff), ubik_ResetState now s1)"
  | (no) s1 where "st = U_ok" "vt = 0" "same_node s s1" "lastYesTime s1 = lastYesTime s" "lastYesHost s1 = lastYesHost s"
      "collect_votes now ((i, st, vt) # rs) (y, t) s = collect_votes now rs (y, t) s1"
  | (yes) s1 where "st = U_ok" "vt \<noteq> 0" "same_node s s1" "lastYesTime s1 = lastYesTime s" "lastYesHost s1 = lastYesHost s"
      "collect_votes now ((i, st, vt) # rs) (y, t) s =
        collect_votes now rs (y + 2 + (if i < length (servers s) \<and> magic (servers s ! i) then 1 else 0), min vt t) s1"
proof -
  define s0 where "s0 = upd_server i (\<lambda>ts. ts\<lparr>lastBeaconSent := now\<rparr>) s"
  have s0: "same_node s s0" "lastYesTime s0 = lastYesTime s" "lastYesHost s0 = lastYesHost s"
    by (simp_all add: s0_def)
  have next_node: "same_node s (upd_server i f s0)"
    if "\<And>ts. addr (f ts) = addr ts" "\<And>ts. magic (f ts) = magic ts" for f
    by (rule same_node_trans [OF s0(1) same_node_upd [OF that]])
  have m: "(i < length (servers s0) \<and> magic (servers s0 ! i)) \<longleftrightarrow> (i < length (servers s) \<and> magic (servers s ! i))"
    using same_node_nth [OF s0(1)] same_node_length [OF s0(1)] by auto
  consider "st \<noteq> U_ok" "st \<noteq> USKEWED" | "st = USKEWED" | "st = U_ok" "vt = 0" | "st = U_ok" "vt \<noteq> 0" by blast
  then show thesis
  proof cases
    case 1
    show ?thesis
      by (rule bad [OF 1, of "urecovery_LostServer (upd_server i (\<lambda>ts. ts\<lparr>up := False, beaconSinceDown := False\<rparr>) s0)"])
        (use 1 s0 in \<open>simp_all add: Let_def s0_def [symmetric] same_node_trans [OF next_node same_node_lost]\<close>)
  next
    case 2
    show ?thesis
      by (rule skewed [of "urecovery_LostServer (upd_server i (\<lambda>ts. ts\<lparr>up := False, beaconSinceDown := False\<rparr>) s0)"])
        (use 2 s0 in \<open>simp_all add: Let_def s0_def [symmetric] same_node_trans [OF next_node same_node_lost]\<close>)
  next
    case 3
    show ?thesis
      by (rule no [OF 3, of "upd_server i (\<lambda>ts. ts\<lparr>lastVoteTime := now, lastVote := False, up := True, beaconSinceDown := True\<rparr>) s0"])
        (use 3 s0 in \<open>simp_all add: Let_def s0_def [symmetric] next_node\<close>)
  next
    case 4
    show ?thesis
      by (rule yes [OF 4, of "upd_server i (\<lambda>ts. ts\<lparr>lastVoteTime := vt, lastVote := True, up := True, beaconSinceDown := True\<rparr>) s0"])
        (use 4 s0 m in \<open>simp_all add: Let_def s0_def [symmetric] next_node\<close>)
  qed
qed

lemma collect_votes_result:
  assumes "collect_votes now rs (y0, t0) s = ((go, y, t), s')" and "node_cfg hs m h s"
    and "\<forall>(i, st, vt) \<in> set rs. i < length (servers s)"
  shows "same_node s s' \<and>
    (if go then lastYesTime s' = lastYesTime s \<and> lastYesHost s' = lastYesHost s \<and> t \<le> t0
         \<and> y = y0 + sum_list (map (\<lambda>q. vote_weight m (addr (servers s ! fst q))) (yes_answers rs))
         \<and> (\<forall>(i, st, vt) \<in> set (yes_answers rs). t \<le> vt)
     else y = 0 \<and> lastYesTime s' = now \<and> lastYesHost s' = 0xffffffff)"
  using assms
proof (induction rs arbitrary: y0 t0 s)
  case Nil
  then show ?case by (simp add: same_node_def)
next
  case (Cons r rs)
  obtain i st vt where r: "r = (i, st, vt)" by (cases r)
  have i: "i < length (servers s)" using Cons.prems(3) by (simp add: r)
  have cfg: "node_cfg hs m h s1" if "same_node s s1" for s1
    using node_cfg_frame [of s1 s] that Cons.prems(2) by (simp add: same_node_def)
  have len: "\<forall>(i, st, vt) \<in> set rs. i < length (servers s1)" if "same_node s s1" for s1
    using Cons.prems(3) same_node_length [OF that] by auto
  have sums: "sum_list (map (\<lambda>q. vote_weight m (addr (servers s1 ! fst q))) (yes_answers rs)) =
      sum_list (map (\<lambda>q. vote_weight m (addr (servers s ! fst q))) (yes_answers rs))" if "same_node s s1" for s1
    using same_node_nth [OF that] Cons.prems(3)
    by (intro arg_cong [where f = sum_list] map_cong) (auto simp: yes_answers_def)
  show ?case
  proof (cases rule: collect_votes_Cons [of st s now i vt rs y0 t0])
    case (bad s1)
    from Cons.IH [OF _ cfg [OF bad(3)] len [OF bad(3)], of y0 t0] show ?thesis
      using Cons.prems(1) bad sums [OF bad(3)] same_node_trans [OF bad(3), of s'] by (simp add: r)
  next
    case (skewed s1)
    then show ?thesis
      using Cons.prems(1) same_node_trans [OF skewed(1) same_node_reset, of now] by (auto simp: r)
  next
    case (no s1)
    from Cons.IH [OF _ cfg [OF no(3)] len [OF no(3)], of y0 t0] show ?thesis
      using Cons.prems(1) no sums [OF no(3)] same_node_trans [OF no(3), of s'] by (simp add: r)
  next
    case (yes s1)
    have "servers s ! i \<in> set (servers s)" using i by simp
    then have w: "(2 :: int) + (if i < length (servers s) \<and> magic (servers s ! i) then 1 else 0) = vote_weight m (addr (servers s ! i))"
      using Cons.prems(2) i by (simp add: node_cfg_def vote_weight_def)
    have "collect_votes now rs (y0 + vote_weight m (addr (servers s ! i)), min vt t0) s1 = ((go, y, t), s')"
      using Cons.prems(1) yes(6) by (simp add: r w [symmetric] add.assoc)
    from Cons.IH [OF this cfg [OF yes(3)] len [OF yes(3)]] show ?thesis
      using yes(1-5) sums [OF yes(3)] same_node_trans [OF yes(3), of s']
      by (auto simp: r)
  qed
qed

definition guarantee :: "u32 list \<Rightarrow> u32 \<Rightarrow> (u32 \<times> u32 \<times> int) set \<Rightarrow> u32 \<Rightarrow> int \<Rightarrow> bool" where
  "guarantee hs m H a until \<longleftrightarrow>
     until \<le> 0 \<or> (\<exists>Q. uq.quorum hs m Q \<and> (\<forall>v \<in> Q. \<exists>t. (v, a, t) \<in> H \<and> until \<le> t + SMALLTIME))"

lemma guarantee_mono: "guarantee hs m H a u \<Longrightarrow> H \<subseteq> H' \<Longrightarrow> guarantee hs m H' a u"
  unfolding guarantee_def by blast

lemma interact_finish_result:
  assumes s': "s' = interact_finish now rs loc s" and cfg: "node_cfg hs m a s" and a: "a \<in> set hs"
    and dist: "distinct (map fst rs)" and len: "\<forall>(i, st, vt) \<in> set rs. i < length (servers s)"
    and ans: "\<forall>(i, st, vt) \<in> set rs. st = U_ok \<and> vt \<noteq> 0 \<longrightarrow> (addr (servers s ! i), a, vt) \<in> H"
    and loc: "fst loc = U_ok \<and> snd loc \<noteq> 0 \<longrightarrow> (a, a, snd loc) \<in> H"
    and old: "guarantee hs m H a (syncSiteUntil s)"
  shows "node_cfg hs m a s'" and "guarantee hs m H a (syncSiteUntil s')"
    and "lastYesTime s' = lastYesTime s \<and> lastYesHost s' = lastYesHost s \<or> lastYesTime s' = now \<and> lastYesHost s' = 0xffffffff"
proof -
  obtain go y t s1 where cv: "collect_votes now rs (0, 0x7fffffff) s = ((go, y, t), s1)"
    by (metis surj_pair)
  note res = collect_votes_result [OF cv cfg len]
  have cfg1: "node_cfg hs m a s1" using res cfg node_cfg_frame [of s1 s] by (simp add: same_node_def)
  define lyes where "lyes \<longleftrightarrow> fst loc = U_ok \<and> snd loc \<noteq> 0"
  define y' where "y' = (if go \<and> lyes then y + vote_weight m a else y)"
  define t' where "t' = (if go \<and> lyes then min (snd loc) t else t)"
  define won where "won \<longleftrightarrow> y' > nServers s1"
  have fin: "s' = (if won then (if syncSiteUntil s1 < t' + SMALLTIME then s1\<lparr>amSyncSite := True, syncSiteUntil := t' + SMALLTIME\<rparr>
        else s1\<lparr>amSyncSite := True\<rparr>) else urecovery_ResetState False (s1\<lparr>amSyncSite := False\<rparr>))"
    using cfg1 unfolding s' interact_finish_def ubeacon_wait_for_votes_def cv
    by (auto simp: lyes_def y'_def t'_def won_def vote_weight_def node_cfg_def Let_def add.assoc)
  have same: "lastYesTime s' = lastYesTime s1 \<and> lastYesHost s' = lastYesHost s1 \<and> servers s' = servers s1
      \<and> host s' = host s1 \<and> nServers s' = nServers s1 \<and> amIMagic s' = amIMagic s1"
    by (simp add: fin urecovery_ResetState_def)
  then show "node_cfg hs m a s'" using cfg1 node_cfg_frame [of s' s1] by simp
  show "lastYesTime s' = lastYesTime s \<and> lastYesHost s' = lastYesHost s \<or> lastYesTime s' = now \<and> lastYesHost s' = 0xffffffff"
    using same res by (auto split: if_splits)
  show "guarantee hs m H a (syncSiteUntil s')"
  proof (cases "won \<and> syncSiteUntil s1 < t' + SMALLTIME")
    case False
    then have "syncSiteUntil s' = syncSiteUntil s"
      using res by (auto simp: fin urecovery_ResetState_def same_node_def)
    with old show ?thesis by simp
  next
    case True
    then have until: "syncSiteUntil s' = t' + SMALLTIME" by (simp add: fin)
    have nS: "nServers s1 = int (card (set hs))" using cfg1 by (simp add: node_cfg_def)
    have go: "go" using True res by (auto simp: won_def y'_def nS split: if_splits)
    define ys where "ys = map (\<lambda>q. addr (servers s ! fst q)) (yes_answers rs)"
    define Q where "Q = (if lyes then insert a (set ys) else set ys)"
    have in_rs: "q \<in> set rs \<and> fst (snd q) = U_ok \<and> snd (snd q) \<noteq> 0" if "q \<in> set (yes_answers rs)" for q
      using that by (auto simp: yes_answers_def)
    have "distinct ys"
    proof -
      have "distinct (map fst (yes_answers rs))"
        using dist by (simp add: yes_answers_def distinct_map_filter)
      moreover have "inj_on (\<lambda>i. addr (servers s ! i)) {..<length (servers s)}"
        using cfg by (auto simp: node_cfg_def inj_on_def distinct_conv_nth)
      then have "inj_on (\<lambda>i. addr (servers s ! i)) (set (map fst (yes_answers rs)))"
        by (rule inj_on_subset) (use len in_rs in fastforce)
      ultimately have "distinct (map (\<lambda>i. addr (servers s ! i)) (map fst (yes_answers rs)))"
        by (simp only: distinct_map)
      then show ?thesis by (simp add: ys_def comp_def)
    qed
    have mem: "set ys \<subseteq> set hs - {a}"
      using cfg len in_rs by (fastforce simp: ys_def node_cfg_def)
    have "sum_list (map (vote_weight m) ys) = sum (vote_weight m) (set ys)"
      using \<open>distinct ys\<close> by (simp add: sum_list_distinct_conv_sum_set)
    then have "y = sum (vote_weight m) (set ys)"
      using res go by (simp add: ys_def comp_def)
    moreover have "a \<notin> set ys" using mem by auto
    ultimately have "y' = sum (vote_weight m) Q" using go by (simp add: y'_def Q_def)
    then have "uq.quorum hs m Q"
      using True mem a by (auto simp: uq.quorum_def won_def nS Q_def split: if_splits)
    moreover have "\<exists>u. (v, a, u) \<in> H \<and> t' \<le> u" if "v \<in> Q" for v
    proof (cases "v \<in> set ys")
      case True
      then obtain q where q: "q \<in> set (yes_answers rs)" "v = addr (servers s ! fst q)" by (auto simp: ys_def)
      then have "(v, a, snd (snd q)) \<in> H" using in_rs [OF q(1)] ans by (cases q) auto
      moreover have "t' \<le> snd (snd q)" using res go q(1) by (cases q) (auto simp: t'_def)
      ultimately show ?thesis by blast
    next
      case False
      with that have "v = a" "lyes" by (auto simp: Q_def split: if_splits)
      then show ?thesis using loc go by (auto simp: t'_def lyes_def intro!: exI [of _ "snd loc"])
    qed
    ultimately show ?thesis unfolding guarantee_def until by force
  qed
qed

section \<open>The invariant\<close>

definition vote_history :: "(u32 \<times> u32 \<times> int) set \<Rightarrow> bool" where
  "vote_history H \<longleftrightarrow>
     (\<forall>v c t c' t'. (v, c, t) \<in> H \<and> (v, c', t') \<in> H \<and> c \<noteq> c' \<longrightarrow> t + BIGTIME < t' \<or> t' + BIGTIME < t)"

definition voter_ok :: "u32 list \<Rightarrow> (u32 \<times> u32 \<times> int) set \<Rightarrow> int \<Rightarrow> u32 \<Rightarrow> ubik_state \<Rightarrow> bool" where
  "voter_ok hs H now v s \<longleftrightarrow> lastYesTime s \<le> now
     \<and> (\<forall>c t. (v, c, t) \<in> H \<longrightarrow> c \<in> set hs \<and> t \<le> lastYesTime s
        \<and> (lastYesHost s \<noteq> 0xffffffff \<longrightarrow> c \<noteq> lastYesHost s \<longrightarrow> t + BIGTIME < lastYesTime s))"

definition ubik_inv :: "(u32 \<Rightarrow> int \<Rightarrow> int) \<Rightarrow> u32 list \<Rightarrow> u32 \<Rightarrow> ubik_sys \<Rightarrow> bool" where
  "ubik_inv clk hs m y \<longleftrightarrow> vote_history (hist y) \<and>
     (\<forall>h \<in> set hs. node_cfg hs m h (nodes y h) \<and> voter_ok hs (hist y) (clk h (tau y)) h (nodes y h)
        \<and> guarantee hs m (hist y) h (syncSiteUntil (nodes y h)))"

lemma voter_ok_later: "voter_ok hs H now v s \<Longrightarrow> now \<le> now' \<Longrightarrow> voter_ok hs H now' v s"
  by (auto simp: voter_ok_def)

lemma voter_ok_fresh:
  "voter_ok hs H now v s \<Longrightarrow> lastYesTime s' = now \<Longrightarrow> lastYesHost s' = 0xffffffff \<Longrightarrow> voter_ok hs H now v s'"
  unfolding voter_ok_def by fastforce

text \<open>A yes vote keeps the promises made: votes for two hosts are more than \<open>BIGTIME\<close> apart.\<close>

lemma vote_step:
  assumes ok: "voter_ok hs H now' v s" and h: "vote_history H" and now: "now \<le> now'" and c: "c \<in> set hs"
    and no_nil: "0xffffffff \<notin> set hs"
    and vote: "beacon_vote le now (c, r, p) astate astart avers atid s = (t, s')"
  defines "H' \<equiv> (if t \<noteq> 0 then insert (v, c, t) H else H)"
  shows "voter_ok hs H' now' v s' \<and> vote_history H'"
proof -
  consider "t = 0" "lastYesTime s' = lastYesTime s" "lastYesHost s' = lastYesHost s"
    | "t = now" "lastYesTime s \<le> now" "lastYesTime s' = now" "lastYesHost s' = c"
      "lastYesTime s + BIGTIME < now \<or> c = lastYesHost s"
    using beacon_vote_result [OF vote] by blast
  then show ?thesis
  proof cases
    case 1
    then show ?thesis using ok h by (simp add: H'_def voter_ok_def)
  next
    case 2
    have c': "c \<noteq> 0xffffffff" using c no_nil by auto
    have gap: "d \<in> set hs \<and> u \<le> now \<and> (d \<noteq> c \<longrightarrow> u + BIGTIME < now)" if "(v, d, u) \<in> H" for d u
    proof -
      have "d \<in> set hs" "u \<le> lastYesTime s" using ok that by (auto simp: voter_ok_def)
      moreover have "u + BIGTIME < lastYesTime s" if "d \<noteq> c" "c = lastYesHost s"
        using ok \<open>(v, d, u) \<in> H\<close> that c' by (auto simp: voter_ok_def)
      ultimately show ?thesis using 2(2,5) by fastforce
    qed
    have "voter_ok hs H' now' v s'"
      using gap now c 2(1,3,4) by (auto simp: voter_ok_def H'_def)
    moreover have "vote_history H'"
      using h gap 2(1) unfolding vote_history_def H'_def by (auto split: if_splits) blast+
    ultimately show ?thesis by blast
  qed
qed

lemma AmSyncSite_frame [simp, frame]:
  "servers (snd (ubeacon_AmSyncSite now s)) = servers s" "host (snd (ubeacon_AmSyncSite now s)) = host s"
  "nServers (snd (ubeacon_AmSyncSite now s)) = nServers s" "amIMagic (snd (ubeacon_AmSyncSite now s)) = amIMagic s"
  "syncSiteUntil (snd (ubeacon_AmSyncSite now s)) = syncSiteUntil s"
  "lastYesTime (snd (ubeacon_AmSyncSite now s)) = lastYesTime s"
  "lastYesHost (snd (ubeacon_AmSyncSite now s)) = lastYesHost s"
  by (simp_all add: ubeacon_AmSyncSite_def urecovery_ResetState_def Let_def)

lemma node_fresh_facts:
  assumes "node_fresh hs m h now s"
  shows "node_cfg hs m h s" "lastYesTime s = now" "lastYesHost s = 0xffffffff" "syncSiteUntil s = 0"
  using assms by (auto simp: node_fresh_def uvote_Init_def node_cfg_def)

lemma ubik_inv_start:
  "\<forall>h \<in> set hs. node_fresh hs m h (clk h (tau y)) (nodes y h) \<Longrightarrow> hist y = {} \<Longrightarrow> ubik_inv clk hs m y"
proof -
  assume fresh: "\<forall>h \<in> set hs. node_fresh hs m h (clk h (tau y)) (nodes y h)" and "hist y = {}"
  have "node_cfg hs m h (nodes y h) \<and> lastYesTime (nodes y h) = clk h (tau y) \<and> syncSiteUntil (nodes y h) = 0"
    if "h \<in> set hs" for h
    using node_fresh_facts [OF fresh [rule_format, OF that]] by blast
  with \<open>hist y = {}\<close> show ?thesis
    by (simp add: ubik_inv_def vote_history_def voter_ok_def guarantee_def)
qed

text \<open>One node changes and the history may grow: what is left to show for the others.\<close>

lemma ubik_inv_update:
  assumes inv: "ubik_inv clk hs m y" and z: "z = y\<lparr>nodes := (nodes y)(a := s'), hist := H'\<rparr>"
    and H': "hist y \<subseteq> H'" "\<forall>v c t. (v, c, t) \<in> H' - hist y \<longrightarrow> v = a" "vote_history H'"
    and s': "node_cfg hs m a s'" "voter_ok hs H' (clk a (tau y)) a s'" "guarantee hs m H' a (syncSiteUntil s')"
  shows "ubik_inv clk hs m z"
proof -
  have "node_cfg hs m h (nodes z h) \<and> voter_ok hs H' (clk h (tau y)) h (nodes z h)
      \<and> guarantee hs m H' h (syncSiteUntil (nodes z h))" if h: "h \<in> set hs" for h
  proof (cases "h = a")
    case True
    then show ?thesis using s' by (simp add: z)
  next
    case False
    then have "(h, c, t) \<in> H' \<longleftrightarrow> (h, c, t) \<in> hist y" for c t using H' by blast
    then show ?thesis
      using inv h False guarantee_mono [OF _ H'(1)] by (auto simp: ubik_inv_def voter_ok_def z)
  qed
  then show ?thesis using H'(3) by (simp add: ubik_inv_def z)
qed

lemma ubik_inv_update_node:
  assumes "ubik_inv clk hs m y" and "z = y\<lparr>nodes := (nodes y)(a := s')\<rparr>"
    and "node_cfg hs m a s'" "voter_ok hs (hist y) (clk a (tau y)) a s'" "guarantee hs m (hist y) a (syncSiteUntil s')"
  shows "ubik_inv clk hs m z"
  using assms by (intro ubik_inv_update [OF assms(1), where H' = "hist y" and a = a and s' = s']) (auto simp: ubik_inv_def)

lemma ubik_inv_step [inv_intros]:
  assumes "ubik_step le clk hs m y z" and "ubik_inv clk hs m y" and "clocks clk hs" and "0xffffffff \<notin> set hs"
  shows "ubik_inv clk hs m z"
  using assms
proof (induction rule: ubik_step.induct)
  case (Tick y t)
  then show ?case by (auto simp: ubik_inv_def clocks_def intro: voter_ok_later)
next
  case (Vote v c now y r p astate astart avers atid t s')
  let ?H = "if t \<noteq> 0 then insert (v, c, t) (hist y) else hist y"
  have inv: "node_cfg hs m v (nodes y v)" "voter_ok hs (hist y) (clk v (tau y)) v (nodes y v)"
    "guarantee hs m (hist y) v (syncSiteUntil (nodes y v))" "vote_history (hist y)"
    using Vote by (auto simp: ubik_inv_def)
  note fr = beacon_vote_frame [OF Vote(4)]
  have "voter_ok hs ?H (clk v (tau y)) v s' \<and> vote_history ?H"
    by (rule vote_step [OF inv(2,4) Vote(3,2) Vote.prems(3) Vote(4)])
  moreover have "node_cfg hs m v s'" using inv(1) node_cfg_frame [of s' "nodes y v"] fr by simp
  moreover have "guarantee hs m ?H v (syncSiteUntil s')"
    unfolding fr(6) by (rule guarantee_mono [OF inv(3)]) auto
  ultimately show ?case by (intro ubik_inv_update [OF Vote.prems(1) refl]) auto
next
  case (Reset v y)
  have inv: "node_cfg hs m v (nodes y v)" "voter_ok hs (hist y) (clk v (tau y)) v (nodes y v)"
    "guarantee hs m (hist y) v (syncSiteUntil (nodes y v))" "vote_history (hist y)"
    using Reset by (auto simp: ubik_inv_def)
  have "node_cfg hs m v (ubik_ResetState (clk v (tau y)) (nodes y v))"
    using inv(1) node_cfg_frame [of "ubik_ResetState (clk v (tau y)) (nodes y v)" "nodes y v"] by simp
  then show ?case
    using inv voter_ok_fresh [OF inv(2)] by (intro ubik_inv_update_node [OF Reset.prems(1) refl]) auto
next
  case (Decide a rs y loc)
  have inv: "node_cfg hs m a (nodes y a)" "voter_ok hs (hist y) (clk a (tau y)) a (nodes y a)"
    "guarantee hs m (hist y) a (syncSiteUntil (nodes y a))" "vote_history (hist y)"
    using Decide by (auto simp: ubik_inv_def)
  note res = interact_finish_result [OF refl inv(1) Decide(1,2,3,4,5) inv(3), of "clk a (tau y)"]
  have "voter_ok hs (hist y) (clk a (tau y)) a (interact_finish (clk a (tau y)) rs loc (nodes y a))"
    using res(3) inv(2) voter_ok_fresh [OF inv(2)] by (auto simp: voter_ok_def)
  then show ?case
    using inv(4) res(1,2) by (intro ubik_inv_update_node [OF Decide.prems(1) refl]) simp_all
next
  case (Query a y)
  have inv: "node_cfg hs m a (nodes y a)" "voter_ok hs (hist y) (clk a (tau y)) a (nodes y a)"
    "guarantee hs m (hist y) a (syncSiteUntil (nodes y a))" "vote_history (hist y)"
    using Query by (auto simp: ubik_inv_def)
  then show ?case
    by (intro ubik_inv_update_node [OF Query.prems(1) refl]) (auto simp: node_cfg_def voter_ok_def)
next
  case (Restart h y s')
  have inv: "voter_ok hs (hist y) (clk h (tau y)) h (nodes y h)" "vote_history (hist y)"
    using Restart by (auto simp: ubik_inv_def)
  then show ?case
    using node_fresh_facts [OF Restart(2)] voter_ok_fresh [OF inv(1)]
    by (intro ubik_inv_update_node [OF Restart.prems(1) refl]) (auto simp: guarantee_def)
qed

lemma ubik_reach_inv:
  assumes "ubik_reach le clk hs m y" and "clocks clk hs" and "0xffffffff \<notin> set hs"
  shows "ubik_inv clk hs m y"
  using assms by (induction rule: ubik_reach.induct) (auto intro: ubik_inv_start ubik_inv_step)

text \<open>C1.
  At any moment of any run, at most one server takes itself for the synchronization site
  (\<open>ubeacon_AmSyncSite\<close>), if the servers' clocks are within \<open>BIGTIME - SMALLTIME\<close> of each other and
  the servers agree on the magic host.\<close>

theorem at_most_one_sync_site:
  assumes "ubik_reach le clk hs m y" and "clocks clk hs" and "0xffffffff \<notin> set hs" and "2 \<le> card (set hs)"
    and "a \<in> set hs" and "b \<in> set hs"
    and "fst (ubeacon_AmSyncSite (clk a (tau y)) (nodes y a))"
    and "fst (ubeacon_AmSyncSite (clk b (tau y)) (nodes y b))"
  shows "a = b"
proof (rule ccontr)
  assume neq: "a \<noteq> b"
  have inv: "ubik_inv clk hs m y" by (rule ubik_reach_inv [OF assms(1-3)])
  have live: "clk h (tau y) < syncSiteUntil (nodes y h) \<and> 0 \<le> clk h (tau y)"
    if "h \<in> set hs" "fst (ubeacon_AmSyncSite (clk h (tau y)) (nodes y h))" for h
    using that inv assms(2,4)
    by (auto simp: ubeacon_AmSyncSite_def ubik_inv_def node_cfg_def clocks_def Let_def split: if_splits)
  have quo: "\<exists>Q. uq.quorum hs m Q \<and> (\<forall>v \<in> Q. \<exists>t. (v, h, t) \<in> hist y \<and> clk h (tau y) < t + SMALLTIME)"
    if "h \<in> set hs" "fst (ubeacon_AmSyncSite (clk h (tau y)) (nodes y h))" for h
    using live [OF that] inv that(1) unfolding ubik_inv_def guarantee_def by force
  obtain P Q where PQ: "uq.quorum hs m P" "uq.quorum hs m Q"
    "\<forall>v \<in> P. \<exists>t. (v, a, t) \<in> hist y \<and> clk a (tau y) < t + SMALLTIME"
    "\<forall>v \<in> Q. \<exists>t. (v, b, t) \<in> hist y \<and> clk b (tau y) < t + SMALLTIME"
    using quo assms(5-8) by metis
  obtain v where v: "v \<in> P" "v \<in> Q" using uq.quorums_meet [OF PQ(1,2)] by blast
  have "v \<in> set hs" using PQ(1) v by (auto simp: uq.quorum_def)
  obtain t u where tu: "(v, a, t) \<in> hist y" "clk a (tau y) < t + SMALLTIME"
    "(v, b, u) \<in> hist y" "clk b (tau y) < u + SMALLTIME" using PQ v by blast
  have "t + BIGTIME < u \<or> u + BIGTIME < t"
    using inv neq tu unfolding ubik_inv_def vote_history_def by blast
  moreover have "t \<le> clk v (tau y)" "u \<le> clk v (tau y)"
    using inv \<open>v \<in> set hs\<close> tu by (fastforce simp: ubik_inv_def voter_ok_def)+
  moreover have "clk v (tau y) \<le> clk a (tau y) + 50" "clk v (tau y) \<le> clk b (tau y) + 50"
    using assms(2,5,6) \<open>v \<in> set hs\<close> by (auto simp: clocks_def)
  ultimately show False using tu by linarith
qed

end
