(* ===== verification/Ubik_Voter.thy ===== *)
theory Ubik_Voter
  imports Ubik
begin

text \<open>
  What \<open>SUBIKVOTE_Beacon\<close> promises, stated without the order in which the handler does things: a
  \<open>voter\<close> remembers whom it promised its vote, when, and the start of the election that asked; the lowest host and the
  synchronization site it heard of, with the times; and what the last promise told of the database.
  \<open>voter_beacon\<close> is the contract: one decision per answer over the state before the call.  The handler is
  shown to implement it (\<open>beacon_refines\<close>), through closed forms of its two bookkeeping steps.
\<close>

section \<open>The contract\<close>

record voter =
  promised :: "u32 \<times> int \<times> int"
  promised_state :: int
  heard_lowest :: "u32 \<times> int"
  heard_sync :: "u32 \<times> int"
  heard_db :: "ubik_version \<times> ubik_tid"
  running :: "ubik_tid option"

definition voter_of :: "ubik_state \<Rightarrow> voter" where
  "voter_of s = \<lparr>promised = (lastYesHost s, lastYesTime s, lastYesClaim s), promised_state = lastYesState s,
     heard_lowest = (lowestHost s, lowestTime s), heard_sync = (syncHost s, syncTime s),
     heard_db = (dbVersion s, dbTid s), running = currentTrans s\<rparr>"

text \<open>After a reset the vote is promised to nobody, but not before \<open>BIGTIME\<close> from now on either.\<close>

definition voter_forget :: "int \<Rightarrow> voter \<Rightarrow> voter" where
  "voter_forget now v = v\<lparr>promised := (0xffffffff, now, 0), promised_state := 0,
     heard_lowest := (0xffffffff, 0), heard_sync := (0, 0)\<rparr>"

text \<open>
  A candidate \<open>c\<close> was heard.  The recorded lowest host stays only if it was heard within \<open>BIGTIME\<close> and is
  strictly lower than both the candidate and the voter itself; otherwise the lower of these two is recorded now.
  A candidate that claims to be the synchronization site is recorded as such, unless a later one is known; one that
  was not heard for \<open>BIGTIME\<close> is forgotten.
\<close>

definition voter_heard :: "bool \<Rightarrow> u32 \<Rightarrow> int \<Rightarrow> int \<Rightarrow> u32 \<Rightarrow> voter \<Rightarrow> voter" where
  "voter_heard le own now astate c v =
     (let (low, lt) = heard_lowest v; (sy, st) = heard_sync v
      in v\<lparr>heard_lowest :=
             (if now - lt \<le> BIGTIME \<and> ntohl le low < min (ntohl le c) (ntohl le own) then (low, lt)
              else (if ntohl le c < ntohl le own then c else own, now)),
           heard_sync :=
             (if astate \<noteq> 0 \<and> st \<le> now then (c, now) else if now - st \<le> BIGTIME then (sy, st) else (0, 0))\<rparr>)"

text \<open>
  The vote: for a claimed synchronization site, or for the lowest host heard when no other is the site; never back in
  time; and to another host than the promised one only when the promise is more than \<open>BIGTIME\<close> old.
\<close>

definition voter_grants :: "int \<Rightarrow> int \<Rightarrow> int \<Rightarrow> u32 \<Rightarrow> voter \<Rightarrow> bool" where
  "voter_grants now astate astart c v \<longleftrightarrow>
     (let (who, when, claim) = promised v
      in (astate \<noteq> 0 \<or> fst (heard_lowest v) = c \<and> fst (heard_sync v) \<in> {0, c})
         \<and> when \<le> now \<and> claim \<le> astart \<and> (now - when > BIGTIME \<or> who = c))"

text \<open>
  The whole call.  \<open>mine\<close> says that the voter cannot trust its own clock or record, so that it starts again.
\<close>

definition voter_beacon :: "bool \<Rightarrow> u32 \<Rightarrow> ubik_server list \<Rightarrow> int \<Rightarrow> int \<Rightarrow> ubik_caller option \<Rightarrow> int \<Rightarrow> int
    \<Rightarrow> ubik_version \<Rightarrow> ubik_tid \<Rightarrow> voter \<Rightarrow> (ucode \<times> int) \<times> voter" where
  "voter_beacon le own members now now' rxcall astate astart avers atid v =
     (let last = fst (snd (promised v));
          refused = (case rxcall of Some c \<Rightarrow> auth_code c \<noteq> U_ok | None \<Rightarrow> False);
          skewed = (\<bar>now - astart\<bar> > MAXSKEW \<or> last > now \<or> last - astart > MAXSKEW);
          mine = (now - astart \<le> MAXSKEW \<and> (astart - now > MAXSKEW \<or> last > now));
          cand = (case rxcall of
                    None \<Rightarrow> Inr own
                  | Some c \<Rightarrow> if ident_code c \<noteq> U_ok then Inl (ident_code c)
                      else case find (\<lambda>ts. check_structure (ident_princ c) \<and> check_structure (ident_realm c) \<and>
                                    principal ts = ident_princ c \<and> realm ts = ident_realm c) members of
                             None \<Rightarrow> Inl UNOTMEMBER | Some ts \<Rightarrow> Inr (addr ts))
      in if refused then ((auth_code (the rxcall), 0), v)
         else if skewed then ((USKEWED, 0), if mine then voter_forget now' v else v)
         else case cand of
           Inl code \<Rightarrow> ((code, 0), v)
         | Inr c \<Rightarrow>
             let v = voter_heard le own now astate c v
             in if voter_grants now astate astart c v
                then ((U_ok, now), v\<lparr>promised := (c, now, astart), promised_state := astate,
                        heard_db := (avers, atid),
                        running := (case running v of
                            Some t \<Rightarrow> if t_epoch t = t_epoch atid \<and> t_counter atid \<le> t_counter t then Some t else None
                          | None \<Rightarrow> None)\<rparr>)
                else ((U_ok, 0), v))"

section \<open>The handler implements it\<close>

lemma beacon_lowest_eq:
  "beacon_lowest le now c s =
     (if now - lowestTime s \<le> BIGTIME \<and> ntohl le (lowestHost s) < min (ntohl le c) (ntohl le (addr (host s))) then s
      else s\<lparr>lowestTime := now,
             lowestHost := (if ntohl le c < ntohl le (addr (host s)) then c else addr (host s))\<rparr>)"
  by (auto simp: beacon_lowest_def Let_def not_le)

lemma beacon_sync_eq:
  "beacon_sync now astate c s =
     (if astate \<noteq> 0 \<and> syncTime s \<le> now then s\<lparr>syncHost := c, syncTime := now\<rparr>
      else if now - syncTime s \<le> BIGTIME then s else s\<lparr>syncHost := 0, syncTime := 0\<rparr>)"
  by (auto simp: beacon_sync_def Let_def)

lemma voter_of_heard:
  "voter_of (beacon_sync now astate c (beacon_lowest le now c s)) =
     voter_heard le (addr (host s)) now astate c (voter_of s)"
  by (simp add: voter_of_def voter_heard_def beacon_sync_eq beacon_lowest_eq)

lemma beacon_lowest_recent:
  "now \<le> lowestTime (beacon_sync now astate c (beacon_lowest le now c s)) + BIGTIME"
  by (auto simp: beacon_sync_eq beacon_lowest_eq)

lemma voter_of_yes:
  "voter_of (urecovery_CheckTid atid (s\<lparr>lastYesTime := now, lastYesClaim := astart, lastYesHost := c,
       lastYesRealm := r, lastYesPrinc := p, lastYesState := astate, dbVersion := avers, dbTid := atid\<rparr>)) =
     (voter_of s)\<lparr>promised := (c, now, astart), promised_state := astate, heard_db := (avers, atid),
        running := (case running (voter_of s) of
            Some t \<Rightarrow> if t_epoch t = t_epoch atid \<and> t_counter atid \<le> t_counter t then Some t else None
          | None \<Rightarrow> None)\<rparr>"
  by (auto simp: voter_of_def urecovery_CheckTid_def split: option.splits)

lemma beacon_vote_refines:
  "map_prod (Pair U_ok) voter_of (beacon_vote le now (c, r, p) astate astart avers atid s) =
     (let v = voter_heard le (addr (host s)) now astate c (voter_of s)
      in if voter_grants now astate astart c v
         then ((U_ok, now), v\<lparr>promised := (c, now, astart), promised_state := astate, heard_db := (avers, atid),
                 running := (case running v of
                     Some t \<Rightarrow> if t_epoch t = t_epoch atid \<and> t_counter atid \<le> t_counter t then Some t else None
                   | None \<Rightarrow> None)\<rparr>)
         else ((U_ok, 0), v))"
proof -
  define s1 where "s1 = beacon_sync now astate c (beacon_lowest le now c s)"
  have v: "voter_heard le (addr (host s)) now astate c (voter_of s) = voter_of s1"
    by (simp add: s1_def voter_of_heard)
  have recent: "now \<le> lowestTime s1 + BIGTIME" by (simp add: s1_def beacon_lowest_recent)
  show ?thesis
    unfolding beacon_vote_def prod.case Let_def s1_def [symmetric] v
    using recent by (simp add: voter_of_yes) (auto simp: voter_grants_def voter_of_def)
qed

lemma uuid_equal_valid: "snd (uuid_equal u v) \<longleftrightarrow> check_structure v \<and> u = v"
  by (cases u; cases v) (auto simp: uuid_equal_def)

lemma voter_of_reset: "voter_of (ubik_ResetState now s) = voter_forget now (voter_of s)"
  by (simp add: voter_of_def voter_forget_def ubik_ResetState_def urecovery_ResetState_def uvote_ResetState_def
      ubeacon_ResetState_def)

lemma beacon_skewed_eq:
  "beacon_skewed now now' astart s =
     (if \<bar>now - astart\<bar> > MAXSKEW \<or> lastYesTime s > now \<or> lastYesTime s - astart > MAXSKEW
      then Some (if now - astart \<le> MAXSKEW \<and> (astart - now > MAXSKEW \<or> lastYesTime s > now)
                 then ubik_ResetState now' s else s)
      else None)"
  by (auto simp: beacon_skewed_def abs_if)

text \<open>C2.
  The vote handler implements the contract: for every caller, clock, message and state, the answer of
  \<open>SUBIKVOTE_Beacon\<close> and the voter's record after it are those of \<open>voter_beacon\<close>: callers that fail
  authentication, are not members, or whose clock is off by more than \<open>MAXSKEW\<close> get their error and change nothing
  (or make the voter start again, when its own clock or record is at fault); otherwise the vote is given exactly under
  the conditions of \<open>voter_grants\<close>, with the promise, the claim and the database version of this message recorded.\<close>

theorem beacon_refines:
  "map_prod id voter_of (SUBIKVOTE_Beacon le now now' rxcall astate astart avers atid s) =
     voter_beacon le (addr (host s)) (servers s) now now' rxcall astate astart avers atid (voter_of s)"
proof -
  have last: "fst (snd (promised (voter_of s))) = lastYesTime s" by (simp add: voter_of_def)
  have found: "find_server r p (servers s) =
      find (\<lambda>ts. check_structure p \<and> check_structure r \<and> principal ts = p \<and> realm ts = r) (servers s)" for r p
    unfolding find_server_def uuid_equal_valid by (rule arg_cong [of _ _ "\<lambda>P. find P (servers s)"]) auto
  have vote: "map_prod id voter_of
        (case beacon_vote le now cand astate astart avers atid s of (t, s') \<Rightarrow> ((U_ok, t), s')) =
      map_prod (Pair U_ok) voter_of (beacon_vote le now cand astate astart avers atid s)" for cand
    by (simp add: Let_def map_prod_def split: prod.splits)
  define skewed mine where "skewed \<longleftrightarrow> \<bar>now - astart\<bar> > MAXSKEW \<or> lastYesTime s > now \<or> lastYesTime s - astart > MAXSKEW"
    and "mine \<longleftrightarrow> now - astart \<le> MAXSKEW \<and> (astart - now > MAXSKEW \<or> lastYesTime s > now)"
  show ?thesis
    unfolding SUBIKVOTE_Beacon_def voter_beacon_def Let_def beacon_skewed_eq last beacon_candidate_def found
      skewed_def [symmetric] mine_def [symmetric]
    by (simp add: Let_def vote beacon_vote_refines voter_of_reset split: option.split)
qed

end
