(* ===== verification/Ubik_Props.thy ===== *)
theory Ubik_Props
  imports Ubik_Safety Ubik_Voter
begin

text \<open>
  The handler \<open>SUBIKVOTE_Beacon\<close> as a step of the system of \<^verbatim>\<open>Ubik_Safety\<close>, the choice of the magic
  host by \<open>ubeacon_InitServerList\<close> and what goes wrong when the hosts do not agree on it, the answers
  to clients, and the retries of a beacon.
\<close>

section \<open>The handler is a step\<close>

text \<open>Every run of \<open>SUBIKVOTE_Beacon\<close> is a step of the system, or changes nothing: a yes answer is a new vote in
  the history for the caller's address, every other answer leaves the history alone.\<close>

lemma beacon_is_step:
  assumes "SUBIKVOTE_Beacon le now (clk v (tau y)) rxcall astate astart avers atid (nodes y v) = ((code, t), s')"
    and "v \<in> set hs" and "now \<le> clk v (tau y)" and "node_cfg hs m v (nodes y v)"
  shows "\<exists>z. (ubik_step le clk hs m y z \<or> z = y) \<and> nodes z = (nodes y)(v := s') \<and> tau z = tau y \<and>
    hist z = (if t = 0 then hist y else insert (v, fst (projr (beacon_candidate rxcall (nodes y v))), t) (hist y))"
proof -
  consider "t = 0" "s' = nodes y v" | "t = 0" "s' = ubik_ResetState (clk v (tau y)) (nodes y v)"
    | c r p where "beacon_candidate rxcall (nodes y v) = Inr (c, r, p)"
        "beacon_vote le now (c, r, p) astate astart avers atid (nodes y v) = (t, s')"
    using assms(1) unfolding SUBIKVOTE_Beacon_def beacon_skewed_def
    by (auto split: if_splits sum.splits prod.splits option.splits)
  then show ?thesis
  proof cases
    case 1
    then show ?thesis by (intro exI [of _ y]) auto
  next
    case 2
    then show ?thesis using ubik_step.Reset [OF assms(2), of le clk m y] by fastforce
  next
    case (3 c r p)
    have "c \<in> set hs"
      using 3(1) assms(2,4)
      by (auto simp: beacon_candidate_def node_cfg_def find_server_def find_Some_iff split: option.splits if_splits)
    from ubik_step.Vote [where m = m and clk = clk and hs = hs and y = y, OF assms(2) this assms(3) 3(2)] show ?thesis
      using 3(1) by fastforce
  qed
qed

section \<open>A run with a synchronization site\<close>

definition demo_server :: "u32 \<Rightarrow> bool \<Rightarrow> ubik_server" where
  "demo_server a g = zero_server\<lparr>addr := a, magic := g, up := True\<rparr>"

definition demo_node :: "u32 \<Rightarrow> ubik_state" where
  "demo_node h = \<lparr>lastYesTime = 0, lastYesHost = 0xffffffff, lastYesRealm = uuid_g_nil_uuid,
     lastYesPrinc = uuid_g_nil_uuid, lastYesClaim = 0, lastYesState = 0, lowestTime = 0, lowestHost = 0xffffffff,
     syncTime = 0, syncHost = 0, dbVersion = \<lparr>v_epoch = 0, v_counter = 0\<rparr>, dbTid = \<lparr>t_epoch = 0, t_counter = 0\<rparr>,
     amSyncSite = False, syncSiteUntil = 0, nServers = 2, amIMagic = (h = 1),
     servers = [demo_server (3 - h) (h = 2)], host = demo_server h False, beacon_ResetState = False,
     recovery_state = 0, recovery_ResetState = False, currentTrans = None, epochTime = 5, dbWriting = False,
     dbaseVersion = \<lparr>v_epoch = 0, v_counter = 0\<rparr>, tidCounter = 0, writeTidCounter = 0\<rparr>"

definition demo_clock :: "u32 \<Rightarrow> int \<Rightarrow> int" where
  "demo_clock h t = max 0 t"

definition demo_start :: ubik_sys where
  "demo_start = \<lparr>tau = 0, nodes = (\<lambda>h. uvote_Init 0 (demo_node h)), hist = {}\<rparr>"

lemma demo_clocks: "clocks demo_clock [1, 2]"
  by (auto simp: clocks_def demo_clock_def)

lemma demo_reach_0: "ubik_reach False demo_clock [1, 2] 1 demo_start"
proof (rule ubik_reach.Start)
  have "node_cfg [1, 2] 1 h (demo_node h)" if "h \<in> {1, 2}" for h
    using that by (auto simp: node_cfg_def demo_node_def demo_server_def zero_server_def)
  moreover have "lastYesHost (demo_node h) = 0xffffffff" "\<not> amSyncSite (demo_node h)" "syncSiteUntil (demo_node h) = 0" for h
    by (simp_all add: demo_node_def)
  ultimately show "\<forall>h \<in> set [1, 2]. node_fresh [1, 2] 1 h (demo_clock h (tau demo_start)) (nodes demo_start h)"
    unfolding node_fresh_def by (auto simp: demo_start_def demo_clock_def)
qed (simp add: demo_start_def)

text \<open>Host 1 votes for itself at time 200 and counts its vote: it is magic, so it wins with 3 of 5.\<close>

definition demo_vote :: "int \<times> ubik_state" where
  "demo_vote = beacon_vote False 200 (1, uuid_g_nil_uuid, uuid_g_nil_uuid) 0 200
     \<lparr>v_epoch = 0, v_counter = 0\<rparr> \<lparr>t_epoch = 5, t_counter = 1\<rparr> (nodes demo_start 1)"

definition demo_end :: ubik_sys where
  "demo_end = demo_start\<lparr>tau := 200,
     nodes := (nodes demo_start)(1 := interact_finish 200 [] (U_ok, 200) (snd demo_vote)), hist := {(1, 1, 200)}\<rparr>"

lemma demo_vote_yes: "fst demo_vote = 200"
  by (simp add: demo_vote_def beacon_vote_def beacon_sync_def beacon_lowest_def ntohl_def demo_start_def
      uvote_Init_def demo_node_def demo_server_def zero_server_def Let_def)

lemma demo_reach: "ubik_reach False demo_clock [1, 2] 1 demo_end"
proof -
  let ?y1 = "demo_start\<lparr>tau := 200\<rparr>"
  have 1: "ubik_reach False demo_clock [1, 2] 1 ?y1"
    by (rule ubik_reach.Step [OF demo_reach_0], rule ubik_step.Tick) (simp add: demo_start_def)
  let ?y2 = "?y1\<lparr>nodes := (nodes ?y1)(1 := snd demo_vote), hist := insert (1, 1, 200) (hist ?y1)\<rparr>"
  have "ubik_step False demo_clock [1, 2] 1 ?y1
      (?y1\<lparr>nodes := (nodes ?y1)(1 := snd demo_vote), hist := (if fst demo_vote \<noteq> 0 then insert (1, 1, fst demo_vote) (hist ?y1) else hist ?y1)\<rparr>)"
    by (rule ubik_step.Vote [where now = 200 and c = 1]) (simp_all add: demo_vote_def demo_clock_def)
  then have 2: "ubik_reach False demo_clock [1, 2] 1 ?y2"
    using ubik_reach.Step [OF 1] by (simp add: demo_vote_yes)
  have "ubik_step False demo_clock [1, 2] 1 ?y2
      (?y2\<lparr>nodes := (nodes ?y2)(1 := interact_finish (demo_clock 1 (tau ?y2)) [] (U_ok, 200) (nodes ?y2 1))\<rparr>)"
    by (rule ubik_step.Decide) simp_all
  with ubik_reach.Step [OF 2] show ?thesis
    by (simp add: demo_end_def demo_clock_def demo_start_def)
qed

lemma demo_sync: "fst (ubeacon_AmSyncSite 200 (nodes demo_end 1))"
  by (simp add: demo_end_def demo_vote_def beacon_vote_def beacon_sync_def beacon_lowest_def ntohl_def demo_start_def
      uvote_Init_def demo_node_def demo_server_def zero_server_def interact_finish_def ubeacon_wait_for_votes_def
      urecovery_CheckTid_def ubeacon_AmSyncSite_def Let_def)

lemma at_most_one_sync_site_witness:
  "fst (ubeacon_AmSyncSite (demo_clock 1 (tau demo_end)) (nodes demo_end 1)) \<and>
   \<not> fst (ubeacon_AmSyncSite (demo_clock 2 (tau demo_end)) (nodes demo_end 2))"
proof -
  have s: "fst (ubeacon_AmSyncSite (demo_clock 1 (tau demo_end)) (nodes demo_end 1))"
    using demo_sync by (simp add: demo_clock_def demo_end_def)
  with at_most_one_sync_site [OF demo_reach demo_clocks, of 1 2] show ?thesis by auto
qed

text \<open>C5.
  The heart of the algorithm: in any run, two yes votes of one server for two different hosts are more
  than \<open>BIGTIME\<close> apart on the voter's clock, resets and restarts included.\<close>

theorem votes_exclusive:
  assumes "ubik_reach le clk hs m y" and "clocks clk hs" and "0xffffffff \<notin> set hs"
    and "(v, c, t) \<in> hist y" and "(v, d, u) \<in> hist y" and "c \<noteq> d"
  shows "t + BIGTIME < u \<or> u + BIGTIME < t"
  using ubik_reach_inv [OF assms(1-3)] assms(4-6) unfolding ubik_inv_def vote_history_def by blast

lemma votes_exclusive_witness:
  "\<exists>y. ubik_reach False demo_clock [1, 2] 1 y \<and> (1, 1, 200) \<in> hist y \<and> (1, 2, 400) \<in> hist y \<and> 200 + BIGTIME < (400 :: int)"
proof -
  let ?y = "demo_end\<lparr>tau := 400\<rparr>"
  have 1: "ubik_reach False demo_clock [1, 2] 1 ?y"
    by (rule ubik_reach.Step [OF demo_reach], rule ubik_step.Tick) (simp add: demo_end_def)
  define b where "b = beacon_vote False 400 (2, uuid_g_nil_uuid, uuid_g_nil_uuid) 1 400
     \<lparr>v_epoch = 0, v_counter = 0\<rparr> \<lparr>t_epoch = 5, t_counter = 1\<rparr> (nodes ?y 1)"
  have b: "fst b = 400"
    by (simp add: b_def demo_end_def demo_vote_def beacon_vote_def beacon_sync_def beacon_lowest_def ntohl_def
        demo_start_def uvote_Init_def demo_node_def demo_server_def zero_server_def interact_finish_def
        ubeacon_wait_for_votes_def urecovery_CheckTid_def Let_def)
  have "ubik_step False demo_clock [1, 2] 1 ?y
      (?y\<lparr>nodes := (nodes ?y)(1 := snd b), hist := (if fst b \<noteq> 0 then insert (1, 2, fst b) (hist ?y) else hist ?y)\<rparr>)"
    by (rule ubik_step.Vote [where now = 400 and c = 2]) (simp_all add: b_def demo_clock_def)
  then have r: "ubik_reach False demo_clock [1, 2] 1 (?y\<lparr>nodes := (nodes ?y)(1 := snd b), hist := insert (1, 2, 400) (hist ?y)\<rparr>)"
    using ubik_reach.Step [OF 1] by (simp add: b)
  have h: "(1, 1, 200) \<in> hist (?y\<lparr>nodes := (nodes ?y)(1 := snd b), hist := insert (1, 2, 400) (hist ?y)\<rparr>)"
    "(1, 2, 400) \<in> hist (?y\<lparr>nodes := (nodes ?y)(1 := snd b), hist := insert (1, 2, 400) (hist ?y)\<rparr>)"
    by (simp_all add: demo_end_def)
  have "200 + BIGTIME < (400 :: int)"
    using votes_exclusive [OF r demo_clocks _ h] by simp
  then show ?thesis using r h by blast
qed

section \<open>The magic host\<close>

lemma ntohl_masks: "(0x00ff0000 :: u32) = push_bit 16 (mask 8)" "(0x0000ff00 :: u32) = push_bit 8 (mask 8)"
  by (simp_all add: push_bit_eq_mult mask_eq_exp_minus_1)

lemma bit_ntohl: "n < 32 \<Longrightarrow> bit (ntohl True w) n \<longleftrightarrow>
    (if n < 8 then bit w (n + 24) else if n < 16 then bit w (n + 8) else if n < 24 then bit w (n - 8) else bit w (n - 24))"
  for w :: u32
proof -
  assume n: "n < 32"
  have b: "bit w k \<Longrightarrow> k < 32" for k using bit_imp_le_length [of w k] by simp
  have masks: "bit (0x00ff0000 :: u32) n \<longleftrightarrow> 16 \<le> n \<and> n < 24" "bit (0x0000ff00 :: u32) n \<longleftrightarrow> 8 \<le> n \<and> n < 16"
    unfolding ntohl_masks using n by (auto simp: bit_push_bit_iff bit_mask_iff)
  show ?thesis
    using n unfolding ntohl_def if_True bit_or_iff bit_and_iff masks
    by (auto simp: bit_push_bit_iff bit_drop_bit_eq add.commute dest: b)
qed

lemma ntohl_ntohl [simp]: "ntohl le (ntohl le w) = w"
proof (cases le)
  case True
  have "bit (ntohl True (ntohl True w)) n = bit w n" if "n < 32" for n
    using that by (auto simp: bit_ntohl)
  then show ?thesis using True by (auto intro: bit_word_eqI)
qed (simp add: ntohl_def)

lemma ntohl_inject [simp]: "ntohl le v = ntohl le w \<longleftrightarrow> v = w"
  by (metis ntohl_ntohl)

lemma init_bindings_magic [simp]: "magic (snd (init_bindings le c n f bs ts)) = magic ts"
  by (induction bs arbitrary: n f ts) (auto simp: Let_def)

definition magic_inv :: "bool \<Rightarrow> u32 \<Rightarrow> ubik_server list \<Rightarrow> u32 \<times> nat option \<Rightarrow> bool" where
  "magic_inv le ame acc mh \<longleftrightarrow>
     (\<forall>ts \<in> set acc. \<not> magic ts \<and> (\<not> badhost ts \<longrightarrow> fst mh \<le> ntohl le (addr ts))) \<and>
     (case snd mh of None \<Rightarrow> fst mh = ame
      | Some i \<Rightarrow> i < length acc \<and> \<not> badhost (rev acc ! i) \<and> ntohl le (addr (rev acc ! i)) = fst mh \<and> fst mh < ame)"

lemma init_hosts_magic:
  assumes "init_hosts le nsCell hs acc mh = (U_ok, acc', mi)" and "magic_inv le ame acc mh"
  shows "\<exists>lowest. magic_inv le ame acc' (lowest, mi) \<and> length acc' = length acc + length hs"
  using assms
proof (induction hs arbitrary: acc mh)
  case Nil
  then show ?case by (cases mh) auto
next
  case (Cons h hs)
  obtain st ts where ib: "init_bindings le nsCell 0 [] (h_bindings h) zero_server = (st, ts)" by fastforce
  then have nm: "\<not> magic ts" using init_bindings_magic [of le nsCell 0 "[]" "h_bindings h" zero_server]
    by (simp add: zero_server_def)
  let ?mh = "if ntohl le (addr ts) < fst mh \<and> \<not> badhost ts then (ntohl le (addr ts), Some (length acc)) else mh"
  have run: "init_hosts le nsCell hs (ts # acc) ?mh = (U_ok, acc', mi)"
    using Cons.prems(1) ib by (auto split: if_splits)
  have "fst mh \<le> ame" using Cons.prems(2) by (auto simp: magic_inv_def split: option.splits)
  then have "magic_inv le ame (ts # acc) ?mh"
    using Cons.prems(2) nm by (fastforce simp: magic_inv_def nth_append split: option.splits)
  from Cons.IH [OF run this] show ?case by auto
qed

text \<open>C34.
  When \<open>ubeacon_InitServerList\<close> succeeds, exactly one host among this one and the servers it kept is
  magic, the one with the lowest address: hosts that know the same servers agree on it.\<close>

theorem init_magic_lowest:
  assumes "ubeacon_InitServerList le ame cell site bv s = (U_ok, s')"
    and "servers s = []" and "\<not> amIMagic s" and "distinct (map addr (servers s'))"
  shows "nServers s' = int (length bv) + 1 \<and>
    (amIMagic s' \<longleftrightarrow> (\<forall>ts \<in> set (servers s'). ntohl le ame \<le> ntohl le (addr ts))) \<and>
    (\<forall>ts \<in> set (servers s'). magic ts \<longleftrightarrow>
      ntohl le (addr ts) < ntohl le ame \<and> (\<forall>us \<in> set (servers s'). ntohl le (addr ts) \<le> ntohl le (addr us)))"
proof -
  obtain nsCell where cell: "cell = (U_ok, nsCell)" and site: "site = U_ok"
    using assms(1) by (cases cell) (auto simp: ubeacon_InitServerList_def split: if_splits prod.splits)
  obtain st new mi where ih: "init_hosts le nsCell bv [] (ntohl le ame, None) = (st, new, mi)"
    using prod_cases3 by blast
  have st: "st = U_ok" using assms(1) ih by (auto simp: ubeacon_InitServerList_def cell site Let_def split: if_splits)
  have "magic_inv le (ntohl le ame) [] (ntohl le ame, None)" by (simp add: magic_inv_def)
  then obtain low where inv: "magic_inv le (ntohl le ame) new (low, mi)"
    using init_hosts_magic [OF ih [unfolded st]] by auto
  show ?thesis
  proof (cases mi)
    case None
    then have "servers s' = filter (\<lambda>ts. \<not> badhost ts) new" "amIMagic s'" "nServers s' = int (length bv) + 1"
      using assms(1,2) ih st by (auto simp: ubeacon_InitServerList_def cell site Let_def)
    then show ?thesis using inv None by (fastforce simp: magic_inv_def)
  next
    case (Some i)
    define k where "k = length new - 1 - i"
    define ms where "ms = new ! k"
    have k: "k < length new" and ms: "\<not> badhost ms" "ntohl le (addr ms) = low" "low < ntohl le ame"
      using inv Some by (auto simp: magic_inv_def k_def ms_def rev_nth)
    have split: "new = take k new @ ms # drop (Suc k) new" using k by (simp add: ms_def id_take_nth_drop)
    have upd: "new[k := ms\<lparr>magic := True\<rparr>] = take k new @ ms\<lparr>magic := True\<rparr> # drop (Suc k) new"
      using k by (simp add: upd_conv_take_nth_drop)
    have "servers s' = filter (\<lambda>ts. \<not> badhost ts) (new[k := ms\<lparr>magic := True\<rparr>])"
      using assms(1,2) ih st Some
      by (auto simp: ubeacon_InitServerList_def cell site Let_def k_def ms_def)
    then have sv: "servers s' = filter (\<lambda>ts. \<not> badhost ts) (take k new) @ ms\<lparr>magic := True\<rparr> # filter (\<lambda>ts. \<not> badhost ts) (drop (Suc k) new)"
      using ms(1) by (simp add: upd)
    have other: "low < ntohl le (addr ts) \<and> \<not> magic ts"
      if "ts \<in> set (filter (\<lambda>ts. \<not> badhost ts) (take k new)) \<or> ts \<in> set (filter (\<lambda>ts. \<not> badhost ts) (drop (Suc k) new))" for ts
    proof -
      have "ts \<in> set new" "\<not> badhost ts" using that by (auto dest: in_set_takeD in_set_dropD)
      then have "low \<le> ntohl le (addr ts)" "\<not> magic ts" using inv by (auto simp: magic_inv_def)
      moreover have "addr ts \<noteq> addr ms" using assms(4) that unfolding sv by (auto simp: image_iff)
      ultimately show ?thesis using ms(2) by (metis ntohl_inject order_le_less)
    qed
    have "\<not> amIMagic s'" "nServers s' = int (length bv) + 1"
      using assms(1,3) ih st Some by (auto simp: ubeacon_InitServerList_def cell site Let_def split: if_splits)
    then show ?thesis
      using other ms by (auto simp: sv not_le intro: less_imp_le)
  qed
qed


definition demo_binding :: "u32 \<Rightarrow> ucode \<Rightarrow> ubik_binding" where
  "demo_binding a st = \<lparr>sockaddr_code = 0, ipaddr_code = 0, ipaddr = a, copy_disk_st = U_ok, copy_vote_st = U_ok,
     pname_st = U_ok, cell_name = ''c'', cell_uuid = uuid_g_nil_uuid, p_uuid = uuid_g_nil_uuid,
     auth_disk_st = st, auth_vote_st = U_ok\<rparr>"

definition demo_host :: "u32 \<Rightarrow> ucode \<Rightarrow> ubik_bv_server" where
  "demo_host a st = \<lparr>h_alloc = True, h_bindings = [demo_binding a st]\<rparr>"

lemma init_magic_lowest_witness:
  "\<exists>s'. ubeacon_InitServerList False 3 (U_ok, ''c'') U_ok [demo_host 2 U_ok, demo_host 5 U_ok]
     ((demo_node 3)\<lparr>servers := []\<rparr>) = (U_ok, s') \<and> \<not> amIMagic s'"
proof -
  let ?r = "ubeacon_InitServerList False 3 (U_ok, ''c'') U_ok [demo_host 2 U_ok, demo_host 5 U_ok]
     ((demo_node 3)\<lparr>servers := []\<rparr>)"
  have r: "?r = (U_ok, snd ?r)" "map addr (servers (snd ?r)) = [5, 2]"
    by (simp_all add: ubeacon_InitServerList_def demo_host_def demo_binding_def demo_node_def zero_server_def
        ntohl_def Let_def)
  have "2 \<in> addr ` set (servers (snd ?r))" by (simp only: r(2) flip: list.set_map) simp
  then have s: "\<exists>ts \<in> set (servers (snd ?r)). addr ts = 2" by auto
  have "distinct (map addr (servers (snd ?r)))" "\<not> amIMagic ((demo_node 3)\<lparr>servers := []\<rparr>)"
    unfolding r(2) by (simp_all add: demo_node_def)
  from init_magic_lowest [OF r(1) _ this(2,1)] s have "\<not> amIMagic (snd ?r)"
    by (fastforce simp: ntohl_def)
  then show ?thesis using r(1) by blast
qed









section \<open>Answers to clients\<close>

text \<open>After a yes vote for a synchronization site, until its claim is \<open>SMALLTIME\<close> old, a server answers
  clients with that host, by address and by identity.\<close>

theorem sync_site_known:
  assumes "beacon_vote le now (c, r, p) astate astart avers atid s = (t, s')" and "t \<noteq> 0" and "astate \<noteq> 0"
    and "later \<le> astart + SMALLTIME"
  shows "SUBIKVOTE_GetSyncSite le later s' = (U_ok, ntohl le c) \<and>
    SUBIKVOTE_GetSyncSiteIdentity later s' = (U_ok, Some (r, p)) \<and> uvote_CheckSyncSite later s'"
proof -
  have "lastYesState s' = astate \<and> lastYesClaim s' = astart \<and> lastYesHost s' = c \<and> lastYesRealm s' = r \<and> lastYesPrinc s' = p"
    using assms(1,2)
    by (cases rule: beacon_vote_cases [of le now c r p astate astart avers atid s])
      (auto simp: urecovery_CheckTid_def split: option.split)
  then show ?thesis
    using assms(3,4) by (simp add: SUBIKVOTE_GetSyncSite_def SUBIKVOTE_GetSyncSiteIdentity_def uvote_CheckSyncSite_def)
qed

lemma sync_site_known_witness:
  "SUBIKVOTE_GetSyncSite False 280 (snd (beacon_vote False 200 (1, uuid_g_nil_uuid, uuid_g_nil_uuid) 1 190
     \<lparr>v_epoch = 0, v_counter = 0\<rparr> \<lparr>t_epoch = 5, t_counter = 1\<rparr> (demo_node 2))) = (U_ok, 1)"
proof -
  let ?b = "beacon_vote False 200 (1, uuid_g_nil_uuid, uuid_g_nil_uuid) 1 190
     \<lparr>v_epoch = 0, v_counter = 0\<rparr> \<lparr>t_epoch = 5, t_counter = 1\<rparr> (demo_node 2)"
  obtain t s' where b: "?b = (t, s')" by fastforce
  have "fst ?b = 200"
    by (simp add: beacon_vote_def beacon_sync_def beacon_lowest_def ntohl_def demo_node_def demo_server_def
        zero_server_def Let_def)
  then show ?thesis
    using sync_site_known [OF b, of 280] by (simp add: b ntohl_def)
qed

section \<open>Retries\<close>

lemma send_beacon_skip:
  assumes "\<forall>i < j. \<forall>k. \<exists>e t. rpc k i = (Rpc_s e, t)" and "\<forall>k e t. rpc k j \<noteq> (Rpc_s e, t)" and "j < n" and "i \<le> j"
  shows "send_beacon_loop rpc n i True k args = rpc (k + (j - i)) j"
  using assms(4)
proof (induction "j - i" arbitrary: i k args)
  case 0
  then show ?case using assms(2,3)
    by (subst send_beacon_loop.simps) (auto split: prod.split ucode.split)
next
  case (Suc x)
  then have i: "i < j" by simp
  then obtain e t where r: "rpc k i = (Rpc_s e, t)" using assms(1) by blast
  have "send_beacon_loop rpc n i True k args = send_beacon_loop rpc n (i + 1) True (k + 1) (Rpc_s e, t)"
    using i assms(3) by (subst send_beacon_loop.simps) (simp add: r)
  also have "\<dots> = rpc (k + 1 + (j - (i + 1))) j" using Suc.hyps(2) i by (intro Suc.hyps(1)) auto
  also have "k + 1 + (j - (i + 1)) = k + (j - i)" using i by simp
  finally show ?case .
qed

text \<open>\<open>ubeacon_send_beacon\<close> always ends, and its result is the answer on the first binding that works:
  at the first attempt, or, when bindings before it fail, one retry of the first and one attempt on
  each later.\<close>

theorem send_beacon_result:
  assumes "\<forall>i < j. \<forall>k. \<exists>e t. rpc k i = (Rpc_s e, t)" and "\<forall>k e t. rpc k j \<noteq> (Rpc_s e, t)" and "j < n"
  shows "ubeacon_send_beacon rpc n = rpc (if j = 0 then 0 else j + 1) j"
proof (cases "j = 0")
  case True
  then show ?thesis using assms(2,3) unfolding ubeacon_send_beacon_def
    by (subst send_beacon_loop.simps) (auto split: prod.split ucode.split)
next
  case False
  then obtain e t where r: "rpc 0 0 = (Rpc_s e, t)" using assms(1) by blast
  have "ubeacon_send_beacon rpc n = send_beacon_loop rpc n 0 True 1 (Rpc_s e, t)"
    using False assms(3) unfolding ubeacon_send_beacon_def by (subst send_beacon_loop.simps) (simp add: r)
  also have "\<dots> = rpc (1 + (j - 0)) j" by (rule send_beacon_skip [OF assms]) simp
  also have "\<dots> = rpc (if j = 0 then 0 else j + 1) j" using False by (simp add: add.commute)
  finally show ?thesis .
qed

lemma send_beacon_result_witness:
  "ubeacon_send_beacon (\<lambda>k i. if i < 2 then (Rpc_s 1, 0) else (U_ok, int k)) 4 = (U_ok, 3)"
  by (subst send_beacon_result [of 2]) auto

end
