(* ===== verification/Udisk.thy ===== *)
theory Udisk
  imports Ubik "HOL-Library.AList"
begin

text \<open>
  The local database of a Ubik server: \<^verbatim>\<open>file/ncsubik/phys.c\<close> (files), \<^verbatim>\<open>disk.c\<close> (log, page buffers,
  transactions) and \<open>ReplayLog\<close>, \<open>urecovery_Initialize\<close> of \<^verbatim>\<open>recovery.c\<close>, with the types of \<^verbatim>\<open>ubik.p.h\<close>.

  \<^item> A server has one database, so its buffers belong to it; \<open>ubik_dbase\<close> has the structure of that name, the
    statics of \<^verbatim>\<open>disk.c\<close> and the files.  A pointer to a transaction is a number.
  \<^item> \<open>disk f\<close> are the contents of the file \<open>f\<close> since its last \<open>fsync\<close>, oldest first: the last one is what
    \<open>read\<close> gives, the others are what a crash may leave.  \<open>past\<close> is a history variable, the states of the files
    before each change.  The cache of file descriptors has no effect on the contents and is left out.
  \<^item> \<open>faults n\<close> is the failure of the \<open>n\<close>th system call, if any: the file cannot be opened, or the call fails after
    a part of the data.  Memory allocation succeeds.
  \<^item> A \<open>long\<close> has 32 bits, as the log format says; \<open>le\<close> is the byte order of the host.  File numbers and positions
    are integers (no file reaches 2 to the 31 bytes).
\<close>

section \<open>Longs in memory and on disk\<close>

definition net_bytes :: "u32 \<Rightarrow> u8 list" where
  "net_bytes w = [ucast (drop_bit 24 w), ucast (drop_bit 16 w), ucast (drop_bit 8 w), ucast w]"

fun net_word :: "u8 list \<Rightarrow> u32" where
  "net_word [a, b, c, d] =
     push_bit 24 (ucast a) OR push_bit 16 (ucast b) OR push_bit 8 (ucast c) OR ucast d"
| "net_word _ = 0"

definition long_bytes :: "bool \<Rightarrow> u32 \<Rightarrow> u8 list" where
  "long_bytes le w = (if le then rev (net_bytes w) else net_bytes w)"

definition bytes_long :: "bool \<Rightarrow> u8 list \<Rightarrow> u32" where
  "bytes_long le bs = net_word (if le then rev bs else bs)"

text \<open>\<open>long\<close>s at the start of a buffer, by index.\<close>

definition buffer_long :: "bool \<Rightarrow> u8 list \<Rightarrow> nat \<Rightarrow> u32" where
  "buffer_long le bs i = bytes_long le (take 4 (drop (4 * i) bs))"

definition put_longs :: "bool \<Rightarrow> u32 list \<Rightarrow> u8 list" where
  "put_longs le ws = concat (map (\<lambda>w. long_bytes le (ntohl le w)) ws)"

section \<open>Files\<close>

datatype errno = EACCES | EPERM | EDQUOT | ENOSPC | EIO | EBADF | E_inval | ENOENT | E_other

datatype os_fault = Open_fails errno | Call_fails errno nat

record phys =
  disk :: "int \<Rightarrow> u8 list list"
  past :: "(int \<Rightarrow> u8 list list) list"
  faults :: "nat \<Rightarrow> os_fault option"
  ncalls :: nat

definition uphys_errorDecode :: "errno \<Rightarrow> ucode" where
  "uphys_errorDecode error =
     (case error of
        EACCES \<Rightarrow> UNOACCESS | EPERM \<Rightarrow> UNOACCESS
      | EDQUOT \<Rightarrow> UNOSPC | ENOSPC \<Rightarrow> UNOSPC
      | EIO \<Rightarrow> UIOERROR | EBADF \<Rightarrow> UBADF | E_inval \<Rightarrow> UBADPATH | ENOENT \<Rightarrow> UNOENT
      | E_other \<Rightarrow> UINTERNAL)"

definition UBIK_HDRSIZE :: int where "UBIK_HDRSIZE = 64"
definition UBIK_MAGIC :: u32 where "UBIK_MAGIC = 0x354545"
definition LOGFILE :: int where "LOGFILE = -1"

definition content :: "int \<Rightarrow> 'a phys_scheme \<Rightarrow> u8 list" where
  "content f p = last (disk p f)"

definition change :: "int \<Rightarrow> u8 list \<Rightarrow> 'a phys_scheme \<Rightarrow> 'a phys_scheme" where
  "change f c p = p\<lparr>disk := (disk p)(f := disk p f @ [c]), past := past p @ [disk p]\<rparr>"

definition synced :: "int \<Rightarrow> 'a phys_scheme \<Rightarrow> 'a phys_scheme" where
  "synced f p = p\<lparr>disk := (disk p)(f := [content f p]), past := past p @ [disk p]\<rparr>"

definition called :: "'a phys_scheme \<Rightarrow> 'a phys_scheme" where
  "called p = p\<lparr>ncalls := ncalls p + 1\<rparr>"

abbreviation fault :: "'a phys_scheme \<Rightarrow> os_fault option" where
  "fault p \<equiv> faults p (ncalls p)"

text \<open>\<open>write\<close> at an offset and \<open>ftruncate\<close>: holes are zero bytes.\<close>

definition pwrite :: "u8 list \<Rightarrow> nat \<Rightarrow> u8 list \<Rightarrow> u8 list" where
  "pwrite c off d =
     (if d = [] then c
      else take off c @ replicate (off - length c) 0 @ d @ drop (off + length d) c)"

definition ftruncate :: "u8 list \<Rightarrow> nat \<Rightarrow> u8 list" where
  "ftruncate c n = take n c @ replicate (n - length c) 0"

definition uphys_stat :: "int \<Rightarrow> 'a phys_scheme \<Rightarrow> ucode \<times> int \<times> 'a phys_scheme" where
  "uphys_stat f p =
     (case fault p of
        Some (Open_fails e) \<Rightarrow> (UBADF, 0, called p)
      | Some (Call_fails e n) \<Rightarrow> (uphys_errorDecode e, 0, called p)
      | None \<Rightarrow> (U_ok, max 0 (int (length (content f p)) - UBIK_HDRSIZE), called p))"

definition uphys_read :: "int \<Rightarrow> int \<Rightarrow> int \<Rightarrow> 'a phys_scheme \<Rightarrow> ucode \<times> u8 list \<times> 'a phys_scheme" where
  "uphys_read f pos len p =
     (case fault p of
        Some (Open_fails e) \<Rightarrow> (UBADF, [], called p)
      | Some (Call_fails e n) \<Rightarrow> (uphys_errorDecode e, [], called p)
      | None \<Rightarrow>
          if pos + UBIK_HDRSIZE < 0 then (UBADPATH, [], called p)
          else
            let d = take (nat len) (drop (nat (pos + UBIK_HDRSIZE)) (content f p))
            in (if int (length d) = len then U_ok else UEOF, d, called p))"

definition uphys_write :: "int \<Rightarrow> u8 list \<Rightarrow> int \<Rightarrow> 'a phys_scheme \<Rightarrow> ucode \<times> 'a phys_scheme" where
  "uphys_write f d pos p =
     (case fault p of
        Some (Open_fails e) \<Rightarrow> (UNOENT, called p)
      | Some (Call_fails e n) \<Rightarrow>
          (uphys_errorDecode e,
           if pos + UBIK_HDRSIZE < 0 then called p
           else change f (pwrite (content f p) (nat (pos + UBIK_HDRSIZE)) (take (min n (length d - 1)) d)) (called p))
      | None \<Rightarrow>
          if pos + UBIK_HDRSIZE < 0 then (UBADPATH, called p)
          else (U_ok, change f (pwrite (content f p) (nat (pos + UBIK_HDRSIZE)) d) (called p)))"

definition uphys_truncate :: "int \<Rightarrow> int \<Rightarrow> 'a phys_scheme \<Rightarrow> ucode \<times> 'a phys_scheme" where
  "uphys_truncate f len p =
     (case fault p of
        Some (Open_fails e) \<Rightarrow> (UNOENT, called p)
      | Some (Call_fails e n) \<Rightarrow> (uphys_errorDecode e, called p)
      | None \<Rightarrow>
          if len + UBIK_HDRSIZE < 0 then (UBADPATH, called p)
          else (U_ok, change f (ftruncate (content f p) (nat (len + UBIK_HDRSIZE))) (called p)))"

definition uphys_sync :: "int \<Rightarrow> 'a phys_scheme \<Rightarrow> ucode \<times> 'a phys_scheme" where
  "uphys_sync f p =
     (case fault p of
        Some (Open_fails e) \<Rightarrow> (uphys_errorDecode e, called p)
      | Some (Call_fails e n) \<Rightarrow> (uphys_errorDecode e, called p)
      | None \<Rightarrow> (U_ok, synced f (called p)))"

definition header :: "bool \<Rightarrow> u32 \<times> u32 \<Rightarrow> u8 list" where
  "header le v = put_longs le [UBIK_MAGIC] @ [0, 0] @ [0, 64] @ put_longs le [fst v, snd v]"

text \<open>The two longs of a label are words; \<open>fsync\<close> is called also when the write fails.\<close>

definition uphys_setlabel :: "bool \<Rightarrow> int \<Rightarrow> u32 \<times> u32 \<Rightarrow> 'a phys_scheme \<Rightarrow> ucode \<times> 'a phys_scheme" where
  "uphys_setlabel le f v p =
     (case fault p of
        Some (Open_fails e) \<Rightarrow> (uphys_errorDecode e, called p)
      | Some (Call_fails e n) \<Rightarrow>
          (uphys_errorDecode e, synced f (change f (pwrite (content f p) 0 (take (min n 15) (header le v))) (called p)))
      | None \<Rightarrow> (U_ok, synced f (change f (pwrite (content f p) 0 (header le v)) (called p))))"

definition uphys_getlabel :: "bool \<Rightarrow> int \<Rightarrow> 'a phys_scheme \<Rightarrow> ucode \<times> (u32 \<times> u32) \<times> 'a phys_scheme" where
  "uphys_getlabel le f p =
     (case fault p of
        Some (Open_fails e) \<Rightarrow> (UNOENT, (0, 0), called p)
      | Some (Call_fails e n) \<Rightarrow> (uphys_errorDecode e, (0, 0), called p)
      | None \<Rightarrow>
          let h = take 16 (content f p)
          in if length h = 16
             then (U_ok, (ntohl le (buffer_long le h 2), ntohl le (buffer_long le h 3)), called p)
             else (UEOF, (0, 0), called p))"

text \<open>The next operation runs when the code of the one before is 0.\<close>

definition and_then :: "ucode \<times> 's \<Rightarrow> ('s \<Rightarrow> ucode \<times> 's) \<Rightarrow> ucode \<times> 's" where
  "and_then r k = (case r of (code, s) \<Rightarrow> if code = U_ok then k s else (code, s))"

section \<open>The log\<close>

definition LOGNEW :: u32 where "LOGNEW = 100"
definition LOGEND :: u32 where "LOGEND = 101"
definition LOGABORT :: u32 where "LOGABORT = 102"
definition LOGDATA :: u32 where "LOGDATA = 103"
definition LOGTRUNCATE :: u32 where "LOGTRUNCATE = 104"

definition append_log :: "u8 list \<Rightarrow> 'a phys_scheme \<Rightarrow> ucode \<times> 'a phys_scheme" where
  "append_log d p =
     (case uphys_stat LOGFILE p of (code, lpos, p) \<Rightarrow>
        if code \<noteq> U_ok then (code, p) else uphys_write LOGFILE d lpos p)"

definition udisk_LogOpcode :: "bool \<Rightarrow> u32 \<Rightarrow> bool \<Rightarrow> 'a phys_scheme \<Rightarrow> ucode \<times> 'a phys_scheme" where
  "udisk_LogOpcode le opcode async p =
     and_then (append_log (put_longs le [opcode]) p) (\<lambda>p. if async then uphys_sync LOGFILE p else (U_ok, p))"

definition version_words :: "ubik_version \<Rightarrow> u32 \<times> u32" where
  "version_words v = (word_of_int (v_epoch v), word_of_int (v_counter v))"

definition udisk_LogEnd :: "bool \<Rightarrow> ubik_version \<Rightarrow> 'a phys_scheme \<Rightarrow> ucode \<times> 'a phys_scheme" where
  "udisk_LogEnd le v p =
     and_then (append_log (put_longs le [LOGEND, fst (version_words v), snd (version_words v)]) p) (uphys_sync LOGFILE)"

definition udisk_LogTruncate :: "bool \<Rightarrow> int \<Rightarrow> int \<Rightarrow> 'a phys_scheme \<Rightarrow> ucode \<times> 'a phys_scheme" where
  "udisk_LogTruncate le f len p =
     append_log (put_longs le [LOGTRUNCATE, word_of_int f, word_of_int len]) p"

definition udisk_LogWriteData ::
    "bool \<Rightarrow> int \<Rightarrow> u8 list \<Rightarrow> int \<Rightarrow> 'a phys_scheme \<Rightarrow> ucode \<times> 'a phys_scheme" where
  "udisk_LogWriteData le f d pos p =
     (case uphys_stat LOGFILE p of (code, lpos, p) \<Rightarrow>
        if code \<noteq> U_ok then (code, p)
        else
          and_then (uphys_write LOGFILE
              (put_longs le [LOGDATA, word_of_int f, word_of_int pos, word_of_nat (length d)]) lpos p)
            (uphys_write LOGFILE d (lpos + 16)))"

section \<open>Page buffers\<close>

definition UBIK_PAGESIZE :: nat where "UBIK_PAGESIZE = 1024"
definition PHSIZE :: int where "PHSIZE = 128"

text \<open>\<open>0xffffffff\<close> as a \<open>long\<close>, the number of the log.\<close>

definition BADFID :: int where "BADFID = -1"

record buffer =
  bfile :: int
  page :: nat
  accesstime :: int
  lockers :: int
  dirty :: bool
  hashIndex :: nat
  data :: "u8 list"

text \<open>The chains of the hash table are lists of the indices of the buffers.\<close>

datatype ttype = UBIK_READTRANS | UBIK_WRITETRANS

text \<open>The type of a lock is what the caller gave.\<close>

definition LOCKREAD :: int where "LOCKREAD = 1"
definition LOCKWRITE :: int where "LOCKWRITE = 2"

record ubik_lock =
  l_type :: int
  l_start :: int
  l_length :: int
  l_want :: bool

record ubik_trans =
  t_type :: ttype
  t_done :: bool
  t_abort :: bool
  activeTruncs :: "(int \<times> int) list"
  activeLocks :: "ubik_lock list"

record ubik_dbase = phys +
  Buffers :: "buffer list"
  phTable :: "nat \<Rightarrow> nat list"
  LastBuffer :: nat
  timecounter :: int
  db_version :: ubik_version
  db_writing :: bool
  db_readers :: int
  activeTrans :: "(nat \<times> ubik_trans) list"
  nextTrans :: nat

definition pHash :: "int \<Rightarrow> nat" where
  "pHash f = nat (f AND (PHSIZE - 1))"

definition on_buffer :: "nat \<Rightarrow> (buffer \<Rightarrow> buffer) \<Rightarrow> ubik_dbase \<Rightarrow> ubik_dbase" where
  "on_buffer i g db = db\<lparr>Buffers := (Buffers db)[i := g (Buffers db ! i)]\<rparr>"

definition zero_page :: "u8 list" where "zero_page = replicate UBIK_PAGESIZE 0"

definition DInit :: "nat \<Rightarrow> ubik_dbase \<Rightarrow> ubik_dbase" where
  "DInit n db =
     db\<lparr>Buffers := replicate n \<lparr>bfile = BADFID, page = 0, accesstime = 0, lockers = 0, dirty = False, hashIndex = 0,
                              data = zero_page\<rparr>,
        phTable := (\<lambda>_. []), LastBuffer := 0, timecounter := 0\<rparr>"

text \<open>\<open>tb->accesstime = ++timecounter\<close>.\<close>

definition touch :: "nat \<Rightarrow> ubik_dbase \<Rightarrow> ubik_dbase" where
  "touch i db =
     (let t = timecounter db + 1 in (on_buffer i (\<lambda>b. b\<lparr>accesstime := t\<rparr>) db)\<lparr>timecounter := t\<rparr>)"

definition FixupBucket :: "nat \<Rightarrow> ubik_dbase \<Rightarrow> ubik_dbase" where
  "FixupBucket i db =
     (let h = hashIndex (Buffers db ! i);
          tab = (phTable db)(h := remove1 i (phTable db h));
          h' = pHash (bfile (Buffers db ! i))
      in (on_buffer i (\<lambda>b. b\<lparr>hashIndex := h'\<rparr>) db)\<lparr>phTable := tab(h' := i # tab h')\<rparr>)"

text \<open>The least recently used of the buffers that are neither locked nor dirty.\<close>

fun oldest_pure :: "buffer list \<Rightarrow> nat \<Rightarrow> nat option \<times> int \<Rightarrow> nat option" where
  "oldest_pure [] i (pp, pt) = pp"
| "oldest_pure (b # bs) i (pp, pt) =
     oldest_pure bs (Suc i)
       (if lockers b = 0 \<and> \<not> dirty b \<and> accesstime b < pt then (Some i, accesstime b) else (pp, pt))"

definition newslot :: "int \<Rightarrow> nat \<Rightarrow> ubik_dbase \<Rightarrow> nat option \<times> ubik_dbase" where
  "newslot f pg db =
     (case oldest_pure (Buffers db) 0 (None, 999999999) of
        None \<Rightarrow> (None, db)
      | Some i \<Rightarrow>
          (Some i, (FixupBucket i (touch i (on_buffer i (\<lambda>b. b\<lparr>bfile := f, page := pg\<rparr>) db)))\<lparr>LastBuffer := i\<rparr>))"

definition holds_page :: "int \<Rightarrow> nat \<Rightarrow> buffer \<Rightarrow> bool" where
  "holds_page f pg b \<longleftrightarrow> page b = pg \<and> bfile b = f"

definition lock_buffer :: "nat \<Rightarrow> ubik_dbase \<Rightarrow> ubik_dbase" where
  "lock_buffer i db = on_buffer i (\<lambda>b. b\<lparr>lockers := lockers b + 1\<rparr>) db"

definition overlay :: "u8 list \<Rightarrow> nat \<Rightarrow> u8 list \<Rightarrow> u8 list" where
  "overlay bs off d = take off bs @ d @ drop (off + length d) bs"

definition DRead :: "int \<Rightarrow> nat \<Rightarrow> ubik_dbase \<Rightarrow> nat option \<times> ubik_dbase" where
  "DRead f pg db =
     (if holds_page f pg (Buffers db ! LastBuffer db) then
        (Some (LastBuffer db), lock_buffer (LastBuffer db) (touch (LastBuffer db) db))
      else
        case find (\<lambda>i. holds_page f pg (Buffers db ! i)) (phTable db (pHash f)) of
          Some i \<Rightarrow> (Some i, (touch i (lock_buffer i db))\<lparr>LastBuffer := i\<rparr>)
        | None \<Rightarrow>
            case newslot f pg db of
              (None, db) \<Rightarrow> (None, db)
            | (Some i, db) \<Rightarrow>
                case uphys_read f (int (pg * UBIK_PAGESIZE)) (int UBIK_PAGESIZE) db of
                  (code, d, db) \<Rightarrow>
                    let db = on_buffer i (\<lambda>b. b\<lparr>data := overlay zero_page 0 d\<rparr>) db
                    in if code \<noteq> U_ok then (None, on_buffer i (\<lambda>b. b\<lparr>bfile := BADFID\<rparr>) db)
                       else (Some i, lock_buffer i db))"

definition DNew :: "int \<Rightarrow> nat \<Rightarrow> ubik_dbase \<Rightarrow> nat option \<times> ubik_dbase" where
  "DNew f pg db =
     (case newslot f pg db of
        (None, db) \<Rightarrow> (None, db)
      | (Some i, db) \<Rightarrow> (Some i, on_buffer i (\<lambda>b. b\<lparr>data := zero_page\<rparr>) (lock_buffer i db)))"

definition DRelease :: "nat \<Rightarrow> bool \<Rightarrow> ubik_dbase \<Rightarrow> ubik_dbase" where
  "DRelease i flag db =
     on_buffer i (\<lambda>b. b\<lparr>lockers := lockers b - 1, dirty := (if flag then True else dirty b)\<rparr>) db"

text \<open>The first page behind the new length; the chain of the file is searched.\<close>

definition DTrunc :: "int \<Rightarrow> int \<Rightarrow> ubik_dbase \<Rightarrow> ubik_dbase" where
  "DTrunc f len db =
     (let maxPage = drop_bit 10 (len + int UBIK_PAGESIZE - 1)
      in fold (\<lambda>i db. if maxPage \<le> int (page (Buffers db ! i)) \<and> bfile (Buffers db ! i) = f
                      then on_buffer i (\<lambda>b. b\<lparr>bfile := BADFID\<rparr>) db else db)
           (phTable db (pHash f)) db)"

definition udisk_Invalidate :: "int \<Rightarrow> ubik_dbase \<Rightarrow> ubik_dbase" where
  "udisk_Invalidate f db =
     fold (\<lambda>i db. if bfile (Buffers db ! i) = f then on_buffer i (\<lambda>b. b\<lparr>bfile := BADFID\<rparr>) db else db)
       (phTable db (pHash f)) db"

fun flush_buffers :: "buffer list \<Rightarrow> ubik_dbase \<Rightarrow> ucode \<times> ubik_dbase" where
  "flush_buffers [] db = (U_ok, db)"
| "flush_buffers (b # bs) db =
     (if dirty b
      then and_then (uphys_write (bfile b) (data b) (int (page b * UBIK_PAGESIZE)) db) (flush_buffers bs)
      else flush_buffers bs db)"

definition DFlush :: "ubik_dbase \<Rightarrow> ucode \<times> ubik_dbase" where
  "DFlush db = flush_buffers (Buffers db) db"

definition DAbort :: "ubik_dbase \<Rightarrow> ubik_dbase" where
  "DAbort db = db\<lparr>Buffers := map (\<lambda>b. if dirty b then b\<lparr>dirty := False, bfile := BADFID\<rparr> else b) (Buffers db)\<rparr>"

text \<open>One file after the other; a dirty buffer without a file stays dirty.\<close>

definition dirty_files :: "buffer list \<Rightarrow> int list" where
  "dirty_files bs = map bfile (filter (\<lambda>b. dirty b \<and> bfile b \<noteq> BADFID) bs)"

function sync_files :: "ucode \<Rightarrow> ubik_dbase \<Rightarrow> ucode \<times> ubik_dbase" where
  "sync_files rCode db =
     (case dirty_files (Buffers db) of
        [] \<Rightarrow> (rCode, db)
      | f # _ \<Rightarrow>
          let db = db\<lparr>Buffers := map (\<lambda>b. if bfile b = f then b\<lparr>dirty := False\<rparr> else b) (Buffers db)\<rparr>
          in case uphys_sync f db of (code, db) \<Rightarrow> sync_files (if code \<noteq> U_ok then code else rCode) db)"
  by pat_completeness auto

lemma sync_buffers: "uphys_sync f (db :: ubik_dbase) = (c, db') \<Longrightarrow> Buffers db' = Buffers db"
  by (auto simp: uphys_sync_def synced_def called_def split: option.splits os_fault.splits)

lemma clean_shorter:
  "dirty_files bs = f # fs \<Longrightarrow>
   length (dirty_files (map (\<lambda>b. if bfile b = f then b\<lparr>dirty := False\<rparr> else b) bs)) < Suc (length fs)"
proof -
  assume d: "dirty_files bs = f # fs"
  have len: "length (dirty_files (map (\<lambda>b. if bfile b = f then b\<lparr>dirty := False\<rparr> else b) bs)) =
      length (filter (\<lambda>g. g \<noteq> f) (dirty_files bs))"
    by (induction bs) (auto simp: dirty_files_def)
  show ?thesis unfolding len using d by (auto intro: le_imp_less_Suc length_filter_le)
qed

termination sync_files
  by (relation "measure (\<lambda>(c, db). length (dirty_files (Buffers db)))") (auto simp: clean_shorter dest!: sync_buffers [OF sym])

declare sync_files.simps [simp del]

definition DSync :: "ubik_dbase \<Rightarrow> ucode \<times> ubik_dbase" where
  "DSync db = sync_files U_ok db"

section \<open>Transactions\<close>

definition the_trans :: "nat \<Rightarrow> ubik_dbase \<Rightarrow> ubik_trans" where
  "the_trans t db = the (map_of (activeTrans db) t)"

definition on_trans :: "nat \<Rightarrow> (ubik_trans \<Rightarrow> ubik_trans) \<Rightarrow> ubik_dbase \<Rightarrow> ubik_dbase" where
  "on_trans t g db = db\<lparr>activeTrans := map (\<lambda>(i, x). (i, if i = t then g x else x)) (activeTrans db)\<rparr>"

definition unthread :: "nat \<Rightarrow> ubik_dbase \<Rightarrow> ubik_dbase" where
  "unthread t db = db\<lparr>activeTrans := filter (\<lambda>(i, x). i \<noteq> t) (activeTrans db)\<rparr>"

fun DoTruncs :: "(int \<times> int) list \<Rightarrow> ubik_dbase \<Rightarrow> ucode \<times> ubik_dbase" where
  "DoTruncs [] db = (U_ok, db)"
| "DoTruncs ((f, len) # ts) db = and_then (uphys_truncate f len (DTrunc f len db)) (DoTruncs ts)"

text \<open>The bytes that were copied before an error are part of the result.\<close>

function udisk_read_loop :: "int \<Rightarrow> nat \<Rightarrow> nat \<Rightarrow> ubik_dbase \<Rightarrow> ucode \<times> u8 list \<times> ubik_dbase" where
  "udisk_read_loop f apos alen db =
     (if alen = 0 then (U_ok, [], db)
      else
        case DRead f (apos div UBIK_PAGESIZE) db of
          (None, db) \<Rightarrow> (UEOF, [], db)
        | (Some i, db) \<Rightarrow>
            let offset = apos mod UBIK_PAGESIZE; len = min (UBIK_PAGESIZE - offset) alen;
                d = take len (drop offset (data (Buffers db ! i)))
            in case udisk_read_loop f (apos + len) (alen - len) (DRelease i False db) of
                 (code, ds, db) \<Rightarrow> (code, d @ ds, db))"
  by pat_completeness auto
termination by (relation "measure (\<lambda>(f, apos, alen, db). alen)") (auto simp: UBIK_PAGESIZE_def)

declare udisk_read_loop.simps [simp del]

definition udisk_read :: "nat \<Rightarrow> int \<Rightarrow> nat \<Rightarrow> nat \<Rightarrow> ubik_dbase \<Rightarrow> ucode \<times> u8 list \<times> ubik_dbase" where
  "udisk_read t f apos alen db =
     (if t_done (the_trans t db) then (UDONE, [], db) else udisk_read_loop f apos alen db)"

definition udisk_truncate :: "bool \<Rightarrow> nat \<Rightarrow> int \<Rightarrow> int \<Rightarrow> ubik_dbase \<Rightarrow> ucode \<times> ubik_dbase" where
  "udisk_truncate le t f len db =
     (if t_type (the_trans t db) \<noteq> UBIK_WRITETRANS then (UBADTYPE, db)
      else if t_done (the_trans t db) then (UDONE, db)
      else
        case udisk_LogTruncate le f len db of (code, db) \<Rightarrow>
          (code,
           on_trans t (\<lambda>x. x\<lparr>activeTruncs :=
               (case map_of (activeTruncs x) f of
                  None \<Rightarrow> (f, len) # activeTruncs x
                | Some l \<Rightarrow> if len < l then AList.update f len (activeTruncs x) else activeTruncs x)\<rparr>) db))"

function udisk_write_loop :: "int \<Rightarrow> u8 list \<Rightarrow> nat \<Rightarrow> ubik_dbase \<Rightarrow> ucode \<times> ubik_dbase" where
  "udisk_write_loop f bs apos db =
     (if bs = [] then (U_ok, db)
      else
        case (case DRead f (apos div UBIK_PAGESIZE) db of
                (None, db) \<Rightarrow> DNew f (apos div UBIK_PAGESIZE) db
              | r \<Rightarrow> r) of
          (None, db) \<Rightarrow> (UIOERROR, db)
        | (Some i, db) \<Rightarrow>
            let offset = apos mod UBIK_PAGESIZE; len = min (UBIK_PAGESIZE - offset) (length bs);
                db = on_buffer i (\<lambda>b. b\<lparr>data := overlay (data b) offset (take len bs)\<rparr>) db
            in udisk_write_loop f (drop len bs) (apos + len) (DRelease i True db))"
  by pat_completeness auto
termination by (relation "measure (\<lambda>(f, bs, apos, db). length bs)") (auto simp: UBIK_PAGESIZE_def)

declare udisk_write_loop.simps [simp del]

definition udisk_write :: "bool \<Rightarrow> nat \<Rightarrow> int \<Rightarrow> u8 list \<Rightarrow> nat \<Rightarrow> ubik_dbase \<Rightarrow> ucode \<times> ubik_dbase" where
  "udisk_write le t f bs apos db =
     (if t_type (the_trans t db) \<noteq> UBIK_WRITETRANS then (UBADTYPE, db)
      else if t_done (the_trans t db) then (UDONE, db)
      else
        and_then (udisk_LogWriteData le f bs (int apos) db)
          (\<lambda>db. udisk_write_loop f bs apos
             (on_trans t (\<lambda>x. x\<lparr>activeTruncs :=
                 (case map_of (activeTruncs x) f of
                    None \<Rightarrow> activeTruncs x
                  | Some l \<Rightarrow>
                      if l < int (apos + length bs) then AList.update f (int (apos + length bs)) (activeTruncs x)
                      else activeTruncs x)\<rparr>) db)))"

definition new_trans :: "ttype \<Rightarrow> ubik_trans" where
  "new_trans ty = \<lparr>t_type = ty, t_done = False, t_abort = False, activeTruncs = [], activeLocks = []\<rparr>"

definition udisk_begin :: "bool \<Rightarrow> ttype \<Rightarrow> ubik_dbase \<Rightarrow> ucode \<times> nat \<times> ubik_dbase" where
  "udisk_begin le ty db =
     (case (if ty = UBIK_WRITETRANS
            then if db_writing db then (USYNC, db) else udisk_LogOpcode le LOGNEW False db
            else (U_ok, db)) of (code, db) \<Rightarrow>
        if code \<noteq> U_ok then (code, 0, db)
        else
          let t = nextTrans db;
              db = db\<lparr>activeTrans := (t, new_trans ty) # activeTrans db, nextTrans := t + 1\<rparr>
          in (U_ok, t,
              if ty = UBIK_READTRANS then db\<lparr>db_readers := db_readers db + 1\<rparr> else db\<lparr>db_writing := True\<rparr>))"

text \<open>\<^const>\<open>None\<close> is a panic: the server stops with its files as they are.\<close>

definition udisk_commit :: "bool \<Rightarrow> nat \<Rightarrow> ubik_dbase \<Rightarrow> ucode option \<times> ubik_dbase" where
  "udisk_commit le t db =
     (if t_done (the_trans t db) then (Some UTWOENDS, db)
      else
        let db = on_trans t (\<lambda>x. x\<lparr>t_done := True\<rparr>) db in
        if t_type (the_trans t db) = UBIK_WRITETRANS then
          let db = db\<lparr>db_version := (db_version db)\<lparr>v_counter := v_counter (db_version db) + 1\<rparr>\<rparr> in
          case udisk_LogEnd le (db_version db) db of (code, db) \<Rightarrow>
            if code \<noteq> U_ok then (Some code, db)
            else
              case and_then (and_then (and_then (and_then (DFlush db) DSync)
                       (\<lambda>db. and_then (DoTruncs (activeTruncs (the_trans t db)) db)
                          (\<lambda>db. (U_ok, on_trans t (\<lambda>x. x\<lparr>activeTruncs := []\<rparr>) db))))
                     (\<lambda>db. uphys_setlabel le 0 (version_words (db_version db)) db))
                   (uphys_truncate LOGFILE 0) of (code, db) \<Rightarrow>
                (if code \<noteq> U_ok then None else Some U_ok, db)
        else (Some U_ok, db))"

definition udisk_abort :: "bool \<Rightarrow> nat \<Rightarrow> ubik_dbase \<Rightarrow> ucode \<times> ubik_dbase" where
  "udisk_abort le t db =
     (if t_done (the_trans t db) then (UTWOENDS, db)
      else
        let db = on_trans t (\<lambda>x. x\<lparr>t_done := True, t_abort := True\<rparr>) db in
        if t_type (the_trans t db) = UBIK_WRITETRANS \<and> db_writing db then
          let db = snd (udisk_LogOpcode le LOGABORT True db); db = snd (uphys_truncate LOGFILE 0 db)
          in (U_ok, DAbort db)
        else (U_ok, db))"

definition udisk_end :: "bool \<Rightarrow> nat \<Rightarrow> ubik_dbase \<Rightarrow> ucode \<times> ubik_dbase" where
  "udisk_end le t db =
     (let db = (if \<not> t_done (the_trans t db) then snd (udisk_abort le t db) else db);
          ty = t_type (the_trans t db);
          db = unthread t db
      in (U_ok, if ty = UBIK_WRITETRANS \<and> db_writing db then db\<lparr>db_writing := False\<rparr>
                else db\<lparr>db_readers := db_readers db - 1\<rparr>))"

section \<open>Recovery\<close>

text \<open>The first pass: whether there is a commit record.  \<^const>\<open>None\<close>: the loop does not end.\<close>

partial_function (option) replay_scan :: "bool \<Rightarrow> int \<Rightarrow> ubik_dbase \<Rightarrow> (bool \<times> ubik_dbase) option" where
  "replay_scan le tpos db =
     (case uphys_read LOGFILE tpos 4 db of (code, bs, db) \<Rightarrow>
        let opcode = bytes_long le bs in
        if code \<noteq> U_ok then Some (False, db)
        else if opcode = LOGNEW then replay_scan le (tpos + 4) db
        else if opcode = LOGABORT then Some (False, db)
        else if opcode = LOGEND then Some (True, db)
        else if opcode = LOGTRUNCATE then
          (case uphys_read LOGFILE (tpos + 4) 8 db of (code, bs, db) \<Rightarrow>
             if code \<noteq> U_ok then Some (False, db) else replay_scan le (tpos + 4 + 8) db)
        else if opcode = LOGDATA then
          (case uphys_read LOGFILE (tpos + 4) 12 db of (code, bs, db) \<Rightarrow>
             if code \<noteq> U_ok then Some (False, db)
             else replay_scan le (tpos + 4 + (sint (buffer_long le bs 2) + 12)) db)
        else Some (False, db))"

text \<open>The data of one record, 4096 bytes at a time; the code is \<^const>\<open>UBADLOG\<close> when a call fails.\<close>

function replay_data :: "int \<Rightarrow> int \<Rightarrow> int \<Rightarrow> int \<Rightarrow> ubik_dbase \<Rightarrow> ucode \<times> ubik_dbase" where
  "replay_data tfile filePos tpos len db =
     (if 0 < len then
        let thisSize = min len 4096 in
        case uphys_read LOGFILE tpos thisSize db of (code, bs, db) \<Rightarrow>
          if code \<noteq> U_ok then (UBADLOG, db)
          else
            case uphys_write tfile bs filePos db of (code, db) \<Rightarrow>
              if code \<noteq> U_ok then (UBADLOG, db)
              else replay_data tfile (filePos + thisSize) (tpos + thisSize) (len - thisSize) db
      else (U_ok, db))"
  by pat_completeness auto
termination by (relation "measure (\<lambda>(f, pos, tpos, len, db). nat len)") auto

declare replay_data.simps [simp del]

datatype replay_result = Replayed int | Bad_log | Returned ucode | Panicked

text \<open>The second pass.  \<open>Replayed\<close>: the commit record was reached, with the file that is to be synced.\<close>

partial_function (option) replay_apply ::
    "bool \<Rightarrow> int \<Rightarrow> int \<Rightarrow> ubik_dbase \<Rightarrow> (replay_result \<times> ubik_dbase) option" where
  "replay_apply le syncFile tpos db =
     (case uphys_read LOGFILE tpos 4 db of (code, bs, db) \<Rightarrow>
        let opcode = bytes_long le bs in
        if code \<noteq> U_ok then Some (Bad_log, db)
        else if opcode = LOGNEW then replay_apply le syncFile (tpos + 4) db
        else if opcode = LOGABORT then Some (Panicked, db)
        else if opcode = LOGEND then
          (case uphys_read LOGFILE (tpos + 4) 8 db of (code, bs, db) \<Rightarrow>
             if code \<noteq> U_ok then Some (Returned UBADLOG, db)
             else
               case uphys_setlabel le 0 (buffer_long le bs 0, buffer_long le bs 1) db of (code, db) \<Rightarrow>
                 Some (if code \<noteq> U_ok then Returned code else Replayed syncFile, db))
        else if opcode = LOGTRUNCATE then
          (case uphys_read LOGFILE (tpos + 4) 8 db of (code, bs, db) \<Rightarrow>
             if code \<noteq> U_ok then Some (Bad_log, db)
             else
               case uphys_truncate (sint (ntohl le (buffer_long le bs 0))) (sint (ntohl le (buffer_long le bs 1))) db
               of (code, db) \<Rightarrow>
                 if code \<noteq> U_ok then Some (Returned code, db)
                 else replay_apply le syncFile (tpos + 4 + 8) db)
        else if opcode = LOGDATA then
          (case uphys_read LOGFILE (tpos + 4) 12 db of (code, bs, db) \<Rightarrow>
             if code \<noteq> U_ok then Some (Bad_log, db)
             else
               let len = sint (ntohl le (buffer_long le bs 2));
                   filePos = sint (ntohl le (buffer_long le bs 1));
                   tfile = sint (ntohl le (buffer_long le bs 0))
               in case (if syncFile \<noteq> tfile \<and> 0 \<le> syncFile then uphys_sync syncFile db else (U_ok, db)) of
                 (code, db) \<Rightarrow>
                   if code \<noteq> U_ok then Some (Returned code, db)
                   else
                     case replay_data tfile filePos (tpos + 4 + 12) len db of (code, db) \<Rightarrow>
                       if code \<noteq> U_ok then Some (Returned code, db)
                       else replay_apply le tfile (tpos + 4 + 12 + max 0 len) db)
        else Some (Bad_log, db))"

definition ReplayLog :: "bool \<Rightarrow> ubik_dbase \<Rightarrow> (ucode option \<times> ubik_dbase) option" where
  "ReplayLog le db =
     (case replay_scan le 0 db of
        None \<Rightarrow> None
      | Some (logIsGood, db) \<Rightarrow>
          let finish = (\<lambda>db. case uphys_truncate LOGFILE 0 db of (code, db) \<Rightarrow> Some (Some code, db)) in
          if \<not> logIsGood then finish db
          else
            case replay_apply le (-1) 0 db of
              None \<Rightarrow> None
            | Some (Panicked, db) \<Rightarrow> Some (None, db)
            | Some (Returned code, db) \<Rightarrow> Some (Some code, db)
            | Some (Bad_log, db) \<Rightarrow> Some (Some UBADLOG, db)
            | Some (Replayed syncFile, db) \<Rightarrow>
                (case (if 0 \<le> syncFile then uphys_sync syncFile db else (U_ok, db)) of (code, db) \<Rightarrow>
                   if code \<noteq> U_ok then Some (Some code, db) else finish db))"

definition words_version :: "u32 \<times> u32 \<Rightarrow> ubik_version" where
  "words_version v = \<lparr>v_epoch = sint (fst v), v_counter = sint (snd v)\<rparr>"

definition InitializeDB :: "bool \<Rightarrow> ubik_dbase \<Rightarrow> ubik_dbase" where
  "InitializeDB le db =
     (case uphys_getlabel le 0 db of (code, v, db) \<Rightarrow>
        if code = U_ok then db\<lparr>db_version := words_version v\<rparr>
        else
          case uphys_setlabel le 0 (1, 1) db of (code, db) \<Rightarrow>
            if code = U_ok then db\<lparr>db_version := \<lparr>v_epoch = 1, v_counter = 1\<rparr>\<rparr>
            else (snd (uphys_setlabel le 0 (0, 0) db))\<lparr>db_version := \<lparr>v_epoch = 0, v_counter = 0\<rparr>\<rparr>)"

definition urecovery_Initialize :: "bool \<Rightarrow> ubik_dbase \<Rightarrow> (ucode option \<times> ubik_dbase) option" where
  "urecovery_Initialize le db =
     (case ReplayLog le db of
        None \<Rightarrow> None
      | Some (Some code, db) \<Rightarrow> if code \<noteq> U_ok then Some (Some code, db) else Some (Some U_ok, InitializeDB le db)
      | Some (None, db) \<Rightarrow> Some (None, db))"

end
