(* ===== verification/Udisk_Log.thy ===== *)
theory Udisk_Log
  imports Udisk "HOL-Library.Sublist"
begin

text \<open>
  What the log says: the system calls without failures, the bytes of the records, and the two passes of
  \<open>ReplayLog\<close> over a log and over a part of one, on a host with the byte order of the network.

  \<^item> \<open>byte_at c i\<close> is a byte of a file, 0 behind its end: two files with the same bytes differ at most in zeros at
    the end.
  \<^item> \<open>log_rec\<close> has a constructor per record; \<open>logged recs\<close> are the bytes the operations write for them.
\<close>

section \<open>Files without failures\<close>

definition quiet :: "'a phys_scheme \<Rightarrow> bool" where
  "quiet p \<longleftrightarrow> faults p = (\<lambda>_. None)"

lemma quiet_frame [simp]:
  "quiet (called p) = quiet p" "quiet (change f c p) = quiet p" "quiet (synced f p) = quiet p"
  by (simp_all add: quiet_def called_def change_def synced_def)

lemma content_frame [simp]:
  "content g (called p) = content g p" "content g (change f c p) = (if g = f then c else content g p)"
  "content g (synced f p) = content g p"
  by (simp_all add: content_def called_def change_def synced_def)

lemma quiet_calls:
  assumes "quiet p"
  shows "uphys_stat f p = (U_ok, max 0 (int (length (content f p)) - 64), called p)"
    and "0 \<le> pos \<Longrightarrow> 0 \<le> len \<Longrightarrow> uphys_read f pos len p =
      (let d = take (nat len) (drop (nat pos + 64) (content f p)) in (if int (length d) = len then U_ok else UEOF, d, called p))"
    and "0 \<le> pos \<Longrightarrow> uphys_write f d pos p = (U_ok, change f (pwrite (content f p) (nat pos + 64) d) (called p))"
    and "0 \<le> len \<Longrightarrow> uphys_truncate f len p = (U_ok, change f (ftruncate (content f p) (nat len + 64)) (called p))"
    and "uphys_sync f p = (U_ok, synced f (called p))"
    and "uphys_setlabel le f v p = (U_ok, synced f (change f (pwrite (content f p) 0 (header le v)) (called p)))"
    and "uphys_getlabel le f p =
      (let h = take 16 (content f p)
       in if length h = 16 then (U_ok, (ntohl le (buffer_long le h 2), ntohl le (buffer_long le h 3)), called p)
          else (UEOF, (0, 0), called p))"
  using assms
  by (simp_all add: quiet_def uphys_stat_def uphys_read_def uphys_write_def uphys_truncate_def uphys_sync_def
      uphys_setlabel_def uphys_getlabel_def UBIK_HDRSIZE_def nat_add_distrib)

definition byte_at :: "u8 list \<Rightarrow> nat \<Rightarrow> u8" where
  "byte_at c i = (if i < length c then c ! i else 0)"

lemma pwrite_append: "length c \<le> off \<Longrightarrow> d \<noteq> [] \<Longrightarrow> pwrite c off d = c @ replicate (off - length c) 0 @ d"
  by (simp add: pwrite_def)

lemma length_pwrite: "length (pwrite c off d) = (if d = [] then length c else max (length c) (off + length d))"
  by (auto simp: pwrite_def)

lemma byte_pwrite:
  "byte_at (pwrite c off d) i = (if off \<le> i \<and> i < off + length d then d ! (i - off) else byte_at c i)"
  by (auto simp: byte_at_def pwrite_def nth_append min_def)

lemma pwrite_pwrite: "pwrite (pwrite c off a) (off + length a) b = pwrite c off (a @ b)"
proof (rule nth_equalityI)
  show "length (pwrite (pwrite c off a) (off + length a) b) = length (pwrite c off (a @ b))"
    by (auto simp: length_pwrite)
  fix i assume i: "i < length (pwrite (pwrite c off a) (off + length a) b)"
  have "byte_at (pwrite (pwrite c off a) (off + length a) b) i = byte_at (pwrite c off (a @ b)) i"
    by (auto simp: byte_pwrite nth_append)
  then show "pwrite (pwrite c off a) (off + length a) b ! i = pwrite c off (a @ b) ! i"
    using i by (auto simp: byte_at_def length_pwrite split: if_splits)
qed

section \<open>Bytes of longs\<close>

lemma net_word_bytes: "net_word (net_bytes w) = w"
proof (rule bit_word_eqI)
  fix n assume "n < LENGTH(32)"
  then consider "n < 8" | "8 \<le> n" "n < 16" | "16 \<le> n" "n < 24" | "24 \<le> n" "n < 32" by fastforce
  then show "bit (net_word (net_bytes w)) n = bit w n"
    unfolding net_bytes_def net_word.simps bit_or_iff bit_push_bit_iff bit_unsigned_iff bit_drop_bit_eq
    by cases auto
qed

lemma length_net_bytes [simp]: "length (net_bytes w) = 4"
  by (simp add: net_bytes_def)

lemma bit_00ff: "bit (0x00ff0000 :: u32) n \<longleftrightarrow> 16 \<le> n \<and> n < 24" "bit (0xff00 :: u32) n \<longleftrightarrow> 8 \<le> n \<and> n < 16"
proof -
  have "(0x00ff0000 :: u32) = push_bit 16 (Bit_Operations.mask 8)" by (simp add: mask_eq_exp_minus_1 push_bit_eq_mult)
  then show "bit (0x00ff0000 :: u32) n \<longleftrightarrow> 16 \<le> n \<and> n < 24"
    by (simp only: bit_push_bit_iff bit_mask_iff) auto
  have "(0xff00 :: u32) = push_bit 8 (Bit_Operations.mask 8)" by (simp add: mask_eq_exp_minus_1 push_bit_eq_mult)
  then show "bit (0xff00 :: u32) n \<longleftrightarrow> 8 \<le> n \<and> n < 16"
    by (simp only: bit_push_bit_iff bit_mask_iff) auto
qed

lemma bit_net_word: "bit (ntohl True w) n \<longleftrightarrow>
    (if n < 8 then bit w (24 + n) else if n < 16 then bit w (8 + n) else if n < 24 then bit w (n - 8)
     else n < 32 \<and> bit w (n - 24))"
  unfolding ntohl_def if_True bit_or_iff bit_and_iff bit_push_bit_iff bit_drop_bit_eq bit_00ff
  by (auto dest: bit_imp_le_length simp: add.commute)

lemma bytes_ntohl:
  "(ucast (drop_bit 24 (ntohl True w)) :: u8) = ucast w"
  "(ucast (drop_bit 16 (ntohl True w)) :: u8) = ucast (drop_bit 8 w)"
  "(ucast (drop_bit 8 (ntohl True w)) :: u8) = ucast (drop_bit 16 w)"
  "(ucast (ntohl True w) :: u8) = ucast (drop_bit 24 w)"
  by (rule bit_word_eqI, simp add: bit_unsigned_iff bit_drop_bit_eq bit_net_word)+

lemma rev_net_bytes: "rev (net_bytes (ntohl True w)) = net_bytes w"
  by (simp add: net_bytes_def bytes_ntohl)

lemma long_bytes_net: "long_bytes le (ntohl le w) = net_bytes w"
  by (cases le) (simp_all add: long_bytes_def rev_net_bytes, simp add: ntohl_def)

lemma put_longs_net: "put_longs le ws = concat (map net_bytes ws)"
  by (simp add: put_longs_def long_bytes_net)

lemma buffer_long_net:
  "i < length ws \<Longrightarrow> buffer_long False (concat (map net_bytes ws)) i = ws ! i"
proof (induction ws arbitrary: i)
  case (Cons w ws)
  show ?case
  proof (cases i)
    case 0
    then show ?thesis by (simp add: buffer_long_def bytes_long_def net_word_bytes)
  next
    case (Suc j)
    then show ?thesis using Cons by (simp add: buffer_long_def)
  qed
qed simp

section \<open>Records\<close>

datatype log_rec = LNew | LData int nat "u8 list" | LTrunc int nat

fun log_bytes :: "log_rec \<Rightarrow> u8 list" where
  "log_bytes LNew = net_bytes LOGNEW"
| "log_bytes (LData f pos d) =
     concat (map net_bytes [LOGDATA, word_of_int f, word_of_nat pos, word_of_nat (length d)]) @ d"
| "log_bytes (LTrunc f len) = concat (map net_bytes [LOGTRUNCATE, word_of_int f, word_of_nat len])"

definition logged :: "log_rec list \<Rightarrow> u8 list" where
  "logged rs = concat (map log_bytes rs)"

definition end_bytes :: "u32 \<times> u32 \<Rightarrow> u8 list" where
  "end_bytes v = concat (map net_bytes [LOGEND, fst v, snd v])"

text \<open>The numbers of a record fit into a \<open>long\<close>, and the file is a database file.\<close>

fun rec_ok :: "log_rec \<Rightarrow> bool" where
  "rec_ok LNew = True"
| "rec_ok (LData f pos d) \<longleftrightarrow> 0 \<le> f \<and> f < 2 ^ 31 \<and> pos < 2 ^ 31 \<and> length d < 2 ^ 31"
| "rec_ok (LTrunc f len) \<longleftrightarrow> 0 \<le> f \<and> f < 2 ^ 31 \<and> len < 2 ^ 31"

lemma sint_word_31: "n < 2 ^ 31 \<Longrightarrow> sint (word_of_nat n :: u32) = int n"
  by (simp add: signed_of_nat signed_take_bit_int_eq_self)

lemma sint_word_31_int: "0 \<le> i \<Longrightarrow> i < 2 ^ 31 \<Longrightarrow> sint (word_of_int i :: u32) = i"
  by (simp add: signed_of_int signed_take_bit_int_eq_self)

definition log_body :: "'a phys_scheme \<Rightarrow> u8 list" where
  "log_body p = drop 64 (content LOGFILE p)"

lemma log_body_called [simp]: "log_body (called p) = log_body p"
  by (simp add: log_body_def)

abbreviation calls :: "nat \<Rightarrow> 'a phys_scheme \<Rightarrow> 'a phys_scheme" where
  "calls k p \<equiv> (called ^^ k) p"

lemma called_frame [simp]: "disk (called p) = disk p" "past (called p) = past p"
  by (simp_all add: called_def)

lemma calls_frame [simp]:
  "quiet (calls k p) = quiet p" "content f (calls k p) = content f p" "log_body (calls k p) = log_body p"
  "disk (calls k p) = disk p" "past (calls k p) = past p"
  by (induction k) simp_all

lemma read_log:
  assumes "quiet p" and "log_body p = pre @ b"
  shows "uphys_read LOGFILE (int (length pre)) (int k) p = (if k \<le> length b then U_ok else UEOF, take k b, called p)"
proof -
  have "drop (length pre + 64) (content LOGFILE p) = b"
    using assms(2) by (metis add.commute append_eq_conv_conj drop_drop log_body_def)
  then show ?thesis using assms(1) by (simp add: quiet_calls Let_def min_def)
qed

lemma read_log_4:
  "quiet p \<Longrightarrow> log_body p = pre @ b \<Longrightarrow>
   uphys_read LOGFILE (int (length pre)) 4 p = (if 4 \<le> length b then U_ok else UEOF, take 4 b, called p)"
  using read_log [of p pre b 4] by simp

text \<open>The operands of a record, after its opcode.\<close>

lemma read_log_operands:
  assumes "quiet p" and "log_body p = pre @ net_bytes c @ b"
  shows "uphys_read LOGFILE (int (length pre) + 4) 8 p = (if 8 \<le> length b then U_ok else UEOF, take 8 b, called p)"
    and "uphys_read LOGFILE (int (length pre) + 4) 12 p = (if 12 \<le> length b then U_ok else UEOF, take 12 b, called p)"
  using read_log [OF assms(1), of "pre @ net_bytes c" b 8] read_log [OF assms(1), of "pre @ net_bytes c" b 12] assms(2)
  by (simp_all add: add.commute)

lemma bytes_long_net [simp]: "bytes_long False (net_bytes c) = c"
  by (simp add: bytes_long_def net_word_bytes)

lemmas opcode_defs = LOGNEW_def LOGEND_def LOGABORT_def LOGDATA_def LOGTRUNCATE_def

text \<open>What the reads of a whole record give.\<close>

lemma read_opcode:
  "quiet p \<Longrightarrow> log_body p = pre @ net_bytes c @ b \<Longrightarrow> uphys_read LOGFILE (int (length pre)) 4 p = (U_ok, net_bytes c, called p)"
  using read_log_4 [of p pre "net_bytes c @ b"] by simp

definition operands :: "u32 list \<Rightarrow> u8 list" where
  "operands ws = concat (map net_bytes ws)"

lemma length_operands [simp]: "length (operands ws) = 4 * length ws"
  by (induction ws) (simp_all add: operands_def)

lemma operand: "i < length ws \<Longrightarrow> buffer_long False (operands ws) i = ws ! i"
  by (simp add: operands_def buffer_long_net)

lemma read_operands:
  assumes "quiet p" and "log_body p = pre @ net_bytes c @ operands ws @ b"
  shows "length ws = 2 \<Longrightarrow> uphys_read LOGFILE (int (length pre) + 4) 8 p = (U_ok, operands ws, called p)"
    and "length ws = 3 \<Longrightarrow> uphys_read LOGFILE (int (length pre) + 4) 12 p = (U_ok, operands ws, called p)"
  using read_log_operands [OF assms] by simp_all

lemma log_bytes_operands:
  "log_bytes (LData f pos d) =
     net_bytes LOGDATA @ operands [word_of_int f, word_of_nat pos, word_of_nat (length d)] @ d"
  "log_bytes (LTrunc f len) = net_bytes LOGTRUNCATE @ operands [word_of_int f, word_of_nat len]"
  "end_bytes v = net_bytes LOGEND @ operands [fst v, snd v]"
  by (simp_all add: operands_def end_bytes_def)

section \<open>The first pass\<close>

lemma scan_rec:
  assumes "quiet db" and "log_body db = pre @ log_bytes r @ b" and "rec_ok r"
  shows "\<exists>k. replay_scan False (int (length pre)) db = replay_scan False (int (length (pre @ log_bytes r))) (calls k db)"
proof (cases r)
  case LNew
  then have s: "uphys_read LOGFILE (int (length pre)) 4 db = (U_ok, net_bytes LOGNEW, called db)"
    using assms by (intro read_opcode) simp_all
  have "replay_scan False (int (length pre)) db = replay_scan False (int (length (pre @ log_bytes r))) (called db)"
    by (subst replay_scan.simps) (simp add: s LNew)
  then show ?thesis by (intro exI [of _ 1]) simp
next
  case (LData f pos d)
  let ?ws = "[word_of_int f, word_of_nat pos, word_of_nat (length d)] :: u32 list"
  have body: "log_body db = pre @ net_bytes LOGDATA @ operands ?ws @ d @ b"
    using assms(2) unfolding LData log_bytes_operands by simp
  have s: "uphys_read LOGFILE (int (length pre)) 4 db = (U_ok, net_bytes LOGDATA, called db)"
    "uphys_read LOGFILE (int (length pre) + 4) 12 (called db) = (U_ok, operands ?ws, called (called db))"
    using assms(1) body by (auto intro!: read_opcode read_operands)
  have len: "sint (buffer_long False (operands ?ws) 2) = int (length d)"
    using operand [of 2 ?ws] assms(3) LData by (simp add: sint_word_31)
  have pos: "int (length pre) + 4 + (int (length d) + 12) = int (length (pre @ log_bytes r))"
    unfolding LData log_bytes_operands by simp
  have "replay_scan False (int (length pre)) db =
      replay_scan False (int (length pre) + 4 + (int (length d) + 12)) (called (called db))"
    by (subst replay_scan.simps) (simp add: s len opcode_defs)
  then show ?thesis unfolding pos by (intro exI [of _ 2]) (simp add: numeral_2_eq_2)
next
  case (LTrunc f l)
  let ?ws = "[word_of_int f, word_of_nat l] :: u32 list"
  have body: "log_body db = pre @ net_bytes LOGTRUNCATE @ operands ?ws @ b"
    using assms(2) unfolding LTrunc log_bytes_operands by simp
  have s: "uphys_read LOGFILE (int (length pre)) 4 db = (U_ok, net_bytes LOGTRUNCATE, called db)"
    "uphys_read LOGFILE (int (length pre) + 4) 8 (called db) = (U_ok, operands ?ws, called (called db))"
    using assms(1) body by (auto intro!: read_opcode read_operands)
  have pos: "int (length pre) + 4 + 8 = int (length (pre @ log_bytes r))"
    unfolding LTrunc log_bytes_operands by simp
  have "replay_scan False (int (length pre)) db = replay_scan False (int (length pre) + 4 + 8) (called (called db))"
    by (subst replay_scan.simps) (simp add: s opcode_defs)
  then show ?thesis unfolding pos by (intro exI [of _ 2]) (simp add: numeral_2_eq_2)
qed

lemma read_past_end:
  assumes "quiet p" and "length (log_body p) < n + k" and "0 < k"
  shows "\<exists>bs. uphys_read LOGFILE (int n) (int k) p = (UEOF, bs, called p)"
  using assms by (auto simp: quiet_calls Let_def log_body_def min_def)

lemma scan_end: "quiet db \<Longrightarrow> length (log_body db) < n + 4 \<Longrightarrow> replay_scan False (int n) db = Some (False, called db)"
  using read_past_end [of db n 4] by (subst replay_scan.simps) auto

lemma strict_prefix_split:
  assumes "strict_prefix b (u @ v)" and "length u \<le> length b"
  obtains b' where "b = u @ b'" and "strict_prefix b' v"
proof -
  obtain e where e: "u @ v = b @ e" "e \<noteq> []" using assms(1) by (auto simp: strict_prefix_def prefix_def)
  then obtain b' where "b = u @ b'" "v = b' @ e"
    using assms(2) by (auto simp: append_eq_append_conv2)
  then show thesis using that e by (auto simp: strict_prefix_def prefix_def)
qed

lemma strict_prefix_length: "strict_prefix b v \<Longrightarrow> length b < length v"
  by (simp add: prefix_length_less)

lemma scan_cut:
  assumes q: "quiet db" and body: "log_body db = pre @ b" and cut: "strict_prefix b (log_bytes r)"
    and r: "rec_ok r"
  shows "\<exists>k. replay_scan False (int (length pre)) db = Some (False, calls k db)"
proof (cases "length b < 4")
  case True
  then have "replay_scan False (int (length pre)) db = Some (False, called db)"
    using q body by (intro scan_end) simp_all
  then show ?thesis by (intro exI [of _ 1]) simp
next
  case long: False
  show ?thesis
  proof (cases r)
    case LNew
    then show ?thesis using long strict_prefix_length [OF cut] by simp
  next
    case (LTrunc f l)
    let ?ws = "[word_of_int f, word_of_nat l] :: u32 list"
    obtain b' where b: "b = net_bytes LOGTRUNCATE @ b'" "strict_prefix b' (operands ?ws)"
      using strict_prefix_split [of b "net_bytes LOGTRUNCATE" "operands ?ws"] cut long LTrunc
      by (auto simp del: log_bytes.simps simp: log_bytes_operands)
    have s: "uphys_read LOGFILE (int (length pre)) 4 db = (U_ok, net_bytes LOGTRUNCATE, called db)"
      using q body b by (auto intro!: read_opcode)
    obtain bs where "uphys_read LOGFILE (int (length pre) + 4) 8 (called db) = (UEOF, bs, called (called db))"
      using read_past_end [of "called db" "length pre + 4" 8] q body b strict_prefix_length [OF b(2)] by auto
    then have "replay_scan False (int (length pre)) db = Some (False, called (called db))"
      by (subst replay_scan.simps) (simp add: s opcode_defs)
    then show ?thesis by (intro exI [of _ 2]) (simp add: numeral_2_eq_2)
  next
    case (LData f pos d)
    let ?ws = "[word_of_int f, word_of_nat pos, word_of_nat (length d)] :: u32 list"
    obtain b' where b: "b = net_bytes LOGDATA @ b'" "strict_prefix b' (operands ?ws @ d)"
      using strict_prefix_split [of b "net_bytes LOGDATA" "operands ?ws @ d"] cut long LData
      by (auto simp del: log_bytes.simps simp: log_bytes_operands)
    have s: "uphys_read LOGFILE (int (length pre)) 4 db = (U_ok, net_bytes LOGDATA, called db)"
      using q body b by (auto intro!: read_opcode)
    show ?thesis
    proof (cases "length b' < 12")
      case True
      obtain bs where "uphys_read LOGFILE (int (length pre) + 4) 12 (called db) = (UEOF, bs, called (called db))"
        using read_past_end [of "called db" "length pre + 4" 12] q body b True by auto
      then have "replay_scan False (int (length pre)) db = Some (False, called (called db))"
        by (subst replay_scan.simps) (simp add: s opcode_defs)
      then show ?thesis by (intro exI [of _ 2]) (simp add: numeral_2_eq_2)
    next
      case False
      then obtain d' where d': "b' = operands ?ws @ d'" "strict_prefix d' d"
        using strict_prefix_split [OF b(2)] by auto
      have s2: "uphys_read LOGFILE (int (length pre) + 4) 12 (called db) = (U_ok, operands ?ws, called (called db))"
        using q body b d' by (auto intro!: read_operands)
      have len: "sint (buffer_long False (operands ?ws) 2) = int (length d)"
        using operand [of 2 ?ws] r LData by (simp add: sint_word_31)
      have "replay_scan False (int (length pre)) db =
          replay_scan False (int (length pre + 4 + (length d + 12))) (called (called db))"
        by (subst replay_scan.simps) (simp add: s s2 len opcode_defs)
      also have "\<dots> = Some (False, called (called (called db)))"
        using q body b d' strict_prefix_length [OF d'(2)] by (intro scan_end) simp_all
      finally show ?thesis by (intro exI [of _ 3]) (simp add: numeral_3_eq_3)
    qed
  qed
qed

lemma scan_commit:
  assumes q: "quiet db" and body: "log_body db = pre @ b" and p: "prefix b (end_bytes v)"
  shows "replay_scan False (int (length pre)) db = Some (4 \<le> length b, called db)"
proof (cases "4 \<le> length b")
  case False
  then show ?thesis using q body scan_end [of db "length pre"] by simp
next
  case True
  obtain e where "end_bytes v = b @ e" using p by (auto simp: prefix_def)
  then have "take 4 b = take 4 (net_bytes LOGEND @ operands [fst v, snd v])"
    using True by (metis append_take_drop_id log_bytes_operands(3) take_append take_eq_Nil diff_is_0_eq append_Nil2)
  then have "b = net_bytes LOGEND @ drop 4 b" by (metis append_eq_conv_conj append_take_drop_id length_net_bytes)
  then have "uphys_read LOGFILE (int (length pre)) 4 db = (U_ok, net_bytes LOGEND, called db)"
    using q body by (auto intro!: read_opcode)
  then show ?thesis using True by (subst replay_scan.simps) (simp add: opcode_defs)
qed

text \<open>A part of a log from its start is good when it reaches over the opcode of the commit record.\<close>

lemma logged_Cons [simp]: "logged (r # rs) = log_bytes r @ logged rs" and logged_Nil [simp]: "logged [] = []"
  by (simp_all add: logged_def)

lemma scan_prefix:
  assumes "quiet db" and "log_body db = pre @ b" and "prefix b (logged rs @ end_bytes v)" and "list_all rec_ok rs"
  shows "\<exists>k. replay_scan False (int (length pre)) db = Some (length (logged rs) + 4 \<le> length b, calls k db)"
  using assms
proof (induction rs arbitrary: pre b db)
  case Nil
  then show ?case using scan_commit [of db pre b v] by (intro exI [of _ 1]) simp
next
  case (Cons r rs)
  show ?case
  proof (cases "strict_prefix b (log_bytes r)")
    case True
    then show ?thesis using scan_cut [OF Cons.prems(1,2) True] Cons.prems(4) strict_prefix_length [OF True] by auto
  next
    case False
    have "prefix b (log_bytes r @ logged rs @ end_bytes v)" using Cons.prems(3) by simp
    then obtain b' where b: "b = log_bytes r @ b'" "prefix b' (logged rs @ end_bytes v)"
      using False by (auto simp: prefix_append strict_prefix_def)
    obtain k where k: "replay_scan False (int (length pre)) db =
        replay_scan False (int (length (pre @ log_bytes r))) (calls k db)"
      using scan_rec [of db pre r b'] Cons.prems b by auto
    obtain k' where "replay_scan False (int (length (pre @ log_bytes r))) (calls k db) =
        Some (length (logged rs) + 4 \<le> length b', calls k' (calls k db))"
      using Cons.IH [of "calls k db" "pre @ log_bytes r" b'] Cons.prems b by auto
    then show ?thesis unfolding k b(1)
      by (intro exI [of _ "k' + k"]) (simp add: funpow_add)
  qed
qed

section \<open>The second pass\<close>

definition contents :: "'a phys_scheme \<Rightarrow> int \<Rightarrow> u8 list" where
  "contents p = (\<lambda>f. content f p)"

lemma contents_frame [simp]:
  "contents (called p) = contents p" "contents (change f c p) = (contents p)(f := c)" "contents (synced f p) = contents p"
  by (auto simp: contents_def)

lemma contents_at: "contents p f = content f p"
  by (simp add: contents_def)

lemma contents_calls [simp]: "contents (calls k p) = contents p"
  by (simp add: contents_def)

lemma log_body_contents: "log_body p = drop 64 (contents p LOGFILE)"
  by (simp add: log_body_def contents_def)

fun apply_rec :: "log_rec \<Rightarrow> (int \<Rightarrow> u8 list) \<Rightarrow> int \<Rightarrow> u8 list" where
  "apply_rec LNew c = c"
| "apply_rec (LData f pos d) c = c(f := pwrite (c f) (pos + 64) d)"
| "apply_rec (LTrunc f len) c = c(f := ftruncate (c f) (len + 64))"

lemma pwrite_split:
  "n \<le> length d \<Longrightarrow> pwrite c off d = pwrite (pwrite c off (take n d)) (off + n) (drop n d)"
  using pwrite_pwrite [of c off "take n d" "drop n d"] by (simp add: min_absorb2)

lemma replay_data_ok:
  assumes "quiet db" and "log_body db = pre @ d @ b" and "f \<noteq> LOGFILE"
  shows "\<exists>db'. replay_data f (int pos) (int (length pre)) (int (length d)) db = (U_ok, db') \<and> quiet db' \<and>
    contents db' = (contents db)(f := pwrite (contents db f) (pos + 64) d)"
  using assms
proof (induction "length d" arbitrary: d pre pos db rule: less_induct)
  case less
  show ?case
  proof (cases "d = []")
    case True
    then show ?thesis using less.prems by (simp add: replay_data.simps pwrite_def)
  next
    case False
    let ?n = "min (length d) 4096"
    let ?db = "change f (pwrite (content f db) (pos + 64) (take ?n d)) (called (called db))"
    have n: "0 < ?n" "?n \<le> length d" using False by auto
    have "uphys_read LOGFILE (int (length pre)) (int ?n) db = (U_ok, take ?n d, called db)"
      using read_log [of db pre "d @ b" ?n] less.prems by simp
    moreover have "uphys_write f (take ?n d) (int pos) (called db) = (U_ok, ?db)"
      using less.prems by (simp add: quiet_calls)
    moreover have "min (int (length d)) 4096 = int ?n" by simp
    ultimately have step: "replay_data f (int pos) (int (length pre)) (int (length d)) db =
        replay_data f (int (pos + ?n)) (int (length (pre @ take ?n d))) (int (length (drop ?n d))) ?db"
      using n False by (subst replay_data.simps) (simp add: of_nat_diff min_absorb2 Let_def)
    have "log_body ?db = (pre @ take ?n d) @ drop ?n d @ b"
      using less.prems(2,3) by (simp add: log_body_contents)
    then obtain db' where "replay_data f (int (pos + ?n)) (int (length (pre @ take ?n d))) (int (length (drop ?n d))) ?db = (U_ok, db')"
      "quiet db'" "contents db' = (contents ?db)(f := pwrite (contents ?db f) (pos + ?n + 64) (drop ?n d))"
      using less.hyps [of "drop ?n d" ?db "pre @ take ?n d" "pos + ?n"] less.prems n by auto
    then show ?thesis unfolding step
      using pwrite_split [OF n(2), of "contents db f" "pos + 64"] by (simp add: contents_at add_ac)
  qed
qed

definition replay_file :: "log_rec \<Rightarrow> int \<Rightarrow> int" where
  "replay_file r g = (case r of LData f pos d \<Rightarrow> f | _ \<Rightarrow> g)"

lemma apply_rec_log: "rec_ok r \<Longrightarrow> apply_rec r c LOGFILE = c LOGFILE"
  by (cases r) (auto simp: LOGFILE_def)

lemma fold_apply_log: "list_all rec_ok rs \<Longrightarrow> fold apply_rec rs c LOGFILE = c LOGFILE"
  by (induction rs arbitrary: c) (auto simp: apply_rec_log)

lemma apply_one:
  assumes q: "quiet db" and body: "log_body db = pre @ log_bytes r @ b" and r: "rec_ok r"
  shows "\<exists>db'. replay_apply False g (int (length pre)) db =
      replay_apply False (replay_file r g) (int (length (pre @ log_bytes r))) db' \<and>
    quiet db' \<and> contents db' = apply_rec r (contents db)"
proof (cases r)
  case LNew
  then have s: "uphys_read LOGFILE (int (length pre)) 4 db = (U_ok, net_bytes LOGNEW, called db)"
    using q body by (intro read_opcode) simp_all
  have "replay_apply False g (int (length pre)) db = replay_apply False g (int (length (pre @ log_bytes r))) (called db)"
    by (subst replay_apply.simps) (simp add: s LNew)
  then show ?thesis using q LNew by (intro exI [of _ "called db"]) (simp add: replay_file_def)
next
  case (LTrunc f l)
  let ?ws = "[word_of_int f, word_of_nat l] :: u32 list"
  have body: "log_body db = pre @ net_bytes LOGTRUNCATE @ operands ?ws @ b"
    using body unfolding LTrunc log_bytes_operands by simp
  have s: "uphys_read LOGFILE (int (length pre)) 4 db = (U_ok, net_bytes LOGTRUNCATE, called db)"
    "uphys_read LOGFILE (int (length pre) + 4) 8 (called db) = (U_ok, operands ?ws, called (called db))"
    using q body by (auto intro!: read_opcode read_operands)
  have ops: "sint (buffer_long False (operands ?ws) 0) = f" "sint (buffer_long False (operands ?ws) (Suc 0)) = int l"
    using operand [of 0 ?ws] operand [of 1 ?ws] r LTrunc by (simp_all add: sint_word_31 sint_word_31_int)
  let ?db = "change f (ftruncate (content f db) (l + 64)) (called (called (called db)))"
  have t: "uphys_truncate f (int l) (called (called db)) = (U_ok, ?db)" using q by (simp add: quiet_calls)
  have pos: "12 + int (length pre) = int (length (pre @ log_bytes r))"
    unfolding LTrunc log_bytes_operands by simp
  have "replay_apply False g (int (length pre)) db = replay_apply False g (12 + int (length pre)) ?db"
    by (subst replay_apply.simps) (simp add: s ops t opcode_defs ntohl_def)
  then show ?thesis unfolding pos using q LTrunc
    by (intro exI [of _ ?db]) (auto simp: replay_file_def contents_def)
next
  case (LData f p d)
  let ?ws = "[word_of_int f, word_of_nat p, word_of_nat (length d)] :: u32 list"
  have body: "log_body db = pre @ net_bytes LOGDATA @ operands ?ws @ d @ b"
    using body unfolding LData log_bytes_operands by simp
  have s: "uphys_read LOGFILE (int (length pre)) 4 db = (U_ok, net_bytes LOGDATA, called db)"
    "uphys_read LOGFILE (int (length pre) + 4) 12 (called db) = (U_ok, operands ?ws, called (called db))"
    using q body by (auto intro!: read_opcode read_operands)
  have ops: "sint (buffer_long False (operands ?ws) 0) = f" "sint (buffer_long False (operands ?ws) (Suc 0)) = int p"
    "sint (buffer_long False (operands ?ws) 2) = int (length d)"
    using operand [of 0 ?ws] operand [of 1 ?ws] operand [of 2 ?ws] r LData by (simp_all add: sint_word_31 sint_word_31_int)
  define db2 where "db2 = (if g \<noteq> f \<and> 0 \<le> g then synced g (called (called (called db))) else called (called db))"
  have sync: "(if g \<noteq> f \<and> 0 \<le> g then uphys_sync g (called (called db)) else (U_ok, called (called db))) = (U_ok, db2)"
    using q by (simp add: quiet_calls db2_def)
  have db2: "quiet db2" "contents db2 = contents db" "log_body db2 = log_body db"
    using q by (simp_all add: db2_def log_body_contents)
  have "log_body db2 = (pre @ net_bytes LOGDATA @ operands ?ws) @ d @ b" using db2 body by simp
  then obtain db' where db': "replay_data f (int p) (int (length (pre @ net_bytes LOGDATA @ operands ?ws))) (int (length d)) db2 = (U_ok, db')"
    "quiet db'" "contents db' = (contents db2)(f := pwrite (contents db2 f) (p + 64) d)"
    using replay_data_ok [OF db2(1)] r LData by (metis (no_types, lifting) LOGFILE_def neg_0_le_iff_le not_one_le_zero rec_ok.simps(2))
  have rd: "replay_data f (int p) (16 + int (length pre)) (int (length d)) db2 = (U_ok, db')"
    using db'(1) by (simp add: add_ac)
  have pos: "16 + int (length pre) + int (length d) = int (length (pre @ log_bytes r))"
    unfolding LData log_bytes_operands by simp
  have "replay_apply False g (int (length pre)) db = replay_apply False f (16 + int (length pre) + int (length d)) db'"
    by (subst replay_apply.simps) (simp add: s ops sync opcode_defs ntohl_def rd Let_def)
  then show ?thesis unfolding pos using db' db2 LData by (intro exI [of _ db']) (simp add: replay_file_def)
qed

fun replay_files :: "log_rec list \<Rightarrow> int \<Rightarrow> int" where
  "replay_files [] g = g"
| "replay_files (r # rs) g = replay_files rs (replay_file r g)"

lemma apply_recs:
  assumes "quiet db" and "log_body db = pre @ logged rs @ b" and "list_all rec_ok rs"
  shows "\<exists>db'. replay_apply False g (int (length pre)) db =
      replay_apply False (replay_files rs g) (int (length (pre @ logged rs))) db' \<and>
    quiet db' \<and> contents db' = fold apply_rec rs (contents db)"
  using assms
proof (induction rs arbitrary: pre g db)
  case Nil
  then show ?case by auto
next
  case (Cons r rs)
  obtain db1 where db1: "replay_apply False g (int (length pre)) db =
      replay_apply False (replay_file r g) (int (length (pre @ log_bytes r))) db1"
    "quiet db1" "contents db1 = apply_rec r (contents db)"
    using apply_one [of db pre r "logged rs @ b" g] Cons.prems by auto
  have "log_body db1 = (pre @ log_bytes r) @ logged rs @ b"
    using Cons.prems db1 by (simp add: log_body_contents apply_rec_log)
  then obtain db2 where "replay_apply False (replay_file r g) (int (length (pre @ log_bytes r))) db1 =
      replay_apply False (replay_files rs (replay_file r g)) (int (length ((pre @ log_bytes r) @ logged rs))) db2"
    "quiet db2" "contents db2 = fold apply_rec rs (contents db1)"
    using Cons.IH [OF db1(2), of "pre @ log_bytes r" "replay_file r g"] Cons.prems by auto
  then show ?case using db1 by (intro exI [of _ db2]) simp
qed

lemma length_end_bytes [simp]: "length (end_bytes v) = 12"
  by (simp add: log_bytes_operands)

text \<open>The commit record, whole or cut behind its opcode.\<close>

lemma apply_commit:
  assumes q: "quiet db" and body: "log_body db = pre @ b" and p: "prefix b (end_bytes v)" and long: "4 \<le> length b"
  shows "\<exists>db'. replay_apply False g (int (length pre)) db =
      Some (if b = end_bytes v then Replayed g else Returned UBADLOG, db') \<and> quiet db' \<and>
    contents db' = (if b = end_bytes v then (contents db)(0 := pwrite (contents db 0) 0 (header False v)) else contents db)"
proof -
  obtain e where e: "end_bytes v = b @ e" using p by (auto simp: prefix_def)
  have "take 4 b = net_bytes LOGEND" using e long
    by (metis append_eq_conv_conj length_net_bytes log_bytes_operands(3) min_absorb1 take_append take_take
        diff_is_0_eq append_Nil2 take_0)
  then obtain b' where b': "b = net_bytes LOGEND @ b'" by (metis append_take_drop_id)
  have ops: "prefix b' (operands [fst v, snd v])" using e b' by (simp add: log_bytes_operands)
  have s: "uphys_read LOGFILE (int (length pre)) 4 db = (U_ok, net_bytes LOGEND, called db)"
    using q body b' by (auto intro!: read_opcode)
  show ?thesis
  proof (cases "b = end_bytes v")
    case True
    then have b2: "b' = operands [fst v, snd v]" using b' by (simp add: log_bytes_operands)
    have s2: "uphys_read LOGFILE (int (length pre) + 4) 8 (called db) = (U_ok, operands [fst v, snd v], called (called db))"
      using q body b' b2 by (auto intro!: read_operands [of _ _ _ _ "[]"])
    have vs: "buffer_long False (operands [fst v, snd v]) 0 = fst v" "buffer_long False (operands [fst v, snd v]) (Suc 0) = snd v"
      using operand [of 0 "[fst v, snd v]"] operand [of 1 "[fst v, snd v]"] by simp_all
    show ?thesis using True q
      by (subst replay_apply.simps) (simp add: s s2 vs opcode_defs quiet_calls contents_at)
  next
    case False
    then have "strict_prefix b' (operands [fst v, snd v])" using ops b' by (auto simp: strict_prefix_def log_bytes_operands)
    then have "length b' < 8" using strict_prefix_length by fastforce
    then obtain bs where "uphys_read LOGFILE (int (length pre) + 4) 8 (called db) = (UEOF, bs, called (called db))"
      using read_past_end [of "called db" "length pre + 4" 8] q body b' by auto
    then show ?thesis using False q
      by (subst replay_apply.simps) (simp add: s opcode_defs)
  qed
qed

text \<open>
  \<open>ReplayLog\<close> over a part of a committed log: without the opcode of the commit record nothing happens, with a part
  of the record the data are written and the call fails, with all of it they are written and the label is set.
\<close>

lemma log_file_neq: "LOGFILE \<noteq> 0" "0 \<noteq> LOGFILE" "0 \<le> f \<Longrightarrow> f \<noteq> LOGFILE"
  by (auto simp: LOGFILE_def)

definition replayed :: "log_rec list \<Rightarrow> u32 \<times> u32 \<Rightarrow> nat \<Rightarrow> (int \<Rightarrow> u8 list) \<Rightarrow> ucode \<times> (int \<Rightarrow> u8 list)" where
  "replayed rs v k c =
     (let n = length (logged rs); d = fold apply_rec rs c; empty = (\<lambda>c. c(LOGFILE := ftruncate (c LOGFILE) 64))
      in if k < n + 4 then (U_ok, empty c)
         else if k < n + 12 then (UBADLOG, d)
         else (U_ok, empty (d(0 := pwrite (d 0) 0 (header False v)))))"

lemma prefix_log_split:
  assumes "prefix b (u @ e)" and "length u \<le> length b"
  obtains b' where "b = u @ b'" and "prefix b' e"
proof (cases "prefix b u")
  case True
  then have "b = u" using assms(2) by (metis prefix_def append_Nil2 append_eq_conv_conj take_all)
  then show ?thesis using that [of "[]"] by simp
next
  case False
  then show ?thesis using assms(1) that by (auto simp: prefix_append)
qed

lemma replay_prefix:
  assumes q: "quiet db" and p: "prefix (log_body db) (logged rs @ end_bytes v)" and rs: "list_all rec_ok rs"
  shows "\<exists>db'. ReplayLog False db = Some (Some (fst (replayed rs v (length (log_body db)) (contents db))), db') \<and>
    quiet db' \<and> contents db' = snd (replayed rs v (length (log_body db)) (contents db))"
proof -
  obtain k where scan: "replay_scan False 0 db = Some (length (logged rs) + 4 \<le> length (log_body db), calls k db)"
    using scan_prefix [OF q _ p rs, of "[]"] by auto
  show ?thesis
  proof (cases "length (logged rs) + 4 \<le> length (log_body db)")
    case False
    then show ?thesis using q scan
      by (simp add: ReplayLog_def replayed_def quiet_calls [of "calls k db"] contents_at)
  next
    case True
    then obtain b where b: "log_body db = logged rs @ b" "prefix b (end_bytes v)"
      using prefix_log_split [OF p] by auto
    obtain db1 where db1: "replay_apply False (-1) 0 (calls k db) = replay_apply False (replay_files rs (-1)) (int (length (logged rs))) db1"
      "quiet db1" "contents db1 = fold apply_rec rs (contents db)"
      using apply_recs [of "calls k db" "[]" rs b "-1"] q b rs by auto
    have "log_body db1 = logged rs @ b"
      using b(1) db1(3) rs by (simp add: log_body_contents fold_apply_log)
    then obtain db2 where db2: "replay_apply False (-1) 0 (calls k db) =
        Some (if b = end_bytes v then Replayed (replay_files rs (-1)) else Returned UBADLOG, db2)" "quiet db2"
      "contents db2 = (if b = end_bytes v then (contents db1)(0 := pwrite (contents db1 0) 0 (header False v)) else contents db1)"
      using apply_commit [OF db1(2) _ b(2)] True b(1) unfolding db1(1) by fastforce
    show ?thesis
    proof (cases "b = end_bytes v")
      case b_all: True
      define db3 where "db3 = (if 0 \<le> replay_files rs (-1) then synced (replay_files rs (-1)) (called db2) else db2)"
      have db3: "(if 0 \<le> replay_files rs (-1) then uphys_sync (replay_files rs (-1)) db2 else (U_ok, db2)) = (U_ok, db3)"
        "quiet db3" "contents db3 = contents db2" using db2(2) by (auto simp: db3_def quiet_calls)
      show ?thesis using scan True db2 b_all b(1) db1(3) rs
        by (simp add: ReplayLog_def replayed_def Let_def db3 quiet_calls [OF db3(2)] log_file_neq flip: contents_at)
    next
      case cut: False
      then have "length b < 12" using b(2) strict_prefix_length [of b "end_bytes v"] by (auto simp: strict_prefix_def)
      then show ?thesis using scan True db2 cut b(1) db1(3) by (simp add: ReplayLog_def replayed_def)
    qed
  qed
qed

end
