(* ===== verification/Udisk_Cache.thy ===== *)
theory Udisk_Cache
  imports Udisk_Log
begin

text \<open>
  The page buffers.  \<open>cache_ok S db\<close>: the buffers of \<open>db\<close> over its files show the data \<open>S\<close>, where \<open>S f i\<close> is byte
  \<open>i\<close> of the data of the file \<open>f\<close>.  A buffer of a page holds its bytes; a page has at most one buffer and the hash
  chain of its file leads to it; where \<open>S\<close> is not what the file has, the page has a dirty buffer.

  \<^item> The invariant depends on \<open>core\<close>: not on access times, lockers and the place in the table.
  \<^item> \<open>aligned\<close>: a file ends at the end of a page.  Then a page is in the file or behind its end, and
    \<open>DRead\<close> does not mistake a part of a page for no page.
\<close>

section \<open>The data of a file\<close>

definition file_data :: "u8 list \<Rightarrow> nat \<Rightarrow> u8" where
  "file_data c i = byte_at c (64 + i)"

definition on_disk :: "'a phys_scheme \<Rightarrow> int \<Rightarrow> nat \<Rightarrow> u8" where
  "on_disk p f = file_data (content f p)"

definition aligned :: "u8 list \<Rightarrow> bool" where
  "aligned c \<longleftrightarrow> (length c - 64) mod UBIK_PAGESIZE = 0"

definition put_data :: "nat \<Rightarrow> u8 list \<Rightarrow> (nat \<Rightarrow> u8) \<Rightarrow> nat \<Rightarrow> u8" where
  "put_data pos d s i = (if pos \<le> i \<and> i < pos + length d then d ! (i - pos) else s i)"

lemma file_data_pwrite: "file_data (pwrite c (pos + 64) d) = put_data pos d (file_data c)"
  by (rule ext) (auto simp: file_data_def put_data_def byte_pwrite add_ac)

lemma put_data_append: "put_data (pos + length a) b (put_data pos a s) = put_data pos (a @ b) s"
  by (rule ext) (auto simp: put_data_def nth_append)

lemma on_disk_frame [simp]:
  "on_disk (called p) = on_disk p" "on_disk (synced f p) = on_disk p"
  by (auto simp: on_disk_def)

lemma on_disk_change: "on_disk (change f c p) = (on_disk p)(f := file_data c)"
  by (auto simp: on_disk_def)

section \<open>The invariant\<close>

definition core :: "buffer \<Rightarrow> int \<times> nat \<times> bool \<times> u8 list" where
  "core b = (bfile b, page b, dirty b, data b)"

abbreviation valid :: "buffer \<Rightarrow> bool" where
  "valid b \<equiv> bfile b \<noteq> BADFID"

text \<open>The buffer has the bytes of its page.\<close>

definition matches :: "(int \<Rightarrow> nat \<Rightarrow> u8) \<Rightarrow> buffer \<Rightarrow> bool" where
  "matches S b \<longleftrightarrow> (\<forall>j < UBIK_PAGESIZE. data b ! j = S (bfile b) (page b * UBIK_PAGESIZE + j))"

definition buffers_ok :: "(int \<Rightarrow> nat \<Rightarrow> u8) \<Rightarrow> (int \<Rightarrow> nat \<Rightarrow> u8) \<Rightarrow> buffer list \<Rightarrow> bool" where
  "buffers_ok S D bs \<longleftrightarrow>
     (\<forall>b \<in> set bs. length (data b) = UBIK_PAGESIZE \<and> (valid b \<longrightarrow> matches S b) \<and> (dirty b \<longrightarrow> 0 \<le> bfile b)) \<and>
     (\<forall>i < length bs. \<forall>j < length bs. valid (bs ! i) \<and> holds_page (bfile (bs ! i)) (page (bs ! i)) (bs ! j) \<longrightarrow> i = j) \<and>
     (\<forall>f k. f \<noteq> LOGFILE \<and> S f k \<noteq> D f k \<longrightarrow> (\<exists>b \<in> set bs. dirty b \<and> holds_page f (k div UBIK_PAGESIZE) b))"

definition chains_ok :: "ubik_dbase \<Rightarrow> bool" where
  "chains_ok db \<longleftrightarrow>
     LastBuffer db < length (Buffers db) \<and>
     (\<forall>h. set (phTable db h) \<subseteq> {..< length (Buffers db)}) \<and>
     (\<forall>i < length (Buffers db). valid (Buffers db ! i) \<longrightarrow> i \<in> set (phTable db (pHash (bfile (Buffers db ! i)))))"

definition cache_ok :: "(int \<Rightarrow> nat \<Rightarrow> u8) \<Rightarrow> ubik_dbase \<Rightarrow> bool" where
  "cache_ok S db \<longleftrightarrow> buffers_ok S (on_disk db) (Buffers db) \<and> chains_ok db"

lemma core_eq:
  "core b' = core b \<longleftrightarrow> bfile b' = bfile b \<and> page b' = page b \<and> dirty b' = dirty b \<and> data b' = data b"
  by (auto simp: core_def)

text \<open>Only the core matters.\<close>

lemma cores_nth: "map core bs' = map core bs \<Longrightarrow> i < length bs \<Longrightarrow> core (bs' ! i) = core (bs ! i)"
  by (metis length_map nth_map)

lemma cores_ball:
  assumes "map core bs' = map core bs" and "\<And>b b'. core b' = core b \<Longrightarrow> P b' = P b"
  shows "(\<forall>b \<in> set bs'. P b) = (\<forall>b \<in> set bs. P b)" "(\<exists>b \<in> set bs'. P b) = (\<exists>b \<in> set bs. P b)"
proof -
  have n: "length bs' = length bs" using assms(1) by (metis length_map)
  show "(\<forall>b \<in> set bs'. P b) = (\<forall>b \<in> set bs. P b)" "(\<exists>b \<in> set bs'. P b) = (\<exists>b \<in> set bs. P b)"
    using assms(2) [OF cores_nth [OF assms(1)]] n by (auto simp: all_set_conv_all_nth in_set_conv_nth Bex_def)
qed

lemma buffers_ok_cores:
  assumes m: "map core bs' = map core bs"
  shows "buffers_ok S D bs' = buffers_ok S D bs"
proof -
  have n: "length bs' = length bs" using m by (metis length_map)
  have c: "i < length bs \<Longrightarrow> bfile (bs' ! i) = bfile (bs ! i) \<and> page (bs' ! i) = page (bs ! i)" for i
    using cores_nth [OF m] by (simp add: core_eq)
  show ?thesis unfolding buffers_ok_def
    using cores_ball [OF m, of "\<lambda>b. length (data b) = UBIK_PAGESIZE \<and> (valid b \<longrightarrow> matches S b) \<and> (dirty b \<longrightarrow> 0 \<le> bfile b)"]
      cores_ball(2) [OF m, of "\<lambda>b. dirty b \<and> holds_page f (k div UBIK_PAGESIZE) b" for f k]
    by (simp add: n c core_eq matches_def holds_page_def cong: conj_cong)
qed

lemma chains_ok_cores:
  assumes m: "map core (Buffers db') = map core (Buffers db)" and "phTable db' = phTable db"
    and "LastBuffer db' < length (Buffers db)" and "chains_ok db"
  shows "chains_ok db'"
proof -
  have n: "length (Buffers db') = length (Buffers db)" using m by (metis length_map)
  have "i < length (Buffers db) \<Longrightarrow> bfile (Buffers db' ! i) = bfile (Buffers db ! i)" for i
    using cores_nth [OF m] by (simp add: core_eq)
  then show ?thesis using assms(2-) by (simp add: chains_ok_def n)
qed

lemma cache_cores:
  assumes "cache_ok S db" and "map core (Buffers db') = map core (Buffers db)" and "phTable db' = phTable db"
    and "LastBuffer db' < length (Buffers db)" and "on_disk db' = on_disk db"
  shows "cache_ok S db'"
  using assms chains_ok_cores [OF assms(2-4)] buffers_ok_cores [OF assms(2)] by (simp add: cache_ok_def)

section \<open>What the buffers do not change\<close>

definition rest :: "ubik_dbase \<Rightarrow> _" where
  "rest db = (disk db, past db, faults db, activeTrans db, db_version db, db_writing db, db_readers db, nextTrans db)"

lemma rest_frame:
  assumes "rest db' = rest db"
  shows "quiet db' = quiet db" "content f db' = content f db" "on_disk db' = on_disk db" "disk db' = disk db"
    "past db' = past db" "activeTrans db' = activeTrans db" "db_version db' = db_version db"
    "db_writing db' = db_writing db" "contents db' = contents db" "log_body db' = log_body db" "db_readers db' = db_readers db"
  using assms by (auto simp: rest_def quiet_def content_def on_disk_def contents_def log_body_def)

lemma Buffers_on_buffer [simp]: "Buffers (on_buffer i g db) = (Buffers db)[i := g (Buffers db ! i)]"
  by (simp add: on_buffer_def)

lemma on_buffer_frame [simp]:
  "rest (on_buffer i g db) = rest db" "phTable (on_buffer i g db) = phTable db" "LastBuffer (on_buffer i g db) = LastBuffer db"
  "timecounter (on_buffer i g db) = timecounter db"
  by (simp_all add: on_buffer_def rest_def)

lemma rest_update [simp]:
  "rest (db\<lparr>LastBuffer := i\<rparr>) = rest db" "rest (db\<lparr>timecounter := t\<rparr>) = rest db" "rest (db\<lparr>phTable := h\<rparr>) = rest db"
  "rest (called db) = rest db" "rest (db\<lparr>Buffers := bs\<rparr>) = rest db"
  by (simp_all add: rest_def called_def)

lemma Buffers_called [simp]:
  "Buffers (called db) = Buffers db" "phTable (called db) = phTable db" "LastBuffer (called db) = LastBuffer db"
  by (simp_all add: called_def)

lemma touch_frame [simp]:
  "rest (touch i db) = rest db" "phTable (touch i db) = phTable db" "LastBuffer (touch i db) = LastBuffer db"
  "rest (lock_buffer i db) = rest db" "phTable (lock_buffer i db) = phTable db" "LastBuffer (lock_buffer i db) = LastBuffer db"
  "rest (DRelease i b db) = rest db" "phTable (DRelease i b db) = phTable db" "LastBuffer (DRelease i b db) = LastBuffer db"
  by (simp_all add: touch_def lock_buffer_def DRelease_def Let_def)

lemma map_core_update: "i < length bs \<Longrightarrow> core b = core (bs ! i) \<Longrightarrow> map core (bs[i := b]) = map core bs"
  by (simp add: map_update list_update_same_conv)

lemma touch_core:
  "i < length (Buffers db) \<Longrightarrow> map core (Buffers (touch i db)) = map core (Buffers db)"
  "i < length (Buffers db) \<Longrightarrow> map core (Buffers (lock_buffer i db)) = map core (Buffers db)"
  "i < length (Buffers db) \<Longrightarrow> map core (Buffers (DRelease i False db)) = map core (Buffers db)"
  by (simp_all add: touch_def lock_buffer_def DRelease_def Let_def map_core_update core_eq)

section \<open>A slot for a page\<close>

lemma oldest_pure_clean:
  "oldest_pure bs k pp = Some i \<Longrightarrow> fst pp = Some i \<or> (k \<le> i \<and> i < k + length bs \<and> \<not> dirty (bs ! (i - k)))"
proof (induction bs k pp rule: oldest_pure.induct)
  case (2 b bs j pp pt)
  then show ?case by (cases "i = j") (fastforce simp: nth_Cons' split: if_splits)+
qed simp

lemma newslot_ok:
  assumes slot: "newslot f pg db = (Some i, db')" and ok: "chains_ok db"
  obtains b' where "i < length (Buffers db)" and "\<not> dirty (Buffers db ! i)" and "Buffers db' = (Buffers db)[i := b']"
    and "core b' = (f, pg, False, data (Buffers db ! i))" and "LastBuffer db' = i" and "rest db' = rest db"
    and "\<And>h. set (phTable db' h) \<subseteq> {..< length (Buffers db)}" and "i \<in> set (phTable db' (pHash f))"
    and "\<And>h j. j \<noteq> i \<Longrightarrow> j \<in> set (phTable db h) \<Longrightarrow> j \<in> set (phTable db' h)"
proof -
  have i: "i < length (Buffers db)" "\<not> dirty (Buffers db ! i)"
    and db': "db' = (FixupBucket i (touch i (on_buffer i (\<lambda>b. b\<lparr>bfile := f, page := pg\<rparr>) db)))\<lparr>LastBuffer := i\<rparr>"
    using slot oldest_pure_clean [of "Buffers db" 0 "(None, 999999999)"]
    by (auto simp: newslot_def split: option.splits)
  have sub: "set (phTable db h) \<subseteq> {..< length (Buffers db)}" for h using ok by (simp add: chains_ok_def)
  let ?b = "(Buffers db ! i)\<lparr>bfile := f, page := pg, accesstime := timecounter db + 1, hashIndex := pHash f\<rparr>"
  show thesis
  proof (rule that [of ?b])
    show "Buffers db' = (Buffers db)[i := ?b]" "core ?b = (f, pg, False, data (Buffers db ! i))" "LastBuffer db' = i"
      "i \<in> set (phTable db' (pHash f))" "rest db' = rest db"
      using i by (simp_all add: db' FixupBucket_def touch_def Let_def core_def)
    show "set (phTable db' h) \<subseteq> {..< length (Buffers db)}" for h
      using i sub [of h] set_remove1_subset [of i "phTable db h"]
      by (auto simp: db' FixupBucket_def touch_def Let_def)
    show "j \<in> set (phTable db' h)" if "j \<noteq> i" "j \<in> set (phTable db h)" for h j
      using that i by (auto simp: db' FixupBucket_def touch_def Let_def)
  qed (use i in simp_all)
qed

text \<open>A clean buffer takes another page, or none.\<close>

lemma buffers_ok_replace:
  assumes ok: "buffers_ok S D bs" and i: "i < length bs" "\<not> dirty (bs ! i)"
    and b: "length (data b) = UBIK_PAGESIZE" "\<not> dirty b" "valid b \<Longrightarrow> matches S b"
    and new: "\<And>j. valid b \<Longrightarrow> j < length bs \<Longrightarrow> j \<noteq> i \<Longrightarrow> \<not> holds_page (bfile b) (page b) (bs ! j)"
  shows "buffers_ok S D (bs[i := b])"
  unfolding buffers_ok_def
proof (intro conjI allI impI)
  show "\<forall>b \<in> set (bs[i := b]). length (data b) = UBIK_PAGESIZE \<and> (valid b \<longrightarrow> matches S b) \<and> (dirty b \<longrightarrow> 0 \<le> bfile b)"
    using ok b set_update_subset_insert [of bs i b] by (fastforce simp: buffers_ok_def)
  show "j = k" if "j < length (bs[i := b])" "k < length (bs[i := b])"
    "valid (bs[i := b] ! j) \<and> holds_page (bfile (bs[i := b] ! j)) (page (bs[i := b] ! j)) (bs[i := b] ! k)" for j k
    using that ok i new [of j] new [of k] unfolding buffers_ok_def
    by (cases "i = j"; cases "i = k") (auto simp: holds_page_def)
  fix f k assume "f \<noteq> LOGFILE \<and> S f k \<noteq> D f k"
  then obtain j where j: "j < length bs" "dirty (bs ! j)" "holds_page f (k div UBIK_PAGESIZE) (bs ! j)"
    using ok unfolding buffers_ok_def in_set_conv_nth Bex_def by blast
  then have "j \<noteq> i" using i by auto
  then have "bs ! j \<in> set (bs[i := b])" using j by (metis length_list_update nth_list_update_neq nth_mem)
  then show "\<exists>b \<in> set (bs[i := b]). dirty b \<and> holds_page f (k div UBIK_PAGESIZE) b" using j by blast
qed

lemma cache_replace:
  assumes ok: "cache_ok S db" and i: "i < length (Buffers db)" "\<not> dirty (Buffers db ! i)"
    and db': "Buffers db' = (Buffers db)[i := b]" "on_disk db' = on_disk db" "LastBuffer db' < length (Buffers db)"
    and b: "length (data b) = UBIK_PAGESIZE" "\<not> dirty b" "valid b \<Longrightarrow> matches S b"
    and new: "\<And>j. valid b \<Longrightarrow> j < length (Buffers db) \<Longrightarrow> j \<noteq> i \<Longrightarrow> \<not> holds_page (bfile b) (page b) (Buffers db ! j)"
    and tab: "\<And>h. set (phTable db' h) \<subseteq> {..< length (Buffers db)}" "valid b \<Longrightarrow> i \<in> set (phTable db' (pHash (bfile b)))"
      "\<And>h j. j \<noteq> i \<Longrightarrow> j \<in> set (phTable db h) \<Longrightarrow> j \<in> set (phTable db' h)"
  shows "cache_ok S db'"
proof -
  have "chains_ok db" using ok by (simp add: cache_ok_def)
  then have "chains_ok db'" using i db' tab
    by (auto simp: chains_ok_def nth_list_update)
  then show ?thesis using ok buffers_ok_replace [OF _ i b new] db' by (simp add: cache_ok_def)
qed

section \<open>Reading a page\<close>

lemma chain_holds:
  assumes "chains_ok db" and "0 \<le> f"
  shows "(\<exists>b \<in> set (Buffers db). holds_page f pg b) \<longleftrightarrow> (\<exists>i \<in> set (phTable db (pHash f)). holds_page f pg (Buffers db ! i))"
  using assms by (fastforce simp: chains_ok_def in_set_conv_nth holds_page_def BADFID_def subset_iff)

lemma page_read:
  assumes "quiet db" and "aligned (content f db)"
    and "uphys_read f (int (pg * UBIK_PAGESIZE)) (int UBIK_PAGESIZE) db = (code, d, db')"
  shows "db' = called db" and "code = U_ok \<Longrightarrow> length d = UBIK_PAGESIZE \<and> (\<forall>j < UBIK_PAGESIZE. d ! j = on_disk db f (pg * UBIK_PAGESIZE + j))"
    and "code \<noteq> U_ok \<Longrightarrow> on_disk db f (pg * UBIK_PAGESIZE + j) = 0" and "length d \<le> UBIK_PAGESIZE"
proof -
  let ?c = "content f db"
  have r: "(code, d, db') = (if UBIK_PAGESIZE \<le> length ?c - (pg * UBIK_PAGESIZE + 64) then U_ok else UEOF,
      take UBIK_PAGESIZE (drop (pg * UBIK_PAGESIZE + 64) ?c), called db)"
    using assms(1,3) by (auto simp: quiet_calls Let_def min_def nat_mult_distrib split: if_splits)
  show "db' = called db" "length d \<le> UBIK_PAGESIZE" using r by simp_all
  show "length d = UBIK_PAGESIZE \<and> (\<forall>j < UBIK_PAGESIZE. d ! j = on_disk db f (pg * UBIK_PAGESIZE + j))" if "code = U_ok"
    using r that by (auto simp: on_disk_def file_data_def byte_at_def add_ac split: if_splits)
  show "on_disk db f (pg * UBIK_PAGESIZE + j) = 0" if "code \<noteq> U_ok"
  proof -
    have "length ?c - (pg * UBIK_PAGESIZE + 64) < UBIK_PAGESIZE" using r that by (auto split: if_splits)
    moreover obtain q where "length ?c - 64 = UBIK_PAGESIZE * q"
      using assms(2) unfolding aligned_def by (metis mod_0_imp_dvd dvdE)
    ultimately have "UBIK_PAGESIZE * q < UBIK_PAGESIZE * (pg + 1)" by (simp add: mult.commute)
    then have "q \<le> pg" by (simp add: mult_less_cancel1 del: mult_Suc_right)
    then have "length ?c - 64 \<le> pg * UBIK_PAGESIZE" using \<open>length ?c - 64 = UBIK_PAGESIZE * q\<close> by (simp add: mult.commute)
    then have "\<not> 64 + (pg * UBIK_PAGESIZE + j) < length ?c" by linarith
    then show ?thesis by (simp add: on_disk_def file_data_def byte_at_def)
  qed
qed

text \<open>What \<open>DRead\<close> and \<open>DNew\<close> leave: a buffer with the page, or none and nothing to lose by a page of zeros.\<close>

definition got_page :: "(int \<Rightarrow> nat \<Rightarrow> u8) \<Rightarrow> int \<Rightarrow> nat \<Rightarrow> ubik_dbase \<Rightarrow> nat option \<Rightarrow> ubik_dbase \<Rightarrow> bool" where
  "got_page S f pg db r db' \<longleftrightarrow>
     cache_ok S db' \<and> rest db' = rest db \<and>
     (case r of
        Some i \<Rightarrow> i < length (Buffers db') \<and> holds_page f pg (Buffers db' ! i)
      | None \<Rightarrow> (\<forall>b \<in> set (Buffers db'). \<not> holds_page f pg b) \<and>
          ((\<forall>j < UBIK_PAGESIZE. S f (pg * UBIK_PAGESIZE + j) = 0) \<or> fst (newslot f pg db') = None))"

lemma uncached:
  "buffers_ok S D bs \<Longrightarrow> f \<noteq> LOGFILE \<Longrightarrow> \<forall>b \<in> set bs. \<not> holds_page f (k div UBIK_PAGESIZE) b \<Longrightarrow> S f k = D f k"
  unfolding buffers_ok_def by blast

lemma DRead_slot:
  assumes ok: "cache_ok S db" and q: "quiet db" and al: "aligned (content f db)" and f: "0 \<le> f"
    and none: "\<forall>b \<in> set (Buffers db). \<not> holds_page f pg b" and slot: "newslot f pg db = (Some i, db1)"
    and r: "(case uphys_read f (int (pg * UBIK_PAGESIZE)) (int UBIK_PAGESIZE) db1 of
        (code, d, db) \<Rightarrow>
          let db = on_buffer i (\<lambda>b. b\<lparr>data := overlay zero_page 0 d\<rparr>) db
          in if code \<noteq> U_ok then (None, on_buffer i (\<lambda>b. b\<lparr>bfile := BADFID\<rparr>) db) else (Some i, lock_buffer i db)) = (r, db')"
  shows "got_page S f pg db r db'"
proof -
  have bok: "buffers_ok S (on_disk db) (Buffers db)" using ok by (simp add: cache_ok_def)
  obtain b1 where b1: "i < length (Buffers db)" "\<not> dirty (Buffers db ! i)" "Buffers db1 = (Buffers db)[i := b1]"
    "core b1 = (f, pg, False, data (Buffers db ! i))" "LastBuffer db1 = i" "rest db1 = rest db"
    "\<And>h. set (phTable db1 h) \<subseteq> {..< length (Buffers db)}" "i \<in> set (phTable db1 (pHash f))"
    "\<And>h j. j \<noteq> i \<Longrightarrow> j \<in> set (phTable db h) \<Longrightarrow> j \<in> set (phTable db1 h)"
    using newslot_ok [OF slot] ok unfolding cache_ok_def by blast
  have q1: "quiet db1" "content f db1 = content f db" using rest_frame [OF b1(6)] q by simp_all
  obtain code d db2 where rd: "uphys_read f (int (pg * UBIK_PAGESIZE)) (int UBIK_PAGESIZE) db1 = (code, d, db2)"
    by (cases "uphys_read f (int (pg * UBIK_PAGESIZE)) (int UBIK_PAGESIZE) db1")
  note pr = page_read [OF q1(1) _ rd, unfolded q1(2), OF al] 
  have od: "on_disk db1 = on_disk db" using rest_frame(3) [OF b1(6)] .
  note bd = b1(4) [unfolded core_def prod.inject]
  show ?thesis
  proof (cases "code = U_ok")
    case True
    let ?b = "b1\<lparr>data := overlay zero_page 0 d, lockers := lockers b1 + 1\<rparr>"
    have ov: "overlay zero_page 0 d = d" using pr(2) [OF True] by (simp add: overlay_def zero_page_def)
    have r': "r = Some i" "db' = lock_buffer i (on_buffer i (\<lambda>b. b\<lparr>data := overlay zero_page 0 d\<rparr>) (called db1))"
      using r rd pr(1) True by (auto simp: Let_def)
    have B: "Buffers db' = (Buffers db)[i := ?b]" using b1(1,3) by (simp add: r' lock_buffer_def)
    have S: "S f k = on_disk db f k" if "k div UBIK_PAGESIZE = pg" for k
      using uncached [OF bok, of f k] none f that by (simp add: log_file_neq)
    have "matches S ?b"
      using pr(2) [OF True] bd S by (auto simp: matches_def ov od UBIK_PAGESIZE_def)
    moreover have fr: "phTable db' = phTable db1" "LastBuffer db' = i" "rest db' = rest db" using b1(5,6) by (simp_all add: r')
    ultimately have "cache_ok S db'"
      using b1(1,7-9) bd none pr(2) [OF True] by (intro cache_replace [OF ok b1(1,2) B]) (simp_all add: ov rest_frame(3) [OF fr(3)])
    then show ?thesis using r'(1) fr(3) b1(1) bd by (simp add: got_page_def B holds_page_def)
  next
    case False
    let ?b = "b1\<lparr>data := overlay zero_page 0 d, bfile := BADFID\<rparr>"
    have ov: "length (overlay zero_page 0 d) = UBIK_PAGESIZE" using pr(4) by (simp add: overlay_def zero_page_def)
    have r': "r = None" "db' = on_buffer i (\<lambda>b. b\<lparr>bfile := BADFID\<rparr>) (on_buffer i (\<lambda>b. b\<lparr>data := overlay zero_page 0 d\<rparr>) (called db1))"
      using r rd pr(1) False by (auto simp: Let_def)
    have B: "Buffers db' = (Buffers db)[i := ?b]" using b1(1,3) by (simp add: r')
    have S: "S f k = 0" if "k div UBIK_PAGESIZE = pg" for k
      using uncached [OF bok, of f k] none f that pr(3) [OF False, of "k mod UBIK_PAGESIZE"] div_mult_mod_eq [of k UBIK_PAGESIZE]
      by (simp add: log_file_neq od)
    have fr: "phTable db' = phTable db1" "LastBuffer db' = i" "rest db' = rest db" using b1(5,6) by (simp_all add: r')
    then have "cache_ok S db'"
      using b1(1,7-9) bd ov by (intro cache_replace [OF ok b1(1,2) B]) (simp_all add: rest_frame(3) [OF fr(3)])
    moreover have "\<forall>b \<in> set (Buffers db'). \<not> holds_page f pg b"
      using none f set_update_subset_insert [of "Buffers db" i ?b] by (auto simp: B holds_page_def BADFID_def)
    ultimately show ?thesis using r'(1) fr(3) S by (simp add: got_page_def UBIK_PAGESIZE_def)
  qed
qed

lemma DRead_ok:
  assumes ok: "cache_ok S db" and q: "quiet db" and al: "aligned (content f db)" and f: "0 \<le> f"
    and r: "DRead f pg db = (r, db')"
  shows "got_page S f pg db r db'"
proof -
  have ch: "chains_ok db" and bok: "buffers_ok S (on_disk db) (Buffers db)" using ok by (simp_all add: cache_ok_def)
  have found: ?thesis if i: "i < length (Buffers db)" "holds_page f pg (Buffers db ! i)" and "r = Some i"
    and m: "map core (Buffers db') = map core (Buffers db)" "rest db' = rest db" "phTable db' = phTable db" "LastBuffer db' = i" for i
  proof -
    have "cache_ok S db'" using cache_cores [OF ok m(1,3)] m(4) i(1) rest_frame(3) [OF m(2)] by simp
    moreover have "length (Buffers db') = length (Buffers db)" using m(1) by (metis length_map)
    moreover have "holds_page f pg (Buffers db' ! i)"
      using cores_nth [OF m(1) i(1)] i(2) by (simp add: core_eq holds_page_def)
    ultimately show ?thesis using that by (simp add: got_page_def)
  qed
  show ?thesis
  proof (cases "holds_page f pg (Buffers db ! LastBuffer db)")
    case True
    then show ?thesis using r ch by (intro found [of "LastBuffer db"]) (auto simp: DRead_def touch_core chains_ok_def touch_def Let_def
        lock_buffer_def map_core_update core_eq)
  next
    case last: False
    show ?thesis
    proof (cases "find (\<lambda>i. holds_page f pg (Buffers db ! i)) (phTable db (pHash f))")
      case (Some i)
      then have i: "i < length (Buffers db)" "holds_page f pg (Buffers db ! i)"
        using ch by (auto simp: find_Some_iff chains_ok_def subset_iff) (metis lessThan_iff nth_mem)
      show ?thesis using r last Some i by (intro found [of i]) (auto simp: DRead_def touch_core touch_def Let_def
        lock_buffer_def map_core_update core_eq)
    next
      case None
      then have none: "\<forall>b \<in> set (Buffers db). \<not> holds_page f pg b"
        using chain_holds [OF ch f, of pg] by (auto simp: find_None_iff)
      show ?thesis
      proof (cases "newslot f pg db")
        case slot: (Pair s db1)
        show ?thesis
        proof (cases s)
          case None': None
          then have "db1 = db" using slot by (auto simp: newslot_def split: option.splits)
          then show ?thesis using r last None None' slot ok none by (auto simp: DRead_def got_page_def)
        next
          case s: (Some i)
          show ?thesis
            using DRead_slot [OF ok q al f none slot [unfolded s], of r db'] r last None slot s by (simp add: DRead_def)
        qed
      qed
    qed
  qed
qed

lemma DNew_ok:
  assumes ok: "cache_ok S db" and f: "0 \<le> f" and none: "\<forall>b \<in> set (Buffers db). \<not> holds_page f pg b"
    and zero: "\<forall>j < UBIK_PAGESIZE. S f (pg * UBIK_PAGESIZE + j) = 0" and r: "DNew f pg db = (Some i, db')"
  shows "got_page S f pg db (Some i) db'"
proof -
  obtain s db1 where slot: "newslot f pg db = (s, db1)" by (cases "newslot f pg db")
  have s: "s = Some i" and r': "db' = on_buffer i (\<lambda>b. b\<lparr>data := zero_page\<rparr>) (lock_buffer i db1)"
    using r slot by (auto simp: DNew_def split: option.splits)
  obtain b1 where b1: "i < length (Buffers db)" "\<not> dirty (Buffers db ! i)" "Buffers db1 = (Buffers db)[i := b1]"
    "core b1 = (f, pg, False, data (Buffers db ! i))" "LastBuffer db1 = i" "rest db1 = rest db"
    "\<And>h. set (phTable db1 h) \<subseteq> {..< length (Buffers db)}" "i \<in> set (phTable db1 (pHash f))"
    "\<And>h j. j \<noteq> i \<Longrightarrow> j \<in> set (phTable db h) \<Longrightarrow> j \<in> set (phTable db1 h)"
    using newslot_ok [OF slot [unfolded s]] ok unfolding cache_ok_def by blast
  note bd = b1(4) [unfolded core_def prod.inject]
  let ?b = "b1\<lparr>lockers := lockers b1 + 1, data := zero_page\<rparr>"
  have B: "Buffers db' = (Buffers db)[i := ?b]" using b1(1,3) by (simp add: r' lock_buffer_def)
  have fr: "phTable db' = phTable db1" "LastBuffer db' = i" "rest db' = rest db" using b1(5,6) by (simp_all add: r')
  have "matches S ?b" using bd zero by (simp add: matches_def zero_page_def)
  then have "cache_ok S db'"
    using b1(1,7-9) bd none fr(1,2)
    by (intro cache_replace [OF ok b1(1,2) B]) (simp_all add: zero_page_def rest_frame(3) [OF fr(3)])
  then show ?thesis using b1(1) bd fr(3) by (simp add: got_page_def B holds_page_def)
qed

section \<open>Reading and writing bytes\<close>

text \<open>A part of a page.\<close>

lemma page_part:
  assumes "cache_ok S db" and "i < length (Buffers db)" and "holds_page f pg (Buffers db ! i)" and "0 \<le> f"
    and "off + len \<le> UBIK_PAGESIZE"
  shows "take len (drop off (data (Buffers db ! i))) = map (S f) [pg * UBIK_PAGESIZE + off ..< pg * UBIK_PAGESIZE + off + len]"
proof -
  have "Buffers db ! i \<in> set (Buffers db)" using assms(2) by simp
  then have "length (data (Buffers db ! i)) = UBIK_PAGESIZE" "matches S (Buffers db ! i)"
    using assms by (auto simp: cache_ok_def buffers_ok_def holds_page_def BADFID_def)
  then show ?thesis using assms by (intro nth_equalityI) (auto simp: matches_def holds_page_def add_ac)
qed

lemma map_upt_split: "n \<le> m \<Longrightarrow> map g [a ..< a + n] @ map g [a + n ..< a + n + (m - n)] = map g [a ..< a + m]"
  using upt_add_eq_append [of a "a + n" "m - n"] by (simp flip: map_append)

lemma read_loop_ok:
  assumes "cache_ok S db" and "quiet db" and "aligned (content f db)" and "0 \<le> f"
    and "udisk_read_loop f apos alen db = (code, ds, db')"
  shows "(code = U_ok \<longrightarrow> ds = map (S f) [apos ..< apos + alen]) \<and> cache_ok S db' \<and> rest db' = rest db"
  using assms
proof (induction alen arbitrary: apos db ds db' rule: less_induct)
  case (less alen)
  show ?case
  proof (cases "alen = 0")
    case True
    then show ?thesis using less.prems by (simp add: udisk_read_loop.simps)
  next
    case False
    let ?pg = "apos div UBIK_PAGESIZE" and ?off = "apos mod UBIK_PAGESIZE"
    let ?len = "min (UBIK_PAGESIZE - ?off) alen"
    obtain r db1 where rd: "DRead f ?pg db = (r, db1)" by (cases "DRead f ?pg db")
    note g = DRead_ok [OF less.prems(1-4) rd]
    show ?thesis
    proof (cases r)
      case None
      then show ?thesis using g rd False less.prems(5) by (simp add: udisk_read_loop.simps [of f apos] got_page_def)
    next
      case i: (Some i)
      let ?d = "take ?len (drop ?off (data (Buffers db1 ! i)))"
      obtain ds' where ds': "udisk_read_loop f (apos + ?len) (alen - ?len) (DRelease i False db1) = (code, ds', db')" "ds = ?d @ ds'"
        using less.prems(5) False rd i by (auto simp: udisk_read_loop.simps [of f apos] Let_def split: prod.splits)
      have g': "cache_ok S db1" "rest db1 = rest db" "i < length (Buffers db1)" "holds_page f ?pg (Buffers db1 ! i)"
        using g i by (simp_all add: got_page_def)
      have rel: "rest (DRelease i False db1) = rest db" using g' by simp
      have "cache_ok S (DRelease i False db1)"
        using cache_cores [OF g'(1) touch_core(3) [OF g'(3)]] g'(1) rest_frame(3) [OF rel] rest_frame(3) [OF g'(2)]
        by (simp add: cache_ok_def chains_ok_def)
      then have IH: "(code = U_ok \<longrightarrow> ds' = map (S f) [apos + ?len ..< apos + ?len + (alen - ?len)]) \<and> cache_ok S db' \<and>
          rest db' = rest (DRelease i False db1)"
        using less.IH [OF _ _ _ _ less.prems(4) ds'(1)] less.prems(2,3) rest_frame [OF rel] False by (simp add: UBIK_PAGESIZE_def)
      have "?d = map (S f) [apos ..< apos + ?len]"
        using page_part [OF g'(1,3,4) less.prems(4), of ?off ?len] by (simp add: UBIK_PAGESIZE_def)
      then show ?thesis using IH ds'(2) rel map_upt_split [of ?len alen "S f" apos] by simp
    qed
  qed
qed

text \<open>A dirty buffer with new bytes.\<close>

lemma page_range:
  assumes "off + n \<le> UBIK_PAGESIZE" and "pg * UBIK_PAGESIZE + off \<le> k" and "k < pg * UBIK_PAGESIZE + off + n"
  shows "k div UBIK_PAGESIZE = pg"
  using assms by (intro div_nat_eqI) (simp_all add: algebra_simps)

lemma overlay_nth:
  "off + length d \<le> length bs \<Longrightarrow> j < length bs \<Longrightarrow>
   overlay bs off d ! j = (if off \<le> j \<and> j < off + length d then d ! (j - off) else bs ! j)"
  by (auto simp: overlay_def nth_append min_def)

lemma buffers_ok_dirty:
  assumes ok: "buffers_ok S D bs" and i: "i < length bs" "holds_page f pg (bs ! i)" and f: "0 \<le> f"
    and off: "off + length d \<le> UBIK_PAGESIZE"
    and b: "core b = (f, pg, True, overlay (data (bs ! i)) off d)"
  shows "buffers_ok (S(f := put_data (pg * UBIK_PAGESIZE + off) d (S f))) D (bs[i := b])"
proof -
  let ?S = "S(f := put_data (pg * UBIK_PAGESIZE + off) d (S f))"
  note bd = b [unfolded core_def prod.inject] and id = i(2) [unfolded holds_page_def]
  have f': "f \<noteq> BADFID" using f by (simp add: BADFID_def)
  have uniq: "j = i" if "j < length bs" "bfile (bs ! j) = f" "page (bs ! j) = pg" for j
    using ok that i f' by (auto simp: buffers_ok_def holds_page_def)
  have same: "?S g k = S g k" if "g \<noteq> f \<or> k div UBIK_PAGESIZE \<noteq> pg" for g k
    using that page_range [OF off, of pg k] by (auto simp: put_data_def)
  have uo: "j < length bs \<Longrightarrow> k < length bs \<Longrightarrow> valid (bs ! j) \<Longrightarrow> holds_page (bfile (bs ! j)) (page (bs ! j)) (bs ! k) \<Longrightarrow> j = k" for j k
    using ok unfolding buffers_ok_def by blast
  have len: "length (data (bs ! i)) = UBIK_PAGESIZE" and m: "matches S (bs ! i)"
    using ok i id f' by (auto simp: buffers_ok_def)
  have mb: "matches ?S b"
    using m id bd off len by (auto simp: matches_def overlay_nth put_data_def add_ac)
  have mo: "matches ?S (bs ! j)" if "j < length bs" "j \<noteq> i" "valid (bs ! j)" for j
  proof -
    have "matches S (bs ! j)" using ok that by (auto simp: buffers_ok_def)
    moreover have "?S (bfile (bs ! j)) (page (bs ! j) * UBIK_PAGESIZE + k) = S (bfile (bs ! j)) (page (bs ! j) * UBIK_PAGESIZE + k)"
      if "k < UBIK_PAGESIZE" for k
    proof (rule same)
      have "(page (bs ! j) * UBIK_PAGESIZE + k) div UBIK_PAGESIZE = page (bs ! j)" using that by (simp add: UBIK_PAGESIZE_def)
      then show "bfile (bs ! j) \<noteq> f \<or> (page (bs ! j) * UBIK_PAGESIZE + k) div UBIK_PAGESIZE \<noteq> pg"
        using uniq [OF \<open>j < length bs\<close>] \<open>j \<noteq> i\<close> by metis
    qed
    ultimately show ?thesis by (simp add: matches_def)
  qed
  show ?thesis unfolding buffers_ok_def
  proof (intro conjI allI impI ballI)
    fix x assume x: "x \<in> set (bs[i := b])"
    then obtain j where j: "j < length bs" "x = (if j = i then b else bs ! j)"
      by (auto simp: in_set_conv_nth nth_list_update split: if_splits)
    show "length (data x) = UBIK_PAGESIZE"
      using j ok bd len off by (auto simp: buffers_ok_def overlay_def)
    show "matches ?S x" if "valid x" using j that mo mb by auto
    show "0 \<le> bfile x" if "dirty x" using j that f bd ok by (auto simp: buffers_ok_def)
  next
    fix j k assume jk: "j < length (bs[i := b])" "k < length (bs[i := b])"
      "valid (bs[i := b] ! j) \<and> holds_page (bfile (bs[i := b] ! j)) (page (bs[i := b] ! j)) (bs[i := b] ! k)"
    consider "j = i" "k = i" | "j = i" "k \<noteq> i" | "j \<noteq> i" "k = i" | "j \<noteq> i" "k \<noteq> i" by blast
    then show "j = k"
    proof cases
      case 2
      then have "bfile (bs ! k) = f \<and> page (bs ! k) = pg" using jk bd i by (simp add: holds_page_def)
      then show ?thesis using uniq [of k] jk 2 by simp
    next
      case 3
      then have "bfile (bs ! j) = f \<and> page (bs ! j) = pg" using jk bd i by (simp add: holds_page_def)
      then show ?thesis using uniq [of j] jk 3 by simp
    next
      case 4
      then show ?thesis using jk by (intro uo) simp_all
    qed simp
  next
    fix g k assume g: "g \<noteq> LOGFILE \<and> ?S g k \<noteq> D g k"
    show "\<exists>x \<in> set (bs[i := b]). dirty x \<and> holds_page g (k div UBIK_PAGESIZE) x"
    proof (cases "g = f \<and> k div UBIK_PAGESIZE = pg")
      case True
      then show ?thesis using bd i(1) by (intro bexI [of _ b]) (auto simp: holds_page_def set_update_memI)
    next
      case False
      then have "S g k \<noteq> D g k" using g same [of g k] by auto
      then obtain j where j: "j < length bs" "dirty (bs ! j)" "holds_page g (k div UBIK_PAGESIZE) (bs ! j)"
        using ok g unfolding buffers_ok_def in_set_conv_nth Bex_def by blast
      then have "j \<noteq> i" using False id by (auto simp: holds_page_def)
      then show ?thesis using j by (intro bexI [of _ "bs ! j"]) (auto simp: in_set_conv_nth)
    qed
  qed
qed

lemma write_page_ok:
  assumes ok: "cache_ok S db" and i: "i < length (Buffers db)" "holds_page f pg (Buffers db ! i)" and f: "0 \<le> f"
    and off: "off + length d \<le> UBIK_PAGESIZE"
    and db': "db' = DRelease i True (on_buffer i (\<lambda>b. b\<lparr>data := overlay (data b) off d\<rparr>) db)"
  shows "cache_ok (S(f := put_data (pg * UBIK_PAGESIZE + off) d (S f))) db'" and "rest db' = rest db"
proof -
  let ?b = "Buffers db ! i"
  obtain b' where B: "Buffers db' = (Buffers db)[i := b']" "core b' = (f, pg, True, overlay (data ?b) off d)"
    using i by (simp add: db' DRelease_def core_def holds_page_def)
  show r: "rest db' = rest db" by (simp add: db')
  have "bfile (Buffers db' ! j) = bfile (Buffers db ! j)" if "j < length (Buffers db)" for j
    using B i that by (auto simp: core_def holds_page_def nth_list_update)
  then have "chains_ok db'" using ok B by (auto simp: cache_ok_def chains_ok_def db')
  then show "cache_ok (S(f := put_data (pg * UBIK_PAGESIZE + off) d (S f))) db'"
    using ok buffers_ok_dirty [OF _ i f off B(2)] B(1) rest_frame(3) [OF r] by (simp add: cache_ok_def)
qed

lemma get_page_ok:
  assumes ok: "cache_ok S db" and q: "quiet db" and al: "aligned (content f db)" and f: "0 \<le> f"
    and r: "(case DRead f pg db of (None, db) \<Rightarrow> DNew f pg db | r \<Rightarrow> r) = (x, db')"
  shows "cache_ok S db'" and "rest db' = rest db"
    and "x = Some i \<Longrightarrow> i < length (Buffers db') \<and> holds_page f pg (Buffers db' ! i)"
proof -
  obtain y db1 where rd: "DRead f pg db = (y, db1)" by (cases "DRead f pg db")
  note g = DRead_ok [OF ok q al f rd]
  have "cache_ok S db' \<and> rest db' = rest db \<and> (x = Some i \<longrightarrow> i < length (Buffers db') \<and> holds_page f pg (Buffers db' ! i))" for i
  proof (cases y)
    case (Some j)
    then show ?thesis using g r rd by (auto simp: got_page_def)
  next
    case None
    then have new: "DNew f pg db1 = (x, db')" using r rd by simp
    show ?thesis
    proof (cases x)
      case None': None
      then have "db' = db1" using new by (auto simp: DNew_def newslot_def split: option.splits prod.splits)
      then show ?thesis using g None None' by (simp add: got_page_def)
    next
      case (Some j)
      then have "fst (newslot f pg db1) \<noteq> None" using new by (auto simp: DNew_def split: option.splits prod.splits)
      then have "got_page S f pg db1 (Some j) db'"
        using g None Some new by (intro DNew_ok [OF _ f]) (auto simp: got_page_def)
      then show ?thesis using g Some by (auto simp: got_page_def)
    qed
  qed
  then show "cache_ok S db'" and "rest db' = rest db"
    and "x = Some i \<Longrightarrow> i < length (Buffers db') \<and> holds_page f pg (Buffers db' ! i)"
    by simp_all
qed

lemma put_data_Nil [simp]: "put_data pos [] s = s"
  by (auto simp: put_data_def fun_eq_iff)

text \<open>A write that fails has written a part.\<close>

lemma write_loop_part:
  assumes "cache_ok S db" and "quiet db" and "aligned (content f db)" and "0 \<le> f"
    and "udisk_write_loop f bs apos db = (code, db')"
  shows "\<exists>n. (code = U_ok \<longrightarrow> n = length bs) \<and> cache_ok (S(f := put_data apos (take n bs) (S f))) db' \<and> rest db' = rest db"
  using assms
proof (induction "length bs" arbitrary: S bs apos db rule: less_induct)
  case less
  show ?case
  proof (cases "bs = []")
    case True
    then show ?thesis using less.prems by (simp add: udisk_write_loop.simps)
  next
    case False
    let ?pg = "apos div UBIK_PAGESIZE" and ?off = "apos mod UBIK_PAGESIZE"
    let ?len = "min (UBIK_PAGESIZE - ?off) (length bs)"
    obtain r db1 where rd: "(case DRead f ?pg db of (None, db) \<Rightarrow> DNew f ?pg db | r \<Rightarrow> r) = (r, db1)"
      by (cases "case DRead f ?pg db of (None, db) \<Rightarrow> DNew f ?pg db | r \<Rightarrow> r")
    note g = get_page_ok [OF less.prems(1-4) rd]
    show ?thesis
    proof (cases r)
      case None
      then show ?thesis using less.prems(5) False rd g
        by (intro exI [of _ 0]) (simp add: udisk_write_loop.simps [of f bs])
    next
      case i: (Some i)
      let ?db = "DRelease i True (on_buffer i (\<lambda>b. b\<lparr>data := overlay (data b) ?off (take ?len bs)\<rparr>) db1)"
      let ?S = "S(f := put_data apos (take ?len bs) (S f))"
      have step: "udisk_write_loop f (drop ?len bs) (apos + ?len) ?db = (code, db')"
        using less.prems(5) False rd i by (simp add: udisk_write_loop.simps [of f bs] Let_def)
      have fit: "?off + length (take ?len bs) \<le> UBIK_PAGESIZE" by (simp add: UBIK_PAGESIZE_def)
      have ok: "cache_ok ?S ?db" "rest ?db = rest db"
        using write_page_ok [of S db1 i f ?pg ?off "take ?len bs", OF _ _ _ less.prems(4) fit refl] g i by simp_all
      obtain n where n: "code = U_ok \<longrightarrow> n = length (drop ?len bs)" "rest db' = rest ?db"
        "cache_ok (?S(f := put_data (apos + ?len) (take n (drop ?len bs)) (?S f))) db'"
        using less.hyps [OF _ ok(1) _ _ less.prems(4) step] less.prems(2,3) rest_frame [OF ok(2)] False
        by (auto simp: UBIK_PAGESIZE_def)
      have "put_data (apos + ?len) (take n (drop ?len bs)) (put_data apos (take ?len bs) (S f)) =
          put_data apos (take (?len + n) bs) (S f)"
        using put_data_append [of apos "take ?len bs" "take n (drop ?len bs)" "S f"] by (simp add: take_add)
      then show ?thesis using n ok(2) by (intro exI [of _ "?len + n"]) simp
    qed
  qed
qed

section \<open>Dropping the changes\<close>

lemma DAbort_ok:
  assumes ok: "cache_ok S db"
  shows "cache_ok (on_disk db) (DAbort db)" and "\<forall>b \<in> set (Buffers (DAbort db)). \<not> dirty b" and "rest (DAbort db) = rest db"
proof -
  let ?g = "\<lambda>b. if dirty b then b\<lparr>dirty := False, bfile := BADFID\<rparr> else b"
  have bs: "Buffers (DAbort db) = map ?g (Buffers db)" by (simp add: DAbort_def)
  have bok: "buffers_ok S (on_disk db) (Buffers db)" using ok by (simp add: cache_ok_def)
  show r: "rest (DAbort db) = rest db" by (simp add: DAbort_def)
  show clean: "\<forall>b \<in> set (Buffers (DAbort db)). \<not> dirty b" by (auto simp: bs)
  have uo: "j < length (Buffers db) \<Longrightarrow> k < length (Buffers db) \<Longrightarrow> valid (Buffers db ! j) \<Longrightarrow>
      holds_page (bfile (Buffers db ! j)) (page (Buffers db ! j)) (Buffers db ! k) \<Longrightarrow> j = k" for j k
    using bok unfolding buffers_ok_def by blast
  have same: "matches (on_disk db) b" if b: "b \<in> set (Buffers db)" "\<not> dirty b" "valid b" for b
  proof -
    have "S (bfile b) (page b * UBIK_PAGESIZE + j) = on_disk db (bfile b) (page b * UBIK_PAGESIZE + j)" if j: "j < UBIK_PAGESIZE" for j
    proof (rule ccontr)
      assume "\<not> ?thesis"
      moreover have "(page b * UBIK_PAGESIZE + j) div UBIK_PAGESIZE = page b" using j by (simp add: UBIK_PAGESIZE_def)
      moreover have "bfile b \<noteq> LOGFILE" using b by (simp add: BADFID_def LOGFILE_def)
      ultimately obtain x where "x \<in> set (Buffers db)" "dirty x" "holds_page (bfile b) (page b) x"
        using bok unfolding buffers_ok_def by metis
      then show False using uo b by (metis in_set_conv_nth)
    qed
    moreover have "matches S b" using bok b by (auto simp: buffers_ok_def)
    ultimately show ?thesis by (simp add: matches_def)
  qed
  have "buffers_ok (on_disk db) (on_disk db) (map ?g (Buffers db))"
    unfolding buffers_ok_def
  proof (intro conjI allI impI)
    show "\<forall>b \<in> set (map ?g (Buffers db)). length (data b) = UBIK_PAGESIZE \<and> (valid b \<longrightarrow> matches (on_disk db) b) \<and> (dirty b \<longrightarrow> 0 \<le> bfile b)"
      using bok same by (auto simp: buffers_ok_def)
    fix j k assume jk: "j < length (map ?g (Buffers db))" "k < length (map ?g (Buffers db))"
      "valid (map ?g (Buffers db) ! j) \<and> holds_page (bfile (map ?g (Buffers db) ! j)) (page (map ?g (Buffers db) ! j)) (map ?g (Buffers db) ! k)"
    then show "j = k" by (intro uo) (auto simp: holds_page_def split: if_splits)
  qed simp
  moreover have "chains_ok (DAbort db)"
    using ok by (auto simp: cache_ok_def chains_ok_def bs) (auto simp: DAbort_def)
  ultimately show "cache_ok (on_disk db) (DAbort db)" using rest_frame(3) [OF r] by (simp add: cache_ok_def bs)
qed

end
