(* ===== verification/Udisk_Crash.thy ===== *)
theory Udisk_Crash
  imports Udisk_Cache
begin

text \<open>
  A write transaction and a crash at any point of it, on a host with the byte order of the network.

  \<^item> \<open>crash d c\<close>: a crash in the state \<open>d\<close> of the files may leave the contents \<open>c\<close>: every file what it was at its last
    \<open>fsync\<close> with any part of the writes since, the log a part of what was appended.
  \<^item> \<open>recovers v S c\<close>: the server that starts on \<open>c\<close> comes up with the data \<open>S\<close> and the version \<open>v\<close>.
  \<^item> \<open>before old v L d\<close> holds up to the \<open>fsync\<close> of the commit record (and again after the commit): the data files are
    untouched.  \<open>during old S L d\<close> holds from there on: the whole log is on the disk.
\<close>

section \<open>What a crash leaves\<close>

definition crash_data :: "u8 list list \<Rightarrow> u8 list \<Rightarrow> bool" where
  "crash_data vs c \<longleftrightarrow> (\<exists>v \<in> set vs. length c = length v) \<and> (\<forall>i < length c. \<exists>v \<in> set vs. c ! i = byte_at v i)"

definition crash_log :: "u8 list list \<Rightarrow> u8 list \<Rightarrow> bool" where
  "crash_log vs c \<longleftrightarrow> c \<in> set vs \<or> (\<exists>k. Suc k < length vs \<and> prefix (vs ! k) c \<and> prefix c (vs ! Suc k))"

definition crash :: "(int \<Rightarrow> u8 list list) \<Rightarrow> (int \<Rightarrow> u8 list) \<Rightarrow> bool" where
  "crash d c \<longleftrightarrow> crash_log (d LOGFILE) (c LOGFILE) \<and> (\<forall>f. f \<noteq> LOGFILE \<longrightarrow> crash_data (d f) (c f))"

definition restart :: "nat \<Rightarrow> (int \<Rightarrow> u8 list) \<Rightarrow> ubik_dbase" where
  "restart n c =
     DInit n \<lparr>disk = (\<lambda>f. [c f]), past = [], faults = (\<lambda>_. None), ncalls = 0, Buffers = [], phTable = (\<lambda>_. []),
       LastBuffer = 0, timecounter = 0, db_version = \<lparr>v_epoch = 0, v_counter = 0\<rparr>, db_writing = False, db_readers = 0,
       activeTrans = [], nextTrans = 0\<rparr>"

definition recovers :: "ubik_version \<Rightarrow> (int \<Rightarrow> nat \<Rightarrow> u8) \<Rightarrow> nat \<Rightarrow> (int \<Rightarrow> u8 list) \<Rightarrow> bool" where
  "recovers v S n c \<longleftrightarrow>
     (\<exists>db. urecovery_Initialize False (restart n c) = Some (Some U_ok, db) \<and> db_version db = v \<and>
       (\<forall>f \<ge> 0. on_disk db f = S f))"

lemma contents_restart [simp]: "contents (restart n c) = c" "quiet (restart n c)"
  by (auto simp: restart_def DInit_def contents_def content_def quiet_def)

section \<open>The data the log describes\<close>

definition file_datas :: "(int \<Rightarrow> u8 list) \<Rightarrow> int \<Rightarrow> nat \<Rightarrow> u8" where
  "file_datas c f = file_data (c f)"

lemma on_disk_contents: "on_disk p = file_datas (contents p)"
  by (auto simp: on_disk_def file_datas_def contents_at)

fun spec_rec :: "log_rec \<Rightarrow> (int \<Rightarrow> nat \<Rightarrow> u8) \<Rightarrow> int \<Rightarrow> nat \<Rightarrow> u8" where
  "spec_rec (LData f pos d) S = S(f := put_data pos d (S f))"
| "spec_rec _ S = S"

abbreviation spec :: "log_rec list \<Rightarrow> (int \<Rightarrow> nat \<Rightarrow> u8) \<Rightarrow> int \<Rightarrow> nat \<Rightarrow> u8" where
  "spec rs S \<equiv> fold spec_rec rs S"

fun no_trunc :: "log_rec \<Rightarrow> bool" where
  "no_trunc (LTrunc f len) = False"
| "no_trunc _ = True"

lemma spec_applied: "list_all no_trunc rs \<Longrightarrow> file_datas (fold apply_rec rs c) = spec rs (file_datas c)"
proof (induction rs arbitrary: c)
  case (Cons r rs)
  have "file_datas (apply_rec r c) = spec_rec r (file_datas c)"
    using Cons.prems by (cases r) (auto simp: file_datas_def file_data_pwrite)
  then show ?case using Cons by simp
qed simp

text \<open>A byte of the result is the last one written, whatever was there, or it is the old one.\<close>

lemma spec_byte: "spec rs S f i = spec rs S' f i \<or> (spec rs S f i = S f i \<and> spec rs S' f i = S' f i)"
proof (induction rs arbitrary: S S')
  case (Cons r rs)
  have "spec_rec r S f i = spec_rec r S' f i \<or> (spec_rec r S f i = S f i \<and> spec_rec r S' f i = S' f i)"
    by (cases r) (auto simp: put_data_def)
  then show ?case using Cons.IH [of "spec_rec r S" "spec_rec r S'"] by auto
qed simp

lemma spec_torn:
  assumes "\<And>i. T f i = S f i \<or> T f i = spec rs S f i"
  shows "spec rs T f = spec rs S f"
proof
  fix i show "spec rs T f i = spec rs S f i" using spec_byte [of rs T f i S] assms [of i] by auto
qed

lemma spec_again: "spec rs (spec rs S) f = spec rs S f"
  by (rule spec_torn) simp

section \<open>The label\<close>

definition label_is :: "ubik_version \<Rightarrow> (int \<Rightarrow> u8 list) \<Rightarrow> bool" where
  "label_is v c \<longleftrightarrow> take 16 (c 0) = header False (version_words v)"

definition version_ok :: "ubik_version \<Rightarrow> bool" where
  "version_ok v \<longleftrightarrow> - (2 ^ 31) \<le> v_epoch v \<and> v_epoch v < 2 ^ 31 \<and> - (2 ^ 31) \<le> v_counter v \<and> v_counter v < 2 ^ 31"

lemma length_header [simp]: "length (header False v) = 16"
  by (simp add: header_def put_longs_net)

lemma label_written: "take 16 (pwrite c 0 (header False v)) = header False v"
  using length_header [of v] by (cases "header False v") (simp_all add: pwrite_def)

lemma header_longs: "buffer_long False (header False v) 2 = fst v" "buffer_long False (header False v) 3 = snd v"
  by (simp_all add: header_def put_longs_net buffer_long_def bytes_long_def net_bytes_def)
    (simp_all add: net_word_bytes flip: net_bytes_def net_word.simps(1))

lemma sint_word_32: "- (2 ^ 31) \<le> i \<Longrightarrow> i < 2 ^ 31 \<Longrightarrow> sint (word_of_int i :: u32) = i"
  by (simp add: signed_of_int signed_take_bit_int_eq_self)

lemma words_version: "version_ok v \<Longrightarrow> words_version (version_words v) = v"
  by (simp add: words_version_def version_words_def version_ok_def sint_word_32)

lemma InitializeDB_label:
  assumes "quiet db" and "label_is v (contents db)" and "version_ok v"
  shows "db_version (InitializeDB False db) = v" "contents (InitializeDB False db) = contents db"
  using assms by (simp_all add: InitializeDB_def quiet_calls label_is_def contents_at header_longs ntohl_def words_version)
    (simp_all add: contents_def content_def called_def)

section \<open>What the next start makes of it\<close>

definition recs_ok :: "log_rec list \<Rightarrow> bool" where
  "recs_ok rs \<longleftrightarrow> list_all rec_ok rs \<and> list_all no_trunc rs"

text \<open>A log that changes nothing: empty, aborted, or committed and done.\<close>

definition stale :: "ubik_version \<Rightarrow> (int \<Rightarrow> u8 list) \<Rightarrow> u8 list \<Rightarrow> bool" where
  "stale v c b \<longleftrightarrow>
     b = [] \<or>
     (\<exists>rs. recs_ok rs \<and>
       (b = logged rs @ net_bytes LOGABORT \<or>
        b = logged rs @ end_bytes (version_words v) \<and> (\<forall>f \<ge> 0. spec rs (file_datas c) f = file_datas c f)))"

lemma recovers_I:
  assumes r: "ReplayLog False (restart n c) = Some (Some U_ok, db)" and "quiet db" and "label_is v (contents db)" and "version_ok v"
    and "\<And>f. 0 \<le> f \<Longrightarrow> file_datas (contents db) f = S f"
  shows "recovers v S n c"
  using assms InitializeDB_label [of db v]
  by (auto simp: recovers_def urecovery_Initialize_def on_disk_contents)

lemma log_body_restart [simp]: "log_body (restart n c) = drop 64 (c LOGFILE)"
  by (simp add: log_body_contents)

lemma file_datas_upd: "0 \<le> f \<Longrightarrow> file_datas (c(LOGFILE := x)) f = file_datas c f"
  "file_datas (c(0 := pwrite (c 0) 0 (header False v))) f = file_datas c f"
  by (auto simp: file_datas_def file_data_def log_file_neq byte_pwrite)

lemma label_upd: "label_is v (c(LOGFILE := x)) = label_is v c"
  by (simp add: label_is_def log_file_neq)

lemma label_set: "label_is v (c(0 := pwrite (c 0) 0 (header False (version_words v))))"
  by (simp add: label_is_def label_written)

lemma recover_prefix:
  assumes b: "b = drop 64 (c LOGFILE)" and p: "prefix b (logged rs @ end_bytes (version_words w))" and rs: "recs_ok rs"
  shows "length b < length (logged rs) + 4 \<Longrightarrow> label_is v c \<Longrightarrow> version_ok v \<Longrightarrow> recovers v (file_datas c) n c"
    and "b = logged rs @ end_bytes (version_words w) \<Longrightarrow> version_ok w \<Longrightarrow> recovers w (spec rs (file_datas c)) n c"
    and "length (logged rs) + 4 \<le> length b \<Longrightarrow> length b < length (logged rs) + 12 \<Longrightarrow>
      \<exists>db. urecovery_Initialize False (restart n c) = Some (Some UBADLOG, db)"
proof -
  have r: "list_all rec_ok rs" "list_all no_trunc rs" using rs by (simp_all add: recs_ok_def)
  let ?R = "replayed rs (version_words w) (length b) c"
  obtain db where db: "ReplayLog False (restart n c) = Some (Some (fst ?R), db)" "quiet db" "contents db = snd ?R"
    using replay_prefix [of "restart n c" rs "version_words w"] p b r by auto
  show "recovers v (file_datas c) n c" if "length b < length (logged rs) + 4" "label_is v c" "version_ok v"
    using db that by (intro recovers_I [of n c db]) (simp_all add: replayed_def file_datas_upd label_upd)
  show "recovers w (spec rs (file_datas c)) n c" if "b = logged rs @ end_bytes (version_words w)" "version_ok w"
    using db that spec_applied [OF r(2), of c]
    by (intro recovers_I [of n c db]) (simp_all add: replayed_def Let_def file_datas_upd label_upd label_set)
  show "\<exists>db. urecovery_Initialize False (restart n c) = Some (Some UBADLOG, db)"
    if "length (logged rs) + 4 \<le> length b" "length b < length (logged rs) + 12"
    using db that by (simp add: replayed_def urecovery_Initialize_def)
qed

lemma scan_abort:
  assumes "quiet db" and "log_body db = pre @ logged rs @ net_bytes LOGABORT" and "list_all rec_ok rs"
  shows "\<exists>k. replay_scan False (int (length pre)) db = Some (False, calls k db)"
  using assms
proof (induction rs arbitrary: pre db)
  case Nil
  then have "uphys_read LOGFILE (int (length pre)) 4 db = (U_ok, net_bytes LOGABORT, called db)"
    using read_opcode [of db pre LOGABORT "[]"] by simp
  then have "replay_scan False (int (length pre)) db = Some (False, called db)"
    by (subst replay_scan.simps) (simp add: opcode_defs)
  then show ?case by (intro exI [of _ 1]) simp
next
  case (Cons r rs)
  obtain k where k: "replay_scan False (int (length pre)) db = replay_scan False (int (length (pre @ log_bytes r))) (calls k db)"
    using scan_rec [of db pre r "logged rs @ net_bytes LOGABORT"] Cons.prems by auto
  obtain k' where "replay_scan False (int (length (pre @ log_bytes r))) (calls k db) = Some (False, calls k' (calls k db))"
    using Cons.IH [of "calls k db" "pre @ log_bytes r"] Cons.prems by auto
  then show ?case unfolding k by (intro exI [of _ "k' + k"]) (simp add: funpow_add)
qed

lemma recover_stale:
  assumes st: "stale v c (drop 64 (c LOGFILE))" and "label_is v c" and "version_ok v"
  shows "recovers v (file_datas c) n c"
proof -
  consider "drop 64 (c LOGFILE) = []"
    | rs where "recs_ok rs" "drop 64 (c LOGFILE) = logged rs @ net_bytes LOGABORT"
    | rs where "recs_ok rs" "drop 64 (c LOGFILE) = logged rs @ end_bytes (version_words v)"
        "\<forall>f \<ge> 0. spec rs (file_datas c) f = file_datas c f"
    using st unfolding stale_def by blast
  then show ?thesis
  proof cases
    case 1
    then show ?thesis using assms recover_prefix(1) [of "[]" c "[]" v v n] by (simp add: recs_ok_def)
  next
    case 2
    obtain k where "replay_scan False 0 (restart n c) = Some (False, calls k (restart n c))"
      using scan_abort [of "restart n c" "[]" rs] 2 by (auto simp: recs_ok_def)
    then have "ReplayLog False (restart n c) =
        Some (Some U_ok, change LOGFILE (ftruncate (c LOGFILE) 64) (called (calls k (restart n c))))"
      by (simp add: ReplayLog_def quiet_calls flip: contents_at)
    then show ?thesis by (rule recovers_I) (use assms in \<open>simp_all add: file_datas_upd label_upd\<close>)
  next
    case 3
    then have "recovers v (spec rs (file_datas c)) n c" using assms by (intro recover_prefix(2)) simp_all
    then show ?thesis using 3 by (simp add: recovers_def)
  qed
qed

section \<open>The states of the files\<close>

definition before :: "(int \<Rightarrow> u8 list) \<Rightarrow> ubik_version \<Rightarrow> u8 list \<Rightarrow> (int \<Rightarrow> u8 list list) \<Rightarrow> bool" where
  "before old v L d \<longleftrightarrow>
     (\<forall>f. f \<noteq> LOGFILE \<longrightarrow> d f = [old f]) \<and>
     (\<exists>u us. d LOGFILE = u # us \<and> (stale v old (drop 64 u) \<or> prefix (drop 64 u) L) \<and> (\<forall>x \<in> set us. prefix (drop 64 x) L))"

definition during :: "(int \<Rightarrow> u8 list) \<Rightarrow> (int \<Rightarrow> nat \<Rightarrow> u8) \<Rightarrow> u8 list \<Rightarrow> (int \<Rightarrow> u8 list list) \<Rightarrow> bool" where
  "during old S L d \<longleftrightarrow>
     (\<exists>u. d LOGFILE = [u] \<and> drop 64 u = L) \<and>
     (\<forall>f. f \<noteq> LOGFILE \<longrightarrow> d f \<noteq> [] \<and> (\<forall>x \<in> set (d f). \<forall>i. file_data x i = file_data (old f) i \<or> file_data x i = S f i))"

text \<open>The crash that loses nothing.\<close>

lemma crash_last: "(\<And>f. d f \<noteq> []) \<Longrightarrow> crash d (\<lambda>f. last (d f))"
  by (auto simp: crash_def crash_log_def crash_data_def byte_at_def intro: last_in_set intro!: bexI [of _ "last (d f)" for f])

lemma before_nonempty: "before old v L d \<Longrightarrow> d f \<noteq> []" and during_nonempty: "during old S L d \<Longrightarrow> d f \<noteq> []"
  by (cases "f = LOGFILE"; auto simp: before_def during_def)+

lemma before_mono: "before old v L d \<Longrightarrow> prefix L L' \<Longrightarrow> before old v L' d"
  unfolding before_def by (meson prefix_order.trans)

lemma crash_data_single: "crash_data [x] c \<Longrightarrow> c = x"
  by (auto simp: crash_data_def byte_at_def intro: nth_equalityI)

lemma prefix_drop: "prefix a b \<Longrightarrow> prefix (drop n a) (drop n b)"
  by (auto simp: prefix_def)

lemma crash_before:
  assumes b: "before old v L d" and cr: "crash d c"
  shows "\<And>f. f \<noteq> LOGFILE \<Longrightarrow> c f = old f" and "stale v old (drop 64 (c LOGFILE)) \<or> prefix (drop 64 (c LOGFILE)) L"
proof -
  show "c f = old f" if "f \<noteq> LOGFILE" for f
    using that b cr by (auto simp: before_def crash_def dest!: crash_data_single)
  obtain u us where u: "d LOGFILE = u # us" "stale v old (drop 64 u) \<or> prefix (drop 64 u) L" "\<forall>x \<in> set us. prefix (drop 64 x) L"
    using b by (auto simp: before_def)
  have "crash_log (u # us) (c LOGFILE)" using cr u by (simp add: crash_def)
  then consider "c LOGFILE \<in> set (u # us)" | k where "k < length us" "prefix (c LOGFILE) (us ! k)"
    by (auto simp: crash_log_def)
  then show "stale v old (drop 64 (c LOGFILE)) \<or> prefix (drop 64 (c LOGFILE)) L"
  proof cases
    case 1
    then show ?thesis using u by auto
  next
    case 2
    then show ?thesis using u(3) prefix_drop [OF 2(2), of 64] by (meson nth_mem prefix_order.trans)
  qed
qed

lemma recovers_cong: "(\<And>f. 0 \<le> f \<Longrightarrow> S f = T f) \<Longrightarrow> recovers v S n c = recovers v T n c"
  by (simp add: recovers_def)

lemma stale_cong: "(\<And>f. f \<noteq> LOGFILE \<Longrightarrow> c f = c' f) \<Longrightarrow> stale v c b \<Longrightarrow> stale v c' b"
proof -
  assume eq: "\<And>f. f \<noteq> LOGFILE \<Longrightarrow> c f = c' f" and st: "stale v c b"
  have datas: "file_datas c f = file_datas c' f" if "0 \<le> f" for f
    using eq [of f] that by (simp add: file_datas_def log_file_neq)
  have "spec rs (file_datas c) f = spec rs (file_datas c') f" if "0 \<le> f" for rs f
    using datas [OF that] spec_torn [of "file_datas c'" f "file_datas c" rs] by simp
  then show "stale v c' b" using st datas unfolding stale_def by metis
qed

lemma prefix_whole: "prefix b w \<Longrightarrow> length b = length w \<Longrightarrow> b = w"
  by (auto simp: prefix_def)

lemma recover_before:
  assumes b: "before old v L d" and cr: "crash d c" and L: "prefix L (logged rs @ end_bytes (version_words w))"
    and rs: "recs_ok rs" and v: "label_is v old" "version_ok v" and w: "version_ok w"
  shows "recovers v (file_datas old) n c \<or>
    (drop 64 (c LOGFILE) = logged rs @ end_bytes (version_words w) \<and> recovers w (spec rs (file_datas old)) n c) \<or>
    (length (logged rs) + 4 \<le> length (drop 64 (c LOGFILE)) \<and> length (drop 64 (c LOGFILE)) < length (logged rs) + 12 \<and>
     (\<exists>db. urecovery_Initialize False (restart n c) = Some (Some UBADLOG, db)))"
proof -
  note eq = crash_before(1) [OF b cr]
  let ?b = "drop 64 (c LOGFILE)"
  have datas: "file_datas c f = file_datas old f" if "0 \<le> f" for f
    using eq [of f] that by (simp add: file_datas_def log_file_neq)
  have sp: "spec rs (file_datas c) f = spec rs (file_datas old) f" if "0 \<le> f" for f
    using datas [OF that] spec_torn [of "file_datas c" f "file_datas old" rs] by simp
  have lab: "label_is v c" using v(1) eq [of 0] by (simp add: label_is_def log_file_neq)
  show ?thesis
  proof (cases "stale v old ?b")
    case True
    then have "recovers v (file_datas c) n c"
      using recover_stale [OF stale_cong [OF eq [symmetric] True] lab v(2)] by simp
    then show ?thesis using recovers_cong [of "file_datas c" "file_datas old" v n c] datas by simp
  next
    case False
    then have p: "prefix ?b (logged rs @ end_bytes (version_words w))"
      using crash_before(2) [OF b cr] L prefix_order.trans by blast
    note r = recover_prefix [of ?b c rs w, OF refl p rs]
    consider "length ?b < length (logged rs) + 4" | "?b = logged rs @ end_bytes (version_words w)"
      | "length (logged rs) + 4 \<le> length ?b" "length ?b < length (logged rs) + 12"
      using prefix_length_le [OF p] prefix_whole [OF p] by fastforce
    then show ?thesis
    proof cases
      case 1
      then show ?thesis using r(1) [OF 1 lab v(2), of n] recovers_cong [of "file_datas c" "file_datas old" v n c] datas by simp
    next
      case 2
      then show ?thesis
        using r(2) [OF 2 w, of n] recovers_cong [of "spec rs (file_datas c)" "spec rs (file_datas old)" w n c] sp by simp
    next
      case 3
      then show ?thesis using r(3) [of n] by simp
    qed
  qed
qed

lemma recover_before_commit:
  assumes b: "before old v L d" and cr: "crash d c" and L: "prefix L (logged rs)"
    and rs: "recs_ok rs" and v: "label_is v old" "version_ok v"
  shows "recovers v (file_datas old) n c"
proof -
  have short: "stale v old (drop 64 (c LOGFILE)) \<or> length (drop 64 (c LOGFILE)) \<le> length (logged rs)"
    using crash_before(2) [OF b cr] L by (auto dest!: prefix_length_le)
  note eq = crash_before(1) [OF b cr]
  have datas: "file_datas c f = file_datas old f" if "0 \<le> f" for f
    using eq [of f] that by (simp add: file_datas_def log_file_neq)
  have lab: "label_is v c" using v(1) eq [of 0] by (simp add: label_is_def log_file_neq)
  have "recovers v (file_datas c) n c"
  proof (cases "stale v old (drop 64 (c LOGFILE))")
    case True
    then show ?thesis using recover_stale [OF stale_cong [OF eq [symmetric] True] lab v(2)] by simp
  next
    case False
    then have "prefix (drop 64 (c LOGFILE)) (logged rs @ end_bytes (version_words v))"
      using crash_before(2) [OF b cr] L prefix_order.trans prefix_prefix by metis
    then show ?thesis using short False by (intro recover_prefix(1) [of "drop 64 (c LOGFILE)" c rs v, OF refl _ rs _ lab v(2)]) auto
  qed
  then show ?thesis using recovers_cong [of "file_datas c" "file_datas old" v n c] datas by simp
qed

lemma recover_during:
  assumes d: "during old (spec rs (file_datas old)) (logged rs @ end_bytes (version_words w)) d" and cr: "crash d c"
    and rs: "recs_ok rs" and w: "version_ok w"
  shows "recovers w (spec rs (file_datas old)) n c"
proof -
  have "drop 64 (c LOGFILE) = logged rs @ end_bytes (version_words w)"
    using d cr by (auto simp: during_def crash_def crash_log_def)
  then have r: "recovers w (spec rs (file_datas c)) n c"
    using w rs by (intro recover_prefix(2)) simp_all
  have "spec rs (file_datas c) f = spec rs (file_datas old) f" if "0 \<le> f" for f
  proof (rule spec_torn)
    fix i
    have crf: "crash_data (d f) (c f)" using cr that by (simp add: crash_def log_file_neq)
    have "\<exists>x \<in> set (d f). file_data (c f) i = file_data x i"
    proof (cases "64 + i < length (c f)")
      case True
      then show ?thesis using crf by (simp add: crash_data_def file_data_def byte_at_def)
    next
      case False
      moreover obtain x where "x \<in> set (d f)" "length (c f) = length x" using crf by (auto simp: crash_data_def)
      ultimately show ?thesis by (intro bexI [of _ x]) (simp_all add: file_data_def byte_at_def)
    qed
    then show "file_datas c f i = file_datas old f i \<or> file_datas c f i = spec rs (file_datas old) f i"
      using d that unfolding during_def file_datas_def by (metis log_file_neq(3))
  qed
  then show ?thesis using r recovers_cong [of "spec rs (file_datas c)" "spec rs (file_datas old)" w n c] by simp
qed

end
