(* ===== verification/Udisk_Txn.thy ===== *)
theory Udisk_Txn
  imports Udisk_Crash
begin

text \<open>
  The steps of a write transaction.  \<open>settled db\<close>: between transactions.  \<open>in_txn old v t rs db\<close>: the transaction \<open>t\<close> began
  on the files \<open>old\<close> with version \<open>v\<close> and wrote the records \<open>rs\<close> to the log.

  \<^item> \<open>hist P db\<close>: all states of the files since the start of the history satisfy \<open>P\<close>.
\<close>

section \<open>What the files do not change\<close>

definition mem :: "ubik_dbase \<Rightarrow> _" where
  "mem db = (Buffers db, phTable db, LastBuffer db, activeTrans db, db_version db, db_writing db, db_readers db, nextTrans db)"

lemma mem_frame:
  assumes "mem db' = mem db"
  shows "Buffers db' = Buffers db" "phTable db' = phTable db" "LastBuffer db' = LastBuffer db" "activeTrans db' = activeTrans db"
    "db_version db' = db_version db" "db_writing db' = db_writing db" "nextTrans db' = nextTrans db" "db_readers db' = db_readers db"
  using assms by (auto simp: mem_def)

lemma mem_files [simp]: "mem (called db) = mem db" "mem (change f c db) = mem db" "mem (synced f db) = mem db"
  by (simp_all add: mem_def called_def change_def synced_def)

lemma buffers_ok_disk: "(\<And>f. f \<noteq> LOGFILE \<Longrightarrow> D f = D' f) \<Longrightarrow> buffers_ok S D bs = buffers_ok S D' bs"
  by (auto simp: buffers_ok_def)

lemma cache_ok_mem:
  "mem db' = mem db \<Longrightarrow> (\<And>f. f \<noteq> LOGFILE \<Longrightarrow> content f db' = content f db) \<Longrightarrow> cache_ok S db' = cache_ok S db"
  using buffers_ok_disk [of "on_disk db'" "on_disk db" S "Buffers db"] mem_frame [of db' db]
  by (simp add: cache_ok_def chains_ok_def on_disk_def)

section \<open>Histories\<close>

definition hist :: "((int \<Rightarrow> u8 list list) \<Rightarrow> bool) \<Rightarrow> 'a phys_scheme \<Rightarrow> bool" where
  "hist P p \<longleftrightarrow> (\<forall>d \<in> set (past p). P d) \<and> P (disk p)"

lemma hist_called [simp]: "hist P (called p) = hist P p"
  by (simp add: hist_def)

lemma hist_change: "hist P p \<Longrightarrow> P ((disk p)(f := disk p f @ [c])) \<Longrightarrow> hist P (change f c p)"
  by (simp add: hist_def change_def)

lemma hist_synced: "hist P p \<Longrightarrow> P ((disk p)(f := [content f p])) \<Longrightarrow> hist P (synced f p)"
  by (simp add: hist_def synced_def)

lemma hist_mono: "hist P p \<Longrightarrow> (\<And>d. P d \<Longrightarrow> Q d) \<Longrightarrow> hist Q p"
  by (simp add: hist_def)

lemma hist_now: "hist P p \<Longrightarrow> P (disk p)"
  by (simp add: hist_def)

lemma hist_frame: "disk p = disk q \<Longrightarrow> past p = past q \<Longrightarrow> hist P p = hist P q"
  by (simp add: hist_def)

section \<open>Appending to the log\<close>

lemma drop_pwrite_end: "drop 64 (pwrite c (max 64 (length c)) d) = drop 64 c @ d"
proof (cases "length c < 64")
  case True
  then show ?thesis by (simp add: pwrite_def max_def)
next
  case False
  then show ?thesis by (auto simp: pwrite_def max_def)
qed

lemma before_append:
  assumes "before old v L d" and "prefix L L'" and "prefix (drop 64 c) L'"
  shows "before old v L' (d(LOGFILE := d LOGFILE @ [c]))"
proof -
  have "before old v L' d" using assms by (blast intro: before_mono)
  then show ?thesis using assms(3) by (auto simp: before_def)
qed

lemma before_content:
  assumes "before old v L (disk p)"
  shows "f \<noteq> LOGFILE \<Longrightarrow> content f p = old f" and "f \<noteq> LOGFILE \<Longrightarrow> file_datas old f = on_disk p f"
  using assms by (auto simp: before_def content_def file_datas_def on_disk_def)

lemma hist_content: "hist (before old v L) p \<Longrightarrow> f \<noteq> LOGFILE \<Longrightarrow> content f p = old f"
  using before_content(1) [of old v L p f] by (simp add: hist_def)

text \<open>One write behind the end of the log.\<close>

definition log_step :: "(int \<Rightarrow> u8 list) \<Rightarrow> ubik_version \<Rightarrow> u8 list \<Rightarrow> u8 list \<Rightarrow> ubik_dbase \<Rightarrow> ubik_dbase \<Rightarrow> bool" where
  "log_step old v L d db db' \<longleftrightarrow>
     quiet db' \<and> hist (before old v L) db' \<and> log_body db' = log_body db @ d \<and> mem db' = mem db"

lemma log_write:
  assumes q: "quiet db" and h: "hist (before old v L) db" and p: "prefix L L'" "prefix (log_body db @ d) L'"
    and pos: "nat pos + 64 = max 64 (length (content LOGFILE db))" "0 \<le> pos"
  shows "\<exists>db'. uphys_write LOGFILE d pos db = (U_ok, db') \<and> log_step old v L' d db db' \<and>
    (d \<noteq> [] \<longrightarrow> length (content LOGFILE db') = nat pos + 64 + length d)"
proof -
  let ?c = "pwrite (content LOGFILE db) (nat pos + 64) d"
  have b: "drop 64 ?c = log_body db @ d" unfolding pos(1) drop_pwrite_end by (simp add: log_body_def)
  have "hist (before old v L') (change LOGFILE ?c (called db))"
  proof (rule hist_change)
    show "hist (before old v L') (called db)" using h p(1) by (auto intro: hist_mono before_mono)
    show "before old v L' ((disk (called db))(LOGFILE := disk (called db) LOGFILE @ [?c]))"
      using before_append [OF hist_now [OF h] p(1)] p(2) b by simp
  qed
  then show ?thesis using q pos b
    by (intro exI [of _ "change LOGFILE ?c (called db)"])
      (auto simp: quiet_calls log_step_def log_body_def length_pwrite)
qed

lemma log_end_pos: "nat (max 0 (int n - 64)) + 64 = max 64 n"
  by auto

lemma append_log_ok:
  assumes q: "quiet db" and h: "hist (before old v L) db" and p: "prefix L L'" "prefix (log_body db @ d) L'"
  shows "\<exists>db'. append_log d db = (U_ok, db') \<and> log_step old v L' d db db'"
proof -
  let ?pos = "max 0 (int (length (content LOGFILE db)) - 64)"
  have "\<exists>db'. uphys_write LOGFILE d ?pos (called db) = (U_ok, db') \<and> log_step old v L' d (called db) db' \<and>
      (d \<noteq> [] \<longrightarrow> length (content LOGFILE db') = nat ?pos + 64 + length d)"
    using q h p by (intro log_write) (auto simp: log_end_pos)
  then show ?thesis using q by (auto simp: append_log_def quiet_calls log_step_def)
qed

lemma log_data_ok:
  assumes q: "quiet db" and hi: "hist (before old v L) db" and p: "prefix L L'" "prefix (log_body db @ log_bytes (LData f pos d)) L'"
  shows "\<exists>db'. udisk_LogWriteData False f d (int pos) db = (U_ok, db') \<and> log_step old v L' (log_bytes (LData f pos d)) db db'"
proof -
  let ?pos = "max 0 (int (length (content LOGFILE db)) - 64)"
  define h where "h = concat (map net_bytes [LOGDATA, word_of_int f, word_of_nat pos, word_of_nat (length d)])"
  have h16: "length h = 16" "h \<noteq> []" by (simp_all add: h_def flip: length_greater_0_conv)
  have hd: "put_longs False [LOGDATA, word_of_int f, word_of_nat pos, word_of_nat (length d)] = h"
    by (simp add: put_longs_net h_def)
  have d: "log_bytes (LData f pos d) = h @ d" by (simp add: h_def)
  have p1: "prefix (log_body db @ h) L'" using p(2) [unfolded d] append_prefixD [of "log_body db @ h" d L'] by simp
  obtain db1 where db1: "uphys_write LOGFILE h ?pos (called db) = (U_ok, db1)" "log_step old v L' h (called db) db1"
    "length (content LOGFILE db1) = nat ?pos + 64 + 16"
    using log_write [of "called db" old v L L' h ?pos] q hi p(1) p1 h16 by (auto simp: log_end_pos)
  obtain db2 where db2: "uphys_write LOGFILE d (?pos + 16) db1 = (U_ok, db2)" "log_step old v L' d db1 db2"
    using log_write [of db1 old v L' L' d "?pos + 16"] db1 p(2) [unfolded d] by (auto simp: log_step_def nat_add_distrib)
  have "udisk_LogWriteData False f d (int pos) db = (U_ok, db2)"
    using q by (simp add: udisk_LogWriteData_def quiet_calls hd and_then_def db1(1) db2(1))
  then show ?thesis using db1(2) db2(2) unfolding d by (auto simp: log_step_def)
qed

section \<open>Between transactions and within one\<close>

definition settled :: "ubik_dbase \<Rightarrow> bool" where
  "settled db \<longleftrightarrow>
     quiet db \<and> before (contents db) (db_version db) [] (disk db) \<and> log_body db = [] \<and>
     label_is (db_version db) (contents db) \<and> version_ok (db_version db) \<and>
     (\<forall>f. f \<noteq> LOGFILE \<longrightarrow> aligned (content f db)) \<and>
     cache_ok (on_disk db) db \<and> (\<forall>b \<in> set (Buffers db). \<not> dirty b) \<and> \<not> db_writing db"

definition in_txn :: "(int \<Rightarrow> u8 list) \<Rightarrow> ubik_version \<Rightarrow> nat \<Rightarrow> log_rec list \<Rightarrow> (int \<Rightarrow> nat \<Rightarrow> u8) \<Rightarrow> ubik_dbase \<Rightarrow> bool" where
  "in_txn old v t rs S db \<longleftrightarrow>
     quiet db \<and> hist (before old v (logged rs)) db \<and> log_body db = logged rs \<and> recs_ok rs \<and> cache_ok S db \<and>
     map_of (activeTrans db) t = Some (new_trans UBIK_WRITETRANS) \<and> db_version db = v \<and> db_writing db"

lemma begin_ok:
  assumes st: "settled db" and p: "past db = []"
  shows "\<exists>db'. udisk_begin False UBIK_WRITETRANS db = (U_ok, nextTrans db, db') \<and>
    in_txn (contents db) (db_version db) (nextTrans db) [LNew] (on_disk db) db'"
proof -
  have h: "hist (before (contents db) (db_version db) []) db" using st p by (simp add: settled_def hist_def)
  have "prefix (log_body db @ net_bytes LOGNEW) (logged [LNew])" using st by (simp add: settled_def)
  then obtain db1 where db1: "append_log (net_bytes LOGNEW) db = (U_ok, db1)"
    "log_step (contents db) (db_version db) (logged [LNew]) (net_bytes LOGNEW) db db1"
    using append_log_ok [OF _ h, of "logged [LNew]" "net_bytes LOGNEW"] st unfolding settled_def by auto
  let ?t = "nextTrans db"
  let ?db = "db1\<lparr>activeTrans := (?t, new_trans UBIK_WRITETRANS) # activeTrans db1, nextTrans := ?t + 1, db_writing := True\<rparr>"
  have "udisk_begin False UBIK_WRITETRANS db = (U_ok, ?t, ?db)"
    using db1 st mem_frame [of db1 db]
    by (simp add: udisk_begin_def udisk_LogOpcode_def put_longs_net and_then_def settled_def log_step_def Let_def)
  moreover have "cache_ok (on_disk db) ?db"
  proof -
  have "cache_ok (on_disk db) db1"
    using cache_ok_mem [of db1 db] st db1(2) hist_content [of "contents db" "db_version db" "logged [LNew]" db1]
    by (simp add: settled_def log_step_def contents_at)
  moreover have "on_disk ?db = on_disk db1" by (rule ext) (simp add: on_disk_def content_def)
  ultimately show ?thesis by (simp add: cache_ok_def chains_ok_def)
  qed
  ultimately show ?thesis using db1 st mem_frame(5) [of db1 db]
    by (auto simp: in_txn_def settled_def log_step_def recs_ok_def quiet_def hist_def log_body_def content_def)
qed

lemma on_trans_frame [simp]:
  "mem (on_trans t g db) = (Buffers db, phTable db, LastBuffer db, activeTrans (on_trans t g db), db_version db, db_writing db, db_readers db, nextTrans db)"
  "quiet (on_trans t g db) = quiet db" "disk (on_trans t g db) = disk db" "past (on_trans t g db) = past db"
  "content f (on_trans t g db) = content f db" "log_body (on_trans t g db) = log_body db" "Buffers (on_trans t g db) = Buffers db"
  "phTable (on_trans t g db) = phTable db" "LastBuffer (on_trans t g db) = LastBuffer db" "db_version (on_trans t g db) = db_version db"
  "db_writing (on_trans t g db) = db_writing db" "on_disk (on_trans t g db) = on_disk db" "contents (on_trans t g db) = contents db"
  by (simp_all add: on_trans_def mem_def quiet_def content_def log_body_def on_disk_contents contents_def)

lemma cache_ok_on_trans [simp]: "cache_ok S (on_trans t g db) = cache_ok S db"
  by (simp add: cache_ok_def chains_ok_def)

lemma map_of_on_trans: "map_of (activeTrans (on_trans t g db)) t = map_option g (map_of (activeTrans db) t)"
proof -
  have "map_of (map (\<lambda>(i, x). (i, if i = t then g x else x)) xs) t = map_option g (map_of xs t)" for xs
    by (induction xs) auto
  then show ?thesis by (simp add: on_trans_def)
qed

lemma hist_on_trans [simp]: "hist P (on_trans t g db) = hist P db"
  by (simp add: hist_def)

lemma logged_append [simp]: "logged (rs @ rs') = logged rs @ logged rs'"
  by (simp add: logged_def)

lemma write_part:
  assumes tx: "in_txn old v t rs S db" and al: "aligned (old f)" and r: "rec_ok (LData f pos bs)"
    and w: "udisk_write False t f bs pos db = (code, db')"
  shows "\<exists>n. (code = U_ok \<longrightarrow> n = length bs) \<and>
    in_txn old v t (rs @ [LData f pos bs]) (S(f := put_data pos (take n bs) (S f))) db'"
proof -
  let ?r = "LData f pos bs"
  have tr: "the_trans t db = new_trans UBIK_WRITETRANS" using tx by (simp add: in_txn_def the_trans_def)
  have hi: "hist (before old v (logged rs)) db" using tx by (simp add: in_txn_def)
  have p: "prefix (logged rs) (logged (rs @ [?r]))" "prefix (log_body db @ log_bytes ?r) (logged (rs @ [?r]))"
    using tx by (auto simp: in_txn_def simp del: log_bytes.simps)
  obtain db1 where db1: "udisk_LogWriteData False f bs (int pos) db = (U_ok, db1)" "log_step old v (logged (rs @ [?r])) (log_bytes ?r) db db1"
    using log_data_ok [OF _ hi p] tx by (auto simp: in_txn_def simp del: log_bytes.simps)
  note ls = db1(2) [unfolded log_step_def]
  have mf: "map_of (activeTrans db1) t = Some (new_trans UBIK_WRITETRANS)" using ls mem_frame(4) [of db1 db] tx by (simp add: in_txn_def)
  have "cache_ok S db1"
    using cache_ok_mem [of db1 db S] ls tx hist_content [of old v "logged (rs @ [?r])" db1]
      hist_content [OF hi] by (simp add: in_txn_def)
  define db2 where "db2 = on_trans t (\<lambda>x. x\<lparr>activeTruncs :=
                 (case map_of (activeTruncs x) f of
                    None \<Rightarrow> activeTruncs x
                  | Some l \<Rightarrow>
                      if l < int (pos + length bs) then AList.update f (int (pos + length bs)) (activeTruncs x)
                      else activeTruncs x)\<rparr>) db1"
  have mf2: "map_of (activeTrans db2) t = Some (new_trans UBIK_WRITETRANS)"
    by (simp add: db2_def map_of_on_trans mf new_trans_def)
  have step: "udisk_write_loop f bs pos db2 = (code, db')"
    using w tr by (simp add: udisk_write_def new_trans_def db1(1) and_then_def db2_def)
  have c: "content f db2 = old f" "0 \<le> f"
    using hist_content [of old v "logged (rs @ [?r])" db1] ls r by (auto simp: db2_def log_file_neq)
  obtain n where n: "code = U_ok \<longrightarrow> n = length bs" "cache_ok (S(f := put_data pos (take n bs) (S f))) db'" "rest db' = rest db2"
    using write_loop_part [of S db2 f bs pos code db'] step c al ls \<open>cache_ok S db1\<close> by (auto simp: db2_def)
  then show ?thesis
    using rest_frame [OF n(3)] ls tx mf2 mem_frame [of db1 db] r
    by (intro exI [of _ n]) (simp add: in_txn_def hist_def db2_def recs_ok_def del: log_bytes.simps)
qed

section \<open>The operations of a transaction\<close>

text \<open>A client of a write transaction, and what it is promised: reads see the writes before them.\<close>

datatype txn_op = Rd int nat nat | Wr int nat "u8 list"

fun run_ops :: "bool \<Rightarrow> nat \<Rightarrow> txn_op list \<Rightarrow> ubik_dbase \<Rightarrow> ucode \<times> u8 list list \<times> ubik_dbase" where
  "run_ops le t [] db = (U_ok, [], db)"
| "run_ops le t (Rd f pos len # ops) db =
     (case udisk_read t f pos len db of (code, d, db) \<Rightarrow>
        if code \<noteq> U_ok then (code, [], db)
        else case run_ops le t ops db of (code, ds, db) \<Rightarrow> (code, d # ds, db))"
| "run_ops le t (Wr f pos bs # ops) db =
     (case udisk_write le t f bs pos db of (code, db) \<Rightarrow>
        if code \<noteq> U_ok then (code, [], db) else run_ops le t ops db)"

fun abs_ops :: "txn_op list \<Rightarrow> (int \<Rightarrow> nat \<Rightarrow> u8) \<Rightarrow> u8 list list" where
  "abs_ops [] S = []"
| "abs_ops (Rd f pos len # ops) S = map (S f) [pos ..< pos + len] # abs_ops ops S"
| "abs_ops (Wr f pos bs # ops) S = abs_ops ops (S(f := put_data pos bs (S f)))"

fun op_recs :: "txn_op list \<Rightarrow> log_rec list" where
  "op_recs [] = []"
| "op_recs (Rd f pos len # ops) = op_recs ops"
| "op_recs (Wr f pos bs # ops) = LData f pos bs # op_recs ops"

text \<open>The numbers fit into a \<open>long\<close>.\<close>

fun op_ok :: "txn_op \<Rightarrow> bool" where
  "op_ok (Rd f pos len) \<longleftrightarrow> 0 \<le> f"
| "op_ok (Wr f pos bs) \<longleftrightarrow> rec_ok (LData f pos bs)"

lemma op_recs_ok: "list_all op_ok ops \<Longrightarrow> recs_ok (op_recs ops)"
  by (induction ops rule: op_recs.induct) (auto simp: recs_ok_def)

lemma read_part:
  assumes tx: "in_txn old v t rs S db" and al: "aligned (old f)" and f: "0 \<le> f"
    and r: "udisk_read t f pos len db = (code, d, db')"
  shows "(code = U_ok \<longrightarrow> d = map (S f) [pos ..< pos + len]) \<and> in_txn old v t rs S db'"
proof -
  have "the_trans t db = new_trans UBIK_WRITETRANS" using tx by (simp add: in_txn_def the_trans_def)
  then have l: "udisk_read_loop f pos len db = (code, d, db')"
    using r by (simp add: udisk_read_def new_trans_def)
  have "(code = U_ok \<longrightarrow> d = map (S f) [pos ..< pos + len]) \<and> cache_ok S db' \<and> rest db' = rest db"
    using read_loop_ok [OF _ _ _ f l, of S] tx al hist_content [of old v "logged rs" db f] f by (simp add: in_txn_def log_file_neq)
  then show ?thesis using tx rest_frame [of db' db] by (simp add: in_txn_def hist_def)
qed

lemma run_ops_part:
  assumes "in_txn old v t rs S db" and "\<And>f. f \<noteq> LOGFILE \<Longrightarrow> aligned (old f)" and "list_all op_ok ops"
    and "run_ops False t ops db = (code, ds, db')"
  shows "\<exists>rs' S'. in_txn old v t rs' S' db' \<and>
    (code = U_ok \<longrightarrow> ds = abs_ops ops S \<and> rs' = rs @ op_recs ops \<and> S' = spec (op_recs ops) S)"
  using assms
proof (induction ops arbitrary: rs S db ds)
  case Nil
  then show ?case by auto
next
  case (Cons op ops)
  show ?case
  proof (cases op)
    case (Rd f pos len)
    obtain c d db1 where rd: "udisk_read t f pos len db = (c, d, db1)"
      by (cases "udisk_read t f pos len db")
    have f: "0 \<le> f" "aligned (old f)" using Cons.prems Rd by (auto simp: log_file_neq)
    note rp = read_part [OF Cons.prems(1) f(2,1) rd]
    show ?thesis
    proof (cases "c = U_ok")
      case True
      then obtain ds' where ds': "run_ops False t ops db1 = (code, ds', db')" "ds = d # ds'"
        using Cons.prems(4) Rd rd by (auto split: prod.splits)
      then show ?thesis using Cons.IH [of rs S db1 ds'] rp True Cons.prems(2,3) Rd by auto
    next
      case False
      then show ?thesis using Cons.prems(4) Rd rd rp by auto
    qed
  next
    case (Wr f pos bs)
    obtain c db1 where wr: "udisk_write False t f bs pos db = (c, db1)" by (cases "udisk_write False t f bs pos db")
    have f: "rec_ok (LData f pos bs)" "aligned (old f)" using Cons.prems Wr by (auto simp: log_file_neq)
    obtain n where n: "c = U_ok \<longrightarrow> n = length bs"
      "in_txn old v t (rs @ [LData f pos bs]) (S(f := put_data pos (take n bs) (S f))) db1"
      using write_part [OF Cons.prems(1) f(2,1) wr] by blast
    show ?thesis
    proof (cases "c = U_ok")
      case True
      then have "run_ops False t ops db1 = (code, ds, db')" using Cons.prems(4) Wr wr by simp
      then show ?thesis using Cons.IH [OF n(2)] True n(1) Cons.prems(2,3) Wr by (auto simp: fun_upd_def)
    next
      case False
      then show ?thesis using Cons.prems(4) Wr wr n by auto
    qed
  qed
qed

section \<open>Abort\<close>

lemma DAbort_mem: "activeTrans (DAbort db) = activeTrans db" "db_version (DAbort db) = db_version db" "db_writing (DAbort db) = db_writing db"
  by (simp_all add: DAbort_def)

lemma length_ftruncate [simp]: "length (ftruncate c n) = n"
  by (simp add: ftruncate_def)

text \<open>The end of a transaction that is done.\<close>

definition ended :: "nat \<Rightarrow> ubik_dbase \<Rightarrow> bool" where
  "ended t db \<longleftrightarrow>
     quiet db \<and> before (contents db) (db_version db) [] (disk db) \<and> log_body db = [] \<and>
     label_is (db_version db) (contents db) \<and> version_ok (db_version db) \<and>
     (\<forall>f. f \<noteq> LOGFILE \<longrightarrow> aligned (content f db)) \<and>
     cache_ok (on_disk db) db \<and> (\<forall>b \<in> set (Buffers db). \<not> dirty b) \<and> db_writing db \<and>
     t_done (the_trans t db) \<and> t_type (the_trans t db) = UBIK_WRITETRANS"

lemma end_ok:
  assumes "ended t db"
  shows "settled (snd (udisk_end le t db))" "contents (snd (udisk_end le t db)) = contents db"
    "db_version (snd (udisk_end le t db)) = db_version db" "fst (udisk_end le t db) = U_ok"
proof -
  have e: "udisk_end le t db = (U_ok, (unthread t db)\<lparr>db_writing := False\<rparr>)"
    using assms by (simp add: udisk_end_def ended_def unthread_def)
  have [simp]: "disk ((unthread t db)\<lparr>db_writing := False\<rparr>) = disk db" by (simp add: unthread_def)
  have c [simp]: "content f ((unthread t db)\<lparr>db_writing := False\<rparr>) = content f db" for f by (simp add: content_def)
  have "contents ((unthread t db)\<lparr>db_writing := False\<rparr>) = contents db" by (simp add: contents_def)
  moreover from this have "on_disk ((unthread t db)\<lparr>db_writing := False\<rparr>) = on_disk db" by (simp add: on_disk_contents)
  ultimately show "settled (snd (udisk_end le t db))" "contents (snd (udisk_end le t db)) = contents db"
    "db_version (snd (udisk_end le t db)) = db_version db" "fst (udisk_end le t db) = U_ok"
    using assms by (simp_all add: e settled_def ended_def log_body_def)
      (simp_all add: unthread_def quiet_def cache_ok_def chains_ok_def)
qed

lemma before_cut:
  assumes "before old v L d" and "d LOGFILE = [u]" and "stale v old (drop 64 u)"
  shows "before old v [] (d(LOGFILE := d LOGFILE @ [ftruncate u 64]))"
  using assms by (simp add: before_def)

lemma abort_ok:
  assumes tx: "in_txn old v t rs S db" and al: "\<And>f. f \<noteq> LOGFILE \<Longrightarrow> aligned (old f)"
    and lab: "label_is v old" "version_ok v"
  shows "\<exists>db'. udisk_abort False t db = (U_ok, db') \<and> settled (snd (udisk_end False t db')) \<and>
    (\<forall>f \<ge> 0. on_disk (snd (udisk_end False t db')) f = file_datas old f) \<and> db_version (snd (udisk_end False t db')) = v"
proof -
  define db0 where "db0 = on_trans t (\<lambda>x. x\<lparr>t_done := True, t_abort := True\<rparr>) db"
  let ?L = "logged rs @ net_bytes LOGABORT"
  have hi: "hist (before old v (logged rs)) db0" using tx by (simp add: in_txn_def db0_def)
  obtain db1 where db1: "append_log (net_bytes LOGABORT) db0 = (U_ok, db1)" "log_step old v ?L (net_bytes LOGABORT) db0 db1"
    using append_log_ok [OF _ hi, of ?L "net_bytes LOGABORT"] tx by (auto simp: in_txn_def db0_def)
  note ls = db1(2) [unfolded log_step_def] and mf = mem_frame [of db1 db0]
  define db2 where "db2 = synced LOGFILE (called db1)"
  let ?u = "content LOGFILE db2"
  define db3 where "db3 = change LOGFILE (ftruncate ?u 64) (called db2)"
  have ab: "udisk_abort False t db = (U_ok, DAbort db3)"
    using tx db1 ls mf
    by (simp add: udisk_abort_def in_txn_def the_trans_def db0_def [symmetric] map_of_on_trans new_trans_def udisk_LogOpcode_def
        put_longs_net and_then_def quiet_calls db2_def db3_def Let_def) (simp add: db0_def map_of_on_trans)
  have q: "quiet db0" "log_body db0 = logged rs" "recs_ok rs" using tx by (simp_all add: in_txn_def db0_def)
  have cont: "content f db3 = old f" if "f \<noteq> LOGFILE" for f
    using hist_content [of old v ?L db1 f] ls that by (simp add: db3_def db2_def)
  have d: "before old v [] (disk db3)"
  proof -
    have d1: "before old v ?L (disk db1)" using ls hist_now by blast
    have "drop 64 ?u = ?L" using ls q by (simp add: db2_def log_body_def)
    then have "stale v old (drop 64 ?u)" using q by (auto simp: stale_def)
    then have "before old v [] ((disk db2)(LOGFILE := disk db2 LOGFILE @ [ftruncate ?u 64]))"
      using d1 by (intro before_cut) (auto simp: before_def db2_def synced_def content_def called_def)
    then show ?thesis by (simp add: db3_def change_def called_def)
  qed
  have ce: "f \<noteq> LOGFILE \<Longrightarrow> contents db3 f = old f" for f using cont by (simp add: contents_at)
  have "before (contents db3) v [] (disk db3)"
    using d ce stale_cong [of old "contents db3" v] by (auto simp: before_def)
  moreover have cs: "cache_ok S db3"
    using cache_ok_mem [of db3 db0 S] tx cont hist_content [OF hi] ls by (simp add: db3_def db2_def in_txn_def db0_def [symmetric]) (simp add: db0_def)
  moreover have "map_of (activeTrans db3) t = Some \<lparr>t_type = UBIK_WRITETRANS, t_done = True, t_abort = True, activeTruncs = [], activeLocks = []\<rparr>"
    "db_version db3 = v" "db_writing db3"
    using mem_frame [of db3 db0] ls tx by (simp_all add: db3_def db2_def db0_def map_of_on_trans in_txn_def new_trans_def)
  ultimately have en: "ended t (DAbort db3)"
    using DAbort_ok [OF cs] rest_frame [OF DAbort_ok(3) [OF cs]] lab q ls al cont ce
    by (simp add: ended_def the_trans_def DAbort_mem label_is_def log_file_neq)
      (simp add: db3_def db2_def log_body_def)
  show ?thesis
    using ab end_ok [OF en, of False] rest_frame [OF DAbort_ok(3) [OF cs]] ce \<open>db_version db3 = v\<close>
    by (simp add: on_disk_contents file_datas_def log_file_neq DAbort_mem fun_eq_iff)
qed

end
