(* ===== verification/Udisk_Commit.thy ===== *)
theory Udisk_Commit
  imports Udisk_Txn
begin

text \<open>
  The commit: the commit record reaches the disk, then the dirty pages, then the label; the log is cut last.
  \<open>committing\<close> collects what holds from the \<open>fsync\<close> of the log on; every step of \<open>udisk_commit\<close> keeps it.
\<close>

section \<open>Steps on the data files\<close>

definition commit_state :: "(int \<Rightarrow> u8 list) \<Rightarrow> ubik_version \<Rightarrow> u8 list \<Rightarrow> (int \<Rightarrow> nat \<Rightarrow> u8) \<Rightarrow> (int \<Rightarrow> u8 list list) \<Rightarrow> bool" where
  "commit_state old v L S d \<longleftrightarrow> before old v L d \<or> during old S L d"

definition committing :: "(int \<Rightarrow> u8 list) \<Rightarrow> ubik_version \<Rightarrow> u8 list \<Rightarrow> (int \<Rightarrow> nat \<Rightarrow> u8) \<Rightarrow> ubik_dbase \<Rightarrow> bool" where
  "committing old v L S db \<longleftrightarrow>
     quiet db \<and> hist (commit_state old v L S) db \<and> during old S L (disk db) \<and>
     (\<forall>f. f \<noteq> LOGFILE \<longrightarrow> aligned (content f db))"

lemma committing_called [simp]: "committing old v L S (called db) = committing old v L S db"
  by (simp add: committing_def)

lemma committing_change:
  assumes c: "committing old v L S db" and f: "f \<noteq> LOGFILE" and al: "aligned x"
    and x: "\<And>i. file_data x i = file_data (content f db) i \<or> file_data x i = S f i"
  shows "committing old v L S (change f x db)"
proof -
  have "content f db \<in> set (disk db f)" using c during_nonempty [of old S L "disk db" f] by (simp add: committing_def content_def)
  then have "during old S L ((disk db)(f := disk db f @ [x]))"
    using c f x unfolding committing_def during_def by (auto split: if_splits) metis
  moreover from this have "hist (commit_state old v L S) (change f x db)"
    using c by (intro hist_change) (simp_all add: committing_def commit_state_def)
  ultimately show ?thesis using c f al by (auto simp: committing_def change_def content_def quiet_def)
qed

lemma committing_synced:
  assumes c: "committing old v L S db" and f: "f \<noteq> LOGFILE"
  shows "committing old v L S (synced f db)"
proof -
  have "content f db \<in> set (disk db f)" using c during_nonempty [of old S L "disk db" f] by (simp add: committing_def content_def)
  then have "during old S L ((disk db)(f := [content f db]))"
    using c f unfolding committing_def during_def by auto
  moreover from this have "hist (commit_state old v L S) (synced f db)"
    using c by (intro hist_synced) (simp_all add: committing_def commit_state_def)
  ultimately show ?thesis using c by (auto simp: committing_def synced_def content_def quiet_def)
qed

lemma committing_files:
  "disk db' = disk db \<Longrightarrow> past db' = past db \<Longrightarrow> faults db' = faults db \<Longrightarrow> committing old v L S db' = committing old v L S db"
  by (simp add: committing_def hist_def quiet_def content_def)

text \<open>The pages.\<close>

lemma aligned_page: "aligned c \<Longrightarrow> length d = UBIK_PAGESIZE \<Longrightarrow> aligned (pwrite c (pg * UBIK_PAGESIZE + 64) d)"
  by (auto simp: aligned_def length_pwrite max_def UBIK_PAGESIZE_def)

lemma put_page:
  "length d = UBIK_PAGESIZE \<Longrightarrow>
   put_data (pg * UBIK_PAGESIZE) d s i = (if i div UBIK_PAGESIZE = pg then d ! (i mod UBIK_PAGESIZE) else s i)"
  using page_range [of 0 UBIK_PAGESIZE pg i] div_mult_mod_eq [of i UBIK_PAGESIZE]
  by (auto simp: put_data_def UBIK_PAGESIZE_def minus_div_mult_eq_mod)

definition flushed :: "buffer list \<Rightarrow> int \<Rightarrow> nat \<Rightarrow> bool" where
  "flushed bs f pg \<longleftrightarrow> (\<exists>b \<in> set bs. dirty b \<and> holds_page f pg b)"

lemma flush_ok:
  assumes "committing old v L S db"
    and "\<forall>b \<in> set bs. length (data b) = UBIK_PAGESIZE \<and> (dirty b \<longrightarrow> 0 \<le> bfile b \<and> matches S b)"
  shows "\<exists>db'. flush_buffers bs db = (U_ok, db') \<and> committing old v L S db' \<and> mem db' = mem db \<and>
    (\<forall>f i. f \<noteq> LOGFILE \<longrightarrow> on_disk db' f i = (if flushed bs f (i div UBIK_PAGESIZE) then S f i else on_disk db f i)) \<and>
    (\<forall>f. f \<noteq> LOGFILE \<longrightarrow> (\<forall>b \<in> set bs. dirty b \<longrightarrow> bfile b \<noteq> f) \<longrightarrow> disk db' f = disk db f)"
  using assms
proof (induction bs arbitrary: db)
  case Nil
  then show ?case by (simp add: flushed_def)
next
  case (Cons b bs)
  show ?case
  proof (cases "dirty b")
    case False
    then show ?thesis using Cons.IH [OF Cons.prems(1)] Cons.prems(2) by (simp add: flushed_def)
  next
    case True
    let ?f = "bfile b" and ?x = "pwrite (content (bfile b) db) (page b * UBIK_PAGESIZE + 64) (data b)"
    let ?db = "change ?f ?x (called db)"
    have b: "length (data b) = UBIK_PAGESIZE" "?f \<noteq> LOGFILE" "matches S b" using Cons.prems(2) True by (auto simp: log_file_neq)
    have x: "file_data ?x i = (if i div UBIK_PAGESIZE = page b then S ?f i else on_disk db ?f i)" for i
    proof -
      have "data b ! (i mod UBIK_PAGESIZE) = S ?f (page b * UBIK_PAGESIZE + i mod UBIK_PAGESIZE)"
        using b(3) by (simp add: matches_def UBIK_PAGESIZE_def)
      then have "data b ! (i mod UBIK_PAGESIZE) = S ?f i" if "i div UBIK_PAGESIZE = page b"
        using that div_mult_mod_eq [of i UBIK_PAGESIZE] by simp
      then show ?thesis by (simp add: file_data_pwrite on_disk_def put_page [OF b(1)])
    qed
    have w: "uphys_write ?f (data b) (int (page b * UBIK_PAGESIZE)) db = (U_ok, ?db)"
      using Cons.prems(1) by (simp add: quiet_calls committing_def nat_mult_distrib)
    have "aligned ?x" using Cons.prems(1) b by (intro aligned_page) (simp_all add: committing_def)
    then have c: "committing old v L S ?db"
      using Cons.prems(1) b x by (intro committing_change) (auto simp: on_disk_def)
    obtain db' where IH: "flush_buffers bs ?db = (U_ok, db')" "committing old v L S db'" "mem db' = mem ?db"
      "\<And>f i. f \<noteq> LOGFILE \<Longrightarrow> on_disk db' f i = (if flushed bs f (i div UBIK_PAGESIZE) then S f i else on_disk ?db f i)"
      "\<And>f. f \<noteq> LOGFILE \<Longrightarrow> \<forall>b \<in> set bs. dirty b \<longrightarrow> bfile b \<noteq> f \<Longrightarrow> disk db' f = disk ?db f"
      using Cons.IH [OF c] Cons.prems(2) by auto
    have "flush_buffers (b # bs) db = (U_ok, db')" using True w IH(1) by (simp add: and_then_def)
    moreover have "on_disk db' f i = (if flushed (b # bs) f (i div UBIK_PAGESIZE) then S f i else on_disk db f i)"
      if "f \<noteq> LOGFILE" for f i
      using IH(4) [OF that, of i] x [of i] True by (auto simp: flushed_def holds_page_def on_disk_change)
    moreover have "disk db' f = disk db f" if "f \<noteq> LOGFILE" "\<forall>x \<in> set (b # bs). dirty x \<longrightarrow> bfile x \<noteq> f" for f
      using IH(5) [OF that(1)] that(2) True by (simp add: change_def)
    ultimately show ?thesis using IH(2,3) by (intro exI [of _ db']) simp
  qed
qed

section \<open>The sync\<close>

definition clean :: "buffer \<Rightarrow> buffer" where
  "clean b = b\<lparr>dirty := False\<rparr>"

lemma Buffers_synced [simp]: "Buffers (synced f db) = Buffers db" "Buffers (change f c db) = Buffers db"
  by (simp_all add: synced_def change_def)

lemma sync_ok:
  assumes "committing old v L S db" and "\<forall>b \<in> set (Buffers db). dirty b \<longrightarrow> 0 \<le> bfile b"
    and "\<And>f. f \<noteq> LOGFILE \<Longrightarrow> f \<in> set (dirty_files (Buffers db)) \<or> disk db f = [content f db]"
  shows "\<exists>db'. sync_files U_ok db = (U_ok, db') \<and> committing old v L S db' \<and> contents db' = contents db \<and>
    map clean (Buffers db') = map clean (Buffers db) \<and> (\<forall>b \<in> set (Buffers db'). \<not> dirty b) \<and>
    (\<forall>f. f \<noteq> LOGFILE \<longrightarrow> disk db' f = [content f db]) \<and> mem (db'\<lparr>Buffers := []\<rparr>) = mem (db\<lparr>Buffers := []\<rparr>)"
  using assms
proof (induction "length (dirty_files (Buffers db))" arbitrary: db rule: less_induct)
  case less
  show ?case
  proof (cases "dirty_files (Buffers db)")
    case Nil
    then have "\<forall>b \<in> set (Buffers db). \<not> dirty b"
      using less.prems(2) by (auto simp: dirty_files_def filter_empty_conv BADFID_def)
    then show ?thesis using less.prems Nil by (intro exI [of _ db]) (simp add: sync_files.simps)
  next
    case (Cons f fs)
    let ?g = "\<lambda>b. if bfile b = f then b\<lparr>dirty := False\<rparr> else b"
    let ?dc = "db\<lparr>Buffers := map ?g (Buffers db)\<rparr>"
    let ?db = "synced f (called ?dc)"
    have f: "f \<noteq> LOGFILE" using Cons less.prems(2)
      by (auto simp: dirty_files_def filter_eq_Cons_iff map_eq_Cons_conv log_file_neq)
    have c0: "committing old v L S ?dc" using less.prems(1) committing_files [of ?dc db] by simp
    have step: "sync_files U_ok db = sync_files U_ok ?db"
      using Cons c0 by (subst sync_files.simps) (simp add: quiet_calls committing_def)
    have c: "committing old v L S ?db" using committing_synced [OF _ f, of old v L S "called ?dc"] c0 by simp
    have cont: "contents ?db = contents db" by simp (simp add: contents_def content_def)
    have n: "length (dirty_files (Buffers ?db)) < length (dirty_files (Buffers db))"
      using clean_shorter [OF Cons] Cons by simp
    have df: "h \<in> set (dirty_files (Buffers ?db)) \<or> disk ?db h = [content h ?db]" if "h \<noteq> LOGFILE" for h
    proof (cases "h = f")
      case True
      then show ?thesis by (simp add: synced_def content_def)
    next
      case False
      then show ?thesis using less.prems(3) [OF that] by (auto simp: dirty_files_def synced_def content_def)
    qed
    have dp: "\<forall>b \<in> set (Buffers ?db). dirty b \<longrightarrow> 0 \<le> bfile b" using less.prems(2) by auto
    obtain db' where db': "sync_files U_ok ?db = (U_ok, db')" "committing old v L S db'" "contents db' = contents ?db"
      "map clean (Buffers db') = map clean (Buffers ?db)" "\<forall>b \<in> set (Buffers db'). \<not> dirty b"
      "\<forall>h. h \<noteq> LOGFILE \<longrightarrow> disk db' h = [content h ?db]" "mem (db'\<lparr>Buffers := []\<rparr>) = mem (?db\<lparr>Buffers := []\<rparr>)"
      using less.hyps [OF n c dp df] by auto
    have "map clean (Buffers ?db) = map clean (Buffers db)" by (simp add: clean_def)
    moreover have "mem (?db\<lparr>Buffers := []\<rparr>) = mem (db\<lparr>Buffers := []\<rparr>)" by (simp add: mem_def synced_def called_def)
    moreover have "content h ?db = content h db" for h using fun_cong [OF cont, of h] by (simp add: contents_at)
    ultimately show ?thesis unfolding step using db' cont by (intro exI [of _ db']) simp
  qed
qed

section \<open>The commit as a whole\<close>

lemma nth_clean: "map clean bs' = map clean bs \<Longrightarrow> i < length bs \<Longrightarrow>
    bfile (bs' ! i) = bfile (bs ! i) \<and> page (bs' ! i) = page (bs ! i) \<and> data (bs' ! i) = data (bs ! i)"
proof -
  assume m: "map clean bs' = map clean bs" and i: "i < length bs"
  then have "clean (bs' ! i) = clean (bs ! i)" using map_eq_imp_length_eq [OF m] by (metis nth_map)
  then show ?thesis by (cases "bs' ! i"; cases "bs ! i") (simp add: clean_def)
qed

lemma cache_cleaned:
  assumes ok: "buffers_ok S D (Buffers db)" "chains_ok db" and m: "map clean (Buffers db') = map clean (Buffers db)"
    and nd: "\<forall>b \<in> set (Buffers db'). \<not> dirty b" and same: "\<And>f. f \<noteq> LOGFILE \<Longrightarrow> on_disk db' f = S f"
    and tab: "phTable db' = phTable db" "LastBuffer db' = LastBuffer db"
  shows "cache_ok (on_disk db') db'"
proof -
  have n: "length (Buffers db') = length (Buffers db)" using m by (rule map_eq_imp_length_eq)
  have c: "bfile (Buffers db' ! i) = bfile (Buffers db ! i)" "page (Buffers db' ! i) = page (Buffers db ! i)"
    "data (Buffers db' ! i) = data (Buffers db ! i)" if "i < length (Buffers db)" for i
    using nth_clean [OF m that] by simp_all
  have b: "length (data b) = UBIK_PAGESIZE \<and> (valid b \<longrightarrow> matches (on_disk db') b)" if "b \<in> set (Buffers db')" for b
  proof -
    obtain i where i: "i < length (Buffers db)" "b = Buffers db' ! i" using \<open>b \<in> set (Buffers db')\<close> n by (auto simp: in_set_conv_nth)
    have "length (data (Buffers db ! i)) = UBIK_PAGESIZE \<and> (valid (Buffers db ! i) \<longrightarrow> matches S (Buffers db ! i))"
      using ok(1) i by (simp add: buffers_ok_def)
    then show ?thesis using i c [of i] same [of "bfile b"] by (auto simp: matches_def BADFID_def LOGFILE_def)
  qed
  have "buffers_ok (on_disk db') (on_disk db') (Buffers db')"
    using ok(1) b nd c unfolding buffers_ok_def n by (auto simp: holds_page_def)
  moreover have "chains_ok db'" using ok(2) n c by (simp add: chains_ok_def tab)
  ultimately show ?thesis by (simp add: cache_ok_def)
qed

text \<open>The commit record.\<close>

lemma commit_log:
  assumes q: "quiet db" and hi: "hist (before old v (logged rs)) db" and body: "log_body db = logged rs"
    and al: "\<And>f. f \<noteq> LOGFILE \<Longrightarrow> aligned (old f)" and L: "L = logged rs @ end_bytes (version_words w)"
  shows "\<exists>db'. udisk_LogEnd False w db = (U_ok, db') \<and> committing old v L S db' \<and> mem db' = mem db \<and>
    (\<forall>f. f \<noteq> LOGFILE \<longrightarrow> disk db' f = [old f])"
proof -
  have pl: "put_longs False [LOGEND, fst (version_words w), snd (version_words w)] = end_bytes (version_words w)"
    by (simp add: put_longs_net end_bytes_def)
  obtain db1 where db1: "append_log (end_bytes (version_words w)) db = (U_ok, db1)"
    "log_step old v L (end_bytes (version_words w)) db db1"
    using append_log_ok [OF q hi, of L "end_bytes (version_words w)"] body by (auto simp: L)
  note ls = db1(2) [unfolded log_step_def]
  let ?d = "synced LOGFILE (called db1)"
  have bf: "before old v L (disk db1)" using ls hist_now by blast
  have du: "during old S L (disk ?d)"
    using bf ls body unfolding during_def before_def by (auto simp: synced_def log_body_def content_def L)
  have "hist (commit_state old v L S) ?d"
    using ls du by (intro hist_synced) (auto intro: hist_mono simp: commit_state_def synced_def content_def)
  moreover have od: "disk ?d f = [old f]" if "f \<noteq> LOGFILE" for f using bf that by (simp add: before_def synced_def)
  ultimately have "committing old v L S ?d"
    using ls al du by (auto simp: committing_def content_def)
  moreover have "udisk_LogEnd False w db = (U_ok, ?d)"
    using db1(1) ls by (simp add: udisk_LogEnd_def pl and_then_def quiet_calls)
  ultimately show ?thesis using ls od by (intro exI [of _ ?d]) simp
qed

text \<open>The pages.\<close>

lemma commit_pages:
  assumes c: "committing old v L S db" and ok: "cache_ok S db" and old: "\<And>f. f \<noteq> LOGFILE \<Longrightarrow> disk db f = [old f]"
  shows "\<exists>db'. and_then (DFlush db) DSync = (U_ok, db') \<and> committing old v L S db' \<and>
    (\<forall>f. f \<noteq> LOGFILE \<longrightarrow> disk db' f = [content f db'] \<and> on_disk db' f = S f) \<and> cache_ok (on_disk db') db' \<and>
    (\<forall>b \<in> set (Buffers db'). \<not> dirty b) \<and> mem (db'\<lparr>Buffers := []\<rparr>) = mem (db\<lparr>Buffers := []\<rparr>)"
proof -
  have bok: "buffers_ok S (on_disk db) (Buffers db)" and ch: "chains_ok db" using ok by (simp_all add: cache_ok_def)
  have pre: "\<forall>b \<in> set (Buffers db). length (data b) = UBIK_PAGESIZE \<and> (dirty b \<longrightarrow> 0 \<le> bfile b \<and> matches S b)"
    using bok by (auto simp: buffers_ok_def BADFID_def)
  obtain db1 where db1: "flush_buffers (Buffers db) db = (U_ok, db1)" "committing old v L S db1" "mem db1 = mem db"
    "\<And>f i. f \<noteq> LOGFILE \<Longrightarrow> on_disk db1 f i = (if flushed (Buffers db) f (i div UBIK_PAGESIZE) then S f i else on_disk db f i)"
    "\<And>f. f \<noteq> LOGFILE \<Longrightarrow> \<forall>b \<in> set (Buffers db). dirty b \<longrightarrow> bfile b \<noteq> f \<Longrightarrow> disk db1 f = disk db f"
    using flush_ok [OF c pre] by auto
  note mf = mem_frame [OF db1(3)]
  have all: "on_disk db1 f = S f" if "f \<noteq> LOGFILE" for f
  proof
    fix i show "on_disk db1 f i = S f i"
      using db1(4) [OF that, of i] bok that by (cases "S f i = on_disk db f i") (auto simp: buffers_ok_def flushed_def)
  qed
  have df: "f \<in> set (dirty_files (Buffers db1)) \<or> disk db1 f = [content f db1]" if "f \<noteq> LOGFILE" for f
  proof (cases "\<forall>b \<in> set (Buffers db). dirty b \<longrightarrow> bfile b \<noteq> f")
    case True
    then show ?thesis using db1(5) [OF that] old [OF that] by (simp add: content_def)
  next
    case False
    then show ?thesis using that by (auto simp: mf dirty_files_def BADFID_def LOGFILE_def)
  qed
  obtain db2 where db2: "sync_files U_ok db1 = (U_ok, db2)" "committing old v L S db2" "contents db2 = contents db1"
    "map clean (Buffers db2) = map clean (Buffers db1)" "\<forall>b \<in> set (Buffers db2). \<not> dirty b"
    "\<forall>f. f \<noteq> LOGFILE \<longrightarrow> disk db2 f = [content f db1]" "mem (db2\<lparr>Buffers := []\<rparr>) = mem (db1\<lparr>Buffers := []\<rparr>)"
    using sync_ok [OF db1(2) _ df] pre by (auto simp: mf)
  have od: "on_disk db2 f = S f" if "f \<noteq> LOGFILE" for f using all [OF that] db2(3) by (simp add: on_disk_contents)
  have "cache_ok (on_disk db2) db2"
    using mem_frame [OF db2(7)] db2(4) od
    by (intro cache_cleaned [OF bok ch _ db2(5)]) (simp_all add: mf)
  moreover have "content f db2 = content f db1" for f using fun_cong [OF db2(3), of f] by (simp add: contents_at)
  moreover have "mem (db2\<lparr>Buffers := []\<rparr>) = mem (db\<lparr>Buffers := []\<rparr>)" using db2(7) mf by (simp add: mem_def)
  ultimately show ?thesis using db1(1) db2(1,2,5,6) od
    by (intro exI [of _ db2]) (simp add: and_then_def DFlush_def DSync_def)
qed

text \<open>The label and the end of the log.\<close>

lemma aligned_header: "aligned c \<Longrightarrow> aligned (pwrite c 0 (header False v))"
  using length_header [of v] by (auto simp: aligned_def length_pwrite max_def)

lemma commit_label:
  assumes c: "committing old v L S db" and L: "L = logged rs @ end_bytes (version_words w)" and rs: "recs_ok rs"
    and S: "S = spec rs (file_datas old)" and d: "\<forall>f. f \<noteq> LOGFILE \<longrightarrow> disk db f = [content f db] \<and> on_disk db f = S f"
  shows "\<exists>db'. and_then (uphys_setlabel False 0 (version_words w) db) (uphys_truncate LOGFILE 0) = (U_ok, db') \<and>
    quiet db' \<and> mem db' = mem db \<and> (\<forall>f. f \<noteq> LOGFILE \<longrightarrow> on_disk db' f = S f \<and> aligned (content f db')) \<and> log_body db' = [] \<and>
    label_is w (contents db') \<and> before (contents db') w [] (disk db') \<and>
    hist (\<lambda>d. commit_state old v L S d \<or> before (contents db') w [] d) db'"
proof -
  let ?x = "pwrite (content 0 db) 0 (header False (version_words w))"
  have x: "file_data ?x = file_data (content 0 db)"
    by (rule ext) (simp add: file_data_def byte_pwrite)
  define db1 where "db1 = change 0 ?x (called db)"
  define db2 where "db2 = synced 0 db1"
  have "aligned ?x" using c by (intro aligned_header) (simp add: committing_def log_file_neq)
  then have "committing old v L S db1"
    unfolding db1_def using c x by (intro committing_change) (simp_all add: log_file_neq)
  then have c2: "committing old v L S db2" unfolding db2_def by (rule committing_synced) (simp add: log_file_neq)
  have d2: "disk db2 f = [content f db2]" if "f \<noteq> LOGFILE" for f
    using d that by (simp add: db2_def db1_def synced_def change_def content_def called_def)
  let ?u = "content LOGFILE db2"
  define db3 where "db3 = change LOGFILE (ftruncate ?u 64) (called db2)"
  have cont: "content f db3 = (if f = 0 then ?x else content f db)" if "f \<noteq> LOGFILE" for f
    using that by (simp add: db3_def db2_def db1_def)
  have od: "on_disk db3 f = S f" if "f \<noteq> LOGFILE" for f
    using d that x by (simp add: on_disk_def cont)
  have u: "disk db2 LOGFILE = [?u]" "drop 64 ?u = L"
    using c2 by (auto simp: committing_def during_def content_def)
  have "stale w (contents db3) (drop 64 ?u)"
    unfolding stale_def u L using rs od S spec_torn [of "file_datas (contents db3)" f "file_datas old" rs for f]
    by (intro disjI2 exI [of _ rs]) (simp add: file_datas_def contents_at on_disk_def log_file_neq spec_again fun_eq_iff)
  moreover have dd: "disk db3 = (disk db2)(LOGFILE := disk db2 LOGFILE @ [ftruncate ?u 64])"
    by (simp add: db3_def change_def called_def)
  moreover have "contents db3 f = content f db2" if "f \<noteq> LOGFILE" for f
    using that by (simp add: contents_at db3_def)
  ultimately have bf: "before (contents db3) w [] (disk db3)"
    using u d2 by (simp add: before_def)
  define Q where "Q d \<longleftrightarrow> commit_state old v L S d \<or> before (contents db3) w [] d" for d
  have "hist Q (called db2)" using c2 hist_mono [of "commit_state old v L S" db2 Q] by (simp add: committing_def Q_def)
  moreover have "Q ((disk (called db2))(LOGFILE := disk (called db2) LOGFILE @ [ftruncate ?u 64]))"
    using bf by (simp add: Q_def flip: dd)
  ultimately have "hist Q db3" unfolding db3_def by (rule hist_change)
  then have "hist (\<lambda>d. commit_state old v L S d \<or> before (contents db3) w [] d) db3"
    by (rule hist_mono) (simp add: Q_def)
  moreover have "and_then (uphys_setlabel False 0 (version_words w) db) (uphys_truncate LOGFILE 0) = (U_ok, db3)"
    using c c2 by (simp add: committing_def quiet_calls and_then_def db1_def db2_def db3_def)
  moreover have "label_is w (contents db3)" by (simp add: label_is_def contents_at cont log_file_neq label_written)
  moreover have "mem db3 = mem db" by (simp add: db3_def db2_def db1_def)
  moreover have "aligned (content f db3)" if "f \<noteq> LOGFILE" for f using c2 that by (simp add: db3_def committing_def)
  moreover have "quiet db3" "log_body db3 = []" using c2 by (simp_all add: committing_def db3_def log_body_def)
  ultimately show ?thesis using od bf by blast
qed

lemma and_then_ok: "and_then (U_ok, s) k = k s"
  by (simp add: and_then_def)

definition next_version :: "ubik_version \<Rightarrow> ubik_version" where
  "next_version v = v\<lparr>v_counter := v_counter v + 1\<rparr>"

lemma ended_mem:
  "mem db' = mem db \<Longrightarrow> the_trans t db' = the_trans t db"
  using mem_frame(4) [of db' db] by (simp add: the_trans_def)

lemma commit_ok:
  assumes tx: "in_txn old v t rs S db" and S: "S = spec rs (file_datas old)" and al: "\<And>f. f \<noteq> LOGFILE \<Longrightarrow> aligned (old f)"
    and w: "version_ok (next_version v)" and L: "L = logged rs @ end_bytes (version_words (next_version v))"
  shows "\<exists>db'. udisk_commit False t db = (Some U_ok, db') \<and> ended t db' \<and> db_version db' = next_version v \<and>
    (\<forall>f \<ge> 0. on_disk db' f = S f) \<and>
    hist (\<lambda>d. commit_state old v L S d \<or> before (contents db') (next_version v) [] d) db'"
proof -
  let ?w = "next_version v"
  define db0 where "db0 = (on_trans t (\<lambda>x. x\<lparr>t_done := True\<rparr>) db)\<lparr>db_version := ?w\<rparr>"
  have m0: "map_of (activeTrans db0) t = Some ((new_trans UBIK_WRITETRANS)\<lparr>t_done := True\<rparr>)"
    using tx by (simp add: db0_def map_of_on_trans in_txn_def)
  have f0: "quiet db0" "disk db0 = disk db" "past db0 = past db" "Buffers db0 = Buffers db" "phTable db0 = phTable db"
    "LastBuffer db0 = LastBuffer db" "db_version db0 = ?w" "db_writing db0 = db_writing db"
    using tx by (simp_all add: db0_def in_txn_def quiet_def on_trans_def)
  have "hist (before old v (logged rs)) db0" "log_body db0 = logged rs"
    using tx f0 by (simp_all add: in_txn_def hist_def log_body_def content_def)
  then obtain db1 where db1: "udisk_LogEnd False ?w db0 = (U_ok, db1)" "committing old v L S db1" "mem db1 = mem db0"
    "\<forall>f. f \<noteq> LOGFILE \<longrightarrow> disk db1 f = [old f]"
    using commit_log [of db0 old v rs L ?w S] f0(1) al L by auto
  have "cache_ok S db1"
  proof -
    have "content f db1 = content f db" if "f \<noteq> LOGFILE" for f
      using db1(4) that tx hist_content [of old v "logged rs" db f] by (simp add: content_def in_txn_def)
    then have "buffers_ok S (on_disk db1) (Buffers db) = buffers_ok S (on_disk db) (Buffers db)"
      by (intro buffers_ok_disk) (simp add: on_disk_def)
    then show ?thesis using tx mem_frame [OF db1(3)] f0 by (simp add: in_txn_def cache_ok_def chains_ok_def)
  qed
  then obtain db2 where db2: "and_then (DFlush db1) DSync = (U_ok, db2)" "committing old v L S db2"
    "\<forall>f. f \<noteq> LOGFILE \<longrightarrow> disk db2 f = [content f db2] \<and> on_disk db2 f = S f" "cache_ok (on_disk db2) db2"
    "\<forall>b \<in> set (Buffers db2). \<not> dirty b" "mem (db2\<lparr>Buffers := []\<rparr>) = mem (db1\<lparr>Buffers := []\<rparr>)"
    using commit_pages [OF db1(2)] db1(4) by auto
  have m2: "activeTrans db2 = activeTrans db0" "db_version db2 = ?w" "db_writing db2 = db_writing db"
    using mem_frame [OF db2(6)] mem_frame [OF db1(3)] f0 by simp_all
  define db3 where "db3 = on_trans t (\<lambda>x. x\<lparr>activeTruncs := []\<rparr>) db2"
  have c3: "committing old v L S db3" using db2(2) committing_files [of db3 db2] by (simp add: db3_def on_trans_def)
  have "\<forall>f. f \<noteq> LOGFILE \<longrightarrow> disk db3 f = [content f db3] \<and> on_disk db3 f = S f" using db2(3) by (simp add: db3_def)
  then obtain db4 where db4: "and_then (uphys_setlabel False 0 (version_words ?w) db3) (uphys_truncate LOGFILE 0) = (U_ok, db4)"
    "quiet db4" "mem db4 = mem db3" "\<forall>f. f \<noteq> LOGFILE \<longrightarrow> on_disk db4 f = S f \<and> aligned (content f db4)" "log_body db4 = []"
    "label_is ?w (contents db4)" "before (contents db4) ?w [] (disk db4)" "hist (\<lambda>d. commit_state old v L S d \<or> before (contents db4) ?w [] d) db4"
    using commit_label [OF c3 L _ S] tx by (auto simp: in_txn_def)
  note mf = mem_frame [OF db4(3)]
  have m4: "the_trans t db4 = (new_trans UBIK_WRITETRANS)\<lparr>t_done := True\<rparr>" "db_version db4 = ?w" "db_writing db4"
    using mf m0 m2 tx by (simp_all add: db3_def the_trans_def map_of_on_trans new_trans_def in_txn_def)
  have com: "udisk_commit False t db = (Some U_ok, db4)"
  proof -
    have "the_trans t db = new_trans UBIK_WRITETRANS" "db_version db = v"
      using tx by (simp_all add: in_txn_def the_trans_def)
    moreover have "the_trans t (on_trans t (\<lambda>x. x\<lparr>t_done := True\<rparr>) db) = (new_trans UBIK_WRITETRANS)\<lparr>t_done := True\<rparr>"
      "the_trans t db2 = (new_trans UBIK_WRITETRANS)\<lparr>t_done := True\<rparr>"
      using tx m0 m2 by (simp_all add: the_trans_def map_of_on_trans in_txn_def)
    moreover have "db_version db3 = ?w" using m2 by (simp add: db3_def)
    ultimately show ?thesis using db1(1) db4(1)
      by (simp add: udisk_commit_def new_trans_def Let_def db0_def [symmetric] next_version_def [symmetric] f0(7) db2(1) and_then_ok
          db3_def [symmetric])
  qed
  have "cache_ok (on_disk db4) db4"
  proof (rule cache_cleaned)
    show "buffers_ok (on_disk db2) (on_disk db2) (Buffers db2)" "chains_ok db2" using db2(4) by (simp_all add: cache_ok_def)
    show "on_disk db4 f = on_disk db2 f" if "f \<noteq> LOGFILE" for f using that db4(4) db2(3) by simp
  qed (use mf db2(5) in \<open>simp_all add: db3_def\<close>)
  then have "ended t db4"
    using db4(2,4-7) m4 w mf(1) db2(5) by (simp add: ended_def new_trans_def db3_def)
  then show ?thesis using com m4 db4(4,8) by (auto simp: log_file_neq)
qed

end
