(* ===== verification/Udisk_Faults.thy ===== *)
theory Udisk_Faults
  imports Udisk_Commit
begin

text \<open>
  Commits in which system calls may fail, and logs with truncations: what the calls on the log keep when they fail, what
  it means for the buffers that a commit returns 0 whatever happened before, and the replay of a whole log of any
  records.
\<close>

section \<open>A commit that fails\<close>

text \<open>What the calls on the log keep, whether they fail or not: all memory, and the data files.\<close>

definition keeps_data :: "ubik_dbase \<Rightarrow> ubik_dbase \<Rightarrow> bool" where
  "keeps_data db db' \<longleftrightarrow> mem db' = mem db \<and> faults db' = faults db \<and> (\<forall>f. f \<noteq> LOGFILE \<longrightarrow> content f db' = content f db)"

lemma keeps_data_trans: "keeps_data a b \<Longrightarrow> keeps_data b c \<Longrightarrow> keeps_data a c"
  by (simp add: keeps_data_def)

lemma keeps_data_steps [simp]:
  "keeps_data db (called db)" "keeps_data db (synced f db') = keeps_data db db'"
  "keeps_data db (change LOGFILE c db') = keeps_data db db'"
  by (simp_all add: keeps_data_def)
    (simp_all add: called_def synced_def change_def content_def)

lemma log_calls_keep:
  "uphys_stat f db = (c, l, db') \<Longrightarrow> keeps_data db db'"
  "uphys_write LOGFILE d pos db = (c, db') \<Longrightarrow> keeps_data db db'"
  "uphys_sync f db = (c, db') \<Longrightarrow> keeps_data db db'"
  "uphys_truncate LOGFILE len db = (c, db') \<Longrightarrow> keeps_data db db'"
  by (auto simp: uphys_stat_def uphys_write_def uphys_sync_def uphys_truncate_def split: option.splits os_fault.splits if_splits)

lemma append_log_keeps: "append_log d db = (c, db') \<Longrightarrow> keeps_data db db'"
  by (auto simp: append_log_def split: prod.splits if_splits dest!: log_calls_keep intro: keeps_data_trans)

lemma LogEnd_keeps: "udisk_LogEnd le v db = (c, db') \<Longrightarrow> keeps_data db db'"
  by (auto simp: udisk_LogEnd_def and_then_def split: prod.splits if_splits dest!: append_log_keeps log_calls_keep
      intro: keeps_data_trans)

lemma errorDecode_neq [simp]: "uphys_errorDecode e \<noteq> U_ok" "U_ok \<noteq> uphys_errorDecode e"
  by (cases e; simp add: uphys_errorDecode_def)+

lemma calls_succeed:
  "uphys_stat f p = (U_ok, l, p') \<Longrightarrow> fault p = None \<and> ncalls p' = Suc (ncalls p) \<and> faults p' = faults p"
  "uphys_write f d pos p = (U_ok, p') \<Longrightarrow> fault p = None \<and> ncalls p' = Suc (ncalls p) \<and> faults p' = faults p"
  "uphys_sync f p = (U_ok, p') \<Longrightarrow> fault p = None"
  by (auto simp: uphys_stat_def uphys_write_def uphys_sync_def called_def change_def split: option.splits os_fault.splits if_splits)

lemma LogEnd_succeeds:
  assumes "udisk_LogEnd le v p = (U_ok, p')" and "k < 3"
  shows "faults p (ncalls p + k) = None"
proof -
  obtain l p1 p2 where "uphys_stat LOGFILE p = (U_ok, l, p1)"
    "uphys_write LOGFILE (put_longs le [LOGEND, fst (version_words v), snd (version_words v)]) l p1 = (U_ok, p2)"
    "uphys_sync LOGFILE p2 = (U_ok, p')"
    using assms(1) by (auto simp: udisk_LogEnd_def append_log_def and_then_def split: prod.splits if_splits)
  from calls_succeed(1) [OF this(1)] calls_succeed(2) [OF this(2)] calls_succeed(3) [OF this(3)]
  have "faults p (ncalls p) = None" "faults p (Suc (ncalls p)) = None" "faults p (Suc (Suc (ncalls p))) = None" by simp_all
  moreover have "k = 0 \<or> k = 1 \<or> k = 2" using assms(2) by auto
  ultimately show ?thesis by auto
qed

lemma flush_succeeds:
  assumes "flush_buffers bs db = (U_ok, db')"
    and "\<forall>b \<in> set bs. length (data b) = UBIK_PAGESIZE \<and> (dirty b \<longrightarrow> 0 \<le> bfile b \<and> matches S b)"
  shows "mem db' = mem db \<and>
    (\<forall>f i. f \<noteq> LOGFILE \<longrightarrow> on_disk db' f i = (if flushed bs f (i div UBIK_PAGESIZE) then S f i else on_disk db f i))"
  using assms
proof (induction bs arbitrary: db)
  case Nil
  then show ?case by (simp add: flushed_def)
next
  case (Cons b bs)
  show ?case
  proof (cases "dirty b")
    case False
    then show ?thesis using Cons.IH [of db] Cons.prems by (simp add: flushed_def)
  next
    case True
    let ?f = "bfile b" and ?x = "pwrite (content (bfile b) db) (page b * UBIK_PAGESIZE + 64) (data b)"
    let ?db = "change ?f ?x (called db)"
    have b: "length (data b) = UBIK_PAGESIZE" "?f \<noteq> LOGFILE" "matches S b" using Cons.prems(2) True by (auto simp: log_file_neq)
    obtain db1 where w: "uphys_write ?f (data b) (int (page b * UBIK_PAGESIZE)) db = (U_ok, db1)"
      and fl: "flush_buffers bs db1 = (U_ok, db')"
      using Cons.prems(1) True by (auto simp: and_then_def split: prod.splits if_splits)
    have db1: "db1 = ?db"
      using w calls_succeed(2) [OF w] by (auto simp: uphys_write_def UBIK_HDRSIZE_def nat_add_distrib nat_mult_distrib split: if_splits)
    have x: "file_data ?x i = (if i div UBIK_PAGESIZE = page b then S ?f i else on_disk db ?f i)" for i
    proof -
      have "data b ! (i mod UBIK_PAGESIZE) = S ?f (page b * UBIK_PAGESIZE + i mod UBIK_PAGESIZE)"
        using b(3) by (simp add: matches_def UBIK_PAGESIZE_def)
      then have "data b ! (i mod UBIK_PAGESIZE) = S ?f i" if "i div UBIK_PAGESIZE = page b"
        using that div_mult_mod_eq [of i UBIK_PAGESIZE] by simp
      then show ?thesis by (simp add: file_data_pwrite on_disk_def put_page [OF b(1)])
    qed
    have IH: "mem db' = mem ?db"
      "\<And>f i. f \<noteq> LOGFILE \<Longrightarrow> on_disk db' f i = (if flushed bs f (i div UBIK_PAGESIZE) then S f i else on_disk ?db f i)"
      using Cons.IH [OF fl] Cons.prems(2) by (simp_all add: db1)
    then show ?thesis using x True by (auto simp: flushed_def holds_page_def on_disk_change)
  qed
qed

lemma sync_files_keeps:
  "sync_files c db = (c', db') \<Longrightarrow> contents db' = contents db \<and> activeTrans db' = activeTrans db"
proof (induction c db arbitrary: c' db' rule: sync_files.induct)
  case (1 c db)
  show ?case
  proof (cases "dirty_files (Buffers db)")
    case Nil
    then show ?thesis using 1(2) by (simp add: sync_files.simps)
  next
    case (Cons f fs)
    let ?db = "db\<lparr>Buffers := map (\<lambda>b. if bfile b = f then b\<lparr>dirty := False\<rparr> else b) (Buffers db)\<rparr>"
    obtain code db1 where s: "uphys_sync f ?db = (code, db1)" by (cases "uphys_sync f ?db")
    have d: "contents db1 = contents db" "activeTrans db1 = activeTrans db"
      using s by (auto simp: uphys_sync_def split: option.splits os_fault.splits)
        (simp_all add: contents_def content_def synced_def called_def)
    have "sync_files (if code \<noteq> U_ok then code else c) db1 = (c', db')"
      using 1(2) Cons s by (subst (asm) sync_files.simps) simp
    then show ?thesis using 1(1) [OF Cons refl s [symmetric]] d by simp
  qed
qed

lemma length_long_header [simp]: "length (header le v) = 16"
  by (simp add: header_def put_longs_def long_bytes_def net_bytes_def)

lemma label_keeps_data: "file_data (pwrite c 0 (header le v)) = file_data c"
  by (rule ext) (simp add: file_data_def byte_pwrite)

text \<open>Whatever fails or does not, when a commit returns 0 the data files have what the buffers say.\<close>

lemma commit_writes_cache:
  assumes tr: "map_of (activeTrans db) t = Some (new_trans UBIK_WRITETRANS)" and S: "cache_ok S db"
    and ok: "udisk_commit le t db = (Some U_ok, db')" and f: "0 \<le> f"
  shows "on_disk db' f = S f"
proof -
  let ?db = "(on_trans t (\<lambda>x. x\<lparr>t_done := True\<rparr>) db)\<lparr>db_version := next_version (db_version db)\<rparr>"
  have the: "the_trans t db = new_trans UBIK_WRITETRANS" using tr by (simp add: the_trans_def)
  have m: "map_of (activeTrans ?db) t = Some ((new_trans UBIK_WRITETRANS)\<lparr>t_done := True\<rparr>)"
    using tr by (simp add: map_of_on_trans)
  have the1: "the_trans t (on_trans t (\<lambda>x. x\<lparr>t_done := True\<rparr>) db) = (new_trans UBIK_WRITETRANS)\<lparr>t_done := True\<rparr>"
    using tr by (simp add: the_trans_def map_of_on_trans)
  obtain db1 db2 db3 db4 where steps: "udisk_LogEnd le (next_version (db_version db)) ?db = (U_ok, db1)" "DFlush db1 = (U_ok, db2)"
    "DSync db2 = (U_ok, db3)"
    "and_then (and_then (and_then (DoTruncs (activeTruncs (the_trans t db3)) db3) (\<lambda>db. (U_ok, on_trans t (\<lambda>x. x\<lparr>activeTruncs := []\<rparr>) db)))
       (\<lambda>db. uphys_setlabel le 0 (version_words (db_version db)) db)) (uphys_truncate LOGFILE 0) = (U_ok, db')"
    using ok the the1
    by (auto simp: udisk_commit_def new_trans_def Let_def next_version_def and_then_def split: prod.splits if_splits)
  have k: "mem db1 = mem ?db" "content f db1 = content f db"
    using LogEnd_keeps [OF steps(1)] f by (auto simp: keeps_data_def log_file_neq) (simp_all add: content_def on_trans_def)
  have bufs: "Buffers db1 = Buffers db" "activeTrans db1 = activeTrans ?db" using mem_frame [OF k(1)] by (simp_all add: on_trans_def)
  have bs: "\<forall>b \<in> set (Buffers db). length (data b) = UBIK_PAGESIZE \<and> (dirty b \<longrightarrow> 0 \<le> bfile b \<and> matches S b)"
    using S by (auto simp: cache_ok_def buffers_ok_def BADFID_def)
  have fl: "mem db2 = mem db1" "on_disk db2 f i = (if flushed (Buffers db) f (i div UBIK_PAGESIZE) then S f i else on_disk db1 f i)" for i
    using flush_succeeds [OF steps(2) [unfolded DFlush_def bufs(1)] bs] f by (simp_all add: log_file_neq)
  have "S f i = on_disk db1 f i" if "\<not> flushed (Buffers db) f (i div UBIK_PAGESIZE)" for i
  proof -
    have "f \<noteq> LOGFILE \<and> S f i \<noteq> on_disk db f i \<longrightarrow> flushed (Buffers db) f (i div UBIK_PAGESIZE)"
      using S unfolding cache_ok_def buffers_ok_def flushed_def by blast
    then show ?thesis using that f k(2) by (auto simp: on_disk_def log_file_neq)
  qed
  then have d2: "on_disk db2 f = S f" using fl(2) by (intro ext) auto
  have s: "contents db3 = contents db2" "activeTrans db3 = activeTrans db2"
    using sync_files_keeps [OF steps(3) [unfolded DSync_def]] by simp_all
  have d3: "on_disk db3 f = S f" using d2 s(1) by (simp add: on_disk_contents)
  have "activeTruncs (the_trans t db3) = []"
    using m bufs(2) mem_frame(4) [OF fl(1)] s(2) by (simp add: the_trans_def new_trans_def)
  then obtain v db4 where l: "uphys_setlabel le 0 v (on_trans t (\<lambda>x. x\<lparr>activeTruncs := []\<rparr>) db3) = (U_ok, db4)"
    and c: "uphys_truncate LOGFILE 0 db4 = (U_ok, db')"
    using steps(4) by (auto simp: and_then_def split: prod.splits if_splits)
  have "on_disk db4 f = on_disk db3 f"
    using l by (auto simp: uphys_setlabel_def on_disk_def label_keeps_data split: option.splits os_fault.splits)
  moreover have "content f db' = content f db4"
    using log_calls_keep(4) [OF c] f by (simp add: keeps_data_def log_file_neq)
  ultimately show ?thesis using d3 by (simp add: on_disk_def)
qed

section \<open>The replay of a whole log\<close>

lemma recover_complete:
  assumes "drop 64 (c LOGFILE) = logged rs @ end_bytes (version_words w)" and "list_all rec_ok rs" and "version_ok w"
  shows "recovers w (file_datas (fold apply_rec rs c)) n c"
proof -
  let ?R = "replayed rs (version_words w) (length (logged rs @ end_bytes (version_words w))) c"
  have R: "fst ?R = U_ok" "snd ?R = (fold apply_rec rs c)(0 := pwrite (fold apply_rec rs c 0) 0 (header False (version_words w)),
      LOGFILE := ftruncate ((fold apply_rec rs c) LOGFILE) 64)"
    by (simp_all add: replayed_def Let_def log_file_neq end_bytes_def)
  obtain db where "ReplayLog False (restart n c) = Some (Some (fst ?R), db)" "quiet db" "contents db = snd ?R"
    using replay_prefix [of "restart n c" rs "version_words w"] assms(1,2) by auto
  then show ?thesis unfolding R using assms(3)
    by (intro recovers_I [of n c db]) (simp_all add: file_datas_upd label_upd label_set)
qed

end
