(* ===== verification/Ulock.thy ===== *)
theory Ulock
  imports Udisk
begin

text \<open>
  The locks of transactions: \<^verbatim>\<open>file/ncsubik/lock.c\<close>.  They hang off the transactions of the database; a transaction
  releases all of them together.

  \<^item> A call that waits marks the lock in its way and sleeps (\<open>Lock_waits\<close>); when it is woken it starts again.
  \<^item> The mutexes of the file (\<open>ubik_hold\<close> and the version lock) serialise the operations, which are steps here.
\<close>

section \<open>What keeps the transactions\<close>

text \<open>The transactions are not touched by the files and the buffers, whatever fails.\<close>

lemma keeps_trans [simp]:
  "activeTrans (on_buffer i g db) = activeTrans db" "activeTrans (called db) = activeTrans db"
  "activeTrans (change f c db) = activeTrans db" "activeTrans (synced f db) = activeTrans db"
  "activeTrans (touch i db) = activeTrans db" "activeTrans (lock_buffer i db) = activeTrans db"
  "activeTrans (DRelease i b db) = activeTrans db" "activeTrans (FixupBucket i db) = activeTrans db"
  by (simp_all add: on_buffer_def called_def change_def synced_def touch_def lock_buffer_def DRelease_def FixupBucket_def Let_def)

lemma keeps_trans_files:
  "uphys_read f p n (db :: ubik_dbase) = (c, d, db') \<Longrightarrow> activeTrans db' = activeTrans db"
  "uphys_write f d p db = (c, db') \<Longrightarrow> activeTrans db' = activeTrans db"
  "uphys_stat f db = (c, p, db') \<Longrightarrow> activeTrans db' = activeTrans db"
  by (auto simp: uphys_read_def uphys_write_def uphys_stat_def Let_def split: option.splits os_fault.splits if_splits)

lemma keeps_trans_log:
  "append_log d (db :: ubik_dbase) = (c, db') \<Longrightarrow> activeTrans db' = activeTrans db"
  "udisk_LogWriteData le f d p db = (c, db') \<Longrightarrow> activeTrans db' = activeTrans db"
  by (auto simp: append_log_def udisk_LogWriteData_def and_then_def split: prod.splits if_splits dest!: keeps_trans_files)

lemma keeps_trans_pages:
  "newslot f pg db = (r, db') \<Longrightarrow> activeTrans db' = activeTrans db"
  "DNew f pg db = (r, db') \<Longrightarrow> activeTrans db' = activeTrans db"
  "DRead f pg db = (r, db') \<Longrightarrow> activeTrans db' = activeTrans db"
proof -
  show slot: "newslot f pg db = (r, db') \<Longrightarrow> activeTrans db' = activeTrans db" for r db db'
    by (auto simp: newslot_def split: option.splits)
  show "DNew f pg db = (r, db') \<Longrightarrow> activeTrans db' = activeTrans db"
    by (auto simp: DNew_def split: prod.splits option.splits dest!: slot)
  show "DRead f pg db = (r, db') \<Longrightarrow> activeTrans db' = activeTrans db"
    by (auto simp: DRead_def Let_def split: prod.splits option.splits if_splits dest!: slot keeps_trans_files)
qed

lemma keeps_trans_write: "udisk_write_loop f bs pos db = (c, db') \<Longrightarrow> activeTrans db' = activeTrans db"
proof (induction "length bs" arbitrary: bs pos db rule: less_induct)
  case less
  show ?case
  proof (cases "bs = []")
    case True
    then show ?thesis using less.prems by (simp add: udisk_write_loop.simps)
  next
    case False
    let ?pg = "pos div UBIK_PAGESIZE" and ?len = "min (UBIK_PAGESIZE - pos mod UBIK_PAGESIZE) (length bs)"
    obtain r db1 where rd: "(case DRead f ?pg db of (None, db) \<Rightarrow> DNew f ?pg db | r \<Rightarrow> r) = (r, db1)"
      by (cases "case DRead f ?pg db of (None, db) \<Rightarrow> DNew f ?pg db | r \<Rightarrow> r")
    then have a: "activeTrans db1 = activeTrans db"
      by (auto split: prod.splits option.splits dest!: keeps_trans_pages)
    show ?thesis
    proof (cases r)
      case None
      then show ?thesis using less.prems False rd a by (simp add: udisk_write_loop.simps [of f bs])
    next
      case (Some i)
      then have "udisk_write_loop f (drop ?len bs) (pos + ?len)
          (DRelease i True (on_buffer i (\<lambda>b. b\<lparr>data := overlay (data b) (pos mod UBIK_PAGESIZE) (take ?len bs)\<rparr>) db1)) = (c, db')"
        using less.prems False rd by (simp add: udisk_write_loop.simps [of f bs] Let_def)
      then show ?thesis using less.hyps [of "drop ?len bs"] False a by (auto simp: UBIK_PAGESIZE_def)
    qed
  qed
qed

section \<open>The operations\<close>

datatype lock_result = Lock_ret ucode | Lock_waits

text \<open>The search of one transaction, and of all: the first lock in the way stops it, and is marked.\<close>

datatype lock_scan = Scan_free | Scan_blocked | Scan_invalid

fun scan_locks :: "int \<Rightarrow> int \<Rightarrow> ubik_lock list \<Rightarrow> lock_scan \<times> ubik_lock list" where
  "scan_locks apos atype [] = (Scan_free, [])"
| "scan_locks apos atype (lk # ls) =
     (if l_start lk = apos \<and> atype \<noteq> LOCKREAD \<and> atype \<noteq> LOCKWRITE then (Scan_invalid, lk # ls)
      else if l_start lk = apos \<and> (atype = LOCKREAD \<longrightarrow> l_type lk = LOCKWRITE) then (Scan_blocked, lk\<lparr>l_want := True\<rparr> # ls)
      else case scan_locks apos atype ls of (r, ls) \<Rightarrow> (r, lk # ls))"

fun scan_trans :: "int \<Rightarrow> int \<Rightarrow> (nat \<times> ubik_trans) list \<Rightarrow> lock_scan \<times> (nat \<times> ubik_trans) list" where
  "scan_trans apos atype [] = (Scan_free, [])"
| "scan_trans apos atype ((t, x) # ts) =
     (case scan_locks apos atype (activeLocks x) of (r, ls) \<Rightarrow>
        if r \<noteq> Scan_free then (r, (t, x\<lparr>activeLocks := ls\<rparr>) # ts)
        else case scan_trans apos atype ts of (r, ts) \<Rightarrow> (r, (t, x) # ts))"

definition ulock_SetLock :: "nat \<Rightarrow> int \<Rightarrow> int \<Rightarrow> int \<Rightarrow> bool \<Rightarrow> ubik_dbase \<Rightarrow> lock_result \<times> ubik_dbase" where
  "ulock_SetLock t apos alen atype await db =
     (if t_done (the_trans t db) then (Lock_ret UDONE, db)
      else if alen \<noteq> 1 then (Lock_ret EINVAL, db)
      else
        case scan_trans apos atype (activeTrans db) of
          (Scan_free, _) \<Rightarrow>
            (Lock_ret U_ok,
             on_trans t (\<lambda>x. x\<lparr>activeLocks :=
               \<lparr>l_type = atype, l_start = apos, l_length = 1, l_want = False\<rparr> # activeLocks x\<rparr>) db)
        | (Scan_invalid, _) \<Rightarrow> (Lock_ret EINVAL, db)
        | (Scan_blocked, ts) \<Rightarrow> if \<not> await then (Lock_ret EWOULDBLOCK, db) else (Lock_waits, db\<lparr>activeTrans := ts\<rparr>))"

text \<open>The locks whose waiters are woken.\<close>

definition ulock_ReleaseAllLocks :: "nat \<Rightarrow> ubik_dbase \<Rightarrow> ubik_lock list \<times> ubik_dbase" where
  "ulock_ReleaseAllLocks t db =
     (filter l_want (activeLocks (the_trans t db)), on_trans t (\<lambda>x. x\<lparr>activeLocks := []\<rparr>) db)"

definition ulock_Debug :: "ubik_dbase \<Rightarrow> bool \<times> bool" where
  "ulock_Debug db =
     (let ls = concat (map (\<lambda>(t, x). activeLocks x) (activeTrans db))
      in (list_ex (\<lambda>l. l_type l = LOCKREAD) ls, list_ex (\<lambda>l. l_type l = LOCKWRITE) ls))"

section \<open>Who excludes whom\<close>

definition compatible :: "ubik_lock \<Rightarrow> ubik_lock \<Rightarrow> bool" where
  "compatible a b \<longleftrightarrow> l_start a = l_start b \<longrightarrow> l_type a \<noteq> LOCKWRITE \<and> l_type b \<noteq> LOCKWRITE"

definition locks_of :: "(nat \<times> ubik_trans) list \<Rightarrow> ubik_lock list" where
  "locks_of ts = concat (map (\<lambda>(t, x). activeLocks x) ts)"

definition locks_ok :: "(nat \<times> ubik_trans) list \<Rightarrow> bool" where
  "locks_ok ts \<longleftrightarrow> distinct (map fst ts) \<and> sorted_wrt compatible (locks_of ts)"

lemma locks_of_simps [simp]: "locks_of [] = []" "locks_of ((t, x) # ts) = activeLocks x @ locks_of ts"
  "locks_of (ts @ us) = locks_of ts @ locks_of us"
  by (simp_all add: locks_of_def)

lemma compatible_want [simp]: "compatible (a\<lparr>l_want := w\<rparr>) b = compatible a b" "compatible a (b\<lparr>l_want := w\<rparr>) = compatible a b"
  by (simp_all add: compatible_def)

lemma compatible_sym: "compatible a b = compatible b a"
  by (auto simp: compatible_def)

text \<open>A search that finds nothing: the new lock goes with all.\<close>

lemma scan_locks_free:
  "scan_locks apos atype ls = (Scan_free, ls') \<Longrightarrow>
   ls' = ls \<and> (\<forall>l \<in> set ls. compatible \<lparr>l_type = atype, l_start = apos, l_length = 1, l_want = False\<rparr> l)"
  by (induction ls arbitrary: ls') (auto simp: compatible_def LOCKREAD_def LOCKWRITE_def split: if_splits prod.splits)

lemma scan_trans_free:
  "scan_trans apos atype ts = (Scan_free, ts') \<Longrightarrow>
   \<forall>l \<in> set (locks_of ts). compatible \<lparr>l_type = atype, l_start = apos, l_length = 1, l_want = False\<rparr> l"
  by (induction apos atype ts arbitrary: ts' rule: scan_trans.induct) (auto split: if_splits prod.splits dest!: scan_locks_free)

text \<open>A search that is stopped changes a mark.\<close>

definition unmarked :: "ubik_lock list \<Rightarrow> ubik_lock list" where
  "unmarked ls = map (\<lambda>l. l\<lparr>l_want := False\<rparr>) ls"

lemma scan_locks_marks: "scan_locks apos atype ls = (r, ls') \<Longrightarrow> unmarked ls' = unmarked ls"
  by (induction ls arbitrary: ls') (auto simp: unmarked_def split: if_splits prod.splits)

lemma scan_trans_marks:
  "scan_trans apos atype ts = (r, ts') \<Longrightarrow> map fst ts' = map fst ts \<and> unmarked (locks_of ts') = unmarked (locks_of ts)"
proof (induction apos atype ts arbitrary: r ts' rule: scan_trans.induct)
  case (2 apos atype t x ts)
  obtain r1 ls where s: "scan_locks apos atype (activeLocks x) = (r1, ls)" by fastforce
  obtain r2 ts2 where s2: "scan_trans apos atype ts = (r2, ts2)" by fastforce
  have m: "unmarked ls = unmarked (activeLocks x)" by (rule scan_locks_marks [OF s])
  then show ?case using "2.prems" s s2 "2.IH" [OF s [symmetric]]
    by (cases "r1 = Scan_free") (auto simp: unmarked_def)
qed simp

lemma sorted_unmarked: "sorted_wrt compatible (unmarked ls) = sorted_wrt compatible ls"
  by (simp add: unmarked_def sorted_wrt_map)

section \<open>Steps\<close>

lemma trans_files [simp]:
  "activeTrans (snd (append_log d (db :: ubik_dbase))) = activeTrans db"
  "activeTrans (snd (uphys_truncate f n (db :: ubik_dbase))) = activeTrans db"
  "activeTrans (snd (uphys_sync f (db :: ubik_dbase))) = activeTrans db"
  "activeTrans (DAbort db) = activeTrans db"
proof -
  show "activeTrans (snd (append_log d db)) = activeTrans db" by (cases "append_log d db") (simp add: keeps_trans_log)
  show "activeTrans (snd (uphys_truncate f n db)) = activeTrans db" "activeTrans (snd (uphys_sync f db)) = activeTrans db"
    by (simp_all add: uphys_truncate_def uphys_sync_def split: option.splits os_fault.splits)
qed (simp add: DAbort_def)

lemma trans_opcode [simp]: "activeTrans (snd (udisk_LogOpcode le c a (db :: ubik_dbase))) = activeTrans db"
proof -
  obtain x db' where r: "append_log (put_longs le [c]) db = (x, db')" by fastforce
  then have "activeTrans db' = activeTrans db" by (rule keeps_trans_log)
  then show ?thesis using r trans_files(3) [of LOGFILE db'] by (simp add: udisk_LogOpcode_def and_then_def)
qed

lemma fst_on_trans: "map fst (activeTrans (on_trans t g db)) = map fst (activeTrans db)"
  by (simp add: on_trans_def case_prod_beta)

lemma sorted_wrt_filter_locks: "sorted_wrt compatible (locks_of ts) \<Longrightarrow> sorted_wrt compatible (locks_of (filter P ts))"
proof (induction ts)
  case (Cons p ts)
  have "set (locks_of (filter P ts)) \<subseteq> set (locks_of ts)" by (auto simp: locks_of_def)
  then show ?case using Cons by (cases p) (auto simp: sorted_wrt_append)
qed simp

lemma end_trans: "activeTrans (snd (udisk_end le t db)) = filter (\<lambda>(i, x). i \<noteq> t) (activeTrans db)"
proof -
  have f: "filter (\<lambda>(i, x). i \<noteq> t) (map (\<lambda>(i, x). (i, if i = t then g x else x)) ts) = filter (\<lambda>(i, x). i \<noteq> t) ts"
    for g and ts :: "(nat \<times> ubik_trans) list" by (induction ts) auto
  show ?thesis by (simp add: udisk_end_def udisk_abort_def unthread_def Let_def) (simp add: on_trans_def f)
qed

inductive lock_step :: "ubik_dbase \<Rightarrow> ubik_dbase \<Rightarrow> bool" where
  Step_begin: "udisk_begin le ty db = (code, t, db') \<Longrightarrow> lock_step db db'"
| Step_lock: "ulock_SetLock t apos alen atype await db = (r, db') \<Longrightarrow> t \<in> fst ` set (activeTrans db) \<Longrightarrow> lock_step db db'"
| Step_release: "lock_step db (snd (ulock_ReleaseAllLocks t db))"
| Step_end: "lock_step db (snd (udisk_end le t db))"

inductive lock_reach :: "ubik_dbase \<Rightarrow> bool" where
  Reach_start: "activeTrans db = [] \<Longrightarrow> lock_reach db"
| Reach_step: "lock_reach db \<Longrightarrow> lock_step db db' \<Longrightarrow> lock_reach db'"

definition trans_ok :: "ubik_dbase \<Rightarrow> bool" where
  "trans_ok db \<longleftrightarrow> locks_ok (activeTrans db) \<and> (\<forall>t \<in> fst ` set (activeTrans db). t < nextTrans db)"

lemma next_files [simp]:
  "nextTrans (snd (append_log d (db :: ubik_dbase))) = nextTrans db"
  "nextTrans (snd (uphys_truncate f n (db :: ubik_dbase))) = nextTrans db"
  "nextTrans (snd (uphys_sync f (db :: ubik_dbase))) = nextTrans db"
  "nextTrans (DAbort db) = nextTrans db" "nextTrans (on_trans t g db) = nextTrans db"
  by (simp_all add: append_log_def uphys_stat_def uphys_write_def uphys_truncate_def uphys_sync_def called_def change_def synced_def
      DAbort_def on_trans_def split: option.splits os_fault.splits)

lemma next_opcode [simp]: "nextTrans (snd (udisk_LogOpcode le c a (db :: ubik_dbase))) = nextTrans db"
proof -
  obtain x db' where r: "append_log (put_longs le [c]) db = (x, db')" by fastforce
  then have "nextTrans db' = nextTrans db" using next_files(1) [of "put_longs le [c]" db] by simp
  then show ?thesis using r next_files(3) [of LOGFILE db'] by (simp add: udisk_LogOpcode_def and_then_def)
qed

lemma next_end [simp]: "nextTrans (snd (udisk_end le t db)) = nextTrans db"
  by (simp add: udisk_end_def udisk_abort_def unthread_def Let_def)

lemma locks_insert:
  assumes "sorted_wrt compatible (locks_of ts)" and "\<forall>l \<in> set (locks_of ts). compatible n l" and "distinct (map fst ts)"
  shows "sorted_wrt compatible (locks_of (map (\<lambda>(i, x). (i, if i = t then x\<lparr>activeLocks := n # activeLocks x\<rparr> else x)) ts))"
  using assms
proof (induction ts)
  case (Cons p ts)
  obtain i x where p: "p = (i, x)" by fastforce
  let ?f = "\<lambda>(i, x). (i, if i = t then x\<lparr>activeLocks := n # activeLocks x\<rparr> else x)"
  show ?case
  proof (cases "i = t")
    case True
    then have "map ?f ts = ts" using Cons.prems(3) p by (intro map_idI) force
    then show ?thesis using Cons.prems True by (auto simp: p sorted_wrt_append)
  next
    case False
    have "set (locks_of (map ?f ts)) \<subseteq> insert n (set (locks_of ts))" by (auto simp: locks_of_def split: if_splits)
    then show ?thesis using Cons False by (auto simp: p sorted_wrt_append compatible_sym [of n])
  qed
qed simp

lemma lock_step_ok: "lock_step db db' \<Longrightarrow> trans_ok db \<Longrightarrow> trans_ok db'"
proof (induction rule: lock_step.induct)
  case (Step_begin le ty db code t db')
  obtain c db1 where r: "(if ty = UBIK_WRITETRANS then if db_writing db then (USYNC, db) else udisk_LogOpcode le LOGNEW False db else (U_ok, db)) = (c, db1)"
    by fastforce
  have "activeTrans db1 = activeTrans db" "nextTrans db1 = nextTrans db"
    using r by (auto split: if_splits) (metis snd_conv trans_opcode, metis snd_conv next_opcode)
  then have ok: "trans_ok db1" using Step_begin by (simp add: trans_ok_def)
  have new: "distinct (nextTrans db1 # map fst (activeTrans db1))" "\<forall>p \<in> set (activeTrans db1). fst p < Suc (nextTrans db1)"
    using ok by (auto simp: trans_ok_def locks_ok_def)
  show ?case
  proof (cases "c = U_ok")
    case True
    then have "activeTrans db' = (nextTrans db1, new_trans ty) # activeTrans db1" "nextTrans db' = Suc (nextTrans db1)"
      using Step_begin.hyps r by (auto simp: udisk_begin_def Let_def split: if_splits)
    then show ?thesis using ok new by (simp add: trans_ok_def locks_ok_def new_trans_def)
  next
    case False
    then show ?thesis using Step_begin.hyps r ok by (auto simp: udisk_begin_def)
  qed
next
  case (Step_lock t apos alen atype await db r db')
  obtain s ts where s: "scan_trans apos atype (activeTrans db) = (s, ts)" by fastforce
  note m = scan_trans_marks [OF s]
  have "sorted_wrt compatible (locks_of ts)"
    using Step_lock.prems m by (simp add: trans_ok_def locks_ok_def flip: sorted_unmarked [of "locks_of ts"]) (simp add: sorted_unmarked)
  moreover have "distinct (map fst ts)" "set (map fst ts) = set (map fst (activeTrans db))"
    using Step_lock.prems m by (simp_all add: trans_ok_def locks_ok_def)
  ultimately have blocked: "trans_ok (db\<lparr>activeTrans := ts\<rparr>)"
    using Step_lock.prems by (simp add: trans_ok_def locks_ok_def)
  let ?n = "\<lparr>l_type = atype, l_start = apos, l_length = 1, l_want = False\<rparr>"
  have free: "trans_ok (on_trans t (\<lambda>x. x\<lparr>activeLocks := ?n # activeLocks x\<rparr>) db)" if "s = Scan_free"
  proof -
    have f: "fst ` set (activeTrans (on_trans t g db)) = fst ` set (activeTrans db)" for g
      using arg_cong [OF fst_on_trans [of t g db], of set] by simp
    have "sorted_wrt compatible (locks_of (activeTrans (on_trans t (\<lambda>x. x\<lparr>activeLocks := ?n # activeLocks x\<rparr>) db)))"
      using Step_lock.prems locks_insert [of "activeTrans db" ?n t] scan_trans_free [of apos atype "activeTrans db" ts] s that
      by (simp add: trans_ok_def locks_ok_def on_trans_def)
    then show ?thesis using Step_lock.prems by (simp add: trans_ok_def locks_ok_def fst_on_trans f)
  qed
  show ?case using Step_lock.hyps(1) Step_lock.prems s blocked free
    by (auto simp: ulock_SetLock_def split: if_splits lock_scan.splits)
next
  case (Step_release db t)
  have "locks_of (map (\<lambda>(i, x). (i, if i = t then x\<lparr>activeLocks := []\<rparr> else x)) ts) = locks_of (filter (\<lambda>(i, x). i \<noteq> t) ts)" for ts
    by (induction ts) auto
  then have "sorted_wrt compatible (locks_of (activeTrans (on_trans t (\<lambda>x. x\<lparr>activeLocks := []\<rparr>) db)))"
    using Step_release sorted_wrt_filter_locks [of "activeTrans db" "\<lambda>(i, x). i \<noteq> t"]
    by (simp add: trans_ok_def locks_ok_def on_trans_def)
  moreover have "fst ` set (activeTrans (on_trans t g db)) = fst ` set (activeTrans db)" for g
    using arg_cong [OF fst_on_trans [of t g db], of set] by simp
  ultimately show ?case using Step_release
    by (simp add: trans_ok_def locks_ok_def ulock_ReleaseAllLocks_def fst_on_trans)
next
  case (Step_end db le t)
  then show ?case using sorted_wrt_filter_locks [of "activeTrans db" "\<lambda>(i, x). i \<noteq> t"]
    by (auto simp: trans_ok_def locks_ok_def end_trans distinct_map_filter)
qed

lemma lock_reach_ok: "lock_reach db \<Longrightarrow> trans_ok db"
proof (induction rule: lock_reach.induct)
  case (Reach_start db)
  then show ?case by (simp add: trans_ok_def locks_ok_def)
next
  case (Reach_step db db')
  then show ?case using lock_step_ok by blast
qed

section \<open>Properties\<close>

text \<open>C24. Invariant: at every position a write lock is alone: no other lock of any transaction, of its own neither,
  is held there, whatever transactions begin, lock, release and end.\<close>

theorem write_lock_alone:
  assumes "lock_reach db" and "i < length (locks_of (activeTrans db))" and "j < length (locks_of (activeTrans db))" and "i \<noteq> j"
    and "l_start (locks_of (activeTrans db) ! i) = l_start (locks_of (activeTrans db) ! j)"
  shows "l_type (locks_of (activeTrans db) ! i) \<noteq> LOCKWRITE"
proof -
  have "sorted_wrt compatible (locks_of (activeTrans db))" using lock_reach_ok [OF assms(1)] by (simp add: trans_ok_def locks_ok_def)
  then have "compatible (locks_of (activeTrans db) ! i) (locks_of (activeTrans db) ! j)"
    using assms(2-4) compatible_sym unfolding sorted_wrt_iff_nth_less by (metis nat_neq_iff)
  then show ?thesis using assms(5) by (simp add: compatible_def)
qed

lemma scan_locks_blocked:
  "l \<in> set ls \<Longrightarrow> l_start l = apos \<Longrightarrow> scan_locks apos LOCKWRITE ls = (r, ls') \<Longrightarrow> r = Scan_blocked"
  by (induction ls arbitrary: ls') (auto simp: LOCKREAD_def LOCKWRITE_def split: if_splits prod.splits)

lemma scan_trans_blocked:
  "(t, x) \<in> set ts \<Longrightarrow> l \<in> set (activeLocks x) \<Longrightarrow> l_start l = apos \<Longrightarrow> scan_trans apos LOCKWRITE ts = (r, ts') \<Longrightarrow> r = Scan_blocked"
proof (induction ts arbitrary: r ts')
  case (Cons p ts)
  obtain i y where p: "p = (i, y)" by fastforce
  obtain r1 ls where s: "scan_locks apos LOCKWRITE (activeLocks y) = (r1, ls)" by fastforce
  obtain r2 ts2 where s2: "scan_trans apos LOCKWRITE ts = (r2, ts2)" by fastforce
  have "r1 = Scan_free \<or> r1 = Scan_blocked"
  proof -
    have "scan_locks apos LOCKWRITE ks = (q, ks') \<Longrightarrow> q = Scan_free \<or> q = Scan_blocked" for q ks ks'
      by (induction ks arbitrary: ks') (auto split: if_splits prod.splits)
    then show ?thesis using s by blast
  qed
  then show ?case using Cons s s2 scan_locks_blocked [OF _ Cons.prems(3), of "activeLocks y" r1 ls] by (auto simp: p)
qed simp

text \<open> Error: a transaction that holds a lock at a position and asks for a write lock there waits for itself.  In
  every state in which it has the lock the call waits, whatever the others do and however often it is woken, and
  only the end of the transaction that waits would release the lock.\<close>

theorem upgrade_waits_forever:
  assumes "map_of (activeTrans db) t = Some x" and "l \<in> set (activeLocks x)" and "l_start l = apos" and "\<not> t_done x"
  shows "fst (ulock_SetLock t apos 1 LOCKWRITE True db) = Lock_waits"
proof -
  obtain r ts where s: "scan_trans apos LOCKWRITE (activeTrans db) = (r, ts)" by fastforce
  have "r = Scan_blocked" using scan_trans_blocked [OF map_of_SomeD [OF assms(1)] assms(2,3) s] .
  then show ?thesis using s assms by (simp add: ulock_SetLock_def the_trans_def)
qed

lemma scan_locks_want:
  "scan_locks apos atype ls = (Scan_blocked, ls') \<Longrightarrow> \<exists>l \<in> set ls'. l_start l = apos \<and> l_want l"
  by (induction ls arbitrary: ls') (auto split: if_splits prod.splits)

lemma scan_trans_want:
  "scan_trans apos atype ts = (Scan_blocked, ts') \<Longrightarrow> \<exists>t x l. (t, x) \<in> set ts' \<and> l \<in> set (activeLocks x) \<and> l_start l = apos \<and> l_want l"
proof (induction apos atype ts arbitrary: ts' rule: scan_trans.induct)
  case (2 apos atype t x ts)
  obtain r1 ls where s: "scan_locks apos atype (activeLocks x) = (r1, ls)" by fastforce
  obtain r2 ts2 where s2: "scan_trans apos atype ts = (r2, ts2)" by fastforce
  show ?case
  proof (cases "r1 = Scan_free")
    case True
    then have "r2 = Scan_blocked" "ts' = (t, x) # ts2" using "2.prems" s s2 by auto
    then show ?thesis using "2.IH" [OF s [symmetric], of ts2] True s2 by auto
  next
    case False
    then have "r1 = Scan_blocked" "ts' = (t, x\<lparr>activeLocks := ls\<rparr>) # ts" using "2.prems" s by auto
    then show ?thesis using s scan_locks_want [of apos atype "activeLocks x" ls] by fastforce
  qed
qed simp

text \<open> Liveness: no wakeup is lost.  When a call waits, some transaction holds a lock at its position that is marked, and
  when that transaction releases its locks the waiters of that lock are woken.\<close>

theorem release_wakes_waiter:
  assumes "lock_reach db" and "t \<in> fst ` set (activeTrans db)" and "ulock_SetLock t apos alen atype await db = (Lock_waits, db')"
  shows "\<exists>t' x l. map_of (activeTrans db') t' = Some x \<and> l \<in> set (activeLocks x) \<and> l_start l = apos \<and>
    l \<in> set (fst (ulock_ReleaseAllLocks t' db'))"
proof -
  obtain r ts where s: "scan_trans apos atype (activeTrans db) = (r, ts)" by fastforce
  have b: "r = Scan_blocked" "db' = db\<lparr>activeTrans := ts\<rparr>"
    using assms(3) s by (auto simp: ulock_SetLock_def split: if_splits lock_scan.splits)
  then obtain t' x l where l: "(t', x) \<in> set ts" "l \<in> set (activeLocks x)" "l_start l = apos" "l_want l"
    using scan_trans_want [of apos atype "activeTrans db" ts] s by auto
  have "lock_reach db'" using assms Step_lock Reach_step by blast
  then have "distinct (map fst ts)" using lock_reach_ok [of db'] b by (simp add: trans_ok_def locks_ok_def)
  then have "map_of ts t' = Some x" using l(1) by (rule map_of_is_SomeI)
  then show ?thesis using l b by (intro exI [of _ t'] exI [of _ x] exI [of _ l]) (simp add: ulock_ReleaseAllLocks_def the_trans_def)
qed

text \<open>A transaction that reads, with a lock to read; it then asks for a lock to write.\<close>

definition lock_demo :: ubik_dbase where
  "lock_demo = snd (ulock_SetLock 0 7 1 LOCKREAD True (snd (snd (udisk_begin False UBIK_READTRANS
     (DInit 1 \<lparr>disk = (\<lambda>f. [[]]), past = [], faults = (\<lambda>_. None), ncalls = 0, Buffers = [], phTable = (\<lambda>_. []),
       LastBuffer = 0, timecounter = 0, db_version = \<lparr>v_epoch = 0, v_counter = 0\<rparr>, db_writing = False, db_readers = 0,
       activeTrans = [], nextTrans = 0\<rparr>)))))"

lemma lock_demo_trans: "activeTrans lock_demo =
    [(0, (new_trans UBIK_READTRANS)\<lparr>activeLocks := [\<lparr>l_type = LOCKREAD, l_start = 7, l_length = 1, l_want = False\<rparr>]\<rparr>)]"
  by (simp add: lock_demo_def ulock_SetLock_def udisk_begin_def DInit_def Let_def new_trans_def the_trans_def on_trans_def)

lemma lock_demo_reach: "lock_reach lock_demo"
proof -
  let ?db = "DInit 1 \<lparr>disk = (\<lambda>f. [[]]), past = [], faults = (\<lambda>_. None), ncalls = 0, Buffers = [], phTable = (\<lambda>_. []),
       LastBuffer = 0, timecounter = 0, db_version = \<lparr>v_epoch = 0, v_counter = 0\<rparr>, db_writing = False, db_readers = 0,
       activeTrans = [], nextTrans = 0\<rparr>"
  let ?b = "udisk_begin False UBIK_READTRANS ?db"
  have "lock_reach (snd (snd ?b))"
  proof (rule Reach_step [OF Reach_start Step_begin])
    show "activeTrans ?db = []" by (simp add: DInit_def)
    show "udisk_begin False UBIK_READTRANS ?db = (fst ?b, fst (snd ?b), snd (snd ?b))" by simp
  qed
  moreover have "0 \<in> fst ` set (activeTrans (snd (snd ?b)))"
    by (simp add: udisk_begin_def DInit_def Let_def)
  ultimately show ?thesis unfolding lock_demo_def
    by (intro Reach_step [OF _ Step_lock [OF prod.collapse [symmetric]]])
qed

theorem write_lock_alone_witness:
  "\<exists>db. lock_reach db \<and> length (locks_of (activeTrans db)) = 2 \<and> l_type (locks_of (activeTrans db) ! 0) \<noteq> LOCKWRITE"
proof -
  let ?r = "ulock_SetLock 0 7 1 LOCKREAD True lock_demo"
  have r: "lock_reach (snd ?r)"
    using lock_demo_trans by (intro Reach_step [OF lock_demo_reach Step_lock [OF prod.collapse [symmetric]]]) simp
  have a: "locks_of (activeTrans (snd ?r)) = [\<lparr>l_type = LOCKREAD, l_start = 7, l_length = 1, l_want = False\<rparr>,
      \<lparr>l_type = LOCKREAD, l_start = 7, l_length = 1, l_want = False\<rparr>]"
    by (simp add: ulock_SetLock_def the_trans_def lock_demo_trans new_trans_def on_trans_def LOCKREAD_def LOCKWRITE_def)
  show ?thesis using write_lock_alone [OF r, of 0 1] r a by (intro exI [of _ "snd ?r"]) simp
qed

theorem upgrade_waits_forever_witness: "fst (ulock_SetLock 0 7 1 LOCKWRITE True lock_demo) = Lock_waits"
  using upgrade_waits_forever [of lock_demo 0] by (simp add: lock_demo_trans new_trans_def)

theorem release_wakes_waiter_witness:
  "\<exists>db' t' x l. ulock_SetLock 0 7 1 LOCKWRITE True lock_demo = (Lock_waits, db') \<and>
    map_of (activeTrans db') t' = Some x \<and> l \<in> set (activeLocks x) \<and> l \<in> set (fst (ulock_ReleaseAllLocks t' db'))"
proof -
  have w: "ulock_SetLock 0 7 1 LOCKWRITE True lock_demo = (Lock_waits, snd (ulock_SetLock 0 7 1 LOCKWRITE True lock_demo))"
    by (simp add: ulock_SetLock_def the_trans_def lock_demo_trans new_trans_def LOCKREAD_def LOCKWRITE_def)
  have "0 \<in> fst ` set (activeTrans lock_demo)" by (simp add: lock_demo_trans)
  then show ?thesis using release_wakes_waiter [OF lock_demo_reach _ w] w by blast
qed

end
