(* ===== verification/Udisk_Props.thy ===== *)
theory Udisk_Props
  imports Udisk_Faults Ulock
begin

text \<open>
  What the local database promises: a write transaction happens as a whole or not at all, for its client, after an
  error and after a crash; and where it does not keep the promise.
\<close>

section \<open>A write transaction\<close>

text \<open>A client: begin, the operations, commit, end; abort when an operation fails.  The history starts here.\<close>

definition transaction :: "bool \<Rightarrow> txn_op list \<Rightarrow> ubik_dbase \<Rightarrow> ucode option \<times> u8 list list \<times> ubik_dbase" where
  "transaction le ops db =
     (case udisk_begin le UBIK_WRITETRANS (db\<lparr>past := []\<rparr>) of (code, t, db) \<Rightarrow>
        if code \<noteq> U_ok then (Some code, [], db)
        else
          case run_ops le t ops db of (code, ds, db) \<Rightarrow>
            if code \<noteq> U_ok then (Some code, ds, snd (udisk_end le t (snd (udisk_abort le t db))))
            else case udisk_commit le t db of (r, db) \<Rightarrow> (r, ds, snd (udisk_end le t db)))"

definition after :: "txn_op list \<Rightarrow> (int \<Rightarrow> nat \<Rightarrow> u8) \<Rightarrow> int \<Rightarrow> nat \<Rightarrow> u8" where
  "after ops = spec (op_recs ops)"

lemma settled_history [simp]:
  "settled (db\<lparr>past := p\<rparr>) = settled db" "contents (db\<lparr>past := p\<rparr>) = contents db" "on_disk (db\<lparr>past := p\<rparr>) = on_disk db"
proof -
  have c [simp]: "content f (db\<lparr>past := p\<rparr>) = content f db" for f by (simp add: content_def)
  then show e: "contents (db\<lparr>past := p\<rparr>) = contents db" by (simp add: contents_def)
  then show "on_disk (db\<lparr>past := p\<rparr>) = on_disk db" by (simp add: on_disk_contents)
  then show "settled (db\<lparr>past := p\<rparr>) = settled db"
    using e by (simp add: settled_def quiet_def log_body_def cache_ok_def chains_ok_def)
qed

text \<open>What is known at the commit and after it.\<close>

lemma transaction_steps:
  assumes st: "settled db" and ops: "list_all op_ok ops" and tr: "transaction False ops db = (r, ds, db')"
    and v: "v = db_version db" and t: "t = nextTrans db" and old: "old = contents db"
  shows "\<exists>code rs S db1. in_txn old v t rs S db1 \<and>
    (code = U_ok \<longrightarrow> ds = abs_ops ops (on_disk db) \<and> rs = LNew # op_recs ops \<and> S = after ops (on_disk db) \<and>
      r = fst (udisk_commit False t db1) \<and> db' = snd (udisk_end False t (snd (udisk_commit False t db1)))) \<and>
    (code \<noteq> U_ok \<longrightarrow> r = Some code \<and> db' = snd (udisk_end False t (snd (udisk_abort False t db1))))"
proof -
  obtain db0 where db0: "udisk_begin False UBIK_WRITETRANS (db\<lparr>past := []\<rparr>) = (U_ok, t, db0)"
    "in_txn old v t [LNew] (on_disk db) db0"
    using begin_ok [of "db\<lparr>past := []\<rparr>"] st by (auto simp: v t old)
  obtain code ds' db1 where run: "run_ops False t ops db0 = (code, ds', db1)" by (cases "run_ops False t ops db0")
  have al: "aligned (old f)" if "f \<noteq> LOGFILE" for f using st that by (simp add: settled_def old contents_at)
  obtain rs S where tx: "in_txn old v t rs S db1"
    "code = U_ok \<longrightarrow> ds' = abs_ops ops (on_disk db) \<and> rs = [LNew] @ op_recs ops \<and> S = spec (op_recs ops) (on_disk db)"
    using run_ops_part [OF db0(2) al ops run] by blast
  have "ds = ds'" "(if code \<noteq> U_ok then (Some code, snd (udisk_end False t (snd (udisk_abort False t db1))))
      else (fst (udisk_commit False t db1), snd (udisk_end False t (snd (udisk_commit False t db1))))) = (r, db')"
    using tr db0(1) run by (auto simp: transaction_def split: prod.splits if_splits)
  then show ?thesis using tx by (intro exI [of _ code] exI [of _ rs] exI [of _ S] exI [of _ db1]) (auto simp: after_def)
qed

text \<open>C6. Refinement: for its client a write transaction is atomic.  Its reads give the bytes of the data as the writes
  before them left it; when it returns 0, the files have the data after all writes and the version is the next one; when it
  fails (an operation found no free buffer, or a page that is not there), the files have the data and the version
  they had.  Both ways the database is as a transaction expects it.\<close>

theorem transaction_atomic:
  assumes "settled db" and "list_all op_ok ops" and "version_ok (next_version (db_version db))"
    and "transaction False ops db = (r, ds, db')"
  shows "settled db' \<and>
    (r = Some U_ok \<longrightarrow> ds = abs_ops ops (on_disk db) \<and> (\<forall>f \<ge> 0. on_disk db' f = after ops (on_disk db) f) \<and>
      db_version db' = next_version (db_version db)) \<and>
    (r \<noteq> Some U_ok \<longrightarrow> r \<noteq> None \<and> (\<forall>f \<ge> 0. on_disk db' f = on_disk db f) \<and> db_version db' = db_version db)"
proof -
  obtain code rs S db1 where tx: "in_txn (contents db) (db_version db) (nextTrans db) rs S db1"
    and ok: "code = U_ok \<Longrightarrow> ds = abs_ops ops (on_disk db) \<and> rs = LNew # op_recs ops \<and> S = after ops (on_disk db) \<and>
      r = fst (udisk_commit False (nextTrans db) db1) \<and>
      db' = snd (udisk_end False (nextTrans db) (snd (udisk_commit False (nextTrans db) db1)))"
    and bad: "code \<noteq> U_ok \<Longrightarrow> r = Some code \<and> db' = snd (udisk_end False (nextTrans db) (snd (udisk_abort False (nextTrans db) db1)))"
    using transaction_steps [OF assms(1,2,4) refl refl refl] by blast
  have al: "aligned (contents db f)" if "f \<noteq> LOGFILE" for f using assms(1) that by (simp add: settled_def contents_at)
  show ?thesis
  proof (cases "code = U_ok")
    case True
    then have "S = spec rs (file_datas (contents db))" using ok by (simp add: after_def on_disk_contents)
    then obtain db2 where c: "udisk_commit False (nextTrans db) db1 = (Some U_ok, db2)" "ended (nextTrans db) db2"
      "db_version db2 = next_version (db_version db)" "\<forall>f \<ge> 0. on_disk db2 f = S f"
      using commit_ok [OF tx _ al assms(3) refl] by auto
    then show ?thesis using ok True end_ok [OF c(2), of False] by (simp add: on_disk_contents)
  next
    case False
    obtain db2 where "udisk_abort False (nextTrans db) db1 = (U_ok, db2)" "settled (snd (udisk_end False (nextTrans db) db2))"
      "\<forall>f \<ge> 0. on_disk (snd (udisk_end False (nextTrans db) db2)) f = file_datas (contents db) f"
      "db_version (snd (udisk_end False (nextTrans db) db2)) = db_version db"
      using abort_ok [OF tx al] assms(1) by (auto simp: settled_def)
    then show ?thesis using bad False by (simp add: on_disk_contents)
  qed
qed

lemma empty_cache:
  assumes "0 < n"
  shows "cache_ok (on_disk (restart n c)) (restart n c)" "\<forall>b \<in> set (Buffers (restart n c)). \<not> valid b"
  using assms by (auto simp: cache_ok_def buffers_ok_def chains_ok_def restart_def DInit_def zero_page_def)

text \<open>A new database: a label and no data.\<close>

definition new_db :: "nat \<Rightarrow> ubik_version \<Rightarrow> ubik_dbase" where
  "new_db n v =
     (restart n (\<lambda>f. if f = 0 then header False (version_words v) @ replicate 48 0 else []))\<lparr>db_version := v\<rparr>"

lemma settled_new:
  assumes "0 < n" and "version_ok v"
  shows "settled (new_db n v)" "db_version (new_db n v) = v" "past (new_db n v) = []"
proof -
  let ?c = "\<lambda>f::int. if f = 0 then header False (version_words v) @ replicate 48 0 else []"
  have d: "disk (new_db n v) = (\<lambda>f. [?c f])" "Buffers (new_db n v) = Buffers (restart n ?c)" "db_version (new_db n v) = v"
    "phTable (new_db n v) = (\<lambda>h. [])" "LastBuffer (new_db n v) = 0" "quiet (new_db n v)" "\<not> db_writing (new_db n v)" "past (new_db n v) = []"
    by (simp_all add: new_db_def restart_def DInit_def quiet_def)
  have c: "content f (new_db n v) = ?c f" for f by (simp add: content_def d)
  have ce: "contents (new_db n v) = ?c" by (simp add: contents_def c)
  have b: "\<forall>b \<in> set (Buffers (new_db n v)). \<not> dirty b \<and> \<not> valid b \<and> length (data b) = UBIK_PAGESIZE" "length (Buffers (new_db n v)) = n"
    by (simp_all add: d restart_def DInit_def zero_page_def)
  have "cache_ok (on_disk (new_db n v)) (new_db n v)"
    using b assms by (auto simp: cache_ok_def buffers_ok_def chains_ok_def d)
  then show "settled (new_db n v)" "db_version (new_db n v) = v" "past (new_db n v) = []"
    using b assms by (auto simp: settled_def ce c d log_body_def before_def stale_def label_is_def aligned_def LOGFILE_def)
qed

section \<open>A crash\<close>

lemma udisk_end_files: "ended t db \<Longrightarrow> past (snd (udisk_end le t db)) = past db \<and> disk (snd (udisk_end le t db)) = disk db"
  by (simp add: udisk_end_def ended_def unthread_def)

lemma committed_states:
  assumes st: "settled db" and ops: "list_all op_ok ops" and w: "version_ok (next_version (db_version db))"
    and tr: "transaction False ops db = (Some U_ok, ds, db')"
    and L: "L = logged (LNew # op_recs ops) @ end_bytes (version_words (next_version (db_version db)))"
  shows "hist (\<lambda>d. commit_state (contents db) (db_version db) L (after ops (on_disk db)) d \<or>
      before (contents db') (next_version (db_version db)) [] d) db'"
    and "recs_ok (LNew # op_recs ops)" and "after ops (on_disk db) = spec (LNew # op_recs ops) (file_datas (contents db))"
    and "settled db'" and "db_version db' = next_version (db_version db)" and "\<forall>f \<ge> 0. on_disk db' f = after ops (on_disk db) f"
proof -
  show rs: "recs_ok (LNew # op_recs ops)" using op_recs_ok [OF ops] by (simp add: recs_ok_def)
  show S: "after ops (on_disk db) = spec (LNew # op_recs ops) (file_datas (contents db))"
    by (simp add: after_def on_disk_contents)
  have al: "aligned (contents db f)" if "f \<noteq> LOGFILE" for f using st that by (simp add: settled_def contents_at)
  let ?t = "nextTrans db"
  obtain code rs S db1 where tx: "in_txn (contents db) (db_version db) ?t rs S db1"
    and ok: "code = U_ok \<Longrightarrow> rs = LNew # op_recs ops \<and> S = after ops (on_disk db) \<and> Some U_ok = fst (udisk_commit False ?t db1) \<and>
      db' = snd (udisk_end False ?t (snd (udisk_commit False ?t db1)))"
    and bad: "code \<noteq> U_ok \<Longrightarrow> Some U_ok = Some code"
    using transaction_steps [OF st ops tr refl refl refl] by blast
  then have ok': "rs = LNew # op_recs ops" "S = after ops (on_disk db)" "db' = snd (udisk_end False ?t (snd (udisk_commit False ?t db1)))"
    by auto
  obtain db2 where db2: "udisk_commit False ?t db1 = (Some U_ok, db2)" "ended ?t db2"
    "db_version db2 = next_version (db_version db)" "\<forall>f \<ge> 0. on_disk db2 f = S f"
    "hist (\<lambda>d. commit_state (contents db) (db_version db) L S d \<or> before (contents db2) (next_version (db_version db)) [] d) db2"
    using commit_ok [OF tx _ al w] L S ok' by auto
  then show "hist (\<lambda>d. commit_state (contents db) (db_version db) L (after ops (on_disk db)) d \<or>
      before (contents db') (next_version (db_version db)) [] d) db'"
    using ok' end_ok(2) [OF db2(2), of False] udisk_end_files [OF db2(2), of False] by (simp add: hist_def)
  show "settled db'" "db_version db' = next_version (db_version db)" "\<forall>f \<ge> 0. on_disk db' f = after ops (on_disk db) f"
    using ok' end_ok [OF db2(2), of False] db2 by (simp_all add: on_disk_contents)
qed

text \<open>C3. Safety: a crash at any point of a transaction that commits leaves files from which the server comes up with the old
  data and the old version or with the new data and the new version, nothing else; or a part of the commit record,
  more than its opcode and not all of it, is in the log, and then the server does not come up (\<^const>\<open>UBADLOG\<close>).  The
  crash may lose any part of the writes of a data file since its last \<open>fsync\<close>, and the end of the log.\<close>

theorem crash_atomic:
  assumes "settled db" and "list_all op_ok ops" and "version_ok (next_version (db_version db))"
    and "transaction False ops db = (Some U_ok, ds, db')" and "d \<in> set (past db')" and "crash d c"
  shows "recovers (db_version db) (on_disk db) n c \<or>
    recovers (next_version (db_version db)) (after ops (on_disk db)) n c \<or>
    (length (logged (LNew # op_recs ops)) + 4 \<le> length (drop 64 (c LOGFILE)) \<and>
     length (drop 64 (c LOGFILE)) < length (logged (LNew # op_recs ops)) + 12 \<and>
     (\<exists>db''. urecovery_Initialize False (restart n c) = Some (Some UBADLOG, db'')))"
proof -
  let ?v = "db_version db" and ?w = "next_version (db_version db)"
  let ?L = "logged (LNew # op_recs ops) @ end_bytes (version_words ?w)"
  note cs = committed_states [OF assms(1-4) refl]
  have lab: "label_is ?v (contents db)" "version_ok ?v" using assms(1) by (simp_all add: settled_def)
  consider "before (contents db) ?v ?L d" | "during (contents db) (after ops (on_disk db)) ?L d" | "before (contents db') ?w [] d"
    using cs(1) assms(5) by (auto simp: hist_def commit_state_def)
  then show ?thesis
  proof cases
    case 1
    show ?thesis
      using recover_before [OF 1 assms(6) prefix_order.refl cs(2) lab assms(3), of n] cs(3) by (auto simp: on_disk_contents)
  next
    case 2
    then show ?thesis using recover_during [OF _ assms(6) cs(2) assms(3), of "contents db" n] cs(3) by simp
  next
    case 3
    have "label_is ?w (contents db')" using cs(4,5) by (simp add: settled_def)
    then have "recovers ?w (on_disk db') n c"
      using recover_before_commit [OF 3 assms(6), of "[]"] assms(3) by (simp add: recs_ok_def on_disk_contents)
    then show ?thesis using cs(6) recovers_cong [of "on_disk db'" "after ops (on_disk db)" ?w n c] by simp
  qed
qed

text \<open>C8. Safety: once the transaction has returned 0 its data and version survive a crash, though the end of the log
  was not synced: what the crash may leave of the log is the whole log, which changes nothing, or none.\<close>

theorem commit_durable:
  assumes "settled db" and "list_all op_ok ops" and "version_ok (next_version (db_version db))"
    and "transaction False ops db = (Some U_ok, ds, db')" and "crash (disk db') c"
  shows "recovers (next_version (db_version db)) (after ops (on_disk db)) n c"
proof -
  note cs = committed_states [OF assms(1-4) refl]
  have "before (contents db') (db_version db') [] (disk db')" "label_is (db_version db') (contents db')"
    using cs(4) by (simp_all add: settled_def)
  then have "recovers (db_version db') (on_disk db') n c"
    using recover_before_commit [OF _ assms(5), of "contents db'" "db_version db'" "[]" "[]"] cs(5) assms(3)
    by (simp add: recs_ok_def on_disk_contents)
  then show ?thesis using cs(5,6) recovers_cong [of "on_disk db'" "after ops (on_disk db)" _ n c] by simp
qed

text \<open>C22. Safety: until the commit a crash loses the transaction and nothing else, whatever part of the log is on the disk.\<close>

theorem crash_before_commit:
  assumes "settled db" and "list_all op_ok ops" and "past db = []"
    and "udisk_begin False UBIK_WRITETRANS db = (code, t, db0)" and "run_ops False t ops db0 = (code', ds, db1)"
    and "d = disk db1 \<or> d \<in> set (past db1)" and "crash d c"
  shows "recovers (db_version db) (on_disk db) n c"
proof -
  have b: "t = nextTrans db" "in_txn (contents db) (db_version db) t [LNew] (on_disk db) db0"
    using begin_ok [OF assms(1,3)] assms(4) by auto
  have al: "aligned (contents db f)" if "f \<noteq> LOGFILE" for f using assms(1) that by (simp add: settled_def contents_at)
  obtain rs S where "in_txn (contents db) (db_version db) t rs S db1"
    using run_ops_part [OF b(2) al assms(2,5)] by blast
  then have "before (contents db) (db_version db) (logged rs) d" "recs_ok rs"
    using assms(6) by (auto simp: in_txn_def hist_def)
  then show ?thesis
    using recover_before_commit [OF _ assms(7), of "contents db" "db_version db" "logged rs" rs n] assms(1)
    by (simp add: settled_def on_disk_contents)
qed

section \<open>Where the promise ends\<close>

text \<open> Error: a log that ends inside its commit record, behind the opcode, passes the first pass and fails in the
  second: the data are written, the start returns \<^const>\<open>UBADLOG\<close>, and the log stays, so that every further start fails
  the same way.\<close>

theorem torn_commit_record:
  assumes "quiet db" and "prefix (log_body db) (logged rs @ end_bytes v)" and "recs_ok rs"
    and "length (logged rs) + 4 \<le> length (log_body db)" and "length (log_body db) < length (logged rs) + 12"
  shows "\<exists>db'. urecovery_Initialize False db = Some (Some UBADLOG, db') \<and> contents db' = fold apply_rec rs (contents db) \<and>
    log_body db' = log_body db"
proof -
  have rs: "list_all rec_ok rs" using assms(3) by (simp add: recs_ok_def)
  let ?R = "replayed rs v (length (log_body db)) (contents db)"
  have R: "?R = (UBADLOG, fold apply_rec rs (contents db))" using assms(4,5) by (simp add: replayed_def Let_def)
  obtain db' where db': "ReplayLog False db = Some (Some UBADLOG, db')" "contents db' = fold apply_rec rs (contents db)"
    using replay_prefix [OF assms(1,2) rs] R by auto
  then have "log_body db' = log_body db" using rs by (simp add: log_body_contents fold_apply_log)
  then show ?thesis using db' by (auto simp: urecovery_Initialize_def)
qed

text \<open>C20. Error: a little-endian host does not swap the opcodes it reads back.  It finds no commit record in its own log:
  the start discards a committed transaction, and returns 0.\<close>

theorem little_endian_log_lost:
  assumes "quiet db" and "log_body db = logged (LNew # rs) @ end_bytes v"
  shows "\<exists>db'. ReplayLog True db = Some (Some U_ok, db') \<and>
    contents db' = (contents db)(LOGFILE := ftruncate (contents db LOGFILE) 64)"
proof -
  have "uphys_read LOGFILE 0 4 db = (U_ok, net_bytes LOGNEW, called db)"
    using read_opcode [OF assms(1), of "[]" LOGNEW] assms(2) by simp
  moreover have "bytes_long True (net_bytes LOGNEW) = 0x64000000" by code_simp
  ultimately have "replay_scan True 0 db = Some (False, called db)"
    by (subst replay_scan.simps) (simp add: opcode_defs)
  then show ?thesis using assms(1) by (simp add: ReplayLog_def quiet_calls contents_at)
qed

lemma DRead_partial:
  assumes "quiet db" and "cache_ok S db" and "0 \<le> f" and "\<forall>b \<in> set (Buffers db). \<not> holds_page f pg b"
    and "length (content f db) < 64 + pg * UBIK_PAGESIZE + UBIK_PAGESIZE"
  shows "\<exists>db'. DRead f pg db = (None, db') \<and> chains_ok db'"
proof -
  have ch: "chains_ok db" using assms(2) by (simp add: cache_ok_def)
  then have miss: "\<not> holds_page f pg (Buffers db ! LastBuffer db)"
    using assms(4) by (simp add: chains_ok_def)
  have none: "find (\<lambda>i. holds_page f pg (Buffers db ! i)) (phTable db (pHash f)) = None"
    using chain_holds [OF ch assms(3), of pg] assms(4) by (simp add: find_None_iff)
  obtain s db1 where slot: "newslot f pg db = (s, db1)" by (cases "newslot f pg db")
  show ?thesis
  proof (cases s)
    case None
    then have "db1 = db" using slot by (auto simp: newslot_def split: option.splits)
    then show ?thesis using None slot ch miss none by (simp add: DRead_def)
  next
    case (Some i)
    obtain b1 where b1: "i < length (Buffers db)" "Buffers db1 = (Buffers db)[i := b1]" "LastBuffer db1 = i" "rest db1 = rest db"
      "\<And>h. set (phTable db1 h) \<subseteq> {..< length (Buffers db)}"
      "\<And>h j. j \<noteq> i \<Longrightarrow> j \<in> set (phTable db h) \<Longrightarrow> j \<in> set (phTable db1 h)"
      using newslot_ok [OF slot [unfolded Some] ch] by metis
    have q1: "quiet db1" "content f db1 = content f db" using rest_frame [OF b1(4)] assms(1) by simp_all
    have "length (content f db) - (pg * UBIK_PAGESIZE + 64) < UBIK_PAGESIZE"
      using assms(5) by (simp add: UBIK_PAGESIZE_def)
    then obtain d where d: "uphys_read f (int (pg * UBIK_PAGESIZE)) (int UBIK_PAGESIZE) db1 = (UEOF, d, called db1)"
      using q1 by (auto simp: quiet_calls Let_def min_def nat_mult_distrib)
    let ?r = "on_buffer i (\<lambda>b. b\<lparr>bfile := BADFID\<rparr>) (on_buffer i (\<lambda>b. b\<lparr>data := overlay zero_page 0 d\<rparr>) (called db1))"
    have "DRead f pg db = (None, ?r)" using slot Some miss none d by (simp add: DRead_def Let_def)
    moreover have "chains_ok ?r" using b1(1-3,5,6) ch by (auto simp: chains_ok_def nth_list_update)
    ultimately show ?thesis by blast
  qed
qed

text \<open>C19. Error: a page of which the file has only a part (a recovery leaves one, its writes end where their data end)
  cannot be read: \<^const>\<open>UEOF\<close>.  A write to it starts from a page of zeros: the bytes of the page that are in the file are lost.\<close>

theorem partial_page_lost:
  assumes "quiet db" and "cache_ok S db" and "0 \<le> f" and "\<forall>b \<in> set (Buffers db). \<not> holds_page f pg b"
    and "64 + pg * UBIK_PAGESIZE < length (content f db)" and "length (content f db) < 64 + pg * UBIK_PAGESIZE + UBIK_PAGESIZE"
    and "off + length bs \<le> UBIK_PAGESIZE" and "bs \<noteq> []"
  shows "fst (udisk_read_loop f (pg * UBIK_PAGESIZE + off) (length bs) db) = UEOF \<and>
    (\<forall>db'. udisk_write_loop f bs (pg * UBIK_PAGESIZE + off) db = (U_ok, db') \<longrightarrow>
      (\<exists>b \<in> set (Buffers db'). dirty b \<and> holds_page f pg b \<and> data b = overlay zero_page off bs))"
proof -
  have n: "0 < length bs" "off < UBIK_PAGESIZE" using assms(7,8) by (simp_all flip: length_greater_0_conv)
  then have p: "(pg * UBIK_PAGESIZE + off) div UBIK_PAGESIZE = pg" "off mod UBIK_PAGESIZE = off"
    "min (UBIK_PAGESIZE - off) (length bs) = length bs"
    using assms(7) by auto
  obtain db1 where db1: "DRead f pg db = (None, db1)" "chains_ok db1" using DRead_partial [OF assms(1-4,6)] by auto
  have rd: "fst (udisk_read_loop f (pg * UBIK_PAGESIZE + off) (length bs) db) = UEOF"
    using n by (simp add: udisk_read_loop.simps p db1)
  have "\<exists>b \<in> set (Buffers db'). dirty b \<and> holds_page f pg b \<and> data b = overlay zero_page off bs"
    if w: "udisk_write_loop f bs (pg * UBIK_PAGESIZE + off) db = (U_ok, db')" for db'
  proof -
    obtain i db2 where new: "DNew f pg db1 = (Some i, db2)"
      using w assms(8) by (cases "DNew f pg db1"; cases "fst (DNew f pg db1)") (auto simp: udisk_write_loop.simps [of f bs] p db1)
    let ?db = "DRelease i True (on_buffer i (\<lambda>b. b\<lparr>data := overlay (data b) off bs\<rparr>) db2)"
    have db': "db' = ?db"
      using w assms(8) by (simp add: udisk_write_loop.simps [of f bs] p db1 new Let_def) (simp add: udisk_write_loop.simps)
    obtain s db3 where slot: "newslot f pg db1 = (s, db3)" by (cases "newslot f pg db1")
    then have s: "s = Some i" and r': "db2 = on_buffer i (\<lambda>b. b\<lparr>data := zero_page\<rparr>) (lock_buffer i db3)"
      using new by (auto simp: DNew_def split: option.splits)
    obtain b' where "i < length (Buffers db1)" "Buffers db3 = (Buffers db1)[i := b']" "core b' = (f, pg, False, data (Buffers db1 ! i))"
      using newslot_ok [OF slot [unfolded s] db1(2)] by metis
    then show ?thesis unfolding db' r'
      by (intro bexI [of _ "Buffers ?db ! i"]) (auto simp: r' lock_buffer_def DRelease_def core_def holds_page_def set_update_memI)
  qed
  then show ?thesis using rd by blast
qed

text \<open>A database with a page of ones, and a transaction that cuts it to two bytes and writes byte 5.\<close>

definition cut_db :: ubik_dbase where
  "cut_db = (restart 2 (\<lambda>f. if f = 0 then header False (1, 1) @ replicate 48 0 @ replicate 1024 1 else []))
     \<lparr>db_version := \<lparr>v_epoch = 1, v_counter = 1\<rparr>\<rparr>"

definition cut_write :: "ubik_dbase \<Rightarrow> ucode option \<times> ubik_dbase" where
  "cut_write db =
     (case udisk_begin False UBIK_WRITETRANS db of (_, t, db) \<Rightarrow>
      case udisk_truncate False t 0 2 db of (_, db) \<Rightarrow>
      case udisk_write False t 0 [9] 5 db of (_, db) \<Rightarrow> udisk_commit False t db)"

lemma cut_write_committed:
  "case cut_write cut_db of (r, db) \<Rightarrow> r = Some U_ok \<and> on_disk db 0 3 = 1 \<and> on_disk db 0 5 = 9 \<and>
     db_version db = \<lparr>v_epoch = 1, v_counter = 2\<rparr> \<and> 6 < length (past db) \<and> (past db ! 6) 0 = [header False (1, 1) @ replicate 48 0 @ replicate 1024 1] \<and>
     (past db ! 6) LOGFILE = [replicate 64 0 @ logged [LNew, LTrunc 0 2, LData 0 5 [9]] @ end_bytes (1, 2)]"
  by code_simp

lemma cut_write_other_files:
  "case cut_write cut_db of (r, db) \<Rightarrow> f = LOGFILE \<or> f = 0 \<or> (past db ! 6) f = [[]]"
  by code_simp auto

text \<open>C39. Error: a write behind a truncation of the same transaction undoes it in the commit but not in the replay of its
  log.  A file of ones is cut to two bytes and then byte 5 is written.  The commit cuts the file behind the write: bytes 2 to 4 keep the old
  contents.  When the server crashes during this commit, behind the sync of the commit record, the start
  replays the log and comes up with the same version and with zeros there: two sites differ in data of one version.\<close>

theorem truncate_then_write:
  "\<exists>db d c db'. cut_write cut_db = (Some U_ok, db) \<and> d \<in> set (past db) \<and> crash d c \<and>
    urecovery_Initialize False (restart 2 c) = Some (Some U_ok, db') \<and> db_version db' = db_version db \<and>
    on_disk db 0 5 = 9 \<and> on_disk db' 0 5 = 9 \<and> on_disk db 0 3 = 1 \<and> on_disk db' 0 3 = 0"
proof -
  let ?rs = "[LNew, LTrunc 0 2, LData 0 5 [9]]" and ?v = "\<lparr>v_epoch = 1, v_counter = 2\<rparr>"
  obtain db where db: "cut_write cut_db = (Some U_ok, db)" "on_disk db 0 3 = 1" "on_disk db 0 5 = 9"
    "db_version db = ?v" "6 < length (past db)"
    "(past db ! 6) 0 = [header False (1, 1) @ replicate 48 0 @ replicate 1024 1]"
    "(past db ! 6) LOGFILE = [replicate 64 0 @ logged ?rs @ end_bytes (1, 2)]"
    using cut_write_committed by (auto split: prod.splits)
  define d where "d = past db ! 6"
  define c where "c = (\<lambda>f. last (d f))"
  have "d f \<noteq> []" for f
    using cut_write_other_files [of f] db(1,6,7) by (auto simp: d_def)
  then have crash: "crash d c" unfolding c_def by (rule crash_last)
  have c: "c 0 = header False (1, 1) @ replicate 48 0 @ replicate 1024 1" "drop 64 (c LOGFILE) = logged ?rs @ end_bytes (version_words ?v)"
    by (simp_all add: c_def d_def db(6,7) version_words_def)
  have "recovers ?v (file_datas (fold apply_rec ?rs c)) 2 c"
    using recover_complete [of c ?rs ?v 2] c(2) by (simp add: version_ok_def)
  moreover have "file_datas (fold apply_rec ?rs c) 0 3 = 0" "file_datas (fold apply_rec ?rs c) 0 5 = 9"
    by (simp_all add: file_datas_def file_data_def byte_at_def c(1) ftruncate_def pwrite_def nth_append)
  moreover have "d \<in> set (past db)" using db(5) by (simp add: d_def)
  ultimately show ?thesis using db(1-4) crash unfolding recovers_def by force
qed

text \<open>C23. Error: whichever system call fails while the commit record is written (the length, the write or the sync of the
  log), the commit returns the error and the transaction is done, so that its end does not abort it: the changed pages stay in
  the buffers, dirty, and the version stays bumped.  The next transaction then brings its data to the disk: one that
  does nothing, in a server whose calls may still fail, makes the files equal to the data \<open>S\<close> of the failed one
  when its commit returns 0.\<close>

theorem failed_commit_keeps_pages:
  assumes "map_of (activeTrans db) t = Some (new_trans UBIK_WRITETRANS)" and "db_writing db" and "cache_ok S db"
    and "k < 3" and "faults db (ncalls db + k) \<noteq> None"
  shows "\<exists>code db1 db2. udisk_commit le t db = (Some code, db1) \<and> code \<noteq> U_ok \<and> udisk_end le t db1 = (U_ok, db2) \<and>
    Buffers db2 = Buffers db \<and> \<not> db_writing db2 \<and> db_version db2 = next_version (db_version db) \<and>
    (\<forall>fl t' db3 db4. udisk_begin le UBIK_WRITETRANS (db2\<lparr>faults := fl\<rparr>) = (U_ok, t', db3) \<longrightarrow>
      udisk_commit le t' db3 = (Some U_ok, db4) \<longrightarrow> (\<forall>f \<ge> 0. on_disk db4 f = S f))"
proof -
  let ?db = "(on_trans t (\<lambda>x. x\<lparr>t_done := True\<rparr>) db)\<lparr>db_version := next_version (db_version db)\<rparr>"
  have tr: "the_trans t db = new_trans UBIK_WRITETRANS" using assms(1) by (simp add: the_trans_def)
  obtain code db1 where le: "udisk_LogEnd le (db_version ?db) ?db = (code, db1)" by (cases "udisk_LogEnd le (db_version ?db) ?db")
  have "faults ?db (ncalls ?db + k) \<noteq> None" using assms(5) by (simp add: on_trans_def)
  moreover have "faults ?db (ncalls ?db + k) = None" if "code = U_ok"
    by (rule LogEnd_succeeds [OF le [unfolded that] assms(4)])
  ultimately have code: "code \<noteq> U_ok" by blast
  have m: "map_of (activeTrans (on_trans t (\<lambda>x. x\<lparr>t_done := True\<rparr>) db)) t = Some ((new_trans UBIK_WRITETRANS)\<lparr>t_done := True\<rparr>)"
    using assms(1) by (simp add: map_of_on_trans)
  have com: "udisk_commit le t db = (Some code, db1)"
    using tr m le code by (simp add: udisk_commit_def new_trans_def the_trans_def Let_def next_version_def)
  note k = LogEnd_keeps [OF le, unfolded keeps_data_def]
  note mf = mem_frame [OF k [THEN conjunct1]]
  have t1: "the_trans t db1 = (new_trans UBIK_WRITETRANS)\<lparr>t_done := True\<rparr>" using m mf(4) by (simp add: the_trans_def)
  define db2 where "db2 = (unthread t db1)\<lparr>db_writing := False\<rparr>"
  have e: "udisk_end le t db1 = (U_ok, db2)"
    using t1 assms(2) mf(6) by (simp add: udisk_end_def new_trans_def unthread_def db2_def on_trans_def)
  have b2: "Buffers db2 = Buffers db" "phTable db2 = phTable db" "LastBuffer db2 = LastBuffer db" "\<not> db_writing db2"
    "db_version db2 = next_version (db_version db)"
    using mf by (simp_all add: db2_def unthread_def on_trans_def)
  have c2: "content f db2 = content f db" if "f \<noteq> LOGFILE" for f
    using k that by (auto simp: db2_def unthread_def content_def on_trans_def)
  have "on_disk db4 f = S f" if b: "udisk_begin le UBIK_WRITETRANS (db2\<lparr>faults := fl\<rparr>) = (U_ok, t', db3)"
    and c: "udisk_commit le t' db3 = (Some U_ok, db4)" and f: "0 \<le> f" for fl t' db3 db4 f
  proof -
    obtain db5 where l: "append_log (put_longs le [LOGNEW]) (db2\<lparr>faults := fl\<rparr>) = (U_ok, db5)"
      and db3: "db3 = db5\<lparr>activeTrans := (t', new_trans UBIK_WRITETRANS) # activeTrans db5, nextTrans := t' + 1, db_writing := True\<rparr>"
      using b b2(4) by (auto simp: udisk_begin_def udisk_LogOpcode_def and_then_def Let_def split: prod.splits if_splits)
    note k5 = append_log_keeps [OF l, unfolded keeps_data_def]
    note m5 = mem_frame [OF k5 [THEN conjunct1]]
    have b3: "Buffers db3 = Buffers db" "phTable db3 = phTable db" "LastBuffer db3 = LastBuffer db"
      using m5 b2 by (simp_all add: db3)
    have "content g db3 = content g db" if "g \<noteq> LOGFILE" for g
      using k5 c2 [OF that] that by (auto simp: db3 content_def)
    then have "buffers_ok S (on_disk db3) (Buffers db) = buffers_ok S (on_disk db) (Buffers db)"
      by (intro buffers_ok_disk) (simp add: on_disk_def)
    then have "cache_ok S db3" using assms(3) b3 by (simp add: cache_ok_def chains_ok_def)
    then show ?thesis using commit_writes_cache [OF _ _ c f, of S] by (simp add: db3)
  qed
  then show ?thesis using com code e b2 by blast
qed

section \<open>Instances\<close>

definition demo :: ubik_dbase where
  "demo = new_db 1 \<lparr>v_epoch = 1, v_counter = 1\<rparr>"

definition demo_ops :: "txn_op list" where
  "demo_ops = [Wr 0 1 [7], Rd 0 0 3]"

lemma demo_ok: "settled demo" "list_all op_ok demo_ops" "version_ok (next_version (db_version demo))" "past demo = []"
  using settled_new [of 1 "\<lparr>v_epoch = 1, v_counter = 1\<rparr>"]
  by (simp_all add: demo_def demo_ops_def version_ok_def next_version_def)

lemma demo_run:
  obtains db' where "transaction False demo_ops demo = (Some U_ok, [[0, 7, 0]], db')" and "past db' \<noteq> []"
proof -
  have "case transaction False demo_ops demo of (r, ds, db') \<Rightarrow> r = Some U_ok \<and> ds = [[0, 7, 0]] \<and> past db' \<noteq> []"
    by code_simp
  then show thesis using that by (auto split: prod.splits)
qed

lemma demo_after: "on_disk demo 0 1 = 0" "after demo_ops (on_disk demo) 0 1 = 7"
  by code_simp+

theorem transaction_atomic_witness:
  "\<exists>db'. transaction False demo_ops demo = (Some U_ok, [[0, 7, 0]], db') \<and> settled db' \<and> on_disk db' 0 1 = 7"
proof -
  obtain db' where "transaction False demo_ops demo = (Some U_ok, [[0, 7, 0]], db')" using demo_run by blast
  then show ?thesis using transaction_atomic [OF demo_ok(1-3)] demo_after(2) by auto
qed

theorem crash_atomic_witness:
  "\<exists>ds db' d c. transaction False demo_ops demo = (Some U_ok, ds, db') \<and> d \<in> set (past db') \<and> crash d c \<and>
    (recovers (db_version demo) (on_disk demo) 1 c \<or>
     recovers (next_version (db_version demo)) (after demo_ops (on_disk demo)) 1 c \<or>
     (\<exists>db''. urecovery_Initialize False (restart 1 c) = Some (Some UBADLOG, db'')))"
proof -
  obtain db' where db': "transaction False demo_ops demo = (Some U_ok, [[0, 7, 0]], db')" "past db' \<noteq> []" using demo_run by blast
  let ?d = "hd (past db')"
  have d: "?d \<in> set (past db')" using db' by simp
  have "?d f \<noteq> []" for f
    using committed_states(1) [OF demo_ok(1-3) db'(1) refl] d before_nonempty during_nonempty
    by (auto simp: hist_def commit_state_def)
  then have "crash ?d (\<lambda>f. last (?d f))" by (rule crash_last)
  then show ?thesis using crash_atomic [OF demo_ok(1-3) db'(1) d] db'(1) d by blast
qed

theorem commit_durable_witness:
  "\<exists>ds db' c. transaction False demo_ops demo = (Some U_ok, ds, db') \<and> crash (disk db') c \<and>
    recovers (next_version (db_version demo)) (after demo_ops (on_disk demo)) 1 c"
proof -
  obtain db' where db': "transaction False demo_ops demo = (Some U_ok, [[0, 7, 0]], db')" using demo_run by blast
  have "settled db'" by (rule committed_states(4) [OF demo_ok(1-3) db' refl])
  then have "crash (disk db') (\<lambda>f. last (disk db' f))"
    by (intro crash_last) (auto simp: settled_def dest: before_nonempty)
  then show ?thesis using commit_durable [OF demo_ok(1-3) db'] db' by blast
qed

theorem crash_before_commit_witness:
  "\<exists>code t db0 code' ds db1 c. udisk_begin False UBIK_WRITETRANS demo = (code, t, db0) \<and>
    run_ops False t demo_ops db0 = (code', ds, db1) \<and> crash (disk db1) c \<and> recovers (db_version demo) (on_disk demo) 1 c"
proof -
  obtain t db0 where b: "udisk_begin False UBIK_WRITETRANS demo = (U_ok, t, db0)"
    "in_txn (contents demo) (db_version demo) t [LNew] (on_disk demo) db0"
    using begin_ok [OF demo_ok(1,4)] by auto
  obtain code' ds db1 where r: "run_ops False t demo_ops db0 = (code', ds, db1)" by (cases "run_ops False t demo_ops db0")
  have al: "aligned (contents demo f)" if "f \<noteq> LOGFILE" for f using demo_ok(1) that by (simp add: settled_def contents_at)
  obtain rs S where "in_txn (contents demo) (db_version demo) t rs S db1"
    using run_ops_part [OF b(2) al demo_ok(2) r] by blast
  then have "crash (disk db1) (\<lambda>f. last (disk db1 f))"
    by (intro crash_last) (auto simp: in_txn_def hist_def dest: before_nonempty)
  then show ?thesis using crash_before_commit [OF demo_ok(1,2,4) b(1) r] b(1) r by blast
qed

theorem torn_commit_record_witness:
  "\<exists>db'. urecovery_Initialize False (restart 1 (\<lambda>f. replicate 64 0 @ logged [LNew, LData 0 0 [7]] @ take 6 (end_bytes (1, 2)))) =
    Some (Some UBADLOG, db')"
proof -
  let ?c = "\<lambda>f::int. replicate 64 0 @ logged [LNew, LData 0 0 [7]] @ take 6 (end_bytes (1, 2))"
  have "length (logged [LNew, LData 0 0 [7]]) = 21" by (simp add: logged_def)
  then show ?thesis
    using torn_commit_record [of "restart 1 ?c" "[LNew, LData 0 0 [7]]" "(1, 2)"] by (auto simp: recs_ok_def take_is_prefix)
qed

theorem little_endian_log_lost_witness:
  "\<exists>db'. ReplayLog True (restart 1 (\<lambda>f. replicate 64 0 @ logged [LNew, LData 0 0 [7]] @ end_bytes (1, 2))) = Some (Some U_ok, db')"
  using little_endian_log_lost [of "restart 1 (\<lambda>f. replicate 64 0 @ logged [LNew, LData 0 0 [7]] @ end_bytes (1, 2))" "[LData 0 0 [7]]" "(1, 2)"]
  by auto

definition demo_part :: ubik_dbase where
  "demo_part = restart 2 (\<lambda>f. replicate 64 0 @ [5, 6, 7])"

theorem partial_page_lost_witness:
  "\<exists>db'. udisk_write_loop 0 [9] 10 demo_part = (U_ok, db') \<and>
    (\<exists>b \<in> set (Buffers db'). dirty b \<and> holds_page 0 0 b \<and> data b = overlay zero_page 10 [9])"
proof -
  have "fst (udisk_write_loop 0 [9] 10 demo_part) = U_ok" by code_simp
  then obtain db' where w: "udisk_write_loop 0 [9] 10 demo_part = (U_ok, db')" by (cases "udisk_write_loop 0 [9] 10 demo_part") auto
  have "\<forall>b \<in> set (Buffers demo_part). \<not> holds_page 0 0 b"
    using empty_cache(2) [of 2 "\<lambda>f. replicate 64 0 @ [5, 6, 7]"] by (auto simp: demo_part_def holds_page_def BADFID_def)
  moreover have "content 0 demo_part = replicate 64 0 @ [5, 6, 7]"
    by (simp add: demo_part_def restart_def DInit_def content_def)
  ultimately show ?thesis
    using partial_page_lost [of demo_part "on_disk demo_part" 0 0 10 "[9]"] empty_cache(1) [of 2] w
    by (auto simp: UBIK_PAGESIZE_def demo_part_def)
qed

definition demo_begun :: ubik_dbase where
  "demo_begun = snd (snd (udisk_begin False UBIK_WRITETRANS demo))"

text \<open>A new database; byte 1 of file 0 becomes 7; the sync of the commit record fails; an empty transaction follows.\<close>

definition failing_sync :: ubik_dbase where
  "failing_sync = (let db = snd (udisk_write False 0 0 [7] 1 demo_begun) in db\<lparr>faults := (\<lambda>n. if n = ncalls db + 2 then Some (Call_fails ENOSPC 0) else None)\<rparr>)"

lemma failing_sync_run:
  "map_of (activeTrans failing_sync) 0 = Some (new_trans UBIK_WRITETRANS) \<and> db_writing failing_sync \<and>
   faults failing_sync (ncalls failing_sync + 2) \<noteq> None \<and>
   (case udisk_commit False 0 failing_sync of (r, db1) \<Rightarrow> r = Some UNOSPC \<and>
     (case udisk_begin False UBIK_WRITETRANS ((snd (udisk_end False 0 db1))\<lparr>faults := \<lambda>_. None\<rparr>) of (c, t', db3) \<Rightarrow>
        c = U_ok \<and> fst (udisk_commit False t' db3) = Some U_ok))"
  by code_simp

lemma failing_sync_cache: "\<exists>S. cache_ok S failing_sync \<and> S 0 1 = 7"
proof -
  obtain db0 where b: "udisk_begin False UBIK_WRITETRANS demo = (U_ok, nextTrans demo, db0)"
    "in_txn (contents demo) (db_version demo) (nextTrans demo) [LNew] (on_disk demo) db0"
    using begin_ok [OF demo_ok(1,4)] by auto
  have n: "nextTrans demo = 0" by code_simp
  have db0: "db0 = demo_begun" using b(1) by (simp add: demo_begun_def)
  have al: "aligned (contents demo f)" if "f \<noteq> LOGFILE" for f using demo_ok(1) that by (simp add: settled_def contents_at)
  have ok: "fst (udisk_write False 0 0 [7] 1 demo_begun) = U_ok" by code_simp
  obtain db1 where w: "udisk_write False 0 0 [7] 1 demo_begun = (U_ok, db1)" using ok by (cases "udisk_write False 0 0 [7] 1 demo_begun") auto
  then have r: "run_ops False 0 [Wr 0 1 [7]] demo_begun = (U_ok, [], db1)" by simp
  obtain S where "in_txn (contents demo) (db_version demo) 0 [LNew, LData 0 1 [7]] S db1" "S = spec (op_recs [Wr 0 1 [7]]) (on_disk demo)"
    using run_ops_part [OF b(2) [unfolded n db0] al _ r] by auto
  then have S: "cache_ok S db1" "S 0 1 = 7" by (simp_all add: in_txn_def put_data_def)
  have d: "on_disk (db1\<lparr>faults := g\<rparr>) = on_disk db1" for g by (rule ext) (simp add: on_disk_def content_def)
  have "cache_ok S failing_sync" using S(1) unfolding failing_sync_def w by (simp add: Let_def cache_ok_def chains_ok_def d)
  then show ?thesis using S(2) by blast
qed

theorem failed_commit_keeps_pages_witness:
  "\<exists>code db1 db2 t' db3 db4. udisk_commit False 0 failing_sync = (Some code, db1) \<and> code \<noteq> U_ok \<and> udisk_end False 0 db1 = (U_ok, db2) \<and>
    udisk_begin False UBIK_WRITETRANS (db2\<lparr>faults := \<lambda>_. None\<rparr>) = (U_ok, t', db3) \<and>
    udisk_commit False t' db3 = (Some U_ok, db4) \<and> on_disk db4 0 1 = 7"
proof -
  obtain S where S: "cache_ok S failing_sync" "S 0 1 = 7" using failing_sync_cache by blast
  note run = failing_sync_run
  obtain code db1 db2 where f: "udisk_commit False 0 failing_sync = (Some code, db1)" "code \<noteq> U_ok" "udisk_end False 0 db1 = (U_ok, db2)"
    "\<forall>fl t' db3 db4. udisk_begin False UBIK_WRITETRANS (db2\<lparr>faults := fl\<rparr>) = (U_ok, t', db3) \<longrightarrow>
      udisk_commit False t' db3 = (Some U_ok, db4) \<longrightarrow> (\<forall>f \<ge> 0. on_disk db4 f = S f)"
    using failed_commit_keeps_pages [OF _ _ S(1), of 0 2 False] run by auto
  obtain t' db3 db4 where "udisk_begin False UBIK_WRITETRANS (db2\<lparr>faults := \<lambda>_. None\<rparr>) = (U_ok, t', db3)"
    "udisk_commit False t' db3 = (Some U_ok, db4)"
  proof -
    obtain c t' db3 where b: "udisk_begin False UBIK_WRITETRANS (db2\<lparr>faults := \<lambda>_. None\<rparr>) = (c, t', db3)"
      by (metis prod_cases3)
    then have "c = U_ok" "fst (udisk_commit False t' db3) = Some U_ok" using run f(1,3) by simp_all
    then show thesis using that b by (cases "udisk_commit False t' db3") auto
  qed
  moreover from this have "on_disk db4 0 1 = 7" using f(4) S(2) by force
  ultimately show ?thesis using f(1-3) by blast
qed

end
