(* ===== verification/Acl_Eval.thy ===== *)
theory Acl_Eval
  imports Uuid
begin

text \<open>
  The access algorithm of the DCE ACL library, \<^verbatim>\<open>src/dce/utils/acldb/acleval.c\<close>, on the data types of
  \<^verbatim>\<open>src/security/idl/aclbase.idl\<close> and \<^verbatim>\<open>id_base.idl\<close>.

  \<^item> An ACL entry is a permission set with a tagged union: \<open>entry_info\<close> has one constructor per
    \<open>sec_acl_e_type\<close>.  A \<open>sec_id_t\<close> is its UUID (the name is not looked at).
  \<^item> A pointer to an entry, as the first pass keeps them, is the entry (\<open>None\<close> for \<open>NULL\<close>); \<open>own_id\<close>
    and \<open>grp_id\<close> may be \<open>NULL\<close>.
  \<^item> The status out parameter is part of the results; \<open>uuid_equal\<close> writes to it too.
  \<^item> The security runtime (\<open>sec_cred_*\<close>, \<open>rpc_binding_inq_auth_caller\<close>), the ACL database and the
    manager table are parameters: their answers are arguments.
\<close>

section \<open>Data\<close>

type_synonym permset = u32

datatype acl_status = Acl_ok | Acl_uuid uuid_status | Sec_acl_expected_user_obj | Sec_acl_expected_group_obj
  | Acl_s_bad_manager_type | Rpc_s_binding_has_no_auth | Rpc_s_authn_authz_mismatch
  | Sec_cred_s_no_more_entries | Acl_other nat

datatype entry_info =
    User_obj | Group_obj | Other_obj | User uuid | Group uuid | Mask_obj
  | Foreign_user (foreign_realm: uuid) (foreign_id: uuid) | Foreign_group (foreign_realm: uuid) (foreign_id: uuid)
  | Foreign_other uuid | Unauthenticated | Extended | Any_other
  | User_obj_deleg | User_deleg uuid | For_user_deleg (foreign_realm: uuid) (foreign_id: uuid)
  | Group_obj_deleg | Group_deleg uuid | For_group_deleg (foreign_realm: uuid) (foreign_id: uuid)
  | Other_obj_deleg | For_other_deleg uuid | Any_other_deleg

record acl_entry =
  perms :: permset
  info :: entry_info

record sec_acl =
  default_realm :: uuid
  manager_type :: uuid
  entries :: "acl_entry list"

record sec_id_pa =
  pa_realm :: uuid
  pa_principal :: uuid
  pa_group :: uuid
  pa_groups :: "uuid list"
  pa_foreign_groupsets :: "(uuid \<times> uuid list) list"

definition no_permissions :: permset where
  "no_permissions = 0"

definition max_permissions :: permset where
  "max_permissions = NOT 0"

definition maskit :: "acl_entry \<Rightarrow> permset \<Rightarrow> permset" where
  "maskit ep mask_perms =
     (case info ep of
        User_obj \<Rightarrow> perms ep | User_obj_deleg \<Rightarrow> perms ep | Other_obj \<Rightarrow> perms ep
      | Other_obj_deleg \<Rightarrow> perms ep | Mask_obj \<Rightarrow> perms ep | Unauthenticated \<Rightarrow> perms ep
      | _ \<Rightarrow> perms ep AND mask_perms)"

section \<open>Clients without credentials\<close>

fun unauthen_scan :: "acl_entry list \<Rightarrow> acl_entry option \<times> acl_entry option \<times> permset
    \<Rightarrow> acl_entry option \<times> acl_entry option \<times> permset" where
  "unauthen_scan [] r = r"
| "unauthen_scan (ep # es) (any_other_ep, unauth_ep, mask_perms) =
     unauthen_scan es
       (case info ep of
          Any_other \<Rightarrow> (Some ep, unauth_ep, mask_perms)
        | Unauthenticated \<Rightarrow> (any_other_ep, Some ep, mask_perms)
        | Mask_obj \<Rightarrow> (any_other_ep, unauth_ep, perms ep)
        | _ \<Rightarrow> (any_other_ep, unauth_ep, mask_perms))"

definition dce_acl__inq_unauthen_perms :: "sec_acl \<Rightarrow> permset" where
  "dce_acl__inq_unauthen_perms ap =
     (case unauthen_scan (entries ap) (None, None, max_permissions) of
        (Some any_other_ep, Some unauth_ep, mask_perms) \<Rightarrow> maskit any_other_ep mask_perms AND perms unauth_ep
      | _ \<Rightarrow> no_permissions)"

section \<open>The access algorithm\<close>

text \<open>The variables of the first pass over the entries.\<close>

record scan =
  user_obj_ep :: "acl_entry option"
  user_ep :: "acl_entry option"
  for_user_ep :: "acl_entry option"
  other_obj_ep :: "acl_entry option"
  for_other_ep :: "acl_entry option"
  any_other_ep :: "acl_entry option"
  user_obj_del_ep :: "acl_entry option"
  user_del_ep :: "acl_entry option"
  for_user_del_ep :: "acl_entry option"
  other_obj_del_ep :: "acl_entry option"
  for_other_del_ep :: "acl_entry option"
  any_other_del_ep :: "acl_entry option"
  mask_perms :: permset
  check_groups :: bool
  unauth_mask :: permset
  status :: acl_status

definition scan_0 :: "permset \<Rightarrow> acl_status \<Rightarrow> scan" where
  "scan_0 um st = \<lparr>user_obj_ep = None, user_ep = None, for_user_ep = None, other_obj_ep = None,
     for_other_ep = None, any_other_ep = None, user_obj_del_ep = None, user_del_ep = None,
     for_user_del_ep = None, other_obj_del_ep = None, for_other_del_ep = None, any_other_del_ep = None,
     mask_perms = max_permissions, check_groups = False, unauth_mask = um, status = st\<rparr>"

definition of_uuid_status :: "uuid_status \<Rightarrow> acl_status" where
  "of_uuid_status st = (if st = Uuid_s_ok then Acl_ok else Acl_uuid st)"

definition same_uuid :: "uuid \<Rightarrow> uuid \<Rightarrow> bool" where
  "same_uuid a b = snd (uuid_equal a b)"

definition same_st :: "uuid \<Rightarrow> uuid \<Rightarrow> acl_status" where
  "same_st a b = of_uuid_status (fst (uuid_equal a b))"

text \<open>The first \<open>switch\<close>: entries that apply to initiators and delegates.  \<open>None\<close>: the owner is missing.\<close>

definition scan_entry :: "bool \<Rightarrow> sec_id_pa \<Rightarrow> uuid option \<Rightarrow> acl_entry \<Rightarrow> scan \<Rightarrow> scan option" where
  "scan_entry in_def_realm pa own_id ep c =
     (case info ep of
        User u \<Rightarrow>
          Some (if in_def_realm then
                  let c = c\<lparr>status := same_st (pa_principal pa) u\<rparr>
                  in if same_uuid (pa_principal pa) u then c\<lparr>user_ep := Some ep\<rparr> else c
                else c)
      | Foreign_user r u \<Rightarrow>
          Some (let c = c\<lparr>status := same_st (pa_principal pa) u\<rparr>
                in if same_uuid (pa_principal pa) u then
                     let c = c\<lparr>status := same_st (pa_realm pa) r\<rparr>
                     in if same_uuid (pa_realm pa) r then c\<lparr>for_user_ep := Some ep\<rparr> else c
                   else c)
      | Other_obj \<Rightarrow> Some (if in_def_realm then c\<lparr>other_obj_ep := Some ep\<rparr> else c)
      | Foreign_other r \<Rightarrow>
          Some (let c = c\<lparr>status := same_st (pa_realm pa) r\<rparr>
                in if same_uuid (pa_realm pa) r then c\<lparr>for_other_ep := Some ep\<rparr> else c)
      | Unauthenticated \<Rightarrow> Some (c\<lparr>unauth_mask := perms ep\<rparr>)
      | Group _ \<Rightarrow> Some (c\<lparr>check_groups := True\<rparr>)
      | Foreign_group _ _ \<Rightarrow> Some (c\<lparr>check_groups := True\<rparr>)
      | Group_obj \<Rightarrow> Some (c\<lparr>check_groups := True\<rparr>)
      | Any_other \<Rightarrow> Some (c\<lparr>any_other_ep := Some ep\<rparr>)
      | Mask_obj \<Rightarrow> Some (c\<lparr>mask_perms := perms ep\<rparr>)
      | User_obj \<Rightarrow>
          (case own_id of
             None \<Rightarrow> None
           | Some own \<Rightarrow>
               Some (if in_def_realm then
                       let c = c\<lparr>status := same_st own (pa_principal pa)\<rparr>
                       in if same_uuid own (pa_principal pa) then c\<lparr>user_obj_ep := Some ep\<rparr> else c
                     else c))
      | _ \<Rightarrow> Some c)"

definition scan_deleg :: "bool \<Rightarrow> sec_id_pa \<Rightarrow> uuid option \<Rightarrow> acl_entry \<Rightarrow> scan \<Rightarrow> scan option" where
  "scan_deleg in_def_realm pa own_id ep c =
     (case info ep of
        User_obj_deleg \<Rightarrow>
          (case own_id of
             None \<Rightarrow> None
           | Some own \<Rightarrow>
               Some (if in_def_realm then
                       let c = c\<lparr>status := same_st own (pa_principal pa)\<rparr>
                       in if same_uuid own (pa_principal pa) then c\<lparr>user_obj_del_ep := Some ep\<rparr> else c
                     else c))
      | User_deleg u \<Rightarrow>
          Some (if in_def_realm then
                  let c = c\<lparr>status := same_st (pa_principal pa) u\<rparr>
                  in if same_uuid (pa_principal pa) u then c\<lparr>user_del_ep := Some ep\<rparr> else c
                else c)
      | For_user_deleg r u \<Rightarrow>
          Some (let c = c\<lparr>status := same_st (pa_principal pa) u\<rparr>
                in if same_uuid (pa_principal pa) u then
                     let c = c\<lparr>status := same_st (pa_realm pa) r\<rparr>
                     in if same_uuid (pa_realm pa) r then c\<lparr>for_user_del_ep := Some ep\<rparr> else c
                   else c)
      | Group_deleg _ \<Rightarrow> Some (c\<lparr>check_groups := True\<rparr>)
      | For_group_deleg _ _ \<Rightarrow> Some (c\<lparr>check_groups := True\<rparr>)
      | Group_obj_deleg \<Rightarrow> Some (c\<lparr>check_groups := True\<rparr>)
      | Other_obj_deleg \<Rightarrow> Some (if in_def_realm then c\<lparr>other_obj_del_ep := Some ep\<rparr> else c)
      | For_other_deleg r \<Rightarrow>
          Some (let c = c\<lparr>status := same_st (pa_realm pa) r\<rparr>
                in if same_uuid (pa_realm pa) r then c\<lparr>for_other_del_ep := Some ep\<rparr> else c)
      | Any_other_deleg \<Rightarrow> Some (c\<lparr>any_other_del_ep := Some ep\<rparr>)
      | _ \<Rightarrow> Some c)"

text \<open>The first pass; \<open>Inl\<close> when it returned early, with the variables as they were then.\<close>

fun scan_entries ::
  "bool \<Rightarrow> bool \<Rightarrow> sec_id_pa \<Rightarrow> uuid option \<Rightarrow> acl_entry list \<Rightarrow> scan \<Rightarrow> scan + scan" where
  "scan_entries do_deleg in_def_realm pa own_id [] c = Inr c"
| "scan_entries do_deleg in_def_realm pa own_id (ep # es) c =
     (case scan_entry in_def_realm pa own_id ep c of
        None \<Rightarrow> Inl c
      | Some c1 \<Rightarrow>
          if do_deleg then
            (case scan_deleg in_def_realm pa own_id ep c1 of
               None \<Rightarrow> Inl c1
             | Some c2 \<Rightarrow> scan_entries do_deleg in_def_realm pa own_id es c2)
          else scan_entries do_deleg in_def_realm pa own_id es c1)"

text \<open>The groups: \<open>one_group_found\<close>, \<open>group_access\<close> and the status.\<close>

type_synonym groups = "bool \<times> permset \<times> acl_status"

definition group_hit :: "uuid \<Rightarrow> permset \<Rightarrow> uuid \<Rightarrow> groups \<Rightarrow> groups" where
  "group_hit gr_uuid p g r =
     (let (found, acc, st) = r; st = same_st g gr_uuid
      in if same_uuid g gr_uuid then (True, acc OR p, st) else (found, acc, st))"

definition groupset_hit :: "uuid \<Rightarrow> uuid \<Rightarrow> permset \<Rightarrow> uuid \<times> uuid list \<Rightarrow> groups \<Rightarrow> groups" where
  "groupset_hit realm gr_uuid p fgs r =
     (let (found, acc, st) = r; r = (found, acc, same_st (fst fgs) realm)
      in if \<not> same_uuid (fst fgs) realm then r else fold (group_hit gr_uuid p) (snd fgs) r)"

definition check_entry_groups ::
  "sec_id_pa \<Rightarrow> permset \<Rightarrow> bool \<Rightarrow> uuid \<Rightarrow> uuid \<Rightarrow> acl_entry \<Rightarrow> groups \<Rightarrow> groups" where
  "check_entry_groups pa mp chk_loc_groups gr_uuid realm ep r =
     (if chk_loc_groups
      then fold (group_hit gr_uuid (maskit ep mp)) (pa_groups pa)
             (group_hit gr_uuid (maskit ep mp) (pa_group pa) r)
      else fold (groupset_hit realm gr_uuid (maskit ep mp)) (pa_foreign_groupsets pa) r)"

definition group_entry ::
  "bool \<Rightarrow> sec_id_pa \<Rightarrow> sec_acl \<Rightarrow> uuid option \<Rightarrow> permset \<Rightarrow> acl_entry \<Rightarrow> groups \<Rightarrow> groups option" where
  "group_entry in_def_realm pa ap grp_id mp ep r =
     (let obj = (case grp_id of
                   None \<Rightarrow> None
                 | Some g \<Rightarrow> Some (check_entry_groups pa mp in_def_realm g (default_realm ap) ep r));
          local = (\<lambda>u. Some (check_entry_groups pa mp in_def_realm u (default_realm ap) ep r));
          foreign = (\<lambda>realm u. Some (check_entry_groups pa mp (same_uuid (pa_realm pa) realm) u realm ep
                      (case r of (found, acc, st) \<Rightarrow> (found, acc, same_st (pa_realm pa) realm))))
      in case info ep of
           Group_obj \<Rightarrow> obj
         | Group_obj_deleg \<Rightarrow> obj
         | Group u \<Rightarrow> local u
         | Group_deleg u \<Rightarrow> local u
         | Foreign_group realm u \<Rightarrow> foreign realm u
         | For_group_deleg realm u \<Rightarrow> foreign realm u
         | _ \<Rightarrow> Some r)"

fun group_entries ::
  "bool \<Rightarrow> sec_id_pa \<Rightarrow> sec_acl \<Rightarrow> uuid option \<Rightarrow> permset \<Rightarrow> acl_entry list \<Rightarrow> groups \<Rightarrow> groups option" where
  "group_entries in_def_realm pa ap grp_id mp [] r = Some r"
| "group_entries in_def_realm pa ap grp_id mp (ep # es) r =
     (case group_entry in_def_realm pa ap grp_id mp ep r of
        None \<Rightarrow> None
      | Some r \<Rightarrow> group_entries in_def_realm pa ap grp_id mp es r)"

text \<open>
  One pair of checks, an entry and its delegation entry: \<open>Some\<close> of the permissions when one of them
  returns (a regular match does not return only when the delegation entry does).
\<close>

definition check_pair :: "bool \<Rightarrow> acl_entry option \<Rightarrow> acl_entry option \<Rightarrow> (acl_entry \<Rightarrow> permset) \<Rightarrow> permset
    \<Rightarrow> permset option" where
  "check_pair do_deleg ep del_ep masked p =
     (let p = (case ep of Some e \<Rightarrow> masked e | None \<Rightarrow> p)
      in if ep \<noteq> None \<and> \<not> (do_deleg \<and> del_ep \<noteq> None) then Some p
         else if do_deleg \<and> del_ep \<noteq> None then Some (p OR masked (the del_ep))
         else None)"

definition dce_acl__permset_alg ::
  "bool \<Rightarrow> bool \<Rightarrow> sec_id_pa \<Rightarrow> sec_acl \<Rightarrow> uuid option \<Rightarrow> uuid option \<Rightarrow> permset
    \<Rightarrow> permset \<times> permset \<times> acl_status" where
  "dce_acl__permset_alg le do_deleg pa ap own_id grp_id um =
     (let in_def_realm = (same_uuid (pa_realm pa) (default_realm ap) \<or> snd (uuid_is_nil le (default_realm ap)));
          st = (if same_uuid (pa_realm pa) (default_realm ap) then same_st (pa_realm pa) (default_realm ap)
                else of_uuid_status (fst (uuid_is_nil le (default_realm ap))))
      in case scan_entries do_deleg in_def_realm pa own_id (entries ap) (scan_0 um st) of
           Inl c \<Rightarrow> (no_permissions, unauth_mask c, Sec_acl_expected_user_obj)
         | Inr c \<Rightarrow>
             let m = (\<lambda>e. maskit e (mask_perms c)); um = unauth_mask c; p0 = no_permissions in
             case check_pair do_deleg (user_obj_ep c) (user_obj_del_ep c) perms p0 of Some p \<Rightarrow> (p, um, status c) | None \<Rightarrow>
             case check_pair do_deleg (user_ep c) (user_del_ep c) m p0 of Some p \<Rightarrow> (p, um, status c) | None \<Rightarrow>
             case check_pair do_deleg (for_user_ep c) (for_user_del_ep c) m p0 of Some p \<Rightarrow> (p, um, status c) | None \<Rightarrow>
             case (if check_groups c
                   then group_entries in_def_realm pa ap grp_id (mask_perms c) (entries ap)
                          (False, no_permissions, status c)
                   else Some (False, no_permissions, status c)) of
               None \<Rightarrow> (p0, um, Sec_acl_expected_group_obj)
             | Some (one_group_found, group_access, st) \<Rightarrow>
                 if one_group_found then (group_access, um, st) else
                 case check_pair do_deleg (other_obj_ep c) (other_obj_del_ep c) m p0 of Some p \<Rightarrow> (p, um, st) | None \<Rightarrow>
                 case check_pair do_deleg (for_other_ep c) (for_other_del_ep c) m p0 of Some p \<Rightarrow> (p, um, st) | None \<Rightarrow>
                 case check_pair do_deleg (any_other_ep c) (any_other_del_ep c) m p0 of Some p \<Rightarrow> (p, um, st) | None \<Rightarrow>
                 (no_permissions, um, st))"

section \<open>Credentials\<close>

text \<open>
  The answers of the security runtime for a caller: the initiator and its PAC, whether it is
  authenticated, the cursor, and each delegate with its PAC; after the last comes
  \<open>sec_cred_s_no_more_entries\<close>.
\<close>

record sec_creds =
  cr_initiator :: acl_status
  cr_initiator_pa :: "acl_status \<times> sec_id_pa"
  cr_auth :: bool
  cr_cursor :: acl_status
  cr_delegates :: "(acl_status \<times> acl_status \<times> sec_id_pa) list"

fun delegates_loop ::
  "bool \<Rightarrow> sec_acl \<Rightarrow> uuid option \<Rightarrow> uuid option \<Rightarrow> (acl_status \<times> acl_status \<times> sec_id_pa) list
    \<Rightarrow> permset \<times> permset \<Rightarrow> (acl_status \<times> permset) + (permset \<times> permset)" where
  "delegates_loop le ap own_id grp_id ds (p, um) =
     (if p = no_permissions then Inl (Acl_ok, p)
      else
        case ds of
          [] \<Rightarrow> Inr (p, um)
        | (st, pa_st, pa) # ds' \<Rightarrow>
            if st = Sec_cred_s_no_more_entries then Inr (p, um)
            else if st \<noteq> Acl_ok then Inl (st, p)
            else if pa_st \<noteq> Acl_ok then Inl (pa_st, no_permissions)
            else
              let (p, um, st) = dce_acl__permset_alg le True pa ap own_id grp_id um
              in if st \<noteq> Acl_ok then Inl (st, no_permissions) else delegates_loop le ap own_id grp_id ds' (p, um))"

text \<open>
  \<open>st_addr\<close> is the address of the status, as the caller passes it; the routine writes through it, so
  with \<open>NULL\<close> (0) it faults and there is no result.
\<close>

definition dce_acl_inq_permset_for_creds ::
  "bool \<Rightarrow> nat \<Rightarrow> sec_creds option \<Rightarrow> sec_acl \<Rightarrow> uuid option \<Rightarrow> uuid option \<Rightarrow> (acl_status \<times> permset) option" where
  "dce_acl_inq_permset_for_creds le st_addr cred_h ap own_id grp_id =
     (if st_addr = 0 then None
      else Some
        (case cred_h of
           None \<Rightarrow> (Acl_ok, dce_acl__inq_unauthen_perms ap)
         | Some cr \<Rightarrow>
             if cr_initiator cr \<noteq> Acl_ok then (cr_initiator cr, no_permissions)
             else if fst (cr_initiator_pa cr) \<noteq> Acl_ok then (fst (cr_initiator_pa cr), no_permissions)
             else
               let (p, um, st) = dce_acl__permset_alg le False (snd (cr_initiator_pa cr)) ap own_id grp_id no_permissions
               in if st_addr \<noteq> 0 then (st, p)
                  else if cr_cursor cr \<noteq> Acl_ok then (cr_cursor cr, p)
                  else
                    case delegates_loop le ap own_id grp_id (cr_delegates cr) (p, um) of
                      Inl r \<Rightarrow> r
                    | Inr (p, um) \<Rightarrow> (Acl_ok, if \<not> cr_auth cr then p AND um else p)))"

definition dce_acl_inq_client_creds :: "acl_status \<times> sec_creds option \<times> bool \<Rightarrow> acl_status \<times> sec_creds option" where
  "dce_acl_inq_client_creds caller =
     (let (st, cred, authz_dce) = caller
      in if st = Rpc_s_binding_has_no_auth then (Acl_ok, None)
         else if st \<noteq> Acl_ok then (st, cred)
         else if \<not> authz_dce then (Rpc_s_authn_authz_mismatch, cred)
         else (st, cred))"

definition dce_acl_inq_client_permset ::
  "bool \<Rightarrow> nat \<Rightarrow> acl_status \<times> uuid \<Rightarrow> acl_status \<times> sec_acl \<Rightarrow> acl_status \<times> sec_creds option \<times> bool
    \<Rightarrow> uuid option \<Rightarrow> uuid option \<Rightarrow> (acl_status \<times> permset) option" where
  "dce_acl_inq_client_permset le st_addr mgr fetched caller own_id grp_id =
     (if st_addr = 0 then None
      else if fst mgr \<noteq> Acl_ok then Some (fst mgr, no_permissions)
      else if fst fetched \<noteq> Acl_ok then Some (fst fetched, no_permissions)
      else if \<not> same_uuid (snd mgr) (manager_type (snd fetched)) then Some (Acl_s_bad_manager_type, no_permissions)
      else
        let (st, cred_h) = dce_acl_inq_client_creds caller
        in if st \<noteq> Acl_ok then Some (st, no_permissions)
           else dce_acl_inq_permset_for_creds le st_addr cred_h (snd fetched) own_id grp_id)"

definition dce_acl_is_client_authorized ::
  "bool \<Rightarrow> nat \<Rightarrow> acl_status \<times> uuid \<Rightarrow> acl_status \<times> sec_acl \<Rightarrow> acl_status \<times> sec_creds option \<times> bool
    \<Rightarrow> uuid option \<Rightarrow> uuid option \<Rightarrow> permset \<Rightarrow> (acl_status \<times> bool) option" where
  "dce_acl_is_client_authorized le st_addr mgr fetched caller own_id grp_id desired_perms =
     (case dce_acl_inq_client_permset le st_addr mgr fetched caller own_id grp_id of
        None \<Rightarrow> None
      | Some (st, ps) \<Rightarrow>
          if st \<noteq> Acl_ok then Some (st, False) else Some (st, desired_perms AND ps = desired_perms))"

end
