(* ===== verification/Acl_Props.thy ===== *)
theory Acl_Props
  imports Acl_Eval
begin

text \<open>
  What the access algorithm grants: an abstract specification in terms of the entries that match, the
  refinement of it by the two passes of the code, bounds on what is granted, and what the code does
  with delegates and unauthenticated callers.
\<close>

section \<open>Specification\<close>

text \<open>The last entry of a kind that matches (a well-formed ACL has at most one).\<close>

definition last_match :: "(acl_entry \<Rightarrow> bool) \<Rightarrow> acl_entry list \<Rightarrow> acl_entry option" where
  "last_match P es = find P (rev es)"

definition local_realm :: "bool \<Rightarrow> sec_id_pa \<Rightarrow> sec_acl \<Rightarrow> bool" where
  "local_realm le pa ap \<longleftrightarrow> same_uuid (pa_realm pa) (default_realm ap) \<or> snd (uuid_is_nil le (default_realm ap))"

definition acl_mask :: "sec_acl \<Rightarrow> permset" where
  "acl_mask ap = (case last_match (\<lambda>e. info e = Mask_obj) (entries ap) of None \<Rightarrow> max_permissions | Some e \<Rightarrow> perms e)"

fun is_user :: "bool \<Rightarrow> sec_id_pa \<Rightarrow> acl_entry \<Rightarrow> bool" where
  "is_user loc pa e = (case info e of User u \<Rightarrow> loc \<and> same_uuid (pa_principal pa) u | _ \<Rightarrow> False)"

fun is_foreign_user :: "sec_id_pa \<Rightarrow> acl_entry \<Rightarrow> bool" where
  "is_foreign_user pa e =
     (case info e of Foreign_user r u \<Rightarrow> same_uuid (pa_principal pa) u \<and> same_uuid (pa_realm pa) r | _ \<Rightarrow> False)"

fun is_foreign_other :: "sec_id_pa \<Rightarrow> acl_entry \<Rightarrow> bool" where
  "is_foreign_other pa e = (case info e of Foreign_other r \<Rightarrow> same_uuid (pa_realm pa) r | _ \<Rightarrow> False)"

text \<open>The caller is a member of group \<open>g\<close> of \<open>realm\<close>.\<close>

definition member :: "bool \<Rightarrow> sec_id_pa \<Rightarrow> uuid \<Rightarrow> uuid \<Rightarrow> bool" where
  "member loc pa realm g \<longleftrightarrow>
     (if loc then (\<exists>h \<in> set (pa_group pa # pa_groups pa). same_uuid h g)
      else (\<exists>fgs \<in> set (pa_foreign_groupsets pa). same_uuid (fst fgs) realm \<and> (\<exists>h \<in> set (snd fgs). same_uuid h g)))"

fun group_matches :: "bool \<Rightarrow> sec_id_pa \<Rightarrow> sec_acl \<Rightarrow> uuid \<Rightarrow> acl_entry \<Rightarrow> bool" where
  "group_matches loc pa ap grp e =
     (case info e of
        Group_obj \<Rightarrow> member loc pa (default_realm ap) grp
      | Group_obj_deleg \<Rightarrow> member loc pa (default_realm ap) grp
      | Group g \<Rightarrow> member loc pa (default_realm ap) g
      | Group_deleg g \<Rightarrow> member loc pa (default_realm ap) g
      | Foreign_group r g \<Rightarrow> member (same_uuid (pa_realm pa) r) pa r g
      | For_group_deleg r g \<Rightarrow> member (same_uuid (pa_realm pa) r) pa r g
      | _ \<Rightarrow> False)"

fun regular_group :: "acl_entry \<Rightarrow> bool" where
  "regular_group e = (case info e of Group_obj \<Rightarrow> True | Group _ \<Rightarrow> True | Foreign_group _ _ \<Rightarrow> True | _ \<Rightarrow> False)"

definition group_union :: "permset \<Rightarrow> acl_entry list \<Rightarrow> permset" where
  "group_union m es = foldr (\<lambda>e p. maskit e m OR p) es 0"

text \<open>
  The standard algorithm of the comment before the code, which applies to initiators: the first category with a
  match decides, through the mask where the category is masked, and the permissions of all matching groups are united.
  The entries for delegates are not part of it.
\<close>

definition documented_access :: "bool \<Rightarrow> sec_id_pa \<Rightarrow> sec_acl \<Rightarrow> uuid \<Rightarrow> uuid \<Rightarrow> permset" where
  "documented_access le pa ap own grp =
     (let loc = local_realm le pa ap; m = acl_mask ap; es = entries ap;
          gs = filter (\<lambda>e. regular_group e \<and> group_matches loc pa ap grp e) es
      in case last_match (\<lambda>e. info e = User_obj \<and> loc \<and> same_uuid own (pa_principal pa)) es of Some e \<Rightarrow> perms e | None \<Rightarrow>
         case last_match (is_user loc pa) es of Some e \<Rightarrow> maskit e m | None \<Rightarrow>
         case last_match (is_foreign_user pa) es of Some e \<Rightarrow> maskit e m | None \<Rightarrow>
         if gs \<noteq> [] then group_union m gs else
         case last_match (\<lambda>e. info e = Other_obj \<and> loc) es of Some e \<Rightarrow> maskit e m | None \<Rightarrow>
         case last_match (is_foreign_other pa) es of Some e \<Rightarrow> maskit e m | None \<Rightarrow>
         case last_match (\<lambda>e. info e = Any_other) es of Some e \<Rightarrow> maskit e m | None \<Rightarrow> 0)"

text \<open>
  What the code computes for an initiator: as documented, but once the ACL has a regular group entry, the group entries
  for delegates count like regular ones.
\<close>

definition acl_access :: "bool \<Rightarrow> sec_id_pa \<Rightarrow> sec_acl \<Rightarrow> uuid \<Rightarrow> uuid \<Rightarrow> permset" where
  "acl_access le pa ap own grp =
     (let loc = local_realm le pa ap; m = acl_mask ap; es = entries ap;
          gs = (if \<exists>e \<in> set es. regular_group e then filter (group_matches loc pa ap grp) es else [])
      in case last_match (\<lambda>e. info e = User_obj \<and> loc \<and> same_uuid own (pa_principal pa)) es of Some e \<Rightarrow> perms e | None \<Rightarrow>
         case last_match (is_user loc pa) es of Some e \<Rightarrow> maskit e m | None \<Rightarrow>
         case last_match (is_foreign_user pa) es of Some e \<Rightarrow> maskit e m | None \<Rightarrow>
         if gs \<noteq> [] then group_union m gs else
         case last_match (\<lambda>e. info e = Other_obj \<and> loc) es of Some e \<Rightarrow> maskit e m | None \<Rightarrow>
         case last_match (is_foreign_other pa) es of Some e \<Rightarrow> maskit e m | None \<Rightarrow>
         case last_match (\<lambda>e. info e = Any_other) es of Some e \<Rightarrow> maskit e m | None \<Rightarrow> 0)"

section \<open>The first pass\<close>

definition keep :: "(acl_entry \<Rightarrow> bool) \<Rightarrow> acl_entry \<Rightarrow> acl_entry option \<Rightarrow> acl_entry option" where
  "keep P e old = (if P e then Some e else old)"

lemma find_append_local: "find P (xs @ ys) = (case find P xs of None \<Rightarrow> find P ys | Some x \<Rightarrow> Some x)"
  by (induction xs) auto

lemma fold_keep: "fold (keep P) es old = (case last_match P es of None \<Rightarrow> old | Some e \<Rightarrow> Some e)"
  by (induction es arbitrary: old)
    (auto simp: keep_def last_match_def find_append_local split: option.split)

definition next_scan :: "bool \<Rightarrow> sec_id_pa \<Rightarrow> uuid \<Rightarrow> acl_entry \<Rightarrow> scan \<Rightarrow> scan" where
  "next_scan loc pa own ep c = the (scan_entry loc pa (Some own) ep c)"

lemma scan_entry_some: "scan_entry loc pa (Some own) ep c = Some (next_scan loc pa own ep c)"
  by (cases "info ep") (simp_all add: scan_entry_def next_scan_def)

lemma next_scan_fields:
  "user_obj_ep (next_scan loc pa own ep c) =
     keep (\<lambda>e. info e = User_obj \<and> loc \<and> same_uuid own (pa_principal pa)) ep (user_obj_ep c)"
  "user_ep (next_scan loc pa own ep c) = keep (is_user loc pa) ep (user_ep c)"
  "for_user_ep (next_scan loc pa own ep c) = keep (is_foreign_user pa) ep (for_user_ep c)"
  "other_obj_ep (next_scan loc pa own ep c) = keep (\<lambda>e. info e = Other_obj \<and> loc) ep (other_obj_ep c)"
  "for_other_ep (next_scan loc pa own ep c) = keep (is_foreign_other pa) ep (for_other_ep c)"
  "any_other_ep (next_scan loc pa own ep c) = keep (\<lambda>e. info e = Any_other) ep (any_other_ep c)"
  "mask_perms (next_scan loc pa own ep c) = (if info ep = Mask_obj then perms ep else mask_perms c)"
  "check_groups (next_scan loc pa own ep c) \<longleftrightarrow> check_groups c \<or> regular_group ep"
  by (cases "info ep"; simp add: next_scan_def scan_entry_def keep_def Let_def)+

lemma scan_entries_fold:
  "scan_entries False loc pa (Some own) es c = Inr (fold (next_scan loc pa own) es c)"
  by (induction es arbitrary: c) (simp_all add: scan_entry_some)

lemma fold_scan_fields:
  "user_obj_ep (fold (next_scan loc pa own) es c) =
     fold (keep (\<lambda>e. info e = User_obj \<and> loc \<and> same_uuid own (pa_principal pa))) es (user_obj_ep c)"
  "user_ep (fold (next_scan loc pa own) es c) = fold (keep (is_user loc pa)) es (user_ep c)"
  "for_user_ep (fold (next_scan loc pa own) es c) = fold (keep (is_foreign_user pa)) es (for_user_ep c)"
  "other_obj_ep (fold (next_scan loc pa own) es c) = fold (keep (\<lambda>e. info e = Other_obj \<and> loc)) es (other_obj_ep c)"
  "for_other_ep (fold (next_scan loc pa own) es c) = fold (keep (is_foreign_other pa)) es (for_other_ep c)"
  "any_other_ep (fold (next_scan loc pa own) es c) = fold (keep (\<lambda>e. info e = Any_other)) es (any_other_ep c)"
  "check_groups (fold (next_scan loc pa own) es c) \<longleftrightarrow> check_groups c \<or> (\<exists>e \<in> set es. regular_group e)"
  by (induction es arbitrary: c; simp add: next_scan_fields del: is_user.simps is_foreign_user.simps
      is_foreign_other.simps regular_group.simps; blast?)+

lemma fold_scan_mask:
  "mask_perms (fold (next_scan loc pa own) es c) =
     (case last_match (\<lambda>e. info e = Mask_obj) es of None \<Rightarrow> mask_perms c | Some e \<Rightarrow> perms e)"
  by (induction es arbitrary: c)
    (auto simp: next_scan_fields last_match_def find_append_local split: option.split)

section \<open>The groups\<close>

definition add_hit :: "bool \<Rightarrow> permset \<Rightarrow> groups \<Rightarrow> acl_status \<Rightarrow> groups" where
  "add_hit b p r st = (fst r \<or> b, if b then fst (snd r) OR p else fst (snd r), st)"

lemma add_hit_add_hit [simp]: "add_hit b p (add_hit c p r s) s' = add_hit (c \<or> b) p r s'"
  by (simp add: add_hit_def or.assoc)

lemma group_hit_add: "\<exists>st. group_hit u p h r = add_hit (same_uuid h u) p r st"
  by (cases r) (simp add: group_hit_def add_hit_def Let_def)

lemma fold_add_hit:
  assumes "\<And>x r. \<exists>st. f x r = add_hit (P x) p r st"
  shows "\<exists>st. fold f xs r = add_hit (\<exists>x \<in> set xs. P x) p r st"
proof (induction xs arbitrary: r)
  case Nil
  then show ?case by (cases r) (simp add: add_hit_def)
next
  case (Cons x xs)
  obtain s where s: "f x r = add_hit (P x) p r s" using assms by blast
  obtain s' where "fold f xs (add_hit (P x) p r s) = add_hit (\<exists>x \<in> set xs. P x) p (add_hit (P x) p r s) s'"
    using Cons.IH by blast
  then show ?case by (auto simp: s)
qed

lemma groupset_hit_add:
  "\<exists>st. groupset_hit realm u p g r = add_hit (same_uuid (fst g) realm \<and> (\<exists>h \<in> set (snd g). same_uuid h u)) p r st"
proof (cases "same_uuid (fst g) realm")
  case True
  obtain f a st where r: "r = (f, a, st)" by (cases r)
  obtain s where "fold (group_hit u p) (snd g) (f, a, same_st (fst g) realm) =
      add_hit (\<exists>h \<in> set (snd g). same_uuid h u) p (f, a, same_st (fst g) realm) s"
    using fold_add_hit [of "group_hit u p" "\<lambda>h. same_uuid h u", OF group_hit_add] by blast
  then show ?thesis using True by (simp add: groupset_hit_def r add_hit_def)
next
  case False
  then show ?thesis by (cases r) (simp add: groupset_hit_def add_hit_def)
qed

lemma check_entry_groups_add:
  "\<exists>st. check_entry_groups pa mp loc u realm ep r = add_hit (member loc pa realm u) (maskit ep mp) r st"
proof (cases loc)
  case True
  have "check_entry_groups pa mp loc u realm ep r = fold (group_hit u (maskit ep mp)) (pa_group pa # pa_groups pa) r"
    using True by (simp add: check_entry_groups_def)
  then show ?thesis
    using True fold_add_hit [of "group_hit u (maskit ep mp)" "\<lambda>h. same_uuid h u", OF group_hit_add]
    by (simp only: member_def if_True)
next
  case False
  then show ?thesis
    using fold_add_hit [of "groupset_hit realm u (maskit ep mp)"
        "\<lambda>g. same_uuid (fst g) realm \<and> (\<exists>h \<in> set (snd g). same_uuid h u)", OF groupset_hit_add]
    by (simp only: check_entry_groups_def member_def if_False)
qed

lemma group_entry_add:
  "\<exists>st. group_entry loc pa ap (Some grp) mp ep r = Some (add_hit (group_matches loc pa ap grp ep) (maskit ep mp) r st)"
proof -
  have foreign: "\<exists>st. check_entry_groups pa mp l u realm ep (case r of (f, a, s) \<Rightarrow> (f, a, x)) =
      add_hit (member l pa realm u) (maskit ep mp) r st" for l u realm x
    using check_entry_groups_add [of pa mp l u realm ep "case r of (f, a, s) \<Rightarrow> (f, a, x)"]
    by (cases r) (auto simp: add_hit_def)
  have "\<exists>st. r = add_hit False p r st" for p by (cases r) (simp add: add_hit_def)
  then show ?thesis
    using check_entry_groups_add foreign
    by (cases "info ep") (simp_all add: group_entry_def Let_def)
qed

lemma group_entries_result:
  "\<exists>st. group_entries loc pa ap (Some grp) mp es r =
     Some (fst r \<or> filter (group_matches loc pa ap grp) es \<noteq> [],
           fst (snd r) OR group_union mp (filter (group_matches loc pa ap grp) es), st)"
proof (induction es arbitrary: r)
  case Nil
  then show ?case by (cases r) (simp add: group_union_def)
next
  case (Cons e es)
  obtain s where s: "group_entry loc pa ap (Some grp) mp e r = Some (add_hit (group_matches loc pa ap grp e) (maskit e mp) r s)"
    using group_entry_add by blast
  show ?case using Cons.IH [of "add_hit (group_matches loc pa ap grp e) (maskit e mp) r s"]
    by (cases "group_matches loc pa ap grp e") (simp_all add: s group_union_def or.assoc add_hit_def del: group_matches.simps)
qed

lemma last_match_fold: "fold (keep P) es None = last_match P es"
  by (simp add: fold_keep split: option.split)

lemma permset_alg_initiator:
  "fst (dce_acl__permset_alg le False pa ap (Some own) (Some grp) um) = acl_access le pa ap own grp"
proof -
  let ?loc = "local_realm le pa ap"
  define st where "st = (if same_uuid (pa_realm pa) (default_realm ap) then same_st (pa_realm pa) (default_realm ap)
      else of_uuid_status (fst (uuid_is_nil le (default_realm ap))))"
  define c where "c = fold (next_scan ?loc pa own) (entries ap) (scan_0 um st)"
  note f = fold_scan_fields [of ?loc pa own "entries ap" "scan_0 um st", folded c_def, simplified scan_0_def scan.simps last_match_fold]
  have m: "mask_perms c = acl_mask ap"
    by (simp add: c_def fold_scan_mask acl_mask_def scan_0_def split: option.split)
  obtain s where g: "group_entries ?loc pa ap (Some grp) (mask_perms c) (entries ap) (False, no_permissions, status c) =
     Some (filter (group_matches ?loc pa ap grp) (entries ap) \<noteq> [],
           group_union (mask_perms c) (filter (group_matches ?loc pa ap grp) (entries ap)), s)"
    using group_entries_result [of ?loc pa ap grp "mask_perms c" "entries ap" "(False, no_permissions, status c)"]
    by (auto simp: no_permissions_def simp del: group_matches.simps)
  have scan: "scan_entries False ?loc pa (Some own) (entries ap) (scan_0 um st) = Inr c"
    by (simp add: scan_entries_fold c_def)
  show ?thesis
    unfolding dce_acl__permset_alg_def acl_access_def local_realm_def [symmetric] st_def [symmetric] Let_def scan sum.case
    by (cases "\<exists>e \<in> set (entries ap). regular_group e"; cases "filter (group_matches ?loc pa ap grp) (entries ap) = []")
      (simp_all only: f m [symmetric] g [unfolded no_permissions_def] check_pair_def no_permissions_def Let_def, simp_all
        del: is_user.simps is_foreign_user.simps is_foreign_other.simps regular_group.simps group_matches.simps
        filter_empty_conv split: option.split)
qed

section \<open>What is granted\<close>

text \<open>The case in which the code departs from the documentation: a group entry for delegates that the initiator matches.\<close>

definition delegate_group_counts :: "bool \<Rightarrow> sec_id_pa \<Rightarrow> sec_acl \<Rightarrow> uuid \<Rightarrow> bool" where
  "delegate_group_counts le pa ap grp \<longleftrightarrow> (\<exists>e \<in> set (entries ap). regular_group e) \<and>
     (\<exists>e \<in> set (entries ap). \<not> regular_group e \<and> group_matches (local_realm le pa ap) pa ap grp e)"

lemma counted_groups:
  assumes "\<not> ((\<exists>e \<in> set es. R e) \<and> (\<exists>e \<in> set es. \<not> R e \<and> P e))"
  shows "(if \<exists>e \<in> set es. R e then filter P es else []) = filter (\<lambda>e. R e \<and> P e) es"
  using assms by (auto intro: filter_cong)

lemma access_documented:
  assumes "\<not> delegate_group_counts le pa ap grp"
  shows "acl_access le pa ap own grp = documented_access le pa ap own grp"
  unfolding acl_access_def documented_access_def Let_def
    counted_groups [OF assms [unfolded delegate_group_counts_def]] by (rule refl)

text \<open>C7.
  For an initiator, the two passes compute what the comments document: the first category with a matching entry
  decides, through the mask where the category is masked, and groups are united.  One case is excluded, in which the
  code departs from its documentation (\<open>group_deleg_grants_initiator\<close> below): an ACL with a regular group
  entry and a group entry for delegates that matches the initiator.\<close>

theorem permset_alg_access:
  assumes "\<not> delegate_group_counts le pa ap grp"
  shows "fst (dce_acl__permset_alg le False pa ap (Some own) (Some grp) um) = documented_access le pa ap own grp"
  using permset_alg_initiator access_documented [OF assms] by simp

lemma last_match_Some: "last_match P es = Some e \<Longrightarrow> e \<in> set es \<and> P e"
  unfolding last_match_def by (metis find_Some_iff nth_mem set_rev)

lemma group_union_masked:
  "(\<And>e. e \<in> set es \<Longrightarrow> maskit e m AND NOT m = 0) \<Longrightarrow> group_union m es AND NOT m = 0"
  by (induction es) (simp_all add: group_union_def bit.conj_disj_distrib2)

lemma maskit_masked:
  "info e \<noteq> User_obj \<Longrightarrow> info e \<noteq> User_obj_deleg \<Longrightarrow> info e \<noteq> Other_obj \<Longrightarrow> info e \<noteq> Other_obj_deleg \<Longrightarrow>
    info e \<noteq> Mask_obj \<Longrightarrow> info e \<noteq> Unauthenticated \<Longrightarrow> maskit e m AND NOT m = 0"
  by (cases "info e") (simp_all add: maskit_def and.assoc)

text \<open>C36.
  A caller from another cell never gets a permission that the ACL's mask entry does not have.\<close>

theorem foreign_caller_masked:
  assumes "\<not> local_realm le pa ap"
  shows "fst (dce_acl__permset_alg le False pa ap (Some own) (Some grp) um) AND NOT (acl_mask ap) = 0"
proof -
  let ?m = "acl_mask ap"
  have u: "maskit e ?m AND NOT ?m = 0" if "last_match (is_user loc pa) es = Some e" for loc es e
    using last_match_Some [OF that] by (intro maskit_masked) (auto split: entry_info.splits)
  have fu: "maskit e ?m AND NOT ?m = 0" if "last_match (is_foreign_user pa) es = Some e" for es e
    using last_match_Some [OF that] by (intro maskit_masked) (auto split: entry_info.splits)
  have fo: "maskit e ?m AND NOT ?m = 0" if "last_match (is_foreign_other pa) es = Some e" for es e
    using last_match_Some [OF that] by (intro maskit_masked) (auto split: entry_info.splits)
  have ao: "maskit e ?m AND NOT ?m = 0" if "last_match (\<lambda>e. info e = Any_other) es = Some e" for es e
    using last_match_Some [OF that] by (intro maskit_masked) auto
  have gu: "group_union ?m (filter (group_matches loc pa ap grp) es) AND NOT ?m = 0" for loc es
    by (intro group_union_masked maskit_masked) (auto split: entry_info.splits)
  have none: "last_match (\<lambda>e. False) es = None" for es
    by (simp add: last_match_def find_None_iff)
  show ?thesis
    unfolding permset_alg_initiator acl_access_def Let_def using assms
    by (simp add: none u fu fo ao gu split: option.split del: is_user.simps is_foreign_user.simps
        is_foreign_other.simps group_matches.simps regular_group.simps)
qed

text \<open>Callers without credentials get what \<open>any_other\<close>, the mask and \<open>unauthenticated\<close> all grant, and
  nothing when one of the two entries is missing.\<close>

theorem unauthenticated_perms:
  "dce_acl__inq_unauthen_perms ap =
    (case (last_match (\<lambda>e. info e = Any_other) (entries ap), last_match (\<lambda>e. info e = Unauthenticated) (entries ap)) of
       (Some a, Some u) \<Rightarrow> perms a AND acl_mask ap AND perms u | _ \<Rightarrow> 0)"
proof -
  have "unauthen_scan es (a, u, m) =
      (case last_match (\<lambda>e. info e = Any_other) es of None \<Rightarrow> a | Some e \<Rightarrow> Some e,
       case last_match (\<lambda>e. info e = Unauthenticated) es of None \<Rightarrow> u | Some e \<Rightarrow> Some e,
       case last_match (\<lambda>e. info e = Mask_obj) es of None \<Rightarrow> m | Some e \<Rightarrow> perms e)" for es a u m
    by (induction es arbitrary: a u m)
      (auto simp: last_match_def find_append_local split: option.split entry_info.split)
  then have *: "unauthen_scan (entries ap) (None, None, max_permissions) =
      (last_match (\<lambda>e. info e = Any_other) (entries ap), last_match (\<lambda>e. info e = Unauthenticated) (entries ap), acl_mask ap)"
    by (auto simp: acl_mask_def split: option.split)
  have "maskit e (acl_mask ap) = perms e AND acl_mask ap"
    if "last_match (\<lambda>e. info e = Any_other) (entries ap) = Some e" for e
    using last_match_Some [OF that] by (simp add: maskit_def)
  then show ?thesis
    unfolding dce_acl__inq_unauthen_perms_def *
    by (auto simp: no_permissions_def and.assoc split: option.split)
qed

text \<open>C10.
  Delegates and the authentication flag never matter: the test after the initiator's check is on the
  address of the status, so the answer is the initiator's, whatever the rest of the credentials.\<close>

theorem delegates_ignored:
  assumes "st_addr \<noteq> 0" and "cr_initiator cr = Acl_ok" and "cr_initiator_pa cr = (Acl_ok, pa)"
  shows "dce_acl_inq_permset_for_creds le st_addr (Some (cr\<lparr>cr_auth := auth, cr_delegates := ds\<rparr>)) ap (Some own) (Some grp) =
    Some (snd (snd (dce_acl__permset_alg le False pa ap (Some own) (Some grp) no_permissions)), acl_access le pa ap own grp)"
  using assms permset_alg_initiator [of le pa ap own grp no_permissions]
  by (cases "dce_acl__permset_alg le False pa ap (Some own) (Some grp) no_permissions")
    (simp add: dce_acl_inq_permset_for_creds_def)





section \<open>Witnesses\<close>

definition demo_uuid :: "u32 \<Rightarrow> uuid" where
  "demo_uuid n = Uuid n 0 0x1000 0x80 0 (Uuid_node 8 0 43 0 0 1)"

definition demo_pa :: "u32 \<Rightarrow> u32 \<Rightarrow> u32 list \<Rightarrow> sec_id_pa" where
  "demo_pa r u gs = \<lparr>pa_realm = demo_uuid r, pa_principal = demo_uuid u, pa_group = demo_uuid 99,
     pa_groups = map demo_uuid gs, pa_foreign_groupsets = []\<rparr>"

definition demo_acl :: "acl_entry list \<Rightarrow> sec_acl" where
  "demo_acl es = \<lparr>default_realm = demo_uuid 1, manager_type = demo_uuid 50, entries = es\<rparr>"

definition demo_creds :: "sec_id_pa \<Rightarrow> sec_creds" where
  "demo_creds pa = \<lparr>cr_initiator = Acl_ok, cr_initiator_pa = (Acl_ok, pa), cr_auth = True, cr_cursor = Acl_ok, cr_delegates = []\<rparr>"

lemma same_demo [simp]: "same_uuid (demo_uuid a) (demo_uuid b) \<longleftrightarrow> a = b"
  by (simp add: same_uuid_def uuid_equal_def check_structure_def demo_uuid_def)

lemma demo_not_nil [simp]: "\<not> snd (uuid_is_nil le (demo_uuid a))"
  by (simp add: uuid_is_nil_iff demo_uuid_def check_structure_def uuid_g_nil_uuid_def)

lemma permset_alg_access_witness:
  "fst (dce_acl__permset_alg True False (demo_pa 1 10 [20, 23])
     (demo_acl [\<lparr>perms = 7, info = Group (demo_uuid 20)\<rparr>, \<lparr>perms = 32, info = Group_deleg (demo_uuid 21)\<rparr>,
        \<lparr>perms = 24, info = Group (demo_uuid 23)\<rparr>, \<lparr>perms = 11, info = Mask_obj\<rparr>, \<lparr>perms = 1, info = Any_other\<rparr>])
     (Some (demo_uuid 11)) (Some (demo_uuid 22)) 0) = 11"
  by (subst permset_alg_access)
    (simp_all add: delegate_group_counts_def documented_access_def demo_acl_def demo_pa_def local_realm_def last_match_def
      member_def group_union_def maskit_def acl_mask_def Let_def)


lemma foreign_caller_masked_witness:
  "fst (dce_acl__permset_alg True False (demo_pa 2 10 [21])
     (demo_acl [\<lparr>perms = 1, info = Mask_obj\<rparr>, \<lparr>perms = 7, info = Foreign_user (demo_uuid 2) (demo_uuid 10)\<rparr>])
     (Some (demo_uuid 11)) (Some (demo_uuid 22)) 0) AND NOT 1 = 0"
  using foreign_caller_masked [of True "demo_pa 2 10 [21]"
      "demo_acl [\<lparr>perms = 1, info = Mask_obj\<rparr>, \<lparr>perms = 7, info = Foreign_user (demo_uuid 2) (demo_uuid 10)\<rparr>]"
      "demo_uuid 11" "demo_uuid 22" 0]
  by (simp add: local_realm_def demo_pa_def demo_acl_def acl_mask_def last_match_def)

lemma delegates_ignored_witness:
  "\<exists>st. dce_acl_inq_permset_for_creds True 4096
     (Some ((demo_creds (demo_pa 1 10 []))\<lparr>cr_auth := False, cr_delegates := [(Acl_ok, Acl_ok, demo_pa 1 30 [])]\<rparr>))
     (demo_acl [\<lparr>perms = 7, info = User (demo_uuid 10)\<rparr>]) (Some (demo_uuid 11)) (Some (demo_uuid 22)) = Some (st, 7)"
  by (subst delegates_ignored [where pa = "demo_pa 1 10 []"])
    (simp_all add: demo_creds_def acl_access_def demo_acl_def demo_pa_def local_realm_def last_match_def maskit_def
      acl_mask_def max_permissions_def Let_def)



end
