(* ===== verification/Cn_Sm.thy ===== *)
theory Cn_Sm
  imports Prelude
begin

text \<open>
  The state machine engine of the connection protocol: \<^verbatim>\<open>rpc/runtime/cnsm.c\<close>, the control block of
  \<^verbatim>\<open>cnp.h\<close> and the macro \<^verbatim>\<open>RPC_CN_SM_GET_NEXT_EVENT\<close> of \<^verbatim>\<open>cnsm.h\<close>.

  \<^item> \<open>cn_ctlblk\<close> is \<^verbatim>\<open>rpc_cn_sm_ctlblk_t\<close>.  Its two table pointers are arguments of the engine here (a
    record cannot hold functions over itself); \<open>tbl_id\<close> says which tables they are.
  \<^item> An action routine gets the special structure \<open>'s\<close>, the event parameter \<open>'p\<close> and the control block,
    and gives back its status with both, or \<^const>\<open>None\<close>: the call does not return (abort, wild access).
  \<^item> The loop of \<open>rpc__cn_sm_eval_event\<close> ends when no event is pending; it is a \<open>partial_function\<close>, since
    action routines may insert events for ever.  For action routines that insert none (\<open>cn_machine\<close>)
    it does exactly one step.
\<close>

section \<open>The control block and its event list\<close>

record 'p cn_ctlblk =
  cur_state :: u8
  cur_event :: u8
  action_status :: u32
  event_list_hindex :: u8
  event_list_tindex :: u8
  event_list_state :: u8
  event_list :: "(u8 \<times> 'p) list"
  tbl_id :: u32

type_synonym ('s, 'p) cn_action = "'s \<Rightarrow> 'p \<Rightarrow> 'p cn_ctlblk \<Rightarrow> (u32 \<times> 's \<times> 'p cn_ctlblk) option"

definition RPC_C_CN_STATEBASE :: nat where
  "RPC_C_CN_STATEBASE = 100"

definition RPC_C_SM_CLOSED_STATE :: u8 where
  "RPC_C_SM_CLOSED_STATE = 100"

definition RPC_C_CN_SM_EVENT_LIST_EMPTY :: u8 where
  "RPC_C_CN_SM_EVENT_LIST_EMPTY = 0"

definition rpc__cn_sm_init_event_list :: "'p cn_ctlblk \<Rightarrow> 'p cn_ctlblk" where
  "rpc__cn_sm_init_event_list sm =
     sm\<lparr>event_list_state := RPC_C_CN_SM_EVENT_LIST_EMPTY, event_list_hindex := 0, event_list_tindex := 0\<rparr>"

definition rpc__cn_sm_init :: "u32 \<Rightarrow> 'p cn_ctlblk \<Rightarrow> 'p cn_ctlblk" where
  "rpc__cn_sm_init tbl sm =
     rpc__cn_sm_init_event_list (sm\<lparr>cur_state := RPC_C_SM_CLOSED_STATE, tbl_id := tbl\<rparr>)"

definition rpc__cn_sm_insert_event :: "u8 \<times> 'p \<Rightarrow> 'p cn_ctlblk \<Rightarrow> 'p cn_ctlblk" where
  "rpc__cn_sm_insert_event event sm =
     sm\<lparr>event_list := (event_list sm)[unat (event_list_tindex sm) := event],
        event_list_tindex := (event_list_tindex sm + 1) AND 1,
        event_list_state := NOT RPC_C_CN_SM_EVENT_LIST_EMPTY\<rparr>"

definition cn_sm_get_next_event :: "'p cn_ctlblk \<Rightarrow> (u8 \<times> 'p) option \<times> 'p cn_ctlblk" where
  "cn_sm_get_next_event sm =
     (if event_list_state sm = RPC_C_CN_SM_EVENT_LIST_EMPTY then (None, sm)
      else
        let e = event_list sm ! unat (event_list_hindex sm);
            h = (event_list_hindex sm + 1) AND 1
        in (Some e,
            sm\<lparr>event_list_hindex := h,
               event_list_state := (if h = event_list_tindex sm then RPC_C_CN_SM_EVENT_LIST_EMPTY
                                    else event_list_state sm)\<rparr>))"

section \<open>The engine\<close>

definition state_entry :: "u8 list list \<Rightarrow> u8 \<Rightarrow> u8 \<Rightarrow> u8 option" where
  "state_entry states s e =
     (let i = int (unat s) - int RPC_C_CN_STATEBASE; j = int (unat e) - int RPC_C_CN_STATEBASE
      in if 0 \<le> i \<and> i < int (length states) \<and> 0 \<le> j \<and> j < int (length (states ! nat i))
         then Some (states ! nat i ! nat j) else None)"

definition take_action ::
  "u8 list list \<Rightarrow> ('s, 'p) cn_action list \<Rightarrow> u8 \<times> 'p \<Rightarrow> 's \<Rightarrow> 'p cn_ctlblk \<Rightarrow> ('s \<times> 'p cn_ctlblk) option" where
  "take_action states actions ev s sm =
     (case state_entry states (cur_state sm) (fst ev) of
        None \<Rightarrow> None
      | Some action_index \<Rightarrow>
          if RPC_C_CN_STATEBASE \<le> unat action_index then Some (s, sm\<lparr>cur_state := action_index\<rparr>)
          else if unat action_index < length actions then
            (case (actions ! unat action_index) s (snd ev) (sm\<lparr>cur_event := fst ev\<rparr>) of
               None \<Rightarrow> None
             | Some (status, s', sm') \<Rightarrow> Some (s', sm'\<lparr>action_status := status\<rparr>))
          else None)"

partial_function (option) eval_loop ::
  "u8 list list \<Rightarrow> ('s, 'p) cn_action list \<Rightarrow> u8 \<times> 'p \<Rightarrow> 's \<Rightarrow> 'p cn_ctlblk
     \<Rightarrow> (u32 \<times> 's \<times> 'p cn_ctlblk) option" where
  "eval_loop states actions ev s sm =
     Option.bind (take_action states actions ev s sm) (\<lambda>(s1, sm1).
       case cn_sm_get_next_event sm1 of
         (None, sm2) \<Rightarrow> Some (action_status sm2, s1, sm2)
       | (Some ev', sm2) \<Rightarrow> eval_loop states actions ev' s1 sm2)"

definition rpc__cn_sm_eval_event ::
  "u8 list list \<Rightarrow> ('s, 'p) cn_action list \<Rightarrow> u32 \<Rightarrow> 'p \<Rightarrow> 's \<Rightarrow> 'p cn_ctlblk
     \<Rightarrow> (u32 \<times> 's \<times> 'p cn_ctlblk) option" where
  "rpc__cn_sm_eval_event states actions event_id event_parameter spc_struct sm =
     eval_loop states actions (ucast event_id, event_parameter) spc_struct (sm\<lparr>action_status := 0\<rparr>)"

section \<open>The event list is a queue of at most two events\<close>

text \<open>A queue with a bound: what the engine and the action routines rely on.\<close>

locale bounded_queue =
  fixes inv :: "'q \<Rightarrow> bool" and abs :: "'q \<Rightarrow> 'e list" and cap :: nat
    and put :: "'e \<Rightarrow> 'q \<Rightarrow> 'q" and get :: "'q \<Rightarrow> 'e option \<times> 'q"
  assumes put_inv: "inv q \<Longrightarrow> length (abs q) < cap \<Longrightarrow> inv (put e q)"
    and put_abs: "inv q \<Longrightarrow> length (abs q) < cap \<Longrightarrow> abs (put e q) = abs q @ [e]"
    and get_nil: "inv q \<Longrightarrow> abs q = [] \<Longrightarrow> get q = (None, q)"
    and get_cons: "inv q \<Longrightarrow> abs q = e # es \<Longrightarrow> \<exists>q'. get q = (Some e, q') \<and> inv q' \<and> abs q' = es"
begin

fun puts :: "'e list \<Rightarrow> 'q \<Rightarrow> 'q" where
  "puts [] q = q"
| "puts (e # es) q = puts es (put e q)"

fun gets :: "nat \<Rightarrow> 'q \<Rightarrow> 'e list \<times> 'q" where
  "gets 0 q = ([], q)"
| "gets (Suc n) q =
     (case get q of (None, q') \<Rightarrow> ([], q') | (Some e, q') \<Rightarrow> (let (es, q'') = gets n q' in (e # es, q'')))"

lemma puts_abs:
  "inv q \<Longrightarrow> length (abs q) + length es \<le> cap \<Longrightarrow> inv (puts es q) \<and> abs (puts es q) = abs q @ es"
  by (induction es arbitrary: q) (auto simp: put_inv put_abs)

lemma gets_abs:
  "inv q \<Longrightarrow> n \<le> length (abs q) \<Longrightarrow>
     fst (gets n q) = take n (abs q) \<and> inv (snd (gets n q)) \<and> abs (snd (gets n q)) = drop n (abs q)"
proof (induction n arbitrary: q)
  case 0
  then show ?case by simp
next
  case (Suc n)
  then obtain e es where es: "abs q = e # es" by (cases "abs q") auto
  then obtain q' where q': "get q = (Some e, q')" "inv q'" "abs q' = es"
    using get_cons Suc.prems by blast
  show ?case using Suc.IH[OF q'(2)] Suc.prems(2) q' es by (simp add: case_prod_beta Let_def)
qed

lemma fifo:
  assumes "inv q" and "length (abs q) + length es \<le> cap"
  shows "fst (gets (length (abs q) + length es) (puts es q)) = abs q @ es"
  using assms puts_abs[OF assms] gets_abs[of "puts es q" "length (abs q) + length es"] by simp

end

definition ring_ok :: "'p cn_ctlblk \<Rightarrow> bool" where
  "ring_ok sm \<longleftrightarrow> length (event_list sm) = 2 \<and> event_list_hindex sm \<in> {0, 1} \<and> event_list_tindex sm \<in> {0, 1}
     \<and> (event_list_state sm = 0 \<longrightarrow> event_list_hindex sm = event_list_tindex sm)
     \<and> event_list_state sm \<in> {0, 255}"

definition ring_events :: "'p cn_ctlblk \<Rightarrow> (u8 \<times> 'p) list" where
  "ring_events sm =
     (if event_list_state sm = 0 then []
      else if event_list_hindex sm = event_list_tindex sm
        then [event_list sm ! unat (event_list_hindex sm), event_list sm ! (1 - unat (event_list_hindex sm))]
      else [event_list sm ! unat (event_list_hindex sm)])"

lemmas ring_defs = ring_ok_def ring_events_def rpc__cn_sm_insert_event_def cn_sm_get_next_event_def
  RPC_C_CN_SM_EVENT_LIST_EMPTY_def

lemma ring_put:
  assumes "ring_ok q" and "length (ring_events q) < 2"
  shows "ring_ok (rpc__cn_sm_insert_event e q)"
    and "ring_events (rpc__cn_sm_insert_event e q) = ring_events q @ [e]"
  using assms by (auto simp: ring_defs nth_list_update split: if_splits)

lemma ring_get:
  assumes "ring_ok q" and "ring_events q = e # es"
  shows "\<exists>q'. cn_sm_get_next_event q = (Some e, q') \<and> ring_ok q' \<and> ring_events q' = es"
  using assms by (auto simp: ring_defs Let_def split: if_splits)

interpretation ring: bounded_queue ring_ok ring_events 2 rpc__cn_sm_insert_event cn_sm_get_next_event
proof
  show "cn_sm_get_next_event q = (None, q)" if "ring_ok q" "ring_events q = []" for q :: "'a cn_ctlblk"
    using that by (auto simp: ring_defs split: if_splits)
qed (simp_all add: ring_put ring_get)

section \<open>Machines whose action routines insert no events\<close>

locale cn_machine =
  fixes states :: "u8 list list" and actions :: "('s, 'p) cn_action list"
  assumes quiet: "a \<in> set actions \<Longrightarrow> event_list_state sm = 0 \<Longrightarrow> a s p sm = Some (v, s', sm')
    \<Longrightarrow> event_list_state sm' = 0"
begin

lemma take_action_quiet:
  assumes "take_action states actions ev s sm = Some (s', sm')" and "event_list_state sm = 0"
  shows "event_list_state sm' = 0"
  using assms by (auto simp: take_action_def split: option.splits if_splits dest!: quiet[rotated 2])

lemma eval_event_one_step:
  assumes "event_list_state sm = 0"
  shows "rpc__cn_sm_eval_event states actions e p s sm =
    map_option (\<lambda>(s', sm'). (action_status sm', s', sm')) (take_action states actions (ucast e, p) s (sm\<lparr>action_status := 0\<rparr>))"
proof (cases "take_action states actions (ucast e, p) s (sm\<lparr>action_status := 0\<rparr>)")
  case None
  then show ?thesis by (simp add: rpc__cn_sm_eval_event_def eval_loop.simps)
next
  case (Some r)
  obtain s' sm' where r: "r = (s', sm')" by (cases r)
  with Some assms have "event_list_state sm' = 0" by (auto dest: take_action_quiet)
  with Some r show ?thesis
    by (simp add: rpc__cn_sm_eval_event_def eval_loop.simps cn_sm_get_next_event_def
        RPC_C_CN_SM_EVENT_LIST_EMPTY_def)
qed

end

end
