(* ===== verification/Cn_Grp.thy ===== *)
theory Cn_Grp
  imports Cn_Sm
begin

text \<open>
  Association groups of the connection protocol: \<^verbatim>\<open>rpc/runtime/cncasgsm.c\<close> and \<^verbatim>\<open>cnsasgsm.c\<close> (the two
  state machines), the group functions of \<^verbatim>\<open>cnassoc.c\<close>, the liveness functions of \<^verbatim>\<open>cnnet.c\<close> and the
  local identifiers of \<^verbatim>\<open>cnid.c\<close>, \<^verbatim>\<open>cnid.h\<close>.

  \<^item> A pointer to an association is a number (\<^const>\<open>None\<close> for \<^verbatim>\<open>NULL\<close> where the code passes it); the fields
    of associations and call reps that the code uses are functions of it in the state \<open>cn_world\<close>.
  \<^item> A pointer to a group is an index into the group vector; an access outside the vector, or through
    \<^verbatim>\<open>NULL\<close>, gives \<^const>\<open>None\<close>: it has no defined result.  So does an illegal transition, which aborts.
  \<^item> \<open>rundowns\<close> lists the calls of the liveness routines, in order; the routines are the application's.
  \<^item> An address is of type \<open>'a\<close>; \<open>addr_copy\<close> and \<open>addr_compare\<close> are the routines of its network family,
    called through \<^verbatim>\<open>comnaf.c\<close>.  \<open>id.all\<close> and \<open>id.parts\<close> of the identifiers are one value.
\<close>

section \<open>Local identifiers\<close>

record cn_local_id =
  id_seqnum :: u16
  id_index :: u16

definition id_clear :: cn_local_id where
  "id_clear = \<lparr>id_seqnum = 0, id_index = 0\<rparr>"

definition id_valid :: "cn_local_id \<Rightarrow> bool" where
  "id_valid i \<longleftrightarrow> id_seqnum i \<noteq> 0"

definition id_equal :: "cn_local_id \<Rightarrow> cn_local_id \<Rightarrow> bool" where
  "id_equal i j \<longleftrightarrow> id_seqnum i = id_seqnum j \<and> id_index i = id_index j"

definition rpc__cn_init_seqnum :: "u32 \<Rightarrow> u16" where
  "rpc__cn_init_seqnum time = ucast (time AND 0xffff)"

definition rpc__cn_gen_local_id :: "u32 \<Rightarrow> u16 \<Rightarrow> cn_local_id \<times> u16" where
  "rpc__cn_gen_local_id index seqnum =
     (let n = seqnum + 1; n = (if n = 0 then 1 else n)
      in (\<lparr>id_seqnum = n, id_index = ucast index\<rparr>, n))"

section \<open>The group, the table and the associations\<close>

definition RPC_C_CN_ASSOC_GRP_CLIENT :: u32 where "RPC_C_CN_ASSOC_GRP_CLIENT = 1"
definition RPC_C_CN_ASSOC_GRP_SERVER :: u32 where "RPC_C_CN_ASSOC_GRP_SERVER = 2"

definition rpc_s_no_memory :: u32 where "rpc_s_no_memory = 0x16c9a012"
definition rpc_s_assoc_grp_not_found :: u32 where "rpc_s_assoc_grp_not_found = 0x16c9a038"
definition rpc_s_assoc_grp_max_exceeded :: u32 where "rpc_s_assoc_grp_max_exceeded = 0x16c9a052"

text \<open>The events and the states of the group machines.\<close>

definition RPC_C_ASSOC_GRP_NEW :: u32 where "RPC_C_ASSOC_GRP_NEW = 100"
definition RPC_C_ASSOC_GRP_ADD_ASSOC :: u32 where "RPC_C_ASSOC_GRP_ADD_ASSOC = 101"
definition RPC_C_ASSOC_GRP_REM_ASSOC :: u32 where "RPC_C_ASSOC_GRP_REM_ASSOC = 102"
definition RPC_C_ASSOC_GRP_NO_CALLS_IND :: u32 where "RPC_C_ASSOC_GRP_NO_CALLS_IND = 103"

definition RPC_C_ASSOC_GRP_CLOSED :: u8 where "RPC_C_ASSOC_GRP_CLOSED = 100"
definition RPC_C_ASSOC_GRP_OPEN :: u8 where "RPC_C_ASSOC_GRP_OPEN = 101"
definition RPC_C_ASSOC_GRP_ACTIVE :: u8 where "RPC_C_ASSOC_GRP_ACTIVE = 102"
definition RPC_C_SERVER_ASSOC_GRP_CALL_WAIT :: u8 where "RPC_C_SERVER_ASSOC_GRP_CALL_WAIT = 103"

definition rpc_c_cn_svr_a_g :: u32 where "rpc_c_cn_svr_a_g = 5"
definition rpc_c_cn_cl_a_g :: u32 where "rpc_c_cn_cl_a_g = 6"

lemmas cn_consts = RPC_C_CN_STATEBASE_def RPC_C_SM_CLOSED_STATE_def RPC_C_CN_SM_EVENT_LIST_EMPTY_def
  RPC_C_CN_ASSOC_GRP_CLIENT_def RPC_C_CN_ASSOC_GRP_SERVER_def
  RPC_C_ASSOC_GRP_NEW_def RPC_C_ASSOC_GRP_ADD_ASSOC_def RPC_C_ASSOC_GRP_REM_ASSOC_def
  RPC_C_ASSOC_GRP_NO_CALLS_IND_def RPC_C_ASSOC_GRP_CLOSED_def RPC_C_ASSOC_GRP_OPEN_def
  RPC_C_ASSOC_GRP_ACTIVE_def RPC_C_SERVER_ASSOC_GRP_CALL_WAIT_def rpc_c_cn_svr_a_g_def rpc_c_cn_cl_a_g_def

record 'a cn_grp =
  grp_state :: "nat option cn_ctlblk"
  grp_status :: u32
  grp_flags :: u16
  grp_refcnt :: u16
  grp_address :: "'a option"
  grp_secaddr :: "'a option"
  grp_id :: cn_local_id
  grp_max_assoc :: u16
  grp_cur_assoc :: u16
  grp_assoc_waiters :: u16
  grp_assoc_list :: "nat list"
  grp_callcnt :: u16
  grp_liveness_mntr :: "nat option"
  grp_remid :: cn_local_id
  grp_next_key_id :: u32

record 'a cn_world =
  seqnum :: u16
  grp_count :: u16
  grp_active_count :: u16
  assoc_grp_vector :: "'a cn_grp list"
  assoc_grp_id :: "nat \<Rightarrow> cn_local_id"
  assoc_flags :: "nat \<Rightarrow> u32"
  assoc_call_rep :: "nat \<Rightarrow> nat option"
  call_rep_assoc :: "nat \<Rightarrow> nat option"
  rundowns :: "(nat \<times> cn_local_id) list"

text \<open>What an action routine reaches: the group it is given and the rest of the state.\<close>

type_synonym 'a cn_spc = "'a cn_grp \<times> 'a cn_world"

definition clear_assoc_grp_id :: "nat \<Rightarrow> 'a cn_world \<Rightarrow> 'a cn_world" where
  "clear_assoc_grp_id a w = w\<lparr>assoc_grp_id := (assoc_grp_id w)(a := id_clear)\<rparr>"

section \<open>The client group state machine\<close>

definition rpc__cn_grp_sm_protocol_error :: "('a cn_spc, nat option) cn_action" where
  "rpc__cn_grp_sm_protocol_error spc event_param sm = None"

definition client_incr_assoc_count_action_rtn :: "('a cn_spc, nat option) cn_action" where
  "client_incr_assoc_count_action_rtn spc event_param sm =
     (case (spc, event_param) of
        (_, None) \<Rightarrow> None
      | ((g, w), Some assoc) \<Rightarrow>
          let g = g\<lparr>grp_cur_assoc := grp_cur_assoc g + 1, grp_assoc_list := assoc # grp_assoc_list g\<rparr>
          in Some (grp_status g, (g, w), sm\<lparr>cur_state := RPC_C_ASSOC_GRP_ACTIVE\<rparr>))"

definition client_decr_assoc_count_action_rtn :: "('a cn_spc, nat option) cn_action" where
  "client_decr_assoc_count_action_rtn spc event_param sm =
     (case (spc, event_param) of
        (_, None) \<Rightarrow> None
      | ((g, w), Some assoc) \<Rightarrow>
          let sm = sm\<lparr>cur_state := if grp_cur_assoc g = 1 then RPC_C_ASSOC_GRP_CLOSED
                                   else RPC_C_ASSOC_GRP_ACTIVE\<rparr>;
              w = clear_assoc_grp_id assoc w
          in if assoc \<notin> set (grp_assoc_list g) then None
             else
               let g = g\<lparr>grp_cur_assoc := grp_cur_assoc g - 1,
                         grp_assoc_list := remove1 assoc (grp_assoc_list g)\<rparr>
               in Some (grp_status g, (g, w), sm))"

definition rpc_g_cn_client_grp_action_tbl :: "('a cn_spc, nat option) cn_action list" where
  "rpc_g_cn_client_grp_action_tbl =
     [client_incr_assoc_count_action_rtn, client_decr_assoc_count_action_rtn, rpc__cn_grp_sm_protocol_error]"

definition rpc_g_cn_client_grp_sm :: "u8 list list" where
  "rpc_g_cn_client_grp_sm =
     [[RPC_C_ASSOC_GRP_OPEN, 2, 2],
      [2, 0, 2],
      [2, 0, 1]]"

section \<open>The server group state machine\<close>

definition server_assoc_count_pred :: "'a cn_grp \<Rightarrow> nat" where
  "server_assoc_count_pred g =
     (if grp_cur_assoc g = 1 then (if grp_refcnt g = 0 then 1 else 2) else 0)"

definition create_group_id_action_rtn :: "('a cn_spc, nat option) cn_action" where
  "create_group_id_action_rtn spc event_param sm =
     Some (grp_status (fst spc), spc, sm\<lparr>cur_state := RPC_C_ASSOC_GRP_OPEN\<rparr>)"

definition server_incr_assoc_count_action_rtn :: "('a cn_spc, nat option) cn_action" where
  "server_incr_assoc_count_action_rtn spc event_param sm =
     (case (spc, event_param) of
        (_, None) \<Rightarrow> None
      | ((g, w), Some assoc) \<Rightarrow>
          let g = g\<lparr>grp_cur_assoc := grp_cur_assoc g + 1, grp_assoc_list := assoc # grp_assoc_list g\<rparr>
          in Some (grp_status g, (g, w), sm\<lparr>cur_state := RPC_C_ASSOC_GRP_ACTIVE\<rparr>))"

definition server_decr_assoc_count_action_rtn :: "('a cn_spc, nat option) cn_action" where
  "server_decr_assoc_count_action_rtn spc event_param sm =
     (case (spc, event_param) of
        (_, None) \<Rightarrow> None
      | ((g, w), Some assoc) \<Rightarrow>
          let status = server_assoc_count_pred g;
              sm = sm\<lparr>cur_state := if status = 2 then RPC_C_SERVER_ASSOC_GRP_CALL_WAIT
                                   else if status = 1 then RPC_C_ASSOC_GRP_CLOSED
                                   else RPC_C_ASSOC_GRP_ACTIVE\<rparr>;
              w = (if grp_callcnt g = 0 then clear_assoc_grp_id assoc w else w)
          in if assoc \<notin> set (grp_assoc_list g) then None
             else
               let g = g\<lparr>grp_cur_assoc := grp_cur_assoc g - 1,
                         grp_assoc_list := remove1 assoc (grp_assoc_list g)\<rparr>
               in Some (grp_status g, (g, w), sm))"

definition rundown_handles_action_rtn :: "('a cn_spc, nat option) cn_action" where
  "rundown_handles_action_rtn spc event_param sm =
     (case (spc, event_param) of
        (_, None) \<Rightarrow> None
      | ((g, w), Some assoc) \<Rightarrow>
          let w = clear_assoc_grp_id assoc w; sm = sm\<lparr>cur_state := RPC_C_ASSOC_GRP_CLOSED\<rparr>
          in if grp_refcnt g = 0 then Some (0, (g, w), sm)
             else case grp_liveness_mntr g of
                 None \<Rightarrow> None
               | Some rundown \<Rightarrow>
                   Some (grp_status g, (g, w\<lparr>rundowns := rundowns w @ [(rundown, grp_id g)]\<rparr>), sm))"

definition rpc_g_cn_server_grp_action_tbl :: "('a cn_spc, nat option) cn_action list" where
  "rpc_g_cn_server_grp_action_tbl =
     [create_group_id_action_rtn, server_incr_assoc_count_action_rtn, server_decr_assoc_count_action_rtn,
      rundown_handles_action_rtn, rpc__cn_grp_sm_protocol_error]"

definition rpc_g_cn_server_grp_sm :: "u8 list list" where
  "rpc_g_cn_server_grp_sm =
     [[0, 4, 4, 4],
      [4, 1, 4, 4],
      [4, 1, 2, 4],
      [4, 4, 4, 3]]"

section \<open>Access to the group table\<close>

definition grp_tables :: "u32 \<Rightarrow> u8 list list \<times> ('a cn_spc, nat option) cn_action list" where
  "grp_tables t =
     (if t = rpc_c_cn_cl_a_g then (rpc_g_cn_client_grp_sm, rpc_g_cn_client_grp_action_tbl)
      else if t = rpc_c_cn_svr_a_g then (rpc_g_cn_server_grp_sm, rpc_g_cn_server_grp_action_tbl)
      else ([], []))"

definition rpc_cn_assoc_grp :: "cn_local_id \<Rightarrow> nat option" where
  "rpc_cn_assoc_grp i = (if id_valid i then Some (unat (id_index i)) else None)"

definition deref_grp :: "'a cn_world \<Rightarrow> nat \<Rightarrow> 'a cn_grp option" where
  "deref_grp w i = (if i < length (assoc_grp_vector w) then Some (assoc_grp_vector w ! i) else None)"

definition put_grp :: "nat \<Rightarrow> 'a cn_grp \<Rightarrow> 'a cn_world \<Rightarrow> 'a cn_world" where
  "put_grp i g w = w\<lparr>assoc_grp_vector := (assoc_grp_vector w)[i := g]\<rparr>"

text \<open>\<open>dealloc_grp\<close> is the new contents of the group; its identifier is generated anew.\<close>

definition dealloc_grp :: "cn_local_id \<Rightarrow> 'a cn_grp \<Rightarrow> 'a cn_grp" where
  "dealloc_grp new_id g =
     g\<lparr>grp_remid := id_clear, grp_flags := 0, grp_address := None, grp_secaddr := None, grp_refcnt := 0,
       grp_max_assoc := 0xffff, grp_cur_assoc := 0, grp_assoc_waiters := 0, grp_status := 0,
       grp_next_key_id := 0, grp_assoc_list := [], grp_liveness_mntr := None, grp_callcnt := 0,
       grp_id := new_id\<rparr>"

definition rpc__cn_assoc_grp_dealloc :: "cn_local_id \<Rightarrow> 'a cn_world \<Rightarrow> 'a cn_world option" where
  "rpc__cn_assoc_grp_dealloc gid w =
     (case rpc_cn_assoc_grp gid of None \<Rightarrow> None | Some i \<Rightarrow>
       (case deref_grp w i of None \<Rightarrow> None | Some g \<Rightarrow>
         let (new_id, n) = rpc__cn_gen_local_id (ucast (id_index (grp_id g))) (seqnum w)
         in Some ((put_grp i (dealloc_grp new_id g) w)
               \<lparr>seqnum := n, grp_active_count := grp_active_count w - 1\<rparr>)))"

definition rpc_cn_assoc_grp_eval_event :: "nat \<Rightarrow> u32 \<Rightarrow> nat option \<Rightarrow> 'a cn_world \<Rightarrow> 'a cn_world option" where
  "rpc_cn_assoc_grp_eval_event i event_id event_param w =
     (case deref_grp w i of None \<Rightarrow> None | Some g \<Rightarrow>
       let (states, actions) = grp_tables (tbl_id (grp_state g)) in
       case rpc__cn_sm_eval_event states actions event_id event_param (g, w) (grp_state g) of
         None \<Rightarrow> None
       | Some (st, (g', w'), sm) \<Rightarrow>
           let w'' = put_grp i (g'\<lparr>grp_state := sm, grp_status := st\<rparr>) w'
           in if cur_state sm = RPC_C_ASSOC_GRP_CLOSED then rpc__cn_assoc_grp_dealloc (grp_id g') w''
              else Some w'')"

section \<open>Adding and removing associations\<close>

definition rpc__cn_assoc_grp_add_assoc :: "cn_local_id \<Rightarrow> nat \<Rightarrow> 'a cn_world \<Rightarrow> 'a cn_world option" where
  "rpc__cn_assoc_grp_add_assoc gid assoc w =
     (case rpc_cn_assoc_grp gid of None \<Rightarrow> None
      | Some i \<Rightarrow> rpc_cn_assoc_grp_eval_event i RPC_C_ASSOC_GRP_ADD_ASSOC (Some assoc) w)"

definition no_calls_ind :: "nat \<Rightarrow> nat \<Rightarrow> 'a cn_world \<Rightarrow> 'a cn_world option" where
  "no_calls_ind i assoc w =
     (case deref_grp w i of None \<Rightarrow> None | Some g \<Rightarrow>
        if grp_flags g AND ucast RPC_C_CN_ASSOC_GRP_SERVER \<noteq> 0 \<and> grp_callcnt g = 0
           \<and> cur_state (grp_state g) = RPC_C_SERVER_ASSOC_GRP_CALL_WAIT
        then rpc_cn_assoc_grp_eval_event i RPC_C_ASSOC_GRP_NO_CALLS_IND (Some assoc) w
        else Some w)"

definition rpc__cn_assoc_grp_rem_assoc :: "cn_local_id \<Rightarrow> nat \<Rightarrow> 'a cn_world \<Rightarrow> 'a cn_world option" where
  "rpc__cn_assoc_grp_rem_assoc gid assoc w =
     (case rpc_cn_assoc_grp gid of
        None \<Rightarrow> Some w
      | Some i \<Rightarrow> Option.bind (rpc_cn_assoc_grp_eval_event i RPC_C_ASSOC_GRP_REM_ASSOC (Some assoc) w)
                   (no_calls_ind i assoc))"

section \<open>Calls\<close>

definition rpc__cn_assoc_push_call :: "nat \<Rightarrow> nat \<Rightarrow> 'a cn_world \<Rightarrow> 'a cn_world option" where
  "rpc__cn_assoc_push_call assoc call_r w =
     (let w = w\<lparr>assoc_call_rep := (assoc_call_rep w)(assoc := Some call_r)\<rparr> in
      case rpc_cn_assoc_grp (assoc_grp_id w assoc) of None \<Rightarrow> None | Some i \<Rightarrow>
        (case deref_grp w i of None \<Rightarrow> None
         | Some g \<Rightarrow> Some (put_grp i (g\<lparr>grp_callcnt := grp_callcnt g + 1\<rparr>) w)))"

text \<open>The part of \<open>rpc__cn_assoc_pop_call\<close> on the group.\<close>

definition pop_call_grp :: "nat \<Rightarrow> 'a cn_world \<Rightarrow> 'a cn_world option" where
  "pop_call_grp assoc w =
     (case rpc_cn_assoc_grp (assoc_grp_id w assoc) of
        None \<Rightarrow> Some w
      | Some i \<Rightarrow>
          (case deref_grp w i of None \<Rightarrow> None
           | Some g \<Rightarrow> no_calls_ind i assoc (put_grp i (g\<lparr>grp_callcnt := grp_callcnt g - 1\<rparr>) w)))"

text \<open>\<open>calls_done\<close> is the event \<^verbatim>\<open>CALLS_DONE\<close> of the client association state machine.\<close>

definition rpc__cn_assoc_pop_call ::
  "(nat \<Rightarrow> 'a cn_world \<Rightarrow> 'a cn_world option) \<Rightarrow> nat option \<Rightarrow> nat \<Rightarrow> 'a cn_world
     \<Rightarrow> (nat option \<times> 'a cn_world) option" where
  "rpc__cn_assoc_pop_call calls_done assoc call_rep w =
     (case assoc of
        None \<Rightarrow> Some (None, w)
      | Some a \<Rightarrow>
          Option.bind (pop_call_grp a w) (\<lambda>w1.
          Option.bind (if assoc_flags w1 a AND 1 \<noteq> 0 then calls_done a w1 else Some w1) (\<lambda>w2.
          let call_r = assoc_call_rep w2 a;
              w3 = (if call_r = Some call_rep then w2\<lparr>assoc_call_rep := (assoc_call_rep w2)(a := None)\<rparr> else w2)
          in Some (call_r, w3\<lparr>call_rep_assoc := (call_rep_assoc w3)(call_rep := None)\<rparr>))))"

section \<open>Creating and allocating groups\<close>

definition RPC_C_ASSOC_GRP_ALLOC_SIZE :: u16 where "RPC_C_ASSOC_GRP_ALLOC_SIZE = 10"

definition zero_grp :: "'a cn_grp" where
  "zero_grp = \<lparr>grp_state = \<lparr>cur_state = 0, cur_event = 0, action_status = 0, event_list_hindex = 0,
       event_list_tindex = 0, event_list_state = 0, event_list = [(0, None), (0, None)], tbl_id = 0\<rparr>,
     grp_status = 0, grp_flags = 0, grp_refcnt = 0, grp_address = None, grp_secaddr = None,
     grp_id = id_clear, grp_max_assoc = 0, grp_cur_assoc = 0, grp_assoc_waiters = 0, grp_assoc_list = [],
     grp_callcnt = 0, grp_liveness_mntr = None, grp_remid = id_clear, grp_next_key_id = 0\<rparr>"

definition rpc__cn_assoc_grp_init :: "u32 \<Rightarrow> u16 \<Rightarrow> 'a cn_grp \<times> u16" where
  "rpc__cn_assoc_grp_init index s =
     (let (i, s') = rpc__cn_gen_local_id index s; g = zero_grp
      in (g\<lparr>grp_id := i, grp_max_assoc := 0xffff,
            grp_state := (grp_state g)\<lparr>cur_state := RPC_C_ASSOC_GRP_CLOSED\<rparr>\<rparr>, s'))"

text \<open>The initialisation of the groups \<open>i\<close> up to \<open>n\<close>, with the sequence number threaded through.\<close>

fun init_grps :: "nat \<Rightarrow> nat \<Rightarrow> u16 \<Rightarrow> 'a cn_grp list \<times> u16" where
  "init_grps i 0 s = ([], s)"
| "init_grps i (Suc n) s =
     (let (g, s1) = rpc__cn_assoc_grp_init (of_nat i) s; (gs, s2) = init_grps (Suc i) n s1 in (g # gs, s2))"

text \<open>\<open>mem\<close> says whether the allocation succeeds.  With a count that wraps to a smaller one the old
  table would be copied over the end of the new one.\<close>

definition rpc__cn_assoc_grp_create ::
  "bool \<Rightarrow> 'a cn_world \<Rightarrow> (cn_local_id \<times> u32 \<times> 'a cn_world) option" where
  "rpc__cn_assoc_grp_create mem w =
     (let old_count = grp_count w; new_count = old_count + RPC_C_ASSOC_GRP_ALLOC_SIZE in
      if \<not> mem then Some (id_clear, rpc_s_no_memory, w)
      else if new_count \<le> old_count then None
      else
        let (new, s) = init_grps (unat old_count) (unat new_count - unat old_count) (seqnum w);
            v = take (unat old_count) (assoc_grp_vector w) @ new
        in Some (grp_id (v ! unat old_count), 0,
                 w\<lparr>grp_count := new_count, assoc_grp_vector := v, seqnum := s\<rparr>))"

definition rpc__cn_assoc_grp_tbl_init :: "bool \<Rightarrow> 'a cn_world \<Rightarrow> 'a cn_world option" where
  "rpc__cn_assoc_grp_tbl_init mem w =
     map_option (\<lambda>(_, _, w'). w')
       (rpc__cn_assoc_grp_create mem (w\<lparr>grp_count := 0, grp_active_count := 0, assoc_grp_vector := []\<rparr>))"

fun first_closed :: "'a cn_grp list \<Rightarrow> nat option" where
  "first_closed [] = None"
| "first_closed (g # gs) =
     (if cur_state (grp_state g) = RPC_C_ASSOC_GRP_CLOSED then Some 0 else map_option Suc (first_closed gs))"

definition setup_grp :: "u32 \<Rightarrow> cn_local_id \<Rightarrow> 'a cn_grp \<Rightarrow> 'a cn_grp" where
  "setup_grp type rem_id g =
     g\<lparr>grp_flags := grp_flags g OR ucast type, grp_remid := rem_id,
       grp_state := rpc__cn_sm_init
         (if type = RPC_C_CN_ASSOC_GRP_CLIENT then rpc_c_cn_cl_a_g else rpc_c_cn_svr_a_g) (grp_state g)\<rparr>"

text \<open>\<open>alloc_at\<close> is \<open>rpc__cn_assoc_grp_alloc\<close> once a closed group is found; \<open>addr_copy\<close> gives a status and
  what the copy leaves in the group.\<close>

definition alloc_at ::
  "('a \<Rightarrow> u32 \<times> 'a option) \<Rightarrow> 'a option \<Rightarrow> u32 \<Rightarrow> cn_local_id \<Rightarrow> nat \<Rightarrow> 'a cn_world
     \<Rightarrow> (cn_local_id \<times> u32 \<times> 'a cn_world) option" where
  "alloc_at addr_copy rpc_addr type rem_id i w =
     (case deref_grp w i of None \<Rightarrow> None | Some g \<Rightarrow>
       let (st, g) = (case rpc_addr of None \<Rightarrow> (0, g)
                      | Some a \<Rightarrow> (fst (addr_copy a), g\<lparr>grp_address := snd (addr_copy a), grp_secaddr := None\<rparr>))
       in if st \<noteq> 0 then Some (id_clear, st, put_grp i g w)
          else
            case rpc_cn_assoc_grp_eval_event i RPC_C_ASSOC_GRP_NEW None (put_grp i (setup_grp type rem_id g) w) of
              None \<Rightarrow> None
            | Some w' \<Rightarrow>
                map_option (\<lambda>g. (grp_id g, grp_status g, w'\<lparr>grp_active_count := grp_active_count w' + 1\<rparr>))
                  (deref_grp w' i))"

definition rpc__cn_assoc_grp_alloc ::
  "('a \<Rightarrow> u32 \<times> 'a option) \<Rightarrow> bool \<Rightarrow> 'a option \<Rightarrow> u32 \<Rightarrow> cn_local_id \<Rightarrow> 'a cn_world
     \<Rightarrow> (cn_local_id \<times> u32 \<times> 'a cn_world) option" where
  "rpc__cn_assoc_grp_alloc addr_copy mem rpc_addr type rem_id w =
     (case first_closed (take (unat (grp_count w)) (assoc_grp_vector w)) of
        Some i \<Rightarrow> alloc_at addr_copy rpc_addr type rem_id i w
      | None \<Rightarrow>
          (case rpc__cn_assoc_grp_create mem w of
             None \<Rightarrow> None
           | Some (gid, st, w') \<Rightarrow>
               (case rpc_cn_assoc_grp gid of
                  None \<Rightarrow> Some (gid, st, w')
                | Some i \<Rightarrow> alloc_at addr_copy rpc_addr type rem_id i w')))"

section \<open>Looking up a group\<close>

definition grp_usable :: "u32 \<Rightarrow> 'a cn_grp \<Rightarrow> bool" where
  "grp_usable type g \<longleftrightarrow> ucast (grp_flags g) AND type \<noteq> 0 \<and> cur_state (grp_state g) = RPC_C_ASSOC_GRP_ACTIVE"

fun lkup_addr_loop :: "('a \<Rightarrow> 'a option \<Rightarrow> bool) \<Rightarrow> 'a \<Rightarrow> u32 \<Rightarrow> 'a cn_grp list \<Rightarrow> cn_local_id option" where
  "lkup_addr_loop addr_compare a type [] = None"
| "lkup_addr_loop addr_compare a type (g # gs) =
     (if grp_usable type g \<and> addr_compare a (grp_address g) then Some (grp_id g)
      else lkup_addr_loop addr_compare a type gs)"

definition rpc__cn_assoc_grp_lkup_by_addr ::
  "('a \<Rightarrow> 'a option \<Rightarrow> bool) \<Rightarrow> 'a option \<Rightarrow> u32 \<Rightarrow> 'a cn_world \<Rightarrow> cn_local_id \<times> u32" where
  "rpc__cn_assoc_grp_lkup_by_addr addr_compare rpc_addr type w =
     (case Option.bind rpc_addr (\<lambda>a. lkup_addr_loop addr_compare a type
              (take (unat (grp_count w)) (assoc_grp_vector w))) of
        Some i \<Rightarrow> (i, 0) | None \<Rightarrow> (id_clear, rpc_s_assoc_grp_not_found))"

fun lkup_remid_loop ::
  "('a \<Rightarrow> 'a option \<Rightarrow> bool) \<Rightarrow> cn_local_id \<Rightarrow> u32 \<Rightarrow> 'a \<Rightarrow> 'a cn_grp list \<Rightarrow> cn_local_id option" where
  "lkup_remid_loop addr_compare rem_id type a [] = None"
| "lkup_remid_loop addr_compare rem_id type a (g # gs) =
     (if grp_usable type g \<and> grp_remid g = rem_id \<and> addr_compare a (grp_address g) then Some (grp_id g)
      else lkup_remid_loop addr_compare rem_id type a gs)"

definition rpc__cn_assoc_grp_lkup_by_remid ::
  "('a \<Rightarrow> 'a option \<Rightarrow> bool) \<Rightarrow> cn_local_id \<Rightarrow> u32 \<Rightarrow> 'a \<Rightarrow> 'a cn_world \<Rightarrow> cn_local_id \<times> u32" where
  "rpc__cn_assoc_grp_lkup_by_remid addr_compare rem_id type rpc_addr w =
     (case lkup_remid_loop addr_compare rem_id type rpc_addr (take (unat (grp_count w)) (assoc_grp_vector w)) of
        Some i \<Rightarrow> (i, 0) | None \<Rightarrow> (id_clear, rpc_s_assoc_grp_not_found))"

definition rpc__cn_assoc_grp_lkup_by_id :: "cn_local_id \<Rightarrow> u32 \<Rightarrow> 'a cn_world \<Rightarrow> (cn_local_id \<times> u32) option" where
  "rpc__cn_assoc_grp_lkup_by_id gid type w =
     (case rpc_cn_assoc_grp gid of
        None \<Rightarrow> Some (id_clear, rpc_s_assoc_grp_not_found)
      | Some i \<Rightarrow>
          (case deref_grp w i of None \<Rightarrow> None
           | Some g \<Rightarrow> Some (if id_equal (grp_id g) gid \<and> grp_usable type g then (gid, 0)
                             else (id_clear, rpc_s_assoc_grp_not_found))))"

text \<open>The choice of the group in the server's handling of an \<^verbatim>\<open>rpc_bind\<close> PDU (\<^verbatim>\<open>cnsassm.c\<close>).\<close>

definition server_bind_grp ::
  "('a \<Rightarrow> u32 \<times> 'a option) \<Rightarrow> bool \<Rightarrow> cn_local_id \<Rightarrow> nat \<Rightarrow> 'a cn_world \<Rightarrow> (u32 \<times> 'a cn_world) option" where
  "server_bind_grp addr_copy mem pdu_id assoc w =
     (if pdu_id \<noteq> id_clear then
        (case rpc__cn_assoc_grp_lkup_by_id pdu_id RPC_C_CN_ASSOC_GRP_SERVER w of
           None \<Rightarrow> None
         | Some (gid, st) \<Rightarrow>
             let w' = w\<lparr>assoc_grp_id := (assoc_grp_id w)(assoc := gid)\<rparr> in
             if st = 0 then
               (case Option.bind (rpc_cn_assoc_grp gid) (deref_grp w') of
                  None \<Rightarrow> None
                | Some g \<Rightarrow> Some (if grp_cur_assoc g = grp_max_assoc g then rpc_s_assoc_grp_max_exceeded else st, w'))
             else Some (st, w'))
      else
        map_option (\<lambda>(gid, st, w'). (st, w'\<lparr>assoc_grp_id := (assoc_grp_id w')(assoc := gid)\<rparr>))
          (rpc__cn_assoc_grp_alloc addr_copy mem None RPC_C_CN_ASSOC_GRP_SERVER id_clear w))"

section \<open>Liveness\<close>

text \<open>A change of the group that a lookup of the identifier finds.\<close>

definition on_group ::
  "cn_local_id \<Rightarrow> u32 \<Rightarrow> ('a cn_grp \<Rightarrow> 'a cn_grp) \<Rightarrow> 'a cn_world \<Rightarrow> (u32 \<times> 'a cn_world) option" where
  "on_group gid type f w =
     (case rpc__cn_assoc_grp_lkup_by_id gid type w of
        None \<Rightarrow> None
      | Some (gid', st) \<Rightarrow>
          (case rpc_cn_assoc_grp gid' of
             None \<Rightarrow> Some (st, w)
           | Some i \<Rightarrow> map_option (\<lambda>g. (0, put_grp i (f g) w)) (deref_grp w i)))"

definition rpc__cn_network_mon :: "cn_local_id \<Rightarrow> nat \<Rightarrow> 'a cn_world \<Rightarrow> (u32 \<times> 'a cn_world) option" where
  "rpc__cn_network_mon client_h rundown =
     on_group client_h RPC_C_CN_ASSOC_GRP_SERVER
       (\<lambda>g. g\<lparr>grp_liveness_mntr := Some rundown, grp_refcnt := grp_refcnt g + 1\<rparr>)"

definition rpc__cn_network_stop_mon :: "cn_local_id \<Rightarrow> 'a cn_world \<Rightarrow> (u32 \<times> 'a cn_world) option" where
  "rpc__cn_network_stop_mon client_h =
     on_group client_h RPC_C_CN_ASSOC_GRP_SERVER (\<lambda>g. g\<lparr>grp_refcnt := grp_refcnt g - 1\<rparr>)"

definition rpc__cn_network_maint :: "cn_local_id \<Rightarrow> 'a cn_world \<Rightarrow> (u32 \<times> 'a cn_world) option" where
  "rpc__cn_network_maint binding_grp_id =
     on_group binding_grp_id RPC_C_CN_ASSOC_GRP_CLIENT (\<lambda>g. g\<lparr>grp_refcnt := grp_refcnt g + 1\<rparr>)"

definition rpc__cn_network_stop_maint :: "cn_local_id \<Rightarrow> 'a cn_world \<Rightarrow> (u32 \<times> 'a cn_world) option" where
  "rpc__cn_network_stop_maint binding_grp_id =
     on_group binding_grp_id RPC_C_CN_ASSOC_GRP_CLIENT (\<lambda>g. g\<lparr>grp_refcnt := grp_refcnt g - 1\<rparr>)"

end
