(* ===== verification/Cn_Grp_Inv.thy ===== *)
theory Cn_Grp_Inv
  imports Cn_Grp
begin

text \<open>
  The invariant of the association groups.

  \<^item> The two machines are interpreted as \<open>cn_machine\<close>s: an event is one step of the tables.
  \<^item> \<open>grp_ok\<close> is the invariant of one group, \<open>world_ok\<close> that of the table and the associations.
  \<^item> \<open>event_*\<close> lemmas give the effect of each legal event on a group that satisfies the invariant.
\<close>

section \<open>The machines\<close>

lemmas action_defs = rpc__cn_grp_sm_protocol_error_def client_incr_assoc_count_action_rtn_def
  client_decr_assoc_count_action_rtn_def create_group_id_action_rtn_def server_incr_assoc_count_action_rtn_def
  server_decr_assoc_count_action_rtn_def rundown_handles_action_rtn_def Let_def

interpretation client_grp: cn_machine rpc_g_cn_client_grp_sm rpc_g_cn_client_grp_action_tbl
  by unfold_locales
    (auto simp: rpc_g_cn_client_grp_action_tbl_def action_defs split: option.splits if_splits prod.splits)

interpretation server_grp: cn_machine rpc_g_cn_server_grp_sm rpc_g_cn_server_grp_action_tbl
  by unfold_locales
    (auto simp: rpc_g_cn_server_grp_action_tbl_def action_defs split: option.splits if_splits prod.splits)

lemmas machine_steps = client_grp.eval_event_one_step server_grp.eval_event_one_step

lemmas machine_defs = take_action_def state_entry_def grp_tables_def
  rpc_g_cn_client_grp_sm_def rpc_g_cn_client_grp_action_tbl_def
  rpc_g_cn_server_grp_sm_def rpc_g_cn_server_grp_action_tbl_def

section \<open>Invariants\<close>

definition grp_typed :: "'a cn_grp \<Rightarrow> bool" where
  "grp_typed g \<longleftrightarrow> grp_flags g = 1 \<and> tbl_id (grp_state g) = rpc_c_cn_cl_a_g
     \<or> grp_flags g = 2 \<and> tbl_id (grp_state g) = rpc_c_cn_svr_a_g"

definition grp_ok :: "nat \<Rightarrow> 'a cn_grp \<Rightarrow> bool" where
  "grp_ok i g \<longleftrightarrow>
     id_valid (grp_id g) \<and> id_index (grp_id g) = of_nat i \<and> event_list_state (grp_state g) = 0 \<and>
     distinct (grp_assoc_list g) \<and> length (grp_assoc_list g) < 2 ^ 16 \<and>
     grp_cur_assoc g = of_nat (length (grp_assoc_list g)) \<and>
     (grp_flags g = 2 \<and> grp_refcnt g \<noteq> 0 \<longrightarrow> grp_liveness_mntr g \<noteq> None) \<and>
     (let st = cur_state (grp_state g) in
       st = RPC_C_ASSOC_GRP_CLOSED \<and> grp_assoc_list g = [] \<and> grp_flags g = 0 \<and> grp_refcnt g = 0 \<and> grp_callcnt g = 0 \<or>
       st = RPC_C_ASSOC_GRP_OPEN \<and> grp_assoc_list g = [] \<and> grp_typed g \<and> grp_refcnt g = 0 \<and> grp_callcnt g = 0 \<or>
       st = RPC_C_ASSOC_GRP_ACTIVE \<and> grp_assoc_list g \<noteq> [] \<and> grp_typed g \<or>
       st = RPC_C_SERVER_ASSOC_GRP_CALL_WAIT \<and> grp_assoc_list g = [] \<and> grp_typed g \<and> grp_flags g = 2
         \<and> grp_refcnt g \<noteq> 0 \<and> grp_callcnt g \<noteq> 0)"

definition active :: "'a cn_grp \<Rightarrow> bool" where
  "active g \<longleftrightarrow> cur_state (grp_state g) \<noteq> RPC_C_ASSOC_GRP_CLOSED"

definition world_ok :: "'a cn_world \<Rightarrow> bool" where
  "world_ok w \<longleftrightarrow>
     length (assoc_grp_vector w) = unat (grp_count w) \<and>
     grp_active_count w = of_nat (length (filter active (assoc_grp_vector w))) \<and>
     (\<forall>i < length (assoc_grp_vector w).
        grp_ok i (assoc_grp_vector w ! i) \<and>
        (\<forall>a \<in> set (grp_assoc_list (assoc_grp_vector w ! i)). assoc_grp_id w a = grp_id (assoc_grp_vector w ! i)))"

lemma count_16: "world_ok w \<Longrightarrow> length (assoc_grp_vector w) < 2 ^ 16"
  using unsigned_less[of "grp_count w", where 'a = nat] by (simp add: world_ok_def)

lemma unat_of_nat_16: "i < 2 ^ 16 \<Longrightarrow> unat (of_nat i :: u16) = i"
  by (simp add: unsigned_of_nat take_bit_eq_mod)

lemma of_nat_eq_16: "i < 2 ^ 16 \<Longrightarrow> j < 2 ^ 16 \<Longrightarrow> (of_nat i :: u16) = of_nat j \<longleftrightarrow> i = j"
  by (metis unat_of_nat_16)

lemma length_filter_update:
  assumes "i < length xs"
  shows "int (length (filter P (xs[i := x]))) =
    int (length (filter P xs)) - of_bool (P (xs ! i)) + of_bool (P x)"
proof -
  have "length (filter P xs) = length (filter P (take i xs @ xs ! i # drop (Suc i) xs))"
    using assms by (simp add: id_take_nth_drop[symmetric])
  then show ?thesis using assms by (simp add: upd_conv_take_nth_drop)
qed

lemma world_grp:
  "world_ok w \<Longrightarrow> deref_grp w i = Some g \<Longrightarrow> grp_ok i g"
  by (auto simp: world_ok_def deref_grp_def split: if_splits)

text \<open>The associations on different groups are different.\<close>

lemma members_disjoint:
  assumes "world_ok w" and "i < length (assoc_grp_vector w)" and "j < length (assoc_grp_vector w)" and "i \<noteq> j"
    and "a \<in> set (grp_assoc_list (assoc_grp_vector w ! i))"
  shows "a \<notin> set (grp_assoc_list (assoc_grp_vector w ! j))"
proof
  assume "a \<in> set (grp_assoc_list (assoc_grp_vector w ! j))"
  with assms have "id_index (grp_id (assoc_grp_vector w ! i)) = id_index (grp_id (assoc_grp_vector w ! j))"
    unfolding world_ok_def by metis
  with assms have "(of_nat i :: u16) = of_nat j" by (auto simp: world_ok_def grp_ok_def)
  moreover have "i < 2 ^ 16" "j < 2 ^ 16" using count_16[OF assms(1)] assms(2,3) by linarith+
  ultimately show False using assms(4) by (simp add: of_nat_eq_16)
qed

text \<open>The rule for a change of one group, of what its associations carry, and of the count.\<close>

lemma world_put:
  assumes w: "world_ok w" and i: "i < length (assoc_grp_vector w)" and g: "grp_ok i g"
    and members: "\<forall>a \<in> set (grp_assoc_list g). assoc_grp_id w' a = grp_id g"
    and others: "\<forall>a. assoc_grp_id w' a \<noteq> assoc_grp_id w a \<longrightarrow>
        (\<forall>j < length (assoc_grp_vector w). j \<noteq> i \<longrightarrow> a \<notin> set (grp_assoc_list (assoc_grp_vector w ! j)))"
    and vec: "assoc_grp_vector w' = (assoc_grp_vector w)[i := g]" "grp_count w' = grp_count w"
    and cnt: "grp_active_count w' = grp_active_count w - of_bool (active (assoc_grp_vector w ! i)) + of_bool (active g)"
  shows "world_ok w'"
proof -
  let ?v = "assoc_grp_vector w" and ?n = "\<lambda>v. length (filter active v)"
  have "int (?n (?v[i := g])) = int (?n ?v) - of_bool (active (?v ! i)) + of_bool (active g)"
    using length_filter_update[OF i] by simp
  then have "(of_int (int (?n (?v[i := g]))) :: u16)
      = of_int (int (?n ?v)) - of_bool (active (?v ! i)) + of_bool (active g)" by simp
  then have "grp_active_count w' = of_nat (?n (?v[i := g]))" using w cnt by (simp add: world_ok_def)
  moreover have "grp_ok j (?v[i := g] ! j) \<and>
      (\<forall>a \<in> set (grp_assoc_list (?v[i := g] ! j)). assoc_grp_id w' a = grp_id (?v[i := g] ! j))"
    if j: "j < length ?v" for j
  proof (cases "j = i")
    case True
    with g members i show ?thesis by simp
  next
    case False
    with w j have "grp_ok j (?v ! j)" "\<forall>a \<in> set (grp_assoc_list (?v ! j)). assoc_grp_id w a = grp_id (?v ! j)"
      by (auto simp: world_ok_def)
    with False others j show ?thesis by (metis nth_list_update_neq)
  qed
  ultimately show ?thesis using w vec by (simp add: world_ok_def)
qed

section \<open>The effect of the events\<close>

definition next_seqnum :: "u16 \<Rightarrow> u16" where
  "next_seqnum s = (if s + 1 = 0 then 1 else s + 1)"

lemma next_seqnum_nonzero [simp]: "next_seqnum s \<noteq> 0"
  by (simp add: next_seqnum_def)

text \<open>What is left of a group when its machine reaches the closed state.\<close>

definition close_grp :: "nat \<Rightarrow> 'a cn_grp \<Rightarrow> 'a cn_world \<Rightarrow> 'a cn_world" where
  "close_grp i g w =
     (put_grp i (dealloc_grp \<lparr>id_seqnum = next_seqnum (seqnum w), id_index = id_index (grp_id g)\<rparr> g) w)
       \<lparr>seqnum := next_seqnum (seqnum w), grp_active_count := grp_active_count w - 1\<rparr>"

definition quiet_sm :: "u8 \<Rightarrow> u32 \<Rightarrow> 'p cn_ctlblk \<Rightarrow> bool" where
  "quiet_sm st t sm \<longleftrightarrow> cur_state sm = st \<and> tbl_id sm = t \<and> event_list_state sm = 0"

lemma ucast_16_32_16 [simp]: "(ucast (ucast (x :: u16) :: u32) :: u16) = x"
  by transfer (simp add: min_def)

lemma grp_ok_id: "grp_ok i g \<Longrightarrow> id_valid (grp_id g) \<and> id_index (grp_id g) = of_nat i"
  by (simp add: grp_ok_def)

lemma dealloc_close:
  assumes "grp_ok i g0" and "grp_id g = grp_id g0" and "i < length (assoc_grp_vector w)" and "i < 2 ^ 16"
  shows "rpc__cn_assoc_grp_dealloc (grp_id g) (put_grp i g w) = Some (close_grp i g w)"
  using assms(2,3) grp_ok_id[OF assms(1)] unat_of_nat_16[OF assms(4)]
  by (simp add: rpc__cn_assoc_grp_dealloc_def rpc_cn_assoc_grp_def
      deref_grp_def put_grp_def close_grp_def rpc__cn_gen_local_id_def next_seqnum_def Let_def)

lemma ok_cases:
  assumes "grp_ok i g"
  obtains (closed) "cur_state (grp_state g) = RPC_C_ASSOC_GRP_CLOSED" "grp_assoc_list g = []" "grp_flags g = 0"
      "grp_refcnt g = 0" "grp_callcnt g = 0"
  | (open_st) "cur_state (grp_state g) = RPC_C_ASSOC_GRP_OPEN" "grp_assoc_list g = []" "grp_typed g"
      "grp_refcnt g = 0" "grp_callcnt g = 0"
  | (act) "cur_state (grp_state g) = RPC_C_ASSOC_GRP_ACTIVE" "grp_assoc_list g \<noteq> []" "grp_typed g"
  | (wait) "cur_state (grp_state g) = RPC_C_SERVER_ASSOC_GRP_CALL_WAIT" "grp_assoc_list g = []" "grp_typed g"
      "grp_flags g = 2" "grp_refcnt g \<noteq> 0" "grp_callcnt g \<noteq> 0"
  using assms unfolding grp_ok_def Let_def by blast

lemma deref_lt: "deref_grp w i = Some g \<Longrightarrow> i < length (assoc_grp_vector w) \<and> assoc_grp_vector w ! i = g"
  by (auto simp: deref_grp_def split: if_splits)

lemma deref_put [simp]:
  "i < length (assoc_grp_vector w) \<Longrightarrow> deref_grp (put_grp i g w) i = Some g"
  by (simp add: deref_grp_def put_grp_def)

text \<open>An event is one step of the tables.\<close>

definition grp_step ::
  "u32 \<Rightarrow> u32 \<Rightarrow> nat option \<Rightarrow> 'a cn_spc \<Rightarrow> nat option cn_ctlblk \<Rightarrow> ('a cn_spc \<times> nat option cn_ctlblk) option" where
  "grp_step t e p spc sm =
     (case grp_tables t of (states, actions) \<Rightarrow> take_action states actions (ucast e, p) spc (sm\<lparr>action_status := 0\<rparr>))"

lemma eval_step:
  assumes "deref_grp w i = Some g" and "quiet_sm s t (grp_state g)" and "t \<in> {rpc_c_cn_cl_a_g, rpc_c_cn_svr_a_g}"
  shows "rpc_cn_assoc_grp_eval_event i e p w =
    (case grp_step t e p (g, w) (grp_state g) of
       None \<Rightarrow> None
     | Some ((g', w'), sm) \<Rightarrow>
         let w'' = put_grp i (g'\<lparr>grp_state := sm, grp_status := action_status sm\<rparr>) w'
         in if cur_state sm = RPC_C_ASSOC_GRP_CLOSED then rpc__cn_assoc_grp_dealloc (grp_id g') w'' else Some w'')"
  using assms
  by (auto simp: rpc_cn_assoc_grp_eval_event_def quiet_sm_def grp_tables_def grp_step_def machine_steps cn_consts
      split: option.split prod.split)

lemmas event_simps = grp_step_def quiet_sm_def machine_defs action_defs cn_consts

text \<open>The four events, each where the tables allow it.  \<open>same_grp g g'\<close>: \<open>g'\<close> is \<open>g\<close> but for the machine
  and the status.\<close>

definition same_grp :: "'a cn_grp \<Rightarrow> 'a cn_grp \<Rightarrow> bool" where
  "same_grp g g' \<longleftrightarrow> g' = g\<lparr>grp_state := grp_state g', grp_status := grp_status g'\<rparr>"

lemma ex_put: "P g \<Longrightarrow> \<exists>g'. Some (put_grp i g w) = Some (put_grp i g' w) \<and> P g'"
  by blast

lemma ex_close: "P g \<Longrightarrow> \<exists>g'. Some (close_grp i g w) = Some (close_grp i g' w) \<and> P g'"
  by blast

lemma event_new:
  assumes "deref_grp w i = Some g" and "quiet_sm RPC_C_ASSOC_GRP_CLOSED t (grp_state g)"
    and "t \<in> {rpc_c_cn_cl_a_g, rpc_c_cn_svr_a_g}"
  shows "\<exists>g'. rpc_cn_assoc_grp_eval_event i RPC_C_ASSOC_GRP_NEW None w = Some (put_grp i g' w)
      \<and> same_grp g g' \<and> quiet_sm RPC_C_ASSOC_GRP_OPEN t (grp_state g')"
  unfolding eval_step[OF assms(1,2,3)]
  by (use assms in \<open>auto simp: event_simps same_grp_def simp del: option.inject intro!: ex_put\<close>)

lemma event_add:
  assumes "deref_grp w i = Some g" and "quiet_sm s t (grp_state g)"
    and "t \<in> {rpc_c_cn_cl_a_g, rpc_c_cn_svr_a_g}" and "s \<in> {RPC_C_ASSOC_GRP_OPEN, RPC_C_ASSOC_GRP_ACTIVE}"
  shows "\<exists>g'. rpc_cn_assoc_grp_eval_event i RPC_C_ASSOC_GRP_ADD_ASSOC (Some a) w = Some (put_grp i g' w)
      \<and> same_grp (g\<lparr>grp_cur_assoc := grp_cur_assoc g + 1, grp_assoc_list := a # grp_assoc_list g\<rparr>) g'
      \<and> quiet_sm RPC_C_ASSOC_GRP_ACTIVE t (grp_state g')"
proof -
  let ?sm = "(grp_state g)\<lparr>cur_event := 101, cur_state := RPC_C_ASSOC_GRP_ACTIVE, action_status := grp_status g\<rparr>"
  let ?g = "g\<lparr>grp_cur_assoc := grp_cur_assoc g + 1, grp_assoc_list := a # grp_assoc_list g\<rparr>"
  let ?g' = "?g\<lparr>grp_state := ?sm, grp_status := grp_status g\<rparr>"
  have take: "grp_step t RPC_C_ASSOC_GRP_ADD_ASSOC (Some a) (g, w) (grp_state g) = Some ((?g, w), ?sm)"
    using assms(2-4) by (elim insertE emptyE) (simp_all add: event_simps)
  have "RPC_C_ASSOC_GRP_ACTIVE \<noteq> RPC_C_ASSOC_GRP_CLOSED" by (simp add: cn_consts)
  then show ?thesis
    by (intro exI[of _ ?g'], use assms(2) take in
      \<open>simp add: eval_step[OF assms(1,2,3)] same_grp_def quiet_sm_def Let_def\<close>)
qed

definition rem_world :: "nat \<Rightarrow> 'a cn_grp \<Rightarrow> 'a cn_world \<Rightarrow> 'a cn_world" where
  "rem_world a g w =
     (if grp_flags g = 1 \<or> grp_callcnt g = 0 then clear_assoc_grp_id a w else w)"

definition rem_grp :: "nat \<Rightarrow> 'a cn_grp \<Rightarrow> 'a cn_grp" where
  "rem_grp a g = g\<lparr>grp_cur_assoc := grp_cur_assoc g - 1, grp_assoc_list := remove1 a (grp_assoc_list g)\<rparr>"

definition rem_state :: "'a cn_grp \<Rightarrow> u8" where
  "rem_state g =
     (if grp_cur_assoc g \<noteq> 1 then RPC_C_ASSOC_GRP_ACTIVE
      else if grp_flags g = 2 \<and> grp_refcnt g \<noteq> 0 then RPC_C_SERVER_ASSOC_GRP_CALL_WAIT
      else RPC_C_ASSOC_GRP_CLOSED)"

lemma rem_world_vec [simp]:
  "assoc_grp_vector (rem_world a g w) = assoc_grp_vector w" "seqnum (rem_world a g w) = seqnum w"
  "grp_active_count (rem_world a g w) = grp_active_count w" "grp_count (rem_world a g w) = grp_count w"
  "rundowns (rem_world a g w) = rundowns w"
  by (simp_all add: rem_world_def clear_assoc_grp_id_def)

lemma active_typed:
  assumes "grp_ok i g" and "cur_state (grp_state g) = RPC_C_ASSOC_GRP_ACTIVE"
  shows "grp_typed g" and "quiet_sm RPC_C_ASSOC_GRP_ACTIVE (tbl_id (grp_state g)) (grp_state g)"
    and "tbl_id (grp_state g) \<in> {rpc_c_cn_cl_a_g, rpc_c_cn_svr_a_g}"
  using assms by (auto simp: grp_ok_def Let_def quiet_sm_def grp_typed_def cn_consts)

lemma event_rem:
  assumes w: "world_ok w" and g: "deref_grp w i = Some g" and st: "cur_state (grp_state g) = RPC_C_ASSOC_GRP_ACTIVE"
    and a: "a \<in> set (grp_assoc_list g)"
  shows "\<exists>g'. rpc_cn_assoc_grp_eval_event i RPC_C_ASSOC_GRP_REM_ASSOC (Some a) w =
        Some ((if rem_state g = RPC_C_ASSOC_GRP_CLOSED then close_grp i g' else put_grp i g') (rem_world a g w))
      \<and> same_grp (rem_grp a g) g' \<and> quiet_sm (rem_state g) (tbl_id (grp_state g)) (grp_state g')"
proof -
  have ok: "grp_ok i g" using w g by (rule world_grp)
  note t = active_typed[OF ok st]
  have i: "i < length (assoc_grp_vector w)" "i < 2 ^ 16" using deref_lt[OF g] count_16[OF w] by auto
  let ?sm = "(grp_state g)\<lparr>cur_event := 102, cur_state := rem_state g, action_status := grp_status g\<rparr>"
  let ?g' = "(rem_grp a g)\<lparr>grp_state := ?sm, grp_status := grp_status g\<rparr>"
  have take: "grp_step (tbl_id (grp_state g)) RPC_C_ASSOC_GRP_REM_ASSOC (Some a) (g, w) (grp_state g)
      = Some ((rem_grp a g, rem_world a g w), ?sm)"
    using t(1) a st by (auto simp: event_simps grp_typed_def rem_grp_def rem_world_def rem_state_def
        server_assoc_count_pred_def)
  have d: "rpc__cn_assoc_grp_dealloc (grp_id g) (put_grp i ?g' (rem_world a g w)) = Some (close_grp i ?g' (rem_world a g w))"
    using dealloc_close[OF ok, of ?g' "rem_world a g w"] i by (simp add: rem_grp_def)
  show ?thesis
    by (intro exI[of _ ?g'], cases "rem_state g = RPC_C_ASSOC_GRP_CLOSED") (use t take d in
      \<open>simp_all add: eval_step[OF g t(2,3)] same_grp_def quiet_sm_def Let_def rem_grp_def\<close>)
qed

lemma event_no_calls:
  assumes ok: "grp_ok i g0" and i: "i < length (assoc_grp_vector w)" "i < 2 ^ 16" and id: "grp_id g = grp_id g0"
    and q: "quiet_sm RPC_C_SERVER_ASSOC_GRP_CALL_WAIT rpc_c_cn_svr_a_g (grp_state g)"
    and r: "grp_refcnt g \<noteq> 0" "grp_liveness_mntr g = Some r"
  shows "\<exists>g'. rpc_cn_assoc_grp_eval_event i RPC_C_ASSOC_GRP_NO_CALLS_IND (Some a) (put_grp i g w) =
      Some (close_grp i g' ((clear_assoc_grp_id a w)\<lparr>rundowns := rundowns w @ [(r, grp_id g)]\<rparr>))
      \<and> same_grp g g' \<and> quiet_sm RPC_C_ASSOC_GRP_CLOSED rpc_c_cn_svr_a_g (grp_state g')"
proof -
  let ?w = "(clear_assoc_grp_id a w)\<lparr>rundowns := rundowns w @ [(r, grp_id g)]\<rparr>"
  let ?w1 = "(clear_assoc_grp_id a (put_grp i g w))\<lparr>rundowns := rundowns w @ [(r, grp_id g)]\<rparr>"
  let ?sm = "(grp_state g)\<lparr>cur_event := 103, cur_state := RPC_C_ASSOC_GRP_CLOSED, action_status := grp_status g\<rparr>"
  let ?g' = "g\<lparr>grp_state := ?sm, grp_status := grp_status g\<rparr>"
  have take: "grp_step rpc_c_cn_svr_a_g RPC_C_ASSOC_GRP_NO_CALLS_IND (Some a) (g, put_grp i g w) (grp_state g)
      = Some ((g, ?w1), ?sm)"
    using q r by (simp add: event_simps) (simp add: clear_assoc_grp_id_def put_grp_def)
  have p: "put_grp i ?g' ?w1 = put_grp i ?g' ?w" by (simp add: put_grp_def clear_assoc_grp_id_def)
  have d: "rpc__cn_assoc_grp_dealloc (grp_id g) (put_grp i ?g' ?w) = Some (close_grp i ?g' ?w)"
    using dealloc_close[OF ok, of ?g' ?w] i id by (simp add: clear_assoc_grp_id_def)
  show ?thesis
    by (intro exI[of _ ?g']) (use q take d p in
      \<open>simp add: eval_step[OF deref_put[OF i(1)] q insertI2[OF singletonI]] same_grp_def quiet_sm_def Let_def\<close>)
qed

section \<open>Operations keep the invariant\<close>

lemma members_keep:
  "world_ok w \<Longrightarrow> deref_grp w i = Some g \<Longrightarrow> a \<in> set (grp_assoc_list g) \<Longrightarrow> assoc_grp_id w a = grp_id g"
  by (auto simp: world_ok_def deref_grp_def split: if_splits)

lemma not_member_elsewhere:
  assumes "world_ok w" and "deref_grp w i = Some g" and "a \<in> set (grp_assoc_list g)"
  shows "\<forall>j < length (assoc_grp_vector w). j \<noteq> i \<longrightarrow> a \<notin> set (grp_assoc_list (assoc_grp_vector w ! j))"
  using assms members_disjoint[OF assms(1)] deref_lt[OF assms(2)] by blast

text \<open>A change of a group that leaves its associations, its identifier and its being active.\<close>

lemma put_ok:
  assumes w: "world_ok w" and g: "deref_grp w i = Some g" and g': "grp_ok i g'"
    and same: "grp_assoc_list g' = grp_assoc_list g" "grp_id g' = grp_id g" "active g' = active g"
  shows "world_ok (put_grp i g' w)"
proof (rule world_put[OF w _ g'])
  show "i < length (assoc_grp_vector w)" using deref_lt[OF g] by blast
  show "\<forall>a\<in>set (grp_assoc_list g'). assoc_grp_id (put_grp i g' w) a = grp_id g'"
    using members_keep[OF w g] same by (simp add: put_grp_def)
qed (use deref_lt[OF g] same in \<open>auto simp: put_grp_def\<close>)

lemma close_ok:
  assumes w: "world_ok w" and g: "deref_grp w i = Some g" and act: "active g"
    and id: "grp_id g' = grp_id g" and q: "quiet_sm RPC_C_ASSOC_GRP_CLOSED t (grp_state g')"
    and w1: "assoc_grp_vector w1 = assoc_grp_vector w" "grp_count w1 = grp_count w"
      "grp_active_count w1 = grp_active_count w"
    and ids: "\<forall>a. assoc_grp_id w1 a \<noteq> assoc_grp_id w a \<longrightarrow>
        (\<forall>j < length (assoc_grp_vector w). j \<noteq> i \<longrightarrow> a \<notin> set (grp_assoc_list (assoc_grp_vector w ! j)))"
  shows "world_ok (close_grp i g' w1)"
proof -
  let ?g = "dealloc_grp \<lparr>id_seqnum = next_seqnum (seqnum w1), id_index = id_index (grp_id g')\<rparr> g'"
  have "grp_ok i ?g"
    using q grp_ok_id[OF world_grp[OF w g]] id
    by (simp add: grp_ok_def dealloc_grp_def quiet_sm_def id_valid_def)
  moreover have "\<not> active ?g" using q by (simp add: dealloc_grp_def active_def quiet_sm_def)
  ultimately show ?thesis
    using deref_lt[OF g] w1 ids act by (intro world_put[OF w, of i ?g]) (auto simp: close_grp_def put_grp_def dealloc_grp_def)
qed

lemma same_grp_fields:
  assumes "same_grp g g'"
  shows "grp_flags g' = grp_flags g" "grp_refcnt g' = grp_refcnt g" "grp_id g' = grp_id g"
    "grp_cur_assoc g' = grp_cur_assoc g" "grp_assoc_list g' = grp_assoc_list g" "grp_callcnt g' = grp_callcnt g"
    "grp_liveness_mntr g' = grp_liveness_mntr g" "grp_max_assoc g' = grp_max_assoc g"
  using assms by (metis cn_grp.ext_inject cn_grp.surjective cn_grp.update_convs(1,2) same_grp_def)+

end
