(* ===== verification/Cn_Grp_Ops.thy ===== *)
theory Cn_Grp_Ops
  imports Cn_Grp_Inv
begin

text \<open>
  Each operation on the association groups, applied where the callers apply it, returns and keeps the
  invariant \<open>world_ok\<close>; what it does to the group is given with it.
\<close>

lemma own_id:
  assumes "world_ok w" and "deref_grp w i = Some g"
  shows "rpc_cn_assoc_grp (grp_id g) = Some i"
proof -
  have "i < 2 ^ 16" using deref_lt[OF assms(2)] count_16[OF assms(1)] by auto
  then show ?thesis
    using grp_ok_id[OF world_grp[OF assms]] unat_of_nat_16[of i] by (simp add: rpc_cn_assoc_grp_def)
qed

lemma deref_rem_world [simp]: "deref_grp (rem_world a g w) i = deref_grp w i"
  by (simp add: deref_grp_def)

section \<open>Associations\<close>

lemma add_assoc_ok:
  assumes w: "world_ok w" and g: "deref_grp w i = Some g"
    and st: "cur_state (grp_state g) \<in> {RPC_C_ASSOC_GRP_OPEN, RPC_C_ASSOC_GRP_ACTIVE}"
    and a: "a \<notin> set (grp_assoc_list g)" "assoc_grp_id w a = grp_id g" and len: "Suc (length (grp_assoc_list g)) < 2 ^ 16"
  shows "\<exists>g'. rpc__cn_assoc_grp_add_assoc (assoc_grp_id w a) a w = Some (put_grp i g' w)
    \<and> world_ok (put_grp i g' w) \<and> grp_assoc_list g' = a # grp_assoc_list g"
proof -
  have ok: "grp_ok i g" by (rule world_grp[OF w g])
  let ?g = "g\<lparr>grp_cur_assoc := grp_cur_assoc g + 1, grp_assoc_list := a # grp_assoc_list g\<rparr>"
  have t: "tbl_id (grp_state g) \<in> {rpc_c_cn_cl_a_g, rpc_c_cn_svr_a_g}" "grp_typed g" "event_list_state (grp_state g) = 0"
    using ok st by (auto simp: grp_ok_def Let_def grp_typed_def cn_consts)
  then have q: "quiet_sm (cur_state (grp_state g)) (tbl_id (grp_state g)) (grp_state g)" by (simp add: quiet_sm_def)
  obtain g' where g': "rpc_cn_assoc_grp_eval_event i RPC_C_ASSOC_GRP_ADD_ASSOC (Some a) w = Some (put_grp i g' w)"
      "same_grp ?g g'" "quiet_sm RPC_C_ASSOC_GRP_ACTIVE (tbl_id (grp_state g)) (grp_state g')"
    using event_add[OF g q t(1) st] by blast
  note f = same_grp_fields[OF g'(2)]
  have "grp_ok i g'" using ok a len t g'(3) f
    by (auto simp: grp_ok_def Let_def grp_typed_def quiet_sm_def cn_consts)
  moreover have "active g'" "active g" using g'(3) st by (auto simp: active_def quiet_sm_def cn_consts)
  ultimately have "world_ok (put_grp i g' w)"
    using deref_lt[OF g] f a members_keep[OF w g] by (intro world_put[OF w, of i g']) (auto simp: put_grp_def)
  with g'(1) f own_id[OF w g] a show ?thesis
    by (intro exI[of _ g']) (simp add: rpc__cn_assoc_grp_add_assoc_def)
qed

text \<open>The state after the removal of an association from a group.\<close>

definition rundown_world :: "nat \<Rightarrow> nat \<Rightarrow> 'a cn_grp \<Rightarrow> 'a cn_world \<Rightarrow> 'a cn_world" where
  "rundown_world a r g w = (clear_assoc_grp_id a w)\<lparr>rundowns := rundowns w @ [(r, grp_id g)]\<rparr>"

lemma no_calls_ind_ok:
  assumes w: "world_ok w" and g0: "deref_grp w i = Some g0" and act: "active g0" and id: "grp_id g = grp_id g0"
    and q: "quiet_sm RPC_C_SERVER_ASSOC_GRP_CALL_WAIT rpc_c_cn_svr_a_g (grp_state g)"
    and r: "grp_refcnt g \<noteq> 0" "grp_liveness_mntr g = Some r" and f: "grp_flags g = 2" "grp_callcnt g = 0"
    and w1: "assoc_grp_vector w1 = assoc_grp_vector w" "grp_count w1 = grp_count w"
      "grp_active_count w1 = grp_active_count w"
    and ids: "\<forall>b. b = a \<or> assoc_grp_id w1 b \<noteq> assoc_grp_id w b \<longrightarrow>
        (\<forall>j < length (assoc_grp_vector w). j \<noteq> i \<longrightarrow> b \<notin> set (grp_assoc_list (assoc_grp_vector w ! j)))"
  shows "\<exists>g'. no_calls_ind i a (put_grp i g w1) = Some (close_grp i g' (rundown_world a r g w1))
    \<and> world_ok (close_grp i g' (rundown_world a r g w1))"
proof -
  have i: "i < length (assoc_grp_vector w1)" "i < 2 ^ 16" using deref_lt[OF g0] count_16[OF w] w1 by auto
  obtain g' where g': "rpc_cn_assoc_grp_eval_event i RPC_C_ASSOC_GRP_NO_CALLS_IND (Some a) (put_grp i g w1) =
      Some (close_grp i g' (rundown_world a r g w1))"
      "same_grp g g'" "quiet_sm RPC_C_ASSOC_GRP_CLOSED rpc_c_cn_svr_a_g (grp_state g')"
    using event_no_calls[OF world_grp[OF w g0] i id q r] unfolding rundown_world_def by blast
  have "world_ok (close_grp i g' (rundown_world a r g w1))"
    using ids w1 id same_grp_fields[OF g'(2)]
    by (intro close_ok[OF w g0 act _ g'(3)]) (auto simp: rundown_world_def clear_assoc_grp_id_def)
  with g'(1) q f i show ?thesis by (auto simp: no_calls_ind_def quiet_sm_def cn_consts)
qed

lemma no_calls_ind_skip:
  assumes "deref_grp w i = Some g"
    and "grp_callcnt g \<noteq> 0 \<or> cur_state (grp_state g) \<noteq> RPC_C_SERVER_ASSOC_GRP_CALL_WAIT \<or> grp_flags g \<in> {0, 1}"
  shows "no_calls_ind i a w = Some w"
  using assms by (auto simp: no_calls_ind_def cn_consts)

lemma rem_list:
  assumes "grp_ok i g" and "a \<in> set (grp_assoc_list g)"
  shows "grp_cur_assoc g = 1 \<longleftrightarrow> remove1 a (grp_assoc_list g) = []"
    and "grp_cur_assoc g - 1 = of_nat (length (remove1 a (grp_assoc_list g)))"
proof -
  have len: "length (grp_assoc_list g) < 2 ^ 16" "grp_cur_assoc g = of_nat (length (grp_assoc_list g))"
    "0 < length (grp_assoc_list g)" using assms by (auto simp: grp_ok_def)
  then have "grp_cur_assoc g = of_nat 1 \<longleftrightarrow> length (grp_assoc_list g) = 1"
    using of_nat_eq_16[of "length (grp_assoc_list g)" 1] by simp
  also have "\<dots> \<longleftrightarrow> length (remove1 a (grp_assoc_list g)) = 0"
    using assms(2) len(3) by (cases "grp_assoc_list g") (auto simp: length_remove1)
  finally show "grp_cur_assoc g = 1 \<longleftrightarrow> remove1 a (grp_assoc_list g) = []" by simp
  show "grp_cur_assoc g - 1 = of_nat (length (remove1 a (grp_assoc_list g)))"
    using assms(2) len by (simp add: length_remove1 of_nat_diff Suc_le_eq)
qed

text \<open>The three ways a removal ends: the group goes on, waits for its calls, or closes, with the liveness
  routine called when the application holds references.\<close>

lemma rem_assoc_ok:
  assumes w: "world_ok w" and g: "deref_grp w i = Some g" and a: "a \<in> set (grp_assoc_list g)"
  obtains (goes_on) g' where "rpc__cn_assoc_grp_rem_assoc (assoc_grp_id w a) a w = Some (put_grp i g' (rem_world a g w))"
      "world_ok (put_grp i g' (rem_world a g w))" "same_grp (rem_grp a g) g'" "grp_cur_assoc g \<noteq> 1"
  | (waits) g' where "rpc__cn_assoc_grp_rem_assoc (assoc_grp_id w a) a w = Some (put_grp i g' (rem_world a g w))"
      "world_ok (put_grp i g' (rem_world a g w))" "same_grp (rem_grp a g) g'"
      "cur_state (grp_state g') = RPC_C_SERVER_ASSOC_GRP_CALL_WAIT"
      "grp_cur_assoc g = 1" "grp_flags g = 2" "grp_refcnt g \<noteq> 0" "grp_callcnt g \<noteq> 0"
  | (runs_down) g' r where
      "rpc__cn_assoc_grp_rem_assoc (assoc_grp_id w a) a w = Some (close_grp i g' (rundown_world a r g (rem_world a g w)))"
      "world_ok (close_grp i g' (rundown_world a r g (rem_world a g w)))" "grp_liveness_mntr g = Some r"
      "grp_cur_assoc g = 1" "grp_flags g = 2" "grp_refcnt g \<noteq> 0" "grp_callcnt g = 0"
  | (closes) g' where "rpc__cn_assoc_grp_rem_assoc (assoc_grp_id w a) a w = Some (close_grp i g' (rem_world a g w))"
      "world_ok (close_grp i g' (rem_world a g w))" "grp_cur_assoc g = 1" "grp_flags g = 1 \<or> grp_refcnt g = 0"
proof -
  have ok: "grp_ok i g" by (rule world_grp[OF w g])
  have st: "cur_state (grp_state g) = RPC_C_ASSOC_GRP_ACTIVE" using ok a by (cases rule: ok_cases) auto
  note t = active_typed[OF ok st]
  have act: "active g" using st by (simp add: active_def cn_consts)
  have id: "rpc_cn_assoc_grp (assoc_grp_id w a) = Some i" using own_id[OF w g] members_keep[OF w g a] by simp
  obtain g' where g': "rpc_cn_assoc_grp_eval_event i RPC_C_ASSOC_GRP_REM_ASSOC (Some a) w =
        Some ((if rem_state g = RPC_C_ASSOC_GRP_CLOSED then close_grp i g' else put_grp i g') (rem_world a g w))"
      "same_grp (rem_grp a g) g'" "quiet_sm (rem_state g) (tbl_id (grp_state g)) (grp_state g')"
    using event_rem[OF w g st a] by blast
  note f = same_grp_fields[OF g'(2), unfolded rem_grp_def, simplified]
  note l = rem_list[OF ok a]
  have ids: "\<forall>b. assoc_grp_id (rem_world a g w) b \<noteq> assoc_grp_id w b \<longrightarrow>
      (\<forall>j < length (assoc_grp_vector w). j \<noteq> i \<longrightarrow> b \<notin> set (grp_assoc_list (assoc_grp_vector w ! j)))"
    using not_member_elsewhere[OF w g a] by (auto simp: rem_world_def clear_assoc_grp_id_def)
  have i: "i < length (assoc_grp_vector w)" using deref_lt[OF g] by blast
  have rem: "rpc__cn_assoc_grp_rem_assoc (assoc_grp_id w a) a w =
      no_calls_ind i a ((if rem_state g = RPC_C_ASSOC_GRP_CLOSED then close_grp i g' else put_grp i g') (rem_world a g w))"
    using id g'(1) by (simp add: rpc__cn_assoc_grp_rem_assoc_def)
  have put: "world_ok (put_grp i g' (rem_world a g w))" if "grp_ok i g'" "active g'"
  proof (rule world_put[OF w i that(1)])
    show "\<forall>b\<in>set (grp_assoc_list g'). assoc_grp_id (put_grp i g' (rem_world a g w)) b = grp_id g'"
      using members_keep[OF w g] ok f
      by (auto simp: put_grp_def rem_world_def clear_assoc_grp_id_def grp_ok_def)
  qed (use ids act that deref_lt[OF g] in \<open>auto simp: put_grp_def\<close>)
  have okr: "id_valid (grp_id g)" "id_index (grp_id g) = of_nat i" "distinct (grp_assoc_list g)"
    "length (remove1 a (grp_assoc_list g)) < 2 ^ 16" "grp_flags g = 2 \<and> grp_refcnt g \<noteq> 0 \<longrightarrow> grp_liveness_mntr g \<noteq> None"
    using ok by (auto simp: grp_ok_def length_remove1)
  consider (more) "grp_cur_assoc g \<noteq> 1" | (refs) "grp_cur_assoc g = 1" "grp_flags g = 2" "grp_refcnt g \<noteq> 0"
    | (last) "grp_cur_assoc g = 1" "grp_flags g = 1 \<or> grp_refcnt g = 0"
    using t(1) by (auto simp: grp_typed_def)
  then show ?thesis
  proof cases
    case more
    then have r: "rem_state g = RPC_C_ASSOC_GRP_ACTIVE" by (simp add: rem_state_def)
    have "grp_ok i g'" "active g'" using r g'(3) t(1) okr f l more
      by (auto simp: grp_ok_def Let_def grp_typed_def quiet_sm_def active_def cn_consts)
    then show ?thesis
      using more r g'(3) rem i by (intro goes_on[OF _ put g'(2)]) (auto simp: quiet_sm_def cn_consts intro!: no_calls_ind_skip)
  next
    case refs
    then have r: "rem_state g = RPC_C_SERVER_ASSOC_GRP_CALL_WAIT" by (simp add: rem_state_def)
    have tb: "tbl_id (grp_state g) = rpc_c_cn_svr_a_g" using t(1) refs by (auto simp: grp_typed_def)
    show ?thesis
    proof (cases "grp_callcnt g = 0")
      case True
      obtain m where m: "grp_liveness_mntr g = Some m" using okr(5) refs by auto
      have ids': "\<forall>b. b = a \<or> assoc_grp_id (rem_world a g w) b \<noteq> assoc_grp_id w b \<longrightarrow>
          (\<forall>j < length (assoc_grp_vector w). j \<noteq> i \<longrightarrow> b \<notin> set (grp_assoc_list (assoc_grp_vector w ! j)))"
        using ids not_member_elsewhere[OF w g a] by blast
      obtain g2 where "no_calls_ind i a (put_grp i g' (rem_world a g w))
            = Some (close_grp i g2 (rundown_world a m g' (rem_world a g w)))"
          "world_ok (close_grp i g2 (rundown_world a m g' (rem_world a g w)))"
        using no_calls_ind_ok[OF w g act, of g' m "rem_world a g w" a] g'(3) r tb f refs True m ids'
        by auto
      moreover have "rundown_world a m g' w1 = rundown_world a m g w1" for w1 :: "'a cn_world"
        using f by (simp add: rundown_world_def)
      moreover have "rem_state g \<noteq> RPC_C_ASSOC_GRP_CLOSED" using r by (simp add: cn_consts)
      ultimately show ?thesis using rem m refs True by (intro runs_down) auto
    next
      case False
      have "grp_ok i g'" "active g'" using r g'(3) t(1) okr f l refs False tb
        by (auto simp: grp_ok_def Let_def grp_typed_def quiet_sm_def active_def cn_consts)
      then show ?thesis
        using refs False r g'(3) rem i f
        by (intro waits[OF _ put g'(2)]) (auto simp: quiet_sm_def cn_consts intro!: no_calls_ind_skip)
    qed
  next
    case last
    then have r: "rem_state g = RPC_C_ASSOC_GRP_CLOSED" by (auto simp: rem_state_def)
    have "world_ok (close_grp i g' (rem_world a g w))"
      using g'(3) ids f r by (intro close_ok[OF w g act]) (auto simp: rem_grp_def)
    moreover have "no_calls_ind i a (close_grp i g' (rem_world a g w)) = Some (close_grp i g' (rem_world a g w))"
      using i by (intro no_calls_ind_skip) (auto simp: close_grp_def deref_grp_def put_grp_def dealloc_grp_def)
    ultimately show ?thesis using rem r last by (intro closes) auto
  qed
qed

section \<open>Calls\<close>

lemma world_ok_more [simp]:
  "world_ok (w\<lparr>assoc_call_rep := x\<rparr>) = world_ok w" "world_ok (w\<lparr>call_rep_assoc := y\<rparr>) = world_ok w"
  "deref_grp (w\<lparr>assoc_call_rep := x\<rparr>) i = deref_grp w i" "deref_grp (w\<lparr>call_rep_assoc := y\<rparr>) i = deref_grp w i"
  by (simp_all add: world_ok_def deref_grp_def)

lemma push_call_ok:
  assumes w: "world_ok w" and g: "deref_grp w i = Some g" and st: "cur_state (grp_state g) = RPC_C_ASSOC_GRP_ACTIVE"
    and a: "assoc_grp_id w a = grp_id g"
  shows "\<exists>w'. rpc__cn_assoc_push_call a c w = Some w' \<and> world_ok w'
    \<and> deref_grp w' i = Some (g\<lparr>grp_callcnt := grp_callcnt g + 1\<rparr>)"
proof -
  let ?w = "w\<lparr>assoc_call_rep := (assoc_call_rep w)(a := Some c)\<rparr>"
  let ?g = "g\<lparr>grp_callcnt := grp_callcnt g + 1\<rparr>"
  have ok: "grp_ok i g" by (rule world_grp[OF w g])
  have "grp_ok i ?g" using ok st by (auto simp: grp_ok_def Let_def grp_typed_def cn_consts)
  then have "world_ok (put_grp i ?g ?w)"
    using w g by (intro put_ok[of ?w i g]) (simp_all add: active_def)
  then show ?thesis
    using own_id[OF w g] g a deref_lt[OF g]
    by (simp add: rpc__cn_assoc_push_call_def Let_def)
qed

lemma id_not_elsewhere:
  assumes w: "world_ok w" and g: "deref_grp w i = Some g" and a: "assoc_grp_id w a = grp_id g"
  shows "\<forall>j < length (assoc_grp_vector w). j \<noteq> i \<longrightarrow> a \<notin> set (grp_assoc_list (assoc_grp_vector w ! j))"
proof (intro allI impI notI)
  fix j assume j: "j < length (assoc_grp_vector w)" "j \<noteq> i" "a \<in> set (grp_assoc_list (assoc_grp_vector w ! j))"
  then have "deref_grp w j = Some (assoc_grp_vector w ! j)" by (simp add: deref_grp_def)
  from own_id[OF w this] members_keep[OF w this j(3)] own_id[OF w g] a have "i = j" by simp
  with j(2) show False by simp
qed

text \<open>A call ends: the group goes on, or the last call of a group without associations ends and the
  liveness routine is called.\<close>

lemma pop_call_ok:
  assumes w: "world_ok w" and g: "deref_grp w i = Some g"
    and st: "cur_state (grp_state g) \<in> {RPC_C_ASSOC_GRP_ACTIVE, RPC_C_SERVER_ASSOC_GRP_CALL_WAIT}"
    and a: "assoc_grp_id w a = grp_id g"
  obtains (goes_on) "pop_call_grp a w = Some (put_grp i (g\<lparr>grp_callcnt := grp_callcnt g - 1\<rparr>) w)"
      "world_ok (put_grp i (g\<lparr>grp_callcnt := grp_callcnt g - 1\<rparr>) w)"
      "cur_state (grp_state g) = RPC_C_ASSOC_GRP_ACTIVE \<or> grp_callcnt g \<noteq> 1"
  | (runs_down) g' r where "pop_call_grp a w = Some (close_grp i g' (rundown_world a r g w))"
      "world_ok (close_grp i g' (rundown_world a r g w))" "grp_liveness_mntr g = Some r"
      "cur_state (grp_state g) = RPC_C_SERVER_ASSOC_GRP_CALL_WAIT" "grp_callcnt g = 1"
proof -
  let ?g = "g\<lparr>grp_callcnt := grp_callcnt g - 1\<rparr>"
  have ok: "grp_ok i g" by (rule world_grp[OF w g])
  have i: "i < length (assoc_grp_vector w)" using deref_lt[OF g] by blast
  have act: "active g" using st by (auto simp: active_def cn_consts)
  have pop: "pop_call_grp a w = no_calls_ind i a (put_grp i ?g w)"
    using own_id[OF w g] g a by (simp add: pop_call_grp_def)
  show ?thesis
  proof (cases "cur_state (grp_state g) = RPC_C_ASSOC_GRP_ACTIVE \<or> grp_callcnt g \<noteq> 1")
    case True
    have "grp_callcnt g \<noteq> 1 \<Longrightarrow> grp_callcnt g - 1 \<noteq> 0" by simp
    with True st ok have "grp_ok i ?g"
      by (cases rule: ok_cases[OF ok]) (simp_all add: grp_ok_def Let_def grp_typed_def cn_consts)
    then have "world_ok (put_grp i ?g w)" by (intro put_ok[OF w g]) (simp_all add: active_def)
    moreover have "no_calls_ind i a (put_grp i ?g w) = Some (put_grp i ?g w)"
      using i True by (intro no_calls_ind_skip[of _ i ?g]) (auto simp: cn_consts)
    ultimately show ?thesis using True pop by (intro goes_on) auto
  next
    case False
    then have wt: "cur_state (grp_state g) = RPC_C_SERVER_ASSOC_GRP_CALL_WAIT" "grp_callcnt g = 1" using st by auto
    then have gw: "grp_flags g = 2" "grp_refcnt g \<noteq> 0" "grp_typed g" "event_list_state (grp_state g) = 0"
        "grp_liveness_mntr g \<noteq> None"
      using ok by (auto simp: grp_ok_def Let_def cn_consts)
    then obtain r where r: "grp_liveness_mntr g = Some r" by auto
    have tb: "tbl_id (grp_state g) = rpc_c_cn_svr_a_g" using gw by (auto simp: grp_typed_def)
    obtain g2 where "no_calls_ind i a (put_grp i ?g w) = Some (close_grp i g2 (rundown_world a r ?g w))"
        "world_ok (close_grp i g2 (rundown_world a r ?g w))"
      using no_calls_ind_ok[OF w g act, of ?g r w a] gw r tb wt id_not_elsewhere[OF w g a]
      by (auto simp: quiet_sm_def)
    moreover have "rundown_world a r ?g w = rundown_world a r g w" by (simp add: rundown_world_def)
    ultimately show ?thesis using pop r wt by (intro runs_down) auto
  qed
qed

section \<open>Lookups and liveness\<close>

lemma lkup_by_id_some:
  assumes "id_valid gid \<Longrightarrow> unat (id_index gid) < length (assoc_grp_vector w)"
  shows "\<exists>r st. rpc__cn_assoc_grp_lkup_by_id gid type w = Some (r, st) \<and>
    (r = gid \<and> st = 0 \<and> (\<exists>i g. rpc_cn_assoc_grp gid = Some i \<and> deref_grp w i = Some g \<and> grp_id g = gid \<and> grp_usable type g)
     \<or> r = id_clear \<and> st = rpc_s_assoc_grp_not_found)"
  using assms
  by (auto simp: rpc__cn_assoc_grp_lkup_by_id_def rpc_cn_assoc_grp_def deref_grp_def id_equal_def)

lemma id_clear_invalid [simp]: "rpc_cn_assoc_grp id_clear = None"
  by (simp add: rpc_cn_assoc_grp_def id_valid_def id_clear_def)

lemma on_group_ok:
  assumes w: "world_ok w" and idx: "id_valid gid \<Longrightarrow> unat (id_index gid) < length (assoc_grp_vector w)"
    and f: "\<And>i g. deref_grp w i = Some g \<Longrightarrow> grp_id g = gid \<Longrightarrow> grp_ok i g \<Longrightarrow> grp_usable type g \<Longrightarrow>
      grp_ok i (f g) \<and> grp_assoc_list (f g) = grp_assoc_list g \<and> grp_id (f g) = grp_id g \<and> active (f g) = active g"
  shows "\<exists>st w'. on_group gid type f w = Some (st, w') \<and> world_ok w'"
  using lkup_by_id_some[of gid w type, OF idx, simplified]
proof (elim exE conjE disjE)
  fix r st i g
  assume h: "rpc__cn_assoc_grp_lkup_by_id gid type w = Some (r, st)" "r = gid" "rpc_cn_assoc_grp gid = Some i"
    "deref_grp w i = Some g" "grp_id g = gid" "grp_usable type g"
  then have "world_ok (put_grp i (f g) w)"
    using f[OF h(4,5) world_grp[OF w h(4)] h(6)] by (intro put_ok[OF w h(4)]) auto
  with h show ?thesis by (simp add: on_group_def)
next
  fix r st
  assume "rpc__cn_assoc_grp_lkup_by_id gid type w = Some (r, st)" "r = id_clear"
  with w show ?thesis by (simp add: on_group_def)
qed

lemma usable_type:
  assumes "grp_ok i g" and "grp_usable type g"
  shows "cur_state (grp_state g) = RPC_C_ASSOC_GRP_ACTIVE" "grp_assoc_list g \<noteq> []" "grp_typed g"
  using assms by (auto simp: grp_ok_def grp_usable_def Let_def cn_consts)

section \<open>Creating and allocating groups\<close>

lemma ucast_of_nat_16 [simp]: "ucast (of_nat i :: u32) = (of_nat i :: u16)"
  by transfer (simp add: take_bit_take_bit)

lemma grp_init_ok:
  fixes i s
  defines "g \<equiv> fst (rpc__cn_assoc_grp_init (of_nat i) s :: 'a cn_grp \<times> u16)"
  shows "grp_ok i g \<and> \<not> active g \<and> grp_assoc_list g = []"
proof -
  have id: "rpc__cn_gen_local_id (of_nat i) s = (\<lparr>id_seqnum = next_seqnum s, id_index = of_nat i\<rparr>, next_seqnum s)"
    by (simp add: rpc__cn_gen_local_id_def next_seqnum_def Let_def)
  have "grp_id g = \<lparr>id_seqnum = next_seqnum s, id_index = of_nat i\<rparr>" "grp_assoc_list g = []" "grp_cur_assoc g = 0"
    "grp_flags g = 0" "grp_refcnt g = 0" "grp_callcnt g = 0" "event_list_state (grp_state g) = 0"
    "cur_state (grp_state g) = RPC_C_ASSOC_GRP_CLOSED"
    by (simp_all add: g_def rpc__cn_assoc_grp_init_def id zero_grp_def Let_def)
  then show ?thesis by (simp add: grp_ok_def active_def id_valid_def)
qed

lemma init_grps_ok:
  "init_grps i n s = (gs :: 'a cn_grp list, s') \<Longrightarrow>
    length gs = n \<and> (\<forall>k < n. grp_ok (i + k) (gs ! k) \<and> \<not> active (gs ! k) \<and> grp_assoc_list (gs ! k) = [])"
proof (induction n arbitrary: i s gs s')
  case 0
  then show ?case by simp
next
  case (Suc n)
  obtain g :: "'a cn_grp" and s1 where g: "rpc__cn_assoc_grp_init (of_nat i) s = (g, s1)" by fastforce
  obtain gs' :: "'a cn_grp list" and s2 where gs': "init_grps (Suc i) n s1 = (gs', s2)" by fastforce
  from Suc.prems g gs' have gs: "gs = g # gs'" by simp
  have g0: "grp_ok i g \<and> \<not> active g \<and> grp_assoc_list g = []"
    using grp_init_ok[of i s, where 'a = 'a] g by simp
  have IH: "length gs' = n \<and> (\<forall>k < n. grp_ok (Suc i + k) (gs' ! k) \<and> \<not> active (gs' ! k) \<and> grp_assoc_list (gs' ! k) = [])"
    using Suc.IH[OF gs'] by simp
  show ?case
  proof (intro conjI allI impI)
    show "length gs = Suc n" using gs IH by simp
    fix k assume "k < Suc n"
    then show "grp_ok (i + k) (gs ! k)" "\<not> active (gs ! k)" "grp_assoc_list (gs ! k) = []"
      using gs g0 IH by (cases k; force)+
  qed
qed

lemma create_ok:
  assumes w: "world_ok (w :: 'a cn_world)" and room: "unat (grp_count w) + 10 < 2 ^ 16"
  shows "\<exists>gid st w'. rpc__cn_assoc_grp_create mem w = Some (gid, st, w') \<and> world_ok w' \<and>
    assoc_grp_id w' = assoc_grp_id w \<and> rundowns w' = rundowns w \<and>
    (\<exists>ys. assoc_grp_vector w' = assoc_grp_vector w @ ys \<and> (\<forall>g \<in> set ys. grp_assoc_list g = [])) \<and>
    (rpc_cn_assoc_grp gid = None \<and> gid = id_clear \<and> w' = w \<and> st = rpc_s_no_memory
     \<or> (\<exists>i g. rpc_cn_assoc_grp gid = Some i \<and> deref_grp w' i = Some g \<and> \<not> active g))"
proof (cases mem)
  case False
  with w show ?thesis by (simp add: rpc__cn_assoc_grp_create_def Let_def)
next
  case True
  let ?v = "assoc_grp_vector w" and ?n = "unat (grp_count w)"
  have len: "length ?v = ?n" using w by (simp add: world_ok_def)
  have new: "unat (grp_count w + 10) = ?n + 10"
    using room by (subst unat_add_lem[THEN iffD1]) simp_all
  then have gt: "\<not> grp_count w + 10 \<le> grp_count w" by (simp add: word_le_nat_alt)
  obtain gs :: "'a cn_grp list" and s where gs: "init_grps ?n 10 (seqnum w) = (gs, s)" by fastforce
  note ok = init_grps_ok[OF gs]
  let ?w = "w\<lparr>grp_count := grp_count w + 10, assoc_grp_vector := ?v @ gs, seqnum := s\<rparr>"
  have c: "rpc__cn_assoc_grp_create mem w = Some (grp_id (gs ! 0), 0, ?w)"
    using True gt gs new len
    by (simp add: rpc__cn_assoc_grp_create_def Let_def RPC_C_ASSOC_GRP_ALLOC_SIZE_def nth_append)
  have "filter active gs = []" using ok by (auto simp: filter_empty_conv in_set_conv_nth)
  moreover have "grp_ok j ((?v @ gs) ! j) \<and> (\<forall>a \<in> set (grp_assoc_list ((?v @ gs) ! j)). assoc_grp_id w a = grp_id ((?v @ gs) ! j))"
    if j: "j < ?n + 10" for j
  proof (cases "j < ?n")
    case True
    with w len show ?thesis by (simp add: world_ok_def nth_append)
  next
    case False
    then have "?n + (j - ?n) = j" "j - ?n < 10" using j by simp_all
    with ok have "grp_ok j (gs ! (j - ?n))" "grp_assoc_list (gs ! (j - ?n)) = []" by metis+
    with False len show ?thesis by (simp add: nth_append)
  qed
  ultimately have w': "world_ok ?w" using w ok new len by (simp add: world_ok_def)
  have g0: "grp_ok ?n (gs ! 0)" "\<not> active (gs ! 0)" using ok by (auto dest: spec[of _ 0])
  have d: "deref_grp ?w ?n = Some (gs ! 0)" using len ok by (simp add: deref_grp_def nth_append)
  have ex: "\<forall>g\<in>set gs. grp_assoc_list g = []" using ok by (auto simp: in_set_conv_nth)
  show ?thesis using c w' own_id[OF w' d] d g0 ex by (auto intro!: exI[of _ gs])
qed

lemma first_closed_some: "first_closed gs = Some i \<Longrightarrow> i < length gs \<and> \<not> active (gs ! i)"
  by (induction gs arbitrary: i) (auto simp: active_def split: if_splits)

lemma first_closed_none: "first_closed gs = None \<longleftrightarrow> (\<forall>g \<in> set gs. active g)"
  by (induction gs) (auto simp: active_def)

definition grp_type_ok :: "u32 \<Rightarrow> bool" where
  "grp_type_ok t \<longleftrightarrow> t = RPC_C_CN_ASSOC_GRP_CLIENT \<or> t = RPC_C_CN_ASSOC_GRP_SERVER"

lemma alloc_at_ok:
  assumes w: "world_ok w" and g: "deref_grp w i = Some g" and closed: "\<not> active g" and t: "grp_type_ok type"
  shows "\<exists>gid st w'. alloc_at addr_copy addr type rem_id i w = Some (gid, st, w') \<and> world_ok w' \<and>
    assoc_grp_id w' = assoc_grp_id w \<and> rundowns w' = rundowns w \<and>
    (\<exists>g'. assoc_grp_vector w' = (assoc_grp_vector w)[i := g'] \<and> grp_assoc_list g' = [] \<and>
      (addr = None \<longrightarrow> gid = grp_id g' \<and> cur_state (grp_state g') = RPC_C_ASSOC_GRP_OPEN \<and> grp_flags g' = ucast type))"
proof -
  have ok: "grp_ok i g" by (rule world_grp[OF w g])
  have i: "i < length (assoc_grp_vector w)" using deref_lt[OF g] by blast
  have cl: "cur_state (grp_state g) = RPC_C_ASSOC_GRP_CLOSED" "grp_assoc_list g = []" "grp_flags g = 0"
      "grp_refcnt g = 0" "grp_callcnt g = 0"
    using ok closed by (cases rule: ok_cases; simp add: active_def cn_consts)+
  let ?a = "case addr of None \<Rightarrow> (0, g)
      | Some a \<Rightarrow> (fst (addr_copy a), g\<lparr>grp_address := snd (addr_copy a), grp_secaddr := None\<rparr>)"
  define g1 where "g1 = snd ?a"
  have g1: "grp_ok i g1" "grp_assoc_list g1 = []" "grp_id g1 = grp_id g" "grp_state g1 = grp_state g"
    "grp_flags g1 = 0" "grp_refcnt g1 = 0" "grp_callcnt g1 = 0"
    using ok cl by (auto simp: g1_def grp_ok_def grp_typed_def split: option.splits)
  show ?thesis
  proof (cases "fst ?a = 0")
    case False
    have "world_ok (put_grp i g1 w)" using g1 cl by (intro put_ok[OF w g g1(1)]) (simp_all add: active_def)
    moreover have "alloc_at addr_copy addr type rem_id i w = Some (id_clear, fst ?a, put_grp i g1 w)"
      using g False by (simp add: alloc_at_def case_prod_beta Let_def g1_def)
    ultimately show ?thesis using False g1 by (auto simp: put_grp_def intro!: exI[of _ g1])
  next
    case True
    let ?t = "if type = RPC_C_CN_ASSOC_GRP_CLIENT then rpc_c_cn_cl_a_g else rpc_c_cn_svr_a_g"
    let ?g = "setup_grp type rem_id g1"
    have q: "quiet_sm RPC_C_ASSOC_GRP_CLOSED ?t (grp_state ?g)"
      by (simp add: setup_grp_def quiet_sm_def rpc__cn_sm_init_def rpc__cn_sm_init_event_list_def cn_consts)
    have tm: "?t \<in> {rpc_c_cn_cl_a_g, rpc_c_cn_svr_a_g}" by simp
    obtain g2 where g2: "rpc_cn_assoc_grp_eval_event i RPC_C_ASSOC_GRP_NEW None (put_grp i ?g w)
          = Some (put_grp i g2 (put_grp i ?g w))"
        "same_grp ?g g2" "quiet_sm RPC_C_ASSOC_GRP_OPEN ?t (grp_state g2)"
      using event_new[OF deref_put[OF i, of ?g] q tm] by blast
    note f = same_grp_fields[OF g2(2), unfolded setup_grp_def, simplified]
    let ?w = "(put_grp i g2 w)\<lparr>grp_active_count := grp_active_count w + 1\<rparr>"
    have pp: "put_grp i g2 (put_grp i ?g w) = put_grp i g2 w" by (simp add: put_grp_def)
    have al: "alloc_at addr_copy addr type rem_id i w = Some (grp_id g2, grp_status g2, ?w)"
      using g True g2(1) i by (simp add: alloc_at_def case_prod_beta Let_def g1_def[symmetric] pp)
         (simp add: put_grp_def)
    have tt: "grp_typed g2" "grp_flags g2 = ucast type"
      using f g1 g2(3) t by (auto simp: grp_typed_def grp_type_ok_def quiet_sm_def cn_consts)
    then have "grp_ok i g2" "active g2"
      using g1 f g2(3) by (auto simp: grp_ok_def Let_def quiet_sm_def active_def cn_consts)
    then have "world_ok ?w"
      using f g1 closed deref_lt[OF g] by (intro world_put[OF w i, of g2]) (auto simp: put_grp_def)
    with al f g1 g2(3) tt show ?thesis by (auto simp: put_grp_def quiet_sm_def intro!: exI[of _ g2])
  qed
qed

definition member :: "'a cn_world \<Rightarrow> nat \<Rightarrow> bool" where
  "member w a \<longleftrightarrow> (\<exists>g \<in> set (assoc_grp_vector w). a \<in> set (grp_assoc_list g))"

definition room :: "'a cn_world \<Rightarrow> bool" where
  "room w \<longleftrightarrow> (\<exists>g \<in> set (assoc_grp_vector w). \<not> active g) \<or> unat (grp_count w) + 10 < 2 ^ 16"

lemma alloc_ok:
  assumes w: "world_ok w" and t: "grp_type_ok type" and r: "room w"
  shows "\<exists>gid st w'. rpc__cn_assoc_grp_alloc addr_copy mem addr type rem_id w = Some (gid, st, w') \<and> world_ok w' \<and>
    assoc_grp_id w' = assoc_grp_id w \<and> rundowns w' = rundowns w \<and> (\<forall>a. member w' a \<longrightarrow> member w a)"
proof (cases "first_closed (take (unat (grp_count w)) (assoc_grp_vector w))")
  case (Some i)
  have len: "length (assoc_grp_vector w) = unat (grp_count w)" using w by (simp add: world_ok_def)
  then have "deref_grp w i = Some (assoc_grp_vector w ! i)" "\<not> active (assoc_grp_vector w ! i)"
    using first_closed_some[OF Some] by (simp_all add: deref_grp_def)
  from alloc_at_ok[OF w this t, of addr_copy addr rem_id] Some show ?thesis
    by (fastforce simp: rpc__cn_assoc_grp_alloc_def member_def dest!: set_update_subset_insert[THEN subsetD])
next
  case None
  have len: "length (assoc_grp_vector w) = unat (grp_count w)" using w by (simp add: world_ok_def)
  with None r have "unat (grp_count w) + 10 < 2 ^ 16" by (auto simp: first_closed_none room_def)
  from create_ok[OF w this, of mem] obtain gid st w' ys where c:
    "rpc__cn_assoc_grp_create mem w = Some (gid, st, w')" "world_ok w'" "assoc_grp_id w' = assoc_grp_id w"
    "rundowns w' = rundowns w" "assoc_grp_vector w' = assoc_grp_vector w @ ys" "\<forall>g \<in> set ys. grp_assoc_list g = []"
    and d: "rpc_cn_assoc_grp gid = None \<or> (\<exists>i g. rpc_cn_assoc_grp gid = Some i \<and> deref_grp w' i = Some g \<and> \<not> active g)"
    by blast
  have m: "member w' a \<Longrightarrow> member w a" for a using c by (auto simp: member_def)
  from d show ?thesis
  proof
    assume "rpc_cn_assoc_grp gid = None"
    with None c m show ?thesis by (simp add: rpc__cn_assoc_grp_alloc_def)
  next
    assume "\<exists>i g. rpc_cn_assoc_grp gid = Some i \<and> deref_grp w' i = Some g \<and> \<not> active g"
    then obtain i g where i: "rpc_cn_assoc_grp gid = Some i" "deref_grp w' i = Some g" "\<not> active g" by blast
    from alloc_at_ok[OF c(2) i(2,3) t, of addr_copy addr rem_id] obtain gid2 st2 w2 g2 where a:
      "alloc_at addr_copy addr type rem_id i w' = Some (gid2, st2, w2)" "world_ok w2"
      "assoc_grp_id w2 = assoc_grp_id w'" "rundowns w2 = rundowns w'"
      "assoc_grp_vector w2 = (assoc_grp_vector w')[i := g2]" "grp_assoc_list g2 = []"
      by blast
    have "member w2 x \<Longrightarrow> member w' x" for x
      using a(5,6) by (auto simp: member_def dest!: set_update_subset_insert[THEN subsetD])
    with a c i None m show ?thesis by (auto simp: rpc__cn_assoc_grp_alloc_def)
  qed
qed

lemma set_id_ok:
  "world_ok w \<Longrightarrow> \<not> member w a \<Longrightarrow> world_ok (w\<lparr>assoc_grp_id := (assoc_grp_id w)(a := x)\<rparr>)"
  by (auto simp: world_ok_def member_def)

lemma bind_ok:
  assumes w: "world_ok w" and r: "room w" and a: "\<not> member w a"
    and idx: "id_valid pdu \<Longrightarrow> unat (id_index pdu) < length (assoc_grp_vector w)"
  shows "\<exists>st w'. server_bind_grp addr_copy mem pdu a w = Some (st, w') \<and> world_ok w'"
proof (cases "pdu = id_clear")
  case True
  have "grp_type_ok RPC_C_CN_ASSOC_GRP_SERVER" by (simp add: grp_type_ok_def)
  from alloc_ok[OF w this r, of addr_copy mem None id_clear] obtain gid st w' where
    al: "rpc__cn_assoc_grp_alloc addr_copy mem None RPC_C_CN_ASSOC_GRP_SERVER id_clear w = Some (gid, st, w')"
    "world_ok w'" "\<not> member w' a" using a by blast
  with set_id_ok[OF al(2,3)] True show ?thesis by (simp add: server_bind_grp_def)
next
  case False
  have d: "deref_grp (w\<lparr>assoc_grp_id := x\<rparr>) i = deref_grp w i" for x i by (simp add: deref_grp_def)
  show ?thesis
    using lkup_by_id_some[OF idx, of RPC_C_CN_ASSOC_GRP_SERVER] set_id_ok[OF w a] False
    by (fastforce simp: server_bind_grp_def rpc_s_assoc_grp_not_found_def d)
qed

end
