(* ===== verification/Cn_Grp_Props.thy ===== *)
theory Cn_Grp_Props
  imports Cn_Grp_Ops
begin

text \<open>
  The properties of the association groups and of the event list of their machines.

  \<^item> \<open>cn_op\<close> lists the operations, \<open>cn_guard\<close> where their callers may apply them, \<open>cn_reach\<close> the states
    they reach from \<open>rpc__cn_assoc_grp_tbl_init\<close>.
  \<^item> \<open>pops\<close> is the end of several calls of one association.
\<close>

section \<open>Runs\<close>

datatype 'a cn_op =
  Bind cn_local_id nat bool
| Alloc_client "'a option" cn_local_id bool
| Add nat
| Rem nat
| Push nat nat
| Pop nat
| Mon cn_local_id nat
| Stop_mon cn_local_id
| Maint cn_local_id
| Stop_maint cn_local_id

text \<open>The group whose identifier an association carries.\<close>

definition own_grp :: "'a cn_world \<Rightarrow> nat \<Rightarrow> 'a cn_grp option" where
  "own_grp w a =
     (case Option.bind (rpc_cn_assoc_grp (assoc_grp_id w a)) (deref_grp w) of
        Some g \<Rightarrow> if grp_id g = assoc_grp_id w a then Some g else None
      | None \<Rightarrow> None)"

definition in_table :: "'a cn_world \<Rightarrow> cn_local_id \<Rightarrow> bool" where
  "in_table w gid \<longleftrightarrow> \<not> id_valid gid \<or> unat (id_index gid) < length (assoc_grp_vector w)"

fun cn_guard :: "'a cn_op \<Rightarrow> 'a cn_world \<Rightarrow> bool" where
  "cn_guard (Bind pdu a mem) w = (in_table w pdu \<and> room w \<and> \<not> member w a)"
| "cn_guard (Alloc_client addr rem_id mem) w = room w"
| "cn_guard (Add a) w =
     (case own_grp w a of None \<Rightarrow> False
      | Some g \<Rightarrow> cur_state (grp_state g) \<in> {RPC_C_ASSOC_GRP_OPEN, RPC_C_ASSOC_GRP_ACTIVE}
          \<and> a \<notin> set (grp_assoc_list g) \<and> Suc (length (grp_assoc_list g)) < 2 ^ 16)"
| "cn_guard (Rem a) w =
     (\<not> id_valid (assoc_grp_id w a) \<or> (case own_grp w a of None \<Rightarrow> False | Some g \<Rightarrow> a \<in> set (grp_assoc_list g)))"
| "cn_guard (Push a c) w =
     (case own_grp w a of None \<Rightarrow> False | Some g \<Rightarrow> cur_state (grp_state g) = RPC_C_ASSOC_GRP_ACTIVE)"
| "cn_guard (Pop a) w =
     (\<not> id_valid (assoc_grp_id w a) \<or>
      (case own_grp w a of None \<Rightarrow> False
       | Some g \<Rightarrow> cur_state (grp_state g) \<in> {RPC_C_ASSOC_GRP_ACTIVE, RPC_C_SERVER_ASSOC_GRP_CALL_WAIT}))"
| "cn_guard (Mon gid r) w = in_table w gid"
| "cn_guard (Stop_mon gid) w =
     (in_table w gid \<and> (\<forall>g \<in> set (assoc_grp_vector w). grp_id g = gid \<longrightarrow> grp_refcnt g \<noteq> 0))"
| "cn_guard (Maint gid) w = in_table w gid"
| "cn_guard (Stop_maint gid) w = in_table w gid"

fun cn_exec :: "('a \<Rightarrow> u32 \<times> 'a option) \<Rightarrow> 'a cn_op \<Rightarrow> 'a cn_world \<Rightarrow> 'a cn_world option" where
  "cn_exec cp (Bind pdu a mem) w = map_option snd (server_bind_grp cp mem pdu a w)"
| "cn_exec cp (Alloc_client addr rem_id mem) w =
     map_option (snd \<circ> snd) (rpc__cn_assoc_grp_alloc cp mem addr RPC_C_CN_ASSOC_GRP_CLIENT rem_id w)"
| "cn_exec cp (Add a) w = rpc__cn_assoc_grp_add_assoc (assoc_grp_id w a) a w"
| "cn_exec cp (Rem a) w = rpc__cn_assoc_grp_rem_assoc (assoc_grp_id w a) a w"
| "cn_exec cp (Push a c) w = rpc__cn_assoc_push_call a c w"
| "cn_exec cp (Pop a) w = pop_call_grp a w"
| "cn_exec cp (Mon gid r) w = map_option snd (rpc__cn_network_mon gid r w)"
| "cn_exec cp (Stop_mon gid) w = map_option snd (rpc__cn_network_stop_mon gid w)"
| "cn_exec cp (Maint gid) w = map_option snd (rpc__cn_network_maint gid w)"
| "cn_exec cp (Stop_maint gid) w = map_option snd (rpc__cn_network_stop_maint gid w)"

inductive cn_reach :: "('a \<Rightarrow> u32 \<times> 'a option) \<Rightarrow> 'a cn_world \<Rightarrow> bool" for cp where
  init: "rpc__cn_assoc_grp_tbl_init mem w0 = Some w \<Longrightarrow> cn_reach cp w"
| step: "cn_reach cp w \<Longrightarrow> cn_guard x w \<Longrightarrow> cn_exec cp x w = Some w' \<Longrightarrow> cn_reach cp w'"

lemma own_grp_some:
  assumes "own_grp w a = Some g"
  obtains i where "deref_grp w i = Some g" "assoc_grp_id w a = grp_id g"
  using assms by (auto simp: own_grp_def split: option.splits if_splits bind_splits)

lemma usable_flags:
  assumes "grp_ok i g" and "grp_usable type g" and "grp_type_ok type"
  shows "grp_flags g = ucast type"
  using usable_type(3)[OF assms(1,2)] assms(2,3)
  by (auto simp: grp_typed_def grp_usable_def grp_type_ok_def cn_consts)

lemma on_group_step:
  assumes w: "world_ok w" and t: "in_table w gid" "grp_type_ok type"
    and f: "\<And>g. f g = g\<lparr>grp_refcnt := grp_refcnt (f g), grp_liveness_mntr := grp_liveness_mntr (f g)\<rparr>"
    and r: "\<And>i g. deref_grp w i = Some g \<Longrightarrow> grp_id g = gid \<Longrightarrow> grp_ok i g \<Longrightarrow> type = RPC_C_CN_ASSOC_GRP_SERVER \<Longrightarrow>
      grp_refcnt (f g) \<noteq> 0 \<Longrightarrow> grp_flags g = 2 \<Longrightarrow> grp_liveness_mntr (f g) \<noteq> None"
  shows "\<exists>w'. map_option snd (on_group gid type f w) = Some w' \<and> world_ok w'"
proof -
  have "\<exists>st w'. on_group gid type f w = Some (st, w') \<and> world_ok w'"
  proof (rule on_group_ok[OF w])
    show "id_valid gid \<Longrightarrow> unat (id_index gid) < length (assoc_grp_vector w)" using t by (simp add: in_table_def)
  next
    fix i g assume g: "deref_grp w i = Some g" "grp_id g = gid" "grp_ok i g" "grp_usable type g"
    have flags: "grp_flags g = ucast type" by (rule usable_flags[OF g(3,4) t(2)])
    have "grp_refcnt (f g) \<noteq> 0 \<Longrightarrow> grp_flags g = 2 \<Longrightarrow> grp_liveness_mntr (f g) \<noteq> None"
      using r[OF g(1-3)] flags t(2) by (auto simp: grp_type_ok_def cn_consts)
    then show "grp_ok i (f g) \<and> grp_assoc_list (f g) = grp_assoc_list g \<and> grp_id (f g) = grp_id g \<and> active (f g) = active g"
      using g(3) usable_type[OF g(3,4)]
      by (subst (1 2 3 4) f) (simp add: grp_ok_def grp_typed_def active_def Let_def cn_consts)
  qed
  then show ?thesis by auto
qed

lemmas network_defs = rpc__cn_network_mon_def rpc__cn_network_stop_mon_def rpc__cn_network_maint_def
  rpc__cn_network_stop_maint_def

lemma cn_step_ok:
  assumes w: "world_ok w" and guard: "cn_guard x w"
  shows "\<exists>w'. cn_exec cp x w = Some w' \<and> world_ok w'"
proof (cases x)
  case (Bind pdu a mem)
  with guard bind_ok[OF w, of a pdu cp mem] show ?thesis by (auto simp: in_table_def)
next
  case (Alloc_client addr rem_id mem)
  have "grp_type_ok RPC_C_CN_ASSOC_GRP_CLIENT" by (simp add: grp_type_ok_def)
  with alloc_ok[OF w this, of cp mem addr rem_id] guard Alloc_client show ?thesis by auto
next
  case (Add a)
  with guard obtain g where g: "own_grp w a = Some g" by (auto split: option.splits)
  then obtain i where "deref_grp w i = Some g" "assoc_grp_id w a = grp_id g" by (rule own_grp_some)
  with Add guard g add_assoc_ok[OF w this(1), of a] show ?thesis by auto
next
  case (Rem a)
  show ?thesis
  proof (cases "id_valid (assoc_grp_id w a)")
    case False
    with Rem w show ?thesis by (simp add: rpc__cn_assoc_grp_rem_assoc_def rpc_cn_assoc_grp_def)
  next
    case True
    with Rem guard obtain g where g: "own_grp w a = Some g" "a \<in> set (grp_assoc_list g)" by (auto split: option.splits)
    from g(1) obtain i where "deref_grp w i = Some g" by (rule own_grp_some)
    from rem_assoc_ok[OF w this g(2)] show ?thesis using Rem by cases auto
  qed
next
  case (Push a c)
  with guard obtain g where g: "own_grp w a = Some g" by (auto split: option.splits)
  then obtain i where "deref_grp w i = Some g" "assoc_grp_id w a = grp_id g" by (rule own_grp_some)
  with Push guard g push_call_ok[OF w this(1) _ this(2), of c] show ?thesis by auto
next
  case (Pop a)
  show ?thesis
  proof (cases "id_valid (assoc_grp_id w a)")
    case False
    with Pop w show ?thesis by (simp add: pop_call_grp_def rpc_cn_assoc_grp_def)
  next
    case True
    with Pop guard obtain g where g: "own_grp w a = Some g"
        "cur_state (grp_state g) \<in> {RPC_C_ASSOC_GRP_ACTIVE, RPC_C_SERVER_ASSOC_GRP_CALL_WAIT}"
      by (auto split: option.splits)
    from g(1) obtain i where i: "deref_grp w i = Some g" "assoc_grp_id w a = grp_id g" by (rule own_grp_some)
    from pop_call_ok[OF w i(1) g(2) i(2)] show ?thesis using Pop by cases auto
  qed
next
  case (Mon gid r)
  with guard show ?thesis
    unfolding Mon cn_exec.simps network_defs by (intro on_group_step[OF w]) (simp_all add: grp_type_ok_def)
next
  case (Stop_mon gid)
  have "grp_liveness_mntr g \<noteq> None" if "deref_grp w i = Some g" "grp_id g = gid" "grp_ok i g" "grp_flags g = 2" for i g
    using guard Stop_mon that deref_lt[OF that(1)] by (auto simp: grp_ok_def)
  with guard Stop_mon show ?thesis
    unfolding Stop_mon cn_exec.simps network_defs by (intro on_group_step[OF w]) (simp_all add: grp_type_ok_def)
next
  case (Maint gid)
  with guard show ?thesis
    unfolding Maint cn_exec.simps network_defs
    by (intro on_group_step[OF w]) (simp_all add: grp_type_ok_def cn_consts)
next
  case (Stop_maint gid)
  with guard show ?thesis
    unfolding Stop_maint cn_exec.simps network_defs
    by (intro on_group_step[OF w]) (simp_all add: grp_type_ok_def cn_consts)
qed

lemma tbl_init_ok: "rpc__cn_assoc_grp_tbl_init mem w0 = Some w \<Longrightarrow> world_ok w"
proof -
  assume a: "rpc__cn_assoc_grp_tbl_init mem w0 = Some w"
  let ?w = "w0\<lparr>grp_count := 0, grp_active_count := 0, assoc_grp_vector := []\<rparr>"
  have "world_ok ?w" by (simp add: world_ok_def)
  from create_ok[OF this, of mem] a show ?thesis by (auto simp: rpc__cn_assoc_grp_tbl_init_def)
qed

lemma reach_ok: "cn_reach cp w \<Longrightarrow> world_ok w"
proof (induction rule: cn_reach.induct)
  case (step w x w')
  then show ?case using cn_step_ok[of w x cp] by simp
qed (rule tbl_init_ok)

section \<open>The end of the calls of an association\<close>

fun pops :: "nat \<Rightarrow> nat \<Rightarrow> 'a cn_world \<Rightarrow> 'a cn_world option" where
  "pops 0 a w = Some w"
| "pops (Suc n) a w = Option.bind (pop_call_grp a w) (pops n a)"

lemma rundown_close [simp]: "rundowns (close_grp i g w) = rundowns w"
  by (simp add: close_grp_def put_grp_def)

lemma rundown_put [simp]: "rundowns (put_grp i g w) = rundowns w" "assoc_grp_id (put_grp i g w) = assoc_grp_id w"
  by (simp_all add: put_grp_def)

lemma rundown_rundown [simp]: "rundowns (rundown_world a r g w) = rundowns w @ [(r, grp_id g)]"
  by (simp add: rundown_world_def)

text \<open>In the call wait state each end of a call but the last changes the count only; the last one calls
  the liveness routine.\<close>

lemma pops_call_wait:
  assumes "world_ok w" and "deref_grp w i = Some g" and "cur_state (grp_state g) = RPC_C_SERVER_ASSOC_GRP_CALL_WAIT"
    and "assoc_grp_id w a = grp_id g" and "unat (grp_callcnt g) = Suc n" and "grp_liveness_mntr g = Some r"
  shows "(\<forall>k \<le> n. \<exists>w'. pops k a w = Some w' \<and> rundowns w' = rundowns w) \<and>
    (\<exists>w'. pops (Suc n) a w = Some w' \<and> rundowns w' = rundowns w @ [(r, grp_id g)])"
  using assms
proof (induction n arbitrary: w g)
  case 0
  then have "grp_callcnt g = 1" by (simp add: word_unat_eq_iff)
  with 0 show ?case
    by (cases rule: pop_call_ok[OF 0(1,2) _ 0(4)]) (auto simp: cn_consts)
next
  case (Suc n)
  let ?g = "g\<lparr>grp_callcnt := grp_callcnt g - 1\<rparr>"
  have c: "grp_callcnt g \<noteq> 1" "unat (grp_callcnt g - 1) = Suc n"
    using Suc.prems(5) unat_minus_one[of "grp_callcnt g"] by (cases "grp_callcnt g = 0"; auto)+
  have pop: "pop_call_grp a w = Some (put_grp i ?g w)" "world_ok (put_grp i ?g w)"
    using c Suc.prems(3) by (cases rule: pop_call_ok[OF Suc.prems(1,2) _ Suc.prems(4)]; simp add: cn_consts)+
  have i: "i < length (assoc_grp_vector w)" using deref_lt[OF Suc.prems(2)] by blast
  have IH: "(\<forall>k \<le> n. \<exists>w'. pops k a (put_grp i ?g w) = Some w' \<and> rundowns w' = rundowns w) \<and>
    (\<exists>w'. pops (Suc n) a (put_grp i ?g w) = Some w' \<and> rundowns w' = rundowns w @ [(r, grp_id g)])"
    using Suc.IH[OF pop(2), of ?g] Suc.prems c i by simp
  show ?case
  proof (intro conjI allI impI)
    fix k assume "k \<le> Suc n"
    then show "\<exists>w'. pops k a w = Some w' \<and> rundowns w' = rundowns w"
      using IH pop(1) by (cases k) auto
  qed (use IH pop(1) in auto)
qed

lemma seqnum_iterate:
  assumes "s \<noteq> 0"
  shows "unat ((next_seqnum ^^ n) s) = (unat s - 1 + n) mod 65535 + 1"
proof (induction n)
  case 0
  have "0 < unat s" "unat s < 65536" using assms unsigned_less[of s, where 'a = nat] by (simp_all add: unat_gt_0)
  then show ?case by simp
next
  case (Suc n)
  let ?x = "(next_seqnum ^^ n) s" and ?m = "(unat s - 1 + n) mod 65535"
  have step: "unat (next_seqnum y) = (if unat y = 65535 then 1 else unat y + 1)" for y
  proof (cases "unat y = 65535")
    case True
    then have "y = 0xffff" by (simp add: word_unat_eq_iff)
    then show ?thesis by (simp add: next_seqnum_def)
  next
    case False
    then have "unat y + 1 < 65536" using unsigned_less[of y, where 'a = nat] by simp
    then have "unat (y + 1) = unat y + 1" by (subst unat_add_lem[THEN iffD1]) simp_all
    then show ?thesis using False by (auto simp: next_seqnum_def word_unat_eq_iff)
  qed
  have "?m < 65535" by simp
  then show ?case using Suc.IH step[of ?x] by (simp add: mod_Suc)
qed

section \<open>Properties\<close>

text \<open>C14. In every state the group operations reach, applied where their callers may apply them, an operation
  returns (no illegal transition, no access outside the table), and the state satisfies the invariant: the
  counts of groups and of associations are right, and the machine of each group agrees with its contents.\<close>

theorem cn_groups_safe:
  assumes "cn_reach cp w"
  shows "world_ok w \<and> (\<forall>x. cn_guard x w \<longrightarrow> (\<exists>w'. cn_exec cp x w = Some w'))"
  using reach_ok[OF assms] cn_step_ok[of w _ cp] by blast

text \<open>C17. When the last association of a server group is removed while the application holds references, the
  liveness routine is called exactly once: when the last of the association's calls has ended, not before.\<close>

theorem rundown_exactly_once:
  assumes w: "world_ok w" and g: "deref_grp w i = Some g" and last: "grp_assoc_list g = [a]"
    and srv: "grp_flags g = 2" "grp_refcnt g \<noteq> 0"
  shows "\<exists>w1 r. rpc__cn_assoc_grp_rem_assoc (assoc_grp_id w a) a w = Some w1 \<and> grp_liveness_mntr g = Some r \<and>
    (\<forall>k < unat (grp_callcnt g). \<exists>w2. pops k a w1 = Some w2 \<and> rundowns w2 = rundowns w) \<and>
    (\<exists>w2. pops (unat (grp_callcnt g)) a w1 = Some w2 \<and> rundowns w2 = rundowns w @ [(r, grp_id g)])"
proof -
  have ok: "grp_ok i g" by (rule world_grp[OF w g])
  then obtain r where r: "grp_liveness_mntr g = Some r" using srv by (auto simp: grp_ok_def)
  have cur: "grp_cur_assoc g = 1" using rem_list(1)[OF ok, of a] last by simp
  have a: "a \<in> set (grp_assoc_list g)" using last by simp
  show ?thesis
  proof (cases rule: rem_assoc_ok[OF w g a])
    case (1 g')
    with cur show ?thesis by simp
  next
    case (2 g')
    let ?w = "put_grp i g' (rem_world a g w)"
    have f: "grp_callcnt g' = grp_callcnt g" "grp_id g' = grp_id g" "grp_liveness_mntr g' = Some r"
      using same_grp_fields[OF 2(3)] r by (simp_all add: rem_grp_def)
    have i: "i < length (assoc_grp_vector w)" using deref_lt[OF g] by blast
    obtain n where n: "unat (grp_callcnt g) = Suc n"
      using 2(8) by (metis not0_implies_Suc unsigned_0 word_unat_eq_iff)
    have id: "assoc_grp_id ?w a = grp_id g'"
      using 2(6,8) f members_keep[OF w g a] by (simp add: rem_world_def)
    show ?thesis
      using pops_call_wait[OF 2(2), of i g' a n r] 2(1,4) i f id n r
      by (simp add: less_Suc_eq_le)
  next
    case (3 g' r')
    then show ?thesis using r by auto
  next
    case (4 g')
    with srv show ?thesis by auto
  qed
qed

text \<open> A connection lost while a call runs: when the last association of a server group without references
  is removed, the group is closed and can be reused, but the association keeps its identifier; the end of the
  call then sets the call count of the closed group to 65535.\<close>

theorem stale_call_count:
  assumes w: "world_ok w" and g: "deref_grp w i = Some g" and last: "grp_assoc_list g = [a]"
    and srv: "grp_flags g = 2" "grp_refcnt g = 0" "grp_callcnt g \<noteq> 0"
  shows "\<exists>w1 w2 g2. rpc__cn_assoc_grp_rem_assoc (assoc_grp_id w a) a w = Some w1 \<and> pop_call_grp a w1 = Some w2 \<and>
    deref_grp w2 i = Some g2 \<and> cur_state (grp_state g2) = RPC_C_ASSOC_GRP_CLOSED \<and> grp_callcnt g2 = 0xffff"
proof -
  have ok: "grp_ok i g" by (rule world_grp[OF w g])
  have a: "a \<in> set (grp_assoc_list g)" using last by simp
  have cur: "grp_cur_assoc g = 1" using rem_list(1)[OF ok, of a] last by simp
  obtain g' where g': "rpc__cn_assoc_grp_rem_assoc (assoc_grp_id w a) a w = Some (close_grp i g' (rem_world a g w))"
      "world_ok (close_grp i g' (rem_world a g w))"
    by (cases rule: rem_assoc_ok[OF w g a]) (use srv cur in auto)
  let ?w1 = "close_grp i g' (rem_world a g w)"
  have i: "i < length (assoc_grp_vector w)" using deref_lt[OF g] by blast
  obtain g1 where d: "deref_grp ?w1 i = Some g1" and g1: "grp_callcnt g1 = 0" "grp_flags g1 = 0"
    using i by (auto simp: close_grp_def deref_grp_def put_grp_def dealloc_grp_def)
  have cl: "cur_state (grp_state g1) = RPC_C_ASSOC_GRP_CLOSED"
    using world_grp[OF g'(2) d] g1(2) by (cases rule: ok_cases) (auto simp: grp_typed_def)
  have id: "assoc_grp_id ?w1 a = grp_id g"
    using members_keep[OF w g a] srv by (simp add: close_grp_def rem_world_def)
  let ?g2 = "g1\<lparr>grp_callcnt := grp_callcnt g1 - 1\<rparr>"
  have "no_calls_ind i a (put_grp i ?g2 ?w1) = Some (put_grp i ?g2 ?w1)"
    using d g1 deref_lt[OF d] by (intro no_calls_ind_skip[of _ i ?g2]) auto
  then have "pop_call_grp a ?w1 = Some (put_grp i ?g2 ?w1)"
    using own_id[OF w g] id d by (simp add: pop_call_grp_def)
  moreover have "deref_grp (put_grp i ?g2 ?w1) i = Some ?g2" using deref_lt[OF d] by simp
  ultimately show ?thesis using g'(1) g1 cl by fastforce
qed

text \<open> An identifier whose index lies outside the group table is used to index it: the identifier that a
  client sends in its bind PDU makes the server read outside the table.\<close>

theorem bind_reads_outside_table:
  assumes "id_valid pdu" and "length (assoc_grp_vector w) \<le> unat (id_index pdu)"
  shows "server_bind_grp cp mem pdu a w = None"
  using assms
  by (auto simp: server_bind_grp_def rpc__cn_assoc_grp_lkup_by_id_def rpc_cn_assoc_grp_def deref_grp_def
      id_valid_def id_clear_def)

text \<open> Inside the table, a lookup by identifier succeeds exactly when an active group of the type has that
  identifier; a stale identifier is refused.\<close>

theorem lkup_by_id_iff:
  assumes "world_ok w" and "in_table w gid" and "id_valid gid"
  shows "rpc__cn_assoc_grp_lkup_by_id gid type w =
    Some (if \<exists>g \<in> set (assoc_grp_vector w). grp_id g = gid \<and> grp_usable type g then (gid, 0)
          else (id_clear, rpc_s_assoc_grp_not_found))"
proof -
  obtain i where i: "rpc_cn_assoc_grp gid = Some i" "i < length (assoc_grp_vector w)"
    using assms(2,3) by (simp add: rpc_cn_assoc_grp_def in_table_def)
  have "(\<exists>g \<in> set (assoc_grp_vector w). grp_id g = gid \<and> grp_usable type g)
      \<longleftrightarrow> id_equal (grp_id (assoc_grp_vector w ! i)) gid \<and> grp_usable type (assoc_grp_vector w ! i)" (is "?L \<longleftrightarrow> ?R")
  proof
    assume ?L
    then obtain j where j: "j < length (assoc_grp_vector w)" "grp_id (assoc_grp_vector w ! j) = gid"
        "grp_usable type (assoc_grp_vector w ! j)"
      by (auto simp: in_set_conv_nth)
    then have "rpc_cn_assoc_grp gid = Some j"
      using own_id[OF assms(1), of j "assoc_grp_vector w ! j"] by (simp add: deref_grp_def)
    with i j show ?R by (simp add: id_equal_def)
  next
    assume ?R
    with i show ?L by (auto simp: id_equal_def intro!: bexI[of _ "assoc_grp_vector w ! i"])
  qed
  with i show ?thesis by (simp add: rpc__cn_assoc_grp_lkup_by_id_def deref_grp_def)
qed

text \<open> Local identifiers are never invalid, and one slot gets the same identifier again only after 65535
  more identifiers have been generated.\<close>

theorem local_ids_fresh:
  assumes "seq \<noteq> 0"
  shows "id_valid (fst (rpc__cn_gen_local_id index seq)) \<and>
    ((((\<lambda>s. snd (rpc__cn_gen_local_id index s)) ^^ n) seq) = seq \<longleftrightarrow> 65535 dvd n)"
proof -
  have n: "(\<lambda>s. snd (rpc__cn_gen_local_id index s)) = next_seqnum"
    by (auto simp: rpc__cn_gen_local_id_def next_seqnum_def Let_def)
  have s: "0 < unat seq" using assms by (simp add: unat_gt_0)
  have "(next_seqnum ^^ n) seq = seq \<longleftrightarrow> (unat seq - 1 + n) mod 65535 + 1 = unat seq"
    using seqnum_iterate[OF assms, of n] by (simp add: word_unat_eq_iff)
  also have "\<dots> \<longleftrightarrow> (unat seq - 1 + n) mod 65535 = unat seq - 1" using s by linarith
  also have "\<dots> \<longleftrightarrow> (unat seq - 1 + n) mod 65535 = (unat seq - 1) mod 65535"
    using unsigned_less[of seq, where 'a = nat] s by simp
  also have "\<dots> \<longleftrightarrow> 65535 dvd n" by (simp add: mod_eq_dvd_iff_nat)
  finally show ?thesis
    unfolding n by (simp add: rpc__cn_gen_local_id_def id_valid_def Let_def)
qed

theorem local_ids_fresh_witness:
  "id_valid (fst (rpc__cn_gen_local_id 3 7)) \<and> ((\<lambda>s. snd (rpc__cn_gen_local_id 3 s)) ^^ 1) 7 \<noteq> 7"
  using local_ids_fresh[of 7 3 1] by simp

text \<open> The event list of a machine is a first-in first-out queue of two events.\<close>

theorem event_list_fifo:
  assumes "ring_ok q" and "ring_events q = []"
  shows "\<exists>q1 q2. cn_sm_get_next_event (rpc__cn_sm_insert_event e2 (rpc__cn_sm_insert_event e1 q)) = (Some e1, q1) \<and>
    cn_sm_get_next_event q1 = (Some e2, q2) \<and> cn_sm_get_next_event q2 = (None, q2) \<and> ring_ok q2"
proof -
  have p: "ring_ok (ring.puts [e1, e2] q) \<and> ring_events (ring.puts [e1, e2] q) = [e1, e2]"
    using ring.puts_abs[of q "[e1, e2]"] assms by simp
  then obtain q1 where q1: "cn_sm_get_next_event (ring.puts [e1, e2] q) = (Some e1, q1)" "ring_ok q1" "ring_events q1 = [e2]"
    using ring.get_cons by blast
  then obtain q2 where q2: "cn_sm_get_next_event q1 = (Some e2, q2)" "ring_ok q2" "ring_events q2 = []"
    using ring.get_cons by blast
  with q1 p show ?thesis using ring.get_nil[OF q2(2,3)] by (auto simp: ring.puts.simps)
qed

text \<open>A third event is not refused: it replaces the oldest one, which is lost.\<close>

theorem event_list_overflow:
  assumes "ring_ok q" and "ring_events q = [e1, e2]"
  shows "ring_events (rpc__cn_sm_insert_event e3 q) = [e3]"
  using assms by (auto simp: ring_defs nth_list_update split: if_splits)

section \<open>Witnesses\<close>

text \<open>A server group with one association; \<open>r\<close> references and \<open>c\<close> calls.\<close>

definition sample_world :: "u16 \<Rightarrow> u16 \<Rightarrow> nat cn_world" where
  "sample_world r c =
     \<lparr>seqnum = 7, grp_count = 1, grp_active_count = 1,
      assoc_grp_vector =
        [zero_grp\<lparr>grp_state := (grp_state (zero_grp :: nat cn_grp))\<lparr>cur_state := 102, tbl_id := 5\<rparr>, grp_flags := 2, grp_refcnt := r,
          grp_id := \<lparr>id_seqnum = 7, id_index = 0\<rparr>, grp_cur_assoc := 1, grp_assoc_list := [5], grp_callcnt := c,
          grp_liveness_mntr := Some 9\<rparr>],
      assoc_grp_id = (\<lambda>_. \<lparr>id_seqnum = 7, id_index = 0\<rparr>), assoc_flags = (\<lambda>_. 2), assoc_call_rep = (\<lambda>_. None),
      call_rep_assoc = (\<lambda>_. None), rundowns = []\<rparr>"

lemma sample_world_ok: "world_ok (sample_world r c)"
  by (simp add: sample_world_def world_ok_def grp_ok_def zero_grp_def grp_typed_def active_def id_valid_def cn_consts)

lemma sample_grp: "\<exists>g. deref_grp (sample_world r c) 0 = Some g \<and> grp_assoc_list g = [5] \<and> grp_flags g = 2 \<and>
    grp_refcnt g = r \<and> grp_callcnt g = c \<and> grp_id g = \<lparr>id_seqnum = 7, id_index = 0\<rparr>"
  by (simp add: sample_world_def deref_grp_def)

theorem rundown_exactly_once_witness:
  "\<exists>g w1 m. deref_grp (sample_world 1 2) 0 = Some g \<and>
    rpc__cn_assoc_grp_rem_assoc (assoc_grp_id (sample_world 1 2) 5) 5 (sample_world 1 2) = Some w1 \<and>
    (\<exists>w2. pops 2 5 w1 = Some w2 \<and> rundowns w2 = rundowns (sample_world 1 2) @ [(m, grp_id g)])"
proof -
  obtain g where g: "deref_grp (sample_world 1 2) 0 = Some g" "grp_assoc_list g = [5]" "grp_flags g = 2"
    "grp_refcnt g = 1" "grp_callcnt g = 2" using sample_grp by blast
  show ?thesis using rundown_exactly_once[OF sample_world_ok g(1,2,3)] g by auto
qed

theorem stale_call_count_witness:
  "\<exists>w1 w2. rpc__cn_assoc_grp_rem_assoc (assoc_grp_id (sample_world 0 1) 5) 5 (sample_world 0 1) = Some w1 \<and>
    pop_call_grp 5 w1 = Some w2 \<and> (\<exists>g2. deref_grp w2 0 = Some g2 \<and> grp_callcnt g2 = 0xffff)"
proof -
  obtain g where g: "deref_grp (sample_world 0 1) 0 = Some g" "grp_assoc_list g = [5]" "grp_flags g = 2"
    "grp_refcnt g = 0" "grp_callcnt g = 1" using sample_grp by blast
  show ?thesis using stale_call_count[OF sample_world_ok g(1,2,3,4)] g by auto
qed

theorem bind_reads_outside_table_witness:
  "server_bind_grp (\<lambda>a. (0, Some a)) True \<lparr>id_seqnum = 1, id_index = 40000\<rparr> 3 (sample_world 0 0) = None"
  by (rule bind_reads_outside_table) (simp_all add: id_valid_def sample_world_def)

theorem lkup_by_id_iff_witness:
  "rpc__cn_assoc_grp_lkup_by_id \<lparr>id_seqnum = 6, id_index = 0\<rparr> 2 (sample_world 0 0) = Some (id_clear, rpc_s_assoc_grp_not_found)"
  by (subst lkup_by_id_iff[OF sample_world_ok]) (simp_all add: in_table_def id_valid_def sample_world_def)

theorem event_list_fifo_witness:
  "\<exists>q1 q2. cn_sm_get_next_event (rpc__cn_sm_insert_event (102, None)
      (rpc__cn_sm_insert_event (101, Some 5) (grp_state (zero_grp :: nat cn_grp)))) = (Some (101, Some 5), q1) \<and>
    cn_sm_get_next_event q1 = (Some (102, None), q2) \<and> cn_sm_get_next_event q2 = (None, q2) \<and> ring_ok q2"
  by (rule event_list_fifo) (simp_all add: ring_ok_def ring_events_def zero_grp_def)

theorem event_list_overflow_witness:
  "ring_events (rpc__cn_sm_insert_event (103, None) (rpc__cn_sm_insert_event (102, None)
      (rpc__cn_sm_insert_event (101, Some 5) (grp_state (zero_grp :: nat cn_grp))))) = [(103, None)]"
  by (rule event_list_overflow[of _ "(101, Some 5)" "(102, None)"])
    (simp_all add: ring_defs zero_grp_def nth_list_update)

theorem cn_groups_safe_witness:
  "\<exists>w :: nat cn_world. world_ok w \<and> (\<exists>w'. cn_exec (\<lambda>a. (0, Some a)) (Bind id_clear 3 True) w = Some w')"
proof -
  let ?w0 = "sample_world 0 0"
  let ?e = "?w0\<lparr>grp_count := 0, grp_active_count := 0, assoc_grp_vector := []\<rparr>"
  have "world_ok ?e" by (simp add: world_ok_def)
  from create_ok[OF this, of True] obtain gid st w ys where w: "rpc__cn_assoc_grp_create True ?e = Some (gid, st, w)"
      "assoc_grp_vector w = assoc_grp_vector ?e @ ys" "\<forall>g \<in> set ys. grp_assoc_list g = []"
    by auto
  have t: "rpc__cn_assoc_grp_tbl_init True ?w0 = Some w" using w(1) by (simp add: rpc__cn_assoc_grp_tbl_init_def)
  have "grp_count w = 10" using w(1)
    by (auto simp: rpc__cn_assoc_grp_create_def RPC_C_ASSOC_GRP_ALLOC_SIZE_def Let_def split: if_splits prod.splits)
  then have "room w \<and> \<not> member w 3" using w(2,3) by (auto simp: room_def member_def)
  with cn_groups_safe[OF cn_reach.init[OF t]] show ?thesis
    by (metis cn_guard.simps(1) id_clear_def in_table_def id_valid_def cn_local_id.select_convs(1))
qed

end
