(* ===== verification/Tkm_Types.thy ===== *)
theory Tkm_Types
  imports Prelude "HOL-Library.Multiset"
begin

text \<open>
  Token types, byte ranges and token lists of the DFS token manager: \<^verbatim>\<open>file/tkm/tkm_ctable.c\<close>, \<^verbatim>\<open>tkm_ctable.h\<close>,
  \<^verbatim>\<open>tkm_range.c\<close>, \<^verbatim>\<open>tkm_range.h\<close>, \<^verbatim>\<open>tkm_tokenlist.c\<close>, with the types of \<^verbatim>\<open>tkm_internal.h\<close> and \<^verbatim>\<open>tkm_tokens.h\<close>.

  \<^item> A set of token types is a \<open>long\<close> of 32 bits, bit \<open>i\<close> for the type \<open>i\<close> of the enumeration.
  \<^item> The conflict table is one block of memory of 15 rows of 15 bytes; the code reads 16 bytes of a row and
    one row too many.  \<open>junk\<close> is what the memory behind the table holds.
  \<^item> \<open>AFS_hcmp\<close> compares hypers without sign, so a hyper is \<^typ>\<open>u64\<close>.
\<close>

section \<open>Token types\<close>

definition TKM_LOCK_READ :: nat where "TKM_LOCK_READ = 0"
definition TKM_LOCK_WRITE :: nat where "TKM_LOCK_WRITE = 1"
definition TKM_DATA_READ :: nat where "TKM_DATA_READ = 2"
definition TKM_DATA_WRITE :: nat where "TKM_DATA_WRITE = 3"
definition TKM_OPEN_READ :: nat where "TKM_OPEN_READ = 4"
definition TKM_OPEN_WRITE :: nat where "TKM_OPEN_WRITE = 5"
definition TKM_OPEN_SHARED :: nat where "TKM_OPEN_SHARED = 6"
definition TKM_OPEN_EXCLUSIVE :: nat where "TKM_OPEN_EXCLUSIVE = 7"
definition TKM_OPEN_DELETE :: nat where "TKM_OPEN_DELETE = 8"
definition TKM_OPEN_PRESERVE :: nat where "TKM_OPEN_PRESERVE = 9"
definition TKM_STATUS_READ :: nat where "TKM_STATUS_READ = 10"
definition TKM_STATUS_WRITE :: nat where "TKM_STATUS_WRITE = 11"
definition TKM_SPOT_HERE :: nat where "TKM_SPOT_HERE = 13"
definition TKM_SPOT_THERE :: nat where "TKM_SPOT_THERE = 14"
definition TKM_ALL_TOKENS :: nat where "TKM_ALL_TOKENS = 15"

lemmas tkm_type_defs = TKM_LOCK_READ_def TKM_LOCK_WRITE_def TKM_DATA_READ_def TKM_DATA_WRITE_def
  TKM_OPEN_READ_def TKM_OPEN_WRITE_def TKM_OPEN_SHARED_def TKM_OPEN_EXCLUSIVE_def TKM_OPEN_DELETE_def
  TKM_OPEN_PRESERVE_def TKM_STATUS_READ_def TKM_STATUS_WRITE_def TKM_SPOT_HERE_def TKM_SPOT_THERE_def
  TKM_ALL_TOKENS_def

definition TKM_TOKENTYPE_MASK :: "nat \<Rightarrow> u32" where
  "TKM_TOKENTYPE_MASK t = push_bit t 1"

definition TKM_TYPES_WITH_RANGE :: "u32 \<Rightarrow> u32" where
  "TKM_TYPES_WITH_RANGE t = t AND 0xF"

definition TKM_TYPES_WITHOUT_RANGE :: "u32 \<Rightarrow> u32" where
  "TKM_TYPES_WITHOUT_RANGE t = t AND NOT 0xF"

section \<open>The conflict table\<close>

definition conflict :: "(nat \<times> nat) list" where
  "conflict =
     [(TKM_OPEN_READ, TKM_OPEN_EXCLUSIVE), (TKM_OPEN_WRITE, TKM_OPEN_EXCLUSIVE),
      (TKM_OPEN_WRITE, TKM_OPEN_SHARED), (TKM_OPEN_EXCLUSIVE, TKM_OPEN_EXCLUSIVE),
      (TKM_OPEN_EXCLUSIVE, TKM_OPEN_SHARED), (TKM_STATUS_READ, TKM_STATUS_WRITE),
      (TKM_STATUS_WRITE, TKM_STATUS_WRITE), (TKM_LOCK_READ, TKM_LOCK_WRITE),
      (TKM_LOCK_WRITE, TKM_LOCK_WRITE), (TKM_DATA_READ, TKM_DATA_WRITE),
      (TKM_DATA_WRITE, TKM_DATA_WRITE), (TKM_OPEN_DELETE, TKM_OPEN_READ),
      (TKM_OPEN_DELETE, TKM_OPEN_WRITE), (TKM_OPEN_DELETE, TKM_OPEN_SHARED),
      (TKM_OPEN_DELETE, TKM_OPEN_EXCLUSIVE), (TKM_OPEN_DELETE, TKM_OPEN_DELETE),
      (TKM_OPEN_DELETE, TKM_OPEN_PRESERVE), (TKM_SPOT_HERE, TKM_SPOT_THERE)]"

definition ctable :: "(nat \<Rightarrow> bool) \<Rightarrow> nat \<Rightarrow> nat \<Rightarrow> bool" where
  "ctable junk j k =
     (let n = TKM_ALL_TOKENS * j + k in
      if n < TKM_ALL_TOKENS * TKM_ALL_TOKENS
      then list_ex (\<lambda>(a, b). n = TKM_ALL_TOKENS * a + b \<or> n = TKM_ALL_TOKENS * b + a) conflict
      else junk n)"

definition onion :: "(nat \<Rightarrow> bool) \<Rightarrow> nat \<Rightarrow> u32 \<Rightarrow> u32" where
  "onion junk base i =
     fold (\<lambda>j acc. if bit i j
         then fold (\<lambda>k acc. if ctable junk (j + base) k then acc OR push_bit k 1 else acc) [0..<16] acc
         else acc) [0..<8] 0"

definition tkm_ctable0 :: "(nat \<Rightarrow> bool) \<Rightarrow> u32 \<Rightarrow> s16" where
  "tkm_ctable0 junk i = ucast (onion junk 0 i)"

definition tkm_ctable1 :: "(nat \<Rightarrow> bool) \<Rightarrow> u32 \<Rightarrow> s16" where
  "tkm_ctable1 junk i = ucast (onion junk 8 i)"

definition TKM_TYPE_CONFLICTS :: "(nat \<Rightarrow> bool) \<Rightarrow> u32 \<Rightarrow> u32" where
  "TKM_TYPE_CONFLICTS junk t =
     scast (tkm_ctable0 junk (t AND 0xFF)) OR scast (tkm_ctable1 junk (drop_bit 8 t AND 0xFF))"

text \<open>The relation that the table is to represent.\<close>

definition types_conflict :: "nat \<Rightarrow> nat \<Rightarrow> bool" where
  "types_conflict j k \<longleftrightarrow> (j, k) \<in> set conflict \<or> (k, j) \<in> set conflict"


lemma bit_add_type: "bit (a OR push_bit k 1) n \<longleftrightarrow> bit a n \<or> n = k \<and> n < 32" for a :: u32
  unfolding bit_or_iff push_bit_of_1 by (auto simp: bit_exp_iff)

lemma bit_add_types:
  "bit (fold (\<lambda>k acc. if P k then acc OR push_bit k 1 else acc) ks (a :: u32)) n
     \<longleftrightarrow> bit a n \<or> n < 32 \<and> n \<in> set ks \<and> P n"
proof (induction ks arbitrary: a)
  case (Cons k ks)
  have "bit (if P k then a OR push_bit k 1 else a) n \<longleftrightarrow> bit a n \<or> n < 32 \<and> n = k \<and> P n"
    using bit_add_type [of a k n] by auto
  then show ?case by (auto simp: Cons.IH)
qed simp

lemma bit_add_rows:
  "bit (fold (\<lambda>j acc. if Q j then fold (\<lambda>k acc. if P j k then acc OR push_bit k 1 else acc) ks acc else acc) js
      (a :: u32)) n
     \<longleftrightarrow> bit a n \<or> n < 32 \<and> n \<in> set ks \<and> (\<exists>j \<in> set js. Q j \<and> P j n)"
proof (induction js arbitrary: a)
  case (Cons j js)
  have "bit (if Q j then fold (\<lambda>k acc. if P j k then acc OR push_bit k 1 else acc) ks a else a) n
      \<longleftrightarrow> bit a n \<or> n < 32 \<and> n \<in> set ks \<and> Q j \<and> P j n"
    by (simp add: bit_add_types)
  then show ?case by (auto simp: Cons.IH)
qed simp

lemma bit_onion:
  "bit (onion junk base i) n \<longleftrightarrow> n < 16 \<and> (\<exists>j < 8. bit i j \<and> ctable junk (j + base) n)"
  unfolding onion_def bit_add_rows by auto

lemma conflict_pair_less: "(a, b) \<in> set conflict \<Longrightarrow> a < 15 \<and> b < 15"
  by (auto simp: conflict_def tkm_type_defs)

lemma row_col:
  fixes a b :: nat
  assumes "b < 15" and "k < 15"
  shows "15 * j + k = 15 * a + b \<longleftrightarrow> j = a \<and> k = b"
proof
  assume eq: "15 * j + k = 15 * a + b"
  have "(15 * j + k) div 15 = j" and "(15 * a + b) div 15 = a" using assms by simp_all
  then have "j = a" using eq by simp
  then show "j = a \<and> k = b" using eq by simp
qed simp

lemma ctable_inside:
  assumes "j < 15" and "k < 15"
  shows "ctable junk j k = types_conflict j k"
proof -
  have "15 * j + k < 225" using assms by simp
  then have "ctable junk j k \<longleftrightarrow> (\<exists>(a, b) \<in> set conflict. 15 * j + k = 15 * a + b \<or> 15 * j + k = 15 * b + a)"
    by (simp add: ctable_def Let_def TKM_ALL_TOKENS_def list_ex_iff)
  also have "\<dots> \<longleftrightarrow> (\<exists>(a, b) \<in> set conflict. (j, k) = (a, b) \<or> (k, j) = (a, b))"
    using conflict_pair_less by (intro bex_cong refl) (auto simp: row_col assms)
  also have "\<dots> \<longleftrightarrow> types_conflict j k" by (auto simp: types_conflict_def)
  finally show ?thesis .
qed

text \<open>The sixteenth byte of a row is the first byte of the next one, and of the memory behind the table.\<close>

lemma ctable_shift: "ctable junk j 15 = ctable junk (Suc j) 0"
  by (simp add: ctable_def TKM_ALL_TOKENS_def add.commute)

lemma ctable_past_row: "j < 14 \<Longrightarrow> ctable junk j 15 \<longleftrightarrow> j = 0"
  by (simp add: ctable_shift ctable_inside) (auto simp: types_conflict_def conflict_def tkm_type_defs)

lemma ctable_past_table: "ctable junk 14 15 = junk 225" "ctable junk 15 k = junk (225 + k)"
  by (simp_all add: ctable_def TKM_ALL_TOKENS_def)

lemma bit_ff: "bit (0xFF :: u32) n \<longleftrightarrow> n < 8"
proof -
  have "(0xFF :: u32) = Bit_Operations.mask 8" by (simp add: mask_eq_exp_minus_1)
  then show ?thesis by (simp only: bit_mask_iff) auto
qed

lemma bit_and_ff: "bit (x AND 0xFF) n \<longleftrightarrow> bit x n \<and> n < 8" for x :: u32
  by (simp only: bit_and_iff bit_ff)

lemma bit_scast_16: "bit (scast (x :: 16 word) :: u32) n \<longleftrightarrow> n < 32 \<and> bit x (min n 15)"
  by (auto simp: bit_signed_iff min_def)

lemma split_16: "(\<exists>j < 16. P j) \<longleftrightarrow> (\<exists>j < 8. P j) \<or> (\<exists>j < 8. P (8 + j))" for P :: "nat \<Rightarrow> bool"
proof -
  have "P j \<Longrightarrow> j < 16 \<Longrightarrow> \<not> j < 8 \<Longrightarrow> \<exists>j < 8. P (8 + j)" for j
    by (rule exI [of _ "j - 8"]) auto
  moreover have "j < 8 \<Longrightarrow> j < 16 \<and> 8 + j < 16" for j :: nat by simp
  ultimately show ?thesis by blast
qed

lemma bit_type_conflicts:
  "bit (TKM_TYPE_CONFLICTS junk t) n \<longleftrightarrow> n < 32 \<and> (\<exists>j < 16. bit t j \<and> ctable junk j (min n 15))"
proof -
  have lo: "bit (tkm_ctable0 junk (t AND 0xFF)) m \<longleftrightarrow> m < 16 \<and> (\<exists>j < 8. bit t j \<and> ctable junk j m)" for m
    by (auto simp: tkm_ctable0_def bit_unsigned_iff bit_onion bit_and_ff)
  have hi: "bit (tkm_ctable1 junk (drop_bit 8 t AND 0xFF)) m
      \<longleftrightarrow> m < 16 \<and> (\<exists>j < 8. bit t (8 + j) \<and> ctable junk (8 + j) m)" for m
    by (auto simp: tkm_ctable1_def bit_unsigned_iff bit_onion bit_and_ff bit_drop_bit_eq add.commute)
  show ?thesis
    unfolding TKM_TYPE_CONFLICTS_def bit_or_iff bit_scast_16 lo hi split_16 by auto
qed

text \<open>Types that the enumeration has: everything a token may hold.\<close>

definition real_types :: "u32 \<Rightarrow> bool" where
  "real_types t \<longleftrightarrow> (\<forall>n. bit t n \<longrightarrow> n < 15)"

lemma bit_type_conflicts_real:
  assumes "real_types t" and "n < 15"
  shows "bit (TKM_TYPE_CONFLICTS junk t) n \<longleftrightarrow> (\<exists>j < 15. bit t j \<and> types_conflict j n)"
proof -
  have "bit t j \<longleftrightarrow> bit t j \<and> j < 15" for j using assms(1) by (auto simp: real_types_def)
  then have "bit (TKM_TYPE_CONFLICTS junk t) n \<longleftrightarrow> (\<exists>j < 16. bit t j \<and> j < 15 \<and> ctable junk j n)"
    using assms(2) by (simp add: bit_type_conflicts min_def) blast
  moreover have "j < 16" if "j < 15" for j :: nat using that by simp
  ultimately have "bit (TKM_TYPE_CONFLICTS junk t) n \<longleftrightarrow> (\<exists>j < 15. bit t j \<and> ctable junk j n)" by blast
  also have "\<dots> \<longleftrightarrow> (\<exists>j < 15. bit t j \<and> types_conflict j n)"
    using ctable_inside [OF _ assms(2)] by auto
  finally show ?thesis .
qed


section \<open>Byte ranges\<close>

record tkm_byterange =
  lowBnd :: u64
  upBnd :: u64

definition TKM_BYTERANGE_IS_EMPTY :: "tkm_byterange \<Rightarrow> bool" where
  "TKM_BYTERANGE_IS_EMPTY a \<longleftrightarrow> upBnd a < lowBnd a"

definition TKM_DISJOINT_BYTERANGES :: "tkm_byterange \<Rightarrow> tkm_byterange \<Rightarrow> bool" where
  "TKM_DISJOINT_BYTERANGES left right \<longleftrightarrow>
     TKM_BYTERANGE_IS_EMPTY left \<or> TKM_BYTERANGE_IS_EMPTY right \<or>
     min (upBnd left) (upBnd right) < max (lowBnd left) (lowBnd right)"

definition TKM_BYTERANGE_IS_SUBRANGE :: "tkm_byterange \<Rightarrow> tkm_byterange \<Rightarrow> bool" where
  "TKM_BYTERANGE_IS_SUBRANGE sub rng \<longleftrightarrow> lowBnd rng \<le> lowBnd sub \<and> upBnd sub \<le> upBnd rng"

definition tkm_ByterangeIntersection :: "tkm_byterange \<Rightarrow> tkm_byterange \<Rightarrow> tkm_byterange" where
  "tkm_ByterangeIntersection left right =
     (if \<not> TKM_DISJOINT_BYTERANGES left right
      then \<lparr>lowBnd = max (lowBnd left) (lowBnd right), upBnd = min (upBnd left) (upBnd right)\<rparr>
      else \<lparr>lowBnd = 1, upBnd = 0\<rparr>)"

text \<open>The pair of the parts below and above; no part is the null pointer.\<close>

definition tkm_ByterangeComplement ::
    "tkm_byterange \<Rightarrow> tkm_byterange \<Rightarrow> tkm_byterange option \<times> tkm_byterange option" where
  "tkm_ByterangeComplement universe part =
     (if TKM_BYTERANGE_IS_SUBRANGE universe part then (None, None)
      else if lowBnd universe \<noteq> lowBnd part \<or> upBnd universe \<noteq> upBnd part then
        let enclosed = tkm_ByterangeIntersection universe part in
        if \<not> TKM_BYTERANGE_IS_EMPTY enclosed then
          if lowBnd universe = lowBnd enclosed then
            (Some (universe\<lparr>lowBnd := upBnd enclosed + 1\<rparr>), None)
          else if upBnd universe = upBnd enclosed then
            (Some (universe\<lparr>upBnd := lowBnd enclosed - 1\<rparr>), None)
          else
            (Some \<lparr>lowBnd = lowBnd universe, upBnd = lowBnd enclosed - 1\<rparr>,
             Some \<lparr>lowBnd = upBnd enclosed + 1, upBnd = upBnd universe\<rparr>)
        else (Some universe, None)
      else (None, None))"

text \<open>The bytes of a range.\<close>

definition bytes :: "tkm_byterange \<Rightarrow> u64 set" where
  "bytes a = {lowBnd a .. upBnd a}"

definition part_bytes :: "tkm_byterange option \<Rightarrow> u64 set" where
  "part_bytes p = (case p of None \<Rightarrow> {} | Some a \<Rightarrow> bytes a)"

lemma empty_bytes: "TKM_BYTERANGE_IS_EMPTY a \<longleftrightarrow> bytes a = {}"
  by (auto simp: TKM_BYTERANGE_IS_EMPTY_def bytes_def)

lemma disjoint_bytes: "TKM_DISJOINT_BYTERANGES a b \<longleftrightarrow> bytes a \<inter> bytes b = {}"
  by (auto simp: TKM_DISJOINT_BYTERANGES_def TKM_BYTERANGE_IS_EMPTY_def bytes_def Int_atLeastAtMost
      min_def max_def not_le split: if_splits)

lemma intersection_bytes: "bytes (tkm_ByterangeIntersection a b) = bytes a \<inter> bytes b"
  using disjoint_bytes [of a b]
  by (auto simp: tkm_ByterangeIntersection_def bytes_def)

lemma unat_u64_less: "unat (b :: u64) < 18446744073709551616"
  using unsigned_less [of b, where ?'a = nat] by simp

lemma interval_above: "b < u \<Longrightarrow> {b + 1 .. u} = {b <.. u}" for b u :: u64
proof -
  assume "b < u"
  then have "unat b + 1 < 18446744073709551616"
    using unat_u64_less [of u] by (simp add: word_less_nat_alt)
  then have "unat (b + 1) = unat b + 1" by (simp add: unat_word_ariths)
  then show ?thesis by (auto simp: word_less_nat_alt word_le_nat_alt)
qed

lemma interval_below: "l < b \<Longrightarrow> {l .. b - 1} = {l ..< b}" for b l :: u64
proof -
  assume "l < b"
  then have "b \<noteq> 0" by (metis word_not_simps(1))
  then have "unat (b - 1) = unat b - 1" and "unat b \<noteq> 0"
    by (simp_all add: unat_minus_one unat_eq_zero)
  then show ?thesis by (auto simp: word_less_nat_alt word_le_nat_alt)
qed

lemma subrange_bytes: "TKM_BYTERANGE_IS_SUBRANGE a b \<Longrightarrow> bytes a \<subseteq> bytes b"
  by (auto simp: TKM_BYTERANGE_IS_SUBRANGE_def bytes_def)

lemma same_lower_part:
  "b < u \<Longrightarrow> {b + 1 .. u} = {l .. u} - {l .. b}" if "l \<le> b" for l b u :: u64
  using that by (auto simp: interval_above)

lemma complement_bytes:
  "tkm_ByterangeComplement a b = (lo, hi) \<Longrightarrow> part_bytes lo \<union> part_bytes hi = bytes a - bytes b"
proof -
  assume r: "tkm_ByterangeComplement a b = (lo, hi)"
  let ?e = "tkm_ByterangeIntersection a b"
  have diff: "bytes a - bytes b = bytes a - bytes ?e" by (auto simp: intersection_bytes)
  show ?thesis
  proof (cases "TKM_BYTERANGE_IS_SUBRANGE a b \<or> bytes ?e = {}")
    case True
    then show ?thesis
      using r subrange_bytes [of a b] unfolding diff
      by (auto simp: tkm_ByterangeComplement_def empty_bytes part_bytes_def Let_def intersection_bytes
          TKM_BYTERANGE_IS_SUBRANGE_def split: if_splits)
  next
    case False
    then have ne: "lowBnd ?e \<le> upBnd ?e" by (auto simp: bytes_def)
    have "\<not> TKM_DISJOINT_BYTERANGES a b"
      using False by (simp add: disjoint_bytes intersection_bytes)
    then have e: "lowBnd ?e = max (lowBnd a) (lowBnd b)" "upBnd ?e = min (upBnd a) (upBnd b)"
      by (simp_all add: tkm_ByterangeIntersection_def)
    have out: "lowBnd a < lowBnd b \<or> upBnd b < upBnd a"
      using False by (auto simp: TKM_BYTERANGE_IS_SUBRANGE_def not_le)
    note def = tkm_ByterangeComplement_def Let_def empty_bytes
    have neq: "lowBnd a \<noteq> lowBnd b \<or> upBnd a \<noteq> upBnd b" using out by auto
    have "lowBnd a = lowBnd ?e \<and> upBnd ?e < upBnd a \<or> lowBnd a < lowBnd ?e \<and> upBnd a = upBnd ?e \<or>
        lowBnd a < lowBnd ?e \<and> upBnd ?e < upBnd a"
      using out ne unfolding e
      by (cases "lowBnd a < lowBnd b"; cases "upBnd b < upBnd a") (auto simp: min_def max_def not_less)
    then consider (low) "lowBnd a = lowBnd ?e" "upBnd ?e < upBnd a"
      | (up) "lowBnd a < lowBnd ?e" "upBnd a = upBnd ?e"
      | (mid) "lowBnd a < lowBnd ?e" "upBnd ?e < upBnd a"
      by blast
    then show ?thesis
    proof cases
      case low
      then have "lo = Some (a\<lparr>lowBnd := upBnd ?e + 1\<rparr>) \<and> hi = None" using r False neq by (simp add: def)
      then show ?thesis using low ne unfolding diff by (auto simp: part_bytes_def bytes_def interval_above)
    next
      case up
      then have "lo = Some (a\<lparr>upBnd := lowBnd ?e - 1\<rparr>) \<and> hi = None"
        using r False neq less_imp_neq [OF up(1)] by (simp add: def)
      then show ?thesis using up ne unfolding diff by (auto simp: part_bytes_def bytes_def interval_below)
    next
      case mid
      then have "lo = Some \<lparr>lowBnd = lowBnd a, upBnd = lowBnd ?e - 1\<rparr> \<and>
          hi = Some \<lparr>lowBnd = upBnd ?e + 1, upBnd = upBnd a\<rparr>"
        using r False neq less_imp_neq [OF mid(1)] less_imp_neq [OF mid(2)] by (simp add: def)
      then show ?thesis using mid ne unfolding diff
        by (auto simp: part_bytes_def bytes_def interval_below interval_above)
    qed
  qed
qed

section \<open>Tokens, masks and lists\<close>

definition TKM_TOKEN_ISVOL :: nat where "TKM_TOKEN_ISVOL = 0"
definition TKM_TOKEN_GRANTING :: nat where "TKM_TOKEN_GRANTING = 1"
definition TKM_TOKEN_FOREVER :: nat where "TKM_TOKEN_FOREVER = 3"

lemmas tkm_flag_defs = TKM_TOKEN_ISVOL_def TKM_TOKEN_GRANTING_def TKM_TOKEN_FOREVER_def

record tkm_internalToken =
  tk_id :: u64
  expiration :: u32
  tk_range :: tkm_byterange
  holder :: nat
  types :: u32
  refused :: u32
  host :: nat
  tk_flags :: u32
  refcount :: nat
  reqNum :: u32
  lastRefused :: u32

record tkm_tokenMask =
  typeSum :: u32
  counter :: "nat list"

record tkm_tokenList =
  tl_mask :: tkm_tokenMask
  tl_list :: "tkm_internalToken list"

definition tkm_AddToTokenMask :: "tkm_tokenMask \<Rightarrow> u32 \<Rightarrow> tkm_tokenMask" where
  "tkm_AddToTokenMask m ts =
     \<lparr>typeSum = typeSum m OR ts,
      counter = fold (\<lambda>i c. if ts AND TKM_TOKENTYPE_MASK i \<noteq> 0 then c[i := c ! i + 1] else c)
        [0..<TKM_ALL_TOKENS] (counter m)\<rparr>"

fun remove_from_mask :: "u32 \<Rightarrow> nat list \<Rightarrow> tkm_tokenMask \<Rightarrow> tkm_tokenMask option" where
  "remove_from_mask ts [] m = Some m"
| "remove_from_mask ts (i # is) m =
     (if ts AND TKM_TOKENTYPE_MASK i \<noteq> 0 then
        if 0 < counter m ! i then
          (let m = m\<lparr>counter := (counter m)[i := counter m ! i - 1]\<rparr>;
               m = (if counter m ! i = 0 then m\<lparr>typeSum := typeSum m AND NOT (TKM_TOKENTYPE_MASK i)\<rparr> else m)
           in remove_from_mask ts is m)
        else None
      else remove_from_mask ts is m)"

definition tkm_RemoveFromTokenMask :: "tkm_tokenMask \<Rightarrow> u32 \<Rightarrow> tkm_tokenMask option" where
  "tkm_RemoveFromTokenMask m ts = remove_from_mask ts [0..<TKM_ALL_TOKENS] m"

definition tkm_AddToDoubleList :: "tkm_internalToken \<Rightarrow> tkm_internalToken list \<Rightarrow> tkm_internalToken list" where
  "tkm_AddToDoubleList t ts = t # ts"

text \<open>The token that a pointer with the identifier \<open>i\<close> designates is the first one with that identifier.\<close>

fun tkm_RemoveFromDoubleList :: "u64 \<Rightarrow> tkm_internalToken list \<Rightarrow> tkm_internalToken list" where
  "tkm_RemoveFromDoubleList i [] = []"
| "tkm_RemoveFromDoubleList i (t # ts) =
     (if tk_id t = i then ts else t # tkm_RemoveFromDoubleList i ts)"

fun update_token ::
    "u64 \<Rightarrow> (tkm_internalToken \<Rightarrow> tkm_internalToken) \<Rightarrow> tkm_internalToken list \<Rightarrow> tkm_internalToken list" where
  "update_token i g [] = []"
| "update_token i g (t # ts) = (if tk_id t = i then g t # ts else t # update_token i g ts)"

abbreviation find_token :: "u64 \<Rightarrow> tkm_internalToken list \<Rightarrow> tkm_internalToken option" where
  "find_token i ts \<equiv> find (\<lambda>t. tk_id t = i) ts"

definition tkm_AddToTokenList :: "tkm_internalToken \<Rightarrow> tkm_tokenList \<Rightarrow> tkm_tokenList" where
  "tkm_AddToTokenList t l =
     \<lparr>tl_mask = tkm_AddToTokenMask (tl_mask l) (types t), tl_list = tkm_AddToDoubleList t (tl_list l)\<rparr>"

definition no_mask :: tkm_tokenMask where
  "no_mask = \<lparr>typeSum = 0, counter = replicate TKM_ALL_TOKENS 0\<rparr>"

text \<open>\<^const>\<open>None\<close> is a failed assertion.  \<open>old\<close> is the mask that the recycled structure already has, if any.\<close>

definition tkm_TokenListInit :: "tkm_tokenMask option \<Rightarrow> tkm_internalToken list \<Rightarrow> tkm_tokenList option" where
  "tkm_TokenListInit old ts =
     (case old of
        None \<Rightarrow> if ts = [] then Some \<lparr>tl_mask = no_mask, tl_list = ts\<rparr> else None
      | Some m \<Rightarrow> if typeSum m = 0 \<and> ts = [] then Some \<lparr>tl_mask = m, tl_list = ts\<rparr> else None)"

subsection \<open>What a mask has to say about the tokens\<close>

text \<open>\<open>mask_ok m M\<close>: the mask counts the types of the tokens whose sets of types are \<open>M\<close>.\<close>

definition mask_ok :: "tkm_tokenMask \<Rightarrow> u32 multiset \<Rightarrow> bool" where
  "mask_ok m M \<longleftrightarrow>
     length (counter m) = 15 \<and> (\<forall>i < 15. counter m ! i = size {#t \<in># M. bit t i#}) \<and>
     (\<forall>n. bit (typeSum m) n \<longleftrightarrow> (\<exists>t \<in># M. bit t n)) \<and> (\<forall>t \<in># M. real_types t)"

lemma and_type_mask: "t AND TKM_TOKENTYPE_MASK i \<noteq> 0 \<longleftrightarrow> bit t i" for t :: u32
  unfolding TKM_TOKENTYPE_MASK_def push_bit_of_1 by (simp add: and_exp_eq_0_iff_not_bit)

lemma add_counters:
  "distinct is \<Longrightarrow> (\<forall>i \<in> set is. i < length c) \<Longrightarrow>
   length (fold (\<lambda>i c. if P i then c[i := c ! i + 1] else c) is c) = length c \<and>
   (\<forall>j < length c. fold (\<lambda>i c. if P i then c[i := c ! i + 1] else c) is c ! j
      = (c ! j :: nat) + (if j \<in> set is \<and> P j then 1 else 0))"
  by (induction "is" arbitrary: c) (auto simp: nth_list_update)

lemma mask_ok_add:
  assumes "mask_ok m M" and "real_types t"
  shows "mask_ok (tkm_AddToTokenMask m t) (add_mset t M)"
proof -
  have "length (counter m) = 15" using assms by (simp add: mask_ok_def)
  then show ?thesis
    using add_counters [of "[0..<15]" "counter m" "\<lambda>i. bit t i"] assms
    by (auto simp: mask_ok_def tkm_AddToTokenMask_def and_type_mask bit_or_iff TKM_ALL_TOKENS_def)
qed


lemma bit_type_mask: "bit (TKM_TOKENTYPE_MASK i) n \<longleftrightarrow> n = i \<and> n < 32"
  unfolding TKM_TOKENTYPE_MASK_def push_bit_of_1 by (auto simp: bit_exp_iff)

lemma remove_from_mask:
  assumes "distinct is" and "\<forall>i \<in> set is. i < length (counter m)"
    and "\<forall>i \<in> set is. bit r i \<longrightarrow> 0 < counter m ! i"
  shows "\<exists>m'. remove_from_mask r is m = Some m' \<and> length (counter m') = length (counter m) \<and>
    (\<forall>j < length (counter m). counter m' ! j = counter m ! j - (if j \<in> set is \<and> bit r j then 1 else 0)) \<and>
    (\<forall>n. bit (typeSum m') n \<longleftrightarrow> bit (typeSum m) n \<and> \<not> (n \<in> set is \<and> bit r n \<and> counter m ! n = 1))"
  using assms
proof (induction "is" arbitrary: m)
  case (Cons i "is")
  show ?case
  proof (cases "bit r i")
    case False
    with Cons.prems Cons.IH [of m] show ?thesis by (auto simp: and_type_mask)
  next
    case True
    let ?c = "counter m ! i"
    let ?m1 = "m\<lparr>counter := (counter m)[i := ?c - 1]\<rparr>"
    let ?m = "if ?c - 1 = 0 then ?m1\<lparr>typeSum := typeSum m AND NOT (TKM_TOKENTYPE_MASK i)\<rparr> else ?m1"
    have i: "i < length (counter m)" "0 < ?c" "i \<notin> set is" using Cons.prems True by auto
    have step: "remove_from_mask r (i # is) m = remove_from_mask r is ?m"
      using True i by (simp add: and_type_mask Let_def)
    have c: "counter ?m = (counter m)[i := ?c - 1]" by simp
    have other: "j \<in> set is \<Longrightarrow> counter ?m ! j = counter m ! j" for j
      using i by (cases "j = i") (auto simp: c)
    have sum: "bit (typeSum ?m) n \<longleftrightarrow> bit (typeSum m) n \<and> \<not> (n = i \<and> ?c = 1)" for n
      using i by (auto simp: bit_and_iff bit_not_iff bit_type_mask dest: bit_imp_le_length)
    have "\<exists>m'. remove_from_mask r is ?m = Some m' \<and> length (counter m') = length (counter ?m) \<and>
      (\<forall>j < length (counter ?m). counter m' ! j = counter ?m ! j - (if j \<in> set is \<and> bit r j then 1 else 0)) \<and>
      (\<forall>n. bit (typeSum m') n \<longleftrightarrow> bit (typeSum ?m) n \<and> \<not> (n \<in> set is \<and> bit r n \<and> counter ?m ! n = 1))"
      using Cons.prems other by (intro Cons.IH) (auto simp: c)
    then obtain m' where m': "remove_from_mask r is ?m = Some m'" "length (counter m') = length (counter ?m)"
      "\<forall>j < length (counter ?m). counter m' ! j = counter ?m ! j - (if j \<in> set is \<and> bit r j then 1 else 0)"
      "\<forall>n. bit (typeSum m') n \<longleftrightarrow> bit (typeSum ?m) n \<and> \<not> (n \<in> set is \<and> bit r n \<and> counter ?m ! n = 1)"
      by blast
    show ?thesis
      unfolding step using m' True i other unfolding sum
      by (intro exI [of _ m']) (auto simp: c nth_list_update)
  qed
qed auto

lemma size_filter_add: "size {#t \<in># add_mset t M. P t#} = size {#t \<in># M. P t#} + (if P t then 1 else 0)"
  by simp

lemma size_filter_pos: "0 < size {#t \<in># M. P t#} \<longleftrightarrow> (\<exists>t \<in># M. P t)"
  by (induction M) auto

lemma real_types_and: "real_types t \<Longrightarrow> real_types (t AND r)"
  by (simp add: real_types_def bit_and_iff)

lemma mask_ok_remove:
  assumes ok: "mask_ok m (add_mset t M)" and sub: "\<forall>n. bit r n \<longrightarrow> bit t n"
  obtains m' where "tkm_RemoveFromTokenMask m r = Some m'" and "mask_ok m' (add_mset (t AND NOT r) M)"
proof -
  have len: "length (counter m) = 15" and real: "real_types t" "\<forall>t \<in># M. real_types t"
    and cnt: "\<And>i. i < 15 \<Longrightarrow> counter m ! i = size {#t \<in># M. bit t i#} + (if bit t i then 1 else 0)"
    and sum: "\<And>n. bit (typeSum m) n \<longleftrightarrow> bit t n \<or> (\<exists>t \<in># M. bit t n)"
    using ok by (auto simp: mask_ok_def)
  have "\<exists>m'. remove_from_mask r [0..<15] m = Some m' \<and> length (counter m') = length (counter m) \<and>
    (\<forall>j < length (counter m). counter m' ! j = counter m ! j - (if j \<in> set [0..<15] \<and> bit r j then 1 else 0)) \<and>
    (\<forall>n. bit (typeSum m') n \<longleftrightarrow> bit (typeSum m) n \<and> \<not> (n \<in> set [0..<15] \<and> bit r n \<and> counter m ! n = 1))"
    using sub by (intro remove_from_mask) (auto simp: len cnt)
  then obtain m' where m': "remove_from_mask r [0..<15] m = Some m'" "length (counter m') = 15"
    "\<And>j. j < 15 \<Longrightarrow> counter m' ! j = counter m ! j - (if bit r j then 1 else 0)"
    "\<And>n. bit (typeSum m') n \<longleftrightarrow> bit (typeSum m) n \<and> \<not> (n < 15 \<and> bit r n \<and> counter m ! n = 1)"
    by (auto simp: len)
  have left: "bit (t AND NOT r) n \<longleftrightarrow> bit t n \<and> \<not> bit r n" for n
    by (auto simp: bit_and_iff bit_not_iff dest: bit_imp_le_length)
  have "bit (typeSum m') n \<longleftrightarrow> bit (t AND NOT r) n \<or> (\<exists>t \<in># M. bit t n)" for n
  proof -
    have "n < 15 \<and> counter m ! n = 1 \<longleftrightarrow> \<not> (\<exists>t \<in># M. bit t n)" if "bit r n"
      using that sub real cnt [of n] size_filter_pos [of "\<lambda>t. bit t n" M]
      by (auto simp: real_types_def)
    then show ?thesis using sub unfolding m'(4) sum left by auto
  qed
  moreover have "counter m' ! i = size {#t \<in># M. bit t i#} + (if bit (t AND NOT r) i then 1 else 0)" if "i < 15" for i
    using that sub by (simp add: m'(3) cnt left)
  ultimately have "mask_ok m' (add_mset (t AND NOT r) M)"
    using real real_types_and [OF real(1), of "NOT r"] m'(2) by (simp add: mask_ok_def)
  moreover have "tkm_RemoveFromTokenMask m r = Some m'"
    using m'(1) by (simp add: tkm_RemoveFromTokenMask_def TKM_ALL_TOKENS_def)
  ultimately show thesis using that by blast
qed

end
