(* ===== verification/Tkm_Conflicts.thy ===== *)
theory Tkm_Conflicts
  imports Tkm_Types
begin

text \<open>
  Conflicts between tokens and the queues of conflicting tokens: \<^verbatim>\<open>file/tkm/tkm_conflicts.c\<close>.

  \<^item> A pointer to a granted token is a \<open>token_ref\<close>: the holder whose list has the token (\<^const>\<open>None\<close> for
    the volume) and the identifier of the token, which the code never uses twice.
  \<^item> The array of a queue is the list of the elements that are in use, so \<open>lastPos\<close> is its length.
  \<^item> \<^const>\<open>None\<close> as the result of an operation is a failed assertion or an access outside the array.
\<close>

type_synonym token_ref = "nat option \<times> u64"

definition is_vol :: "tkm_internalToken \<Rightarrow> bool" where
  "is_vol t \<longleftrightarrow> bit (tk_flags t) TKM_TOKEN_ISVOL"

definition ref_of :: "tkm_internalToken \<Rightarrow> token_ref" where
  "ref_of t = (if is_vol t then None else Some (holder t), tk_id t)"

section \<open>When a token has to be revoked\<close>

definition tkm_RevokeReqd ::
    "(nat \<Rightarrow> bool) \<Rightarrow> tkm_internalToken \<Rightarrow> tkm_internalToken \<Rightarrow> (u32 \<times> u32) option" where
  "tkm_RevokeReqd junk issued requested =
     (if host issued = host requested then None
      else
        let overlap =
              \<not> (TKM_TYPES_WITH_RANGE (types issued) = 0 \<or> TKM_TYPES_WITH_RANGE (types requested) = 0 \<or>
                 TKM_DISJOINT_BYTERANGES (tk_range issued) (tk_range requested));
            requestedTypes = (if overlap then types requested else TKM_TYPES_WITHOUT_RANGE (types requested));
            conflicts = TKM_TYPE_CONFLICTS junk requestedTypes;
            totalConflicts = types issued AND conflicts
        in if totalConflicts \<noteq> 0 then
             Some (totalConflicts,
                   if \<not> is_vol issued \<and> \<not> is_vol requested then TKM_TYPES_WITH_RANGE totalConflicts else 0)
           else None)"

text \<open>The relation between tokens that the token manager is to keep empty.\<close>

definition overlapping :: "tkm_internalToken \<Rightarrow> tkm_internalToken \<Rightarrow> bool" where
  "overlapping a b \<longleftrightarrow> bytes (tk_range a) \<inter> bytes (tk_range b) \<noteq> {}"

definition tokens_conflict :: "tkm_internalToken \<Rightarrow> tkm_internalToken \<Rightarrow> bool" where
  "tokens_conflict a b \<longleftrightarrow>
     host a \<noteq> host b \<and>
     (\<exists>j k. bit (types a) j \<and> bit (types b) k \<and> types_conflict j k \<and> (j < 4 \<longrightarrow> overlapping a b))"

lemma types_conflict_sym: "types_conflict j k = types_conflict k j"
  by (auto simp: types_conflict_def)

lemma types_conflict_ranged: "types_conflict j k \<Longrightarrow> j < 4 \<longleftrightarrow> k < 4"
  by (auto simp: types_conflict_def conflict_def tkm_type_defs)

lemma types_conflict_less: "types_conflict j k \<Longrightarrow> j < 15 \<and> k < 15"
  using conflict_pair_less by (auto simp: types_conflict_def)

lemma overlapping_sym: "overlapping a b = overlapping b a"
  by (auto simp: overlapping_def)

lemma tokens_conflict_sym: "tokens_conflict a b \<longleftrightarrow> tokens_conflict b a"
proof -
  have "tokens_conflict b a" if c: "tokens_conflict a b" for a b
  proof -
    obtain j k where "host a \<noteq> host b" "bit (types a) j" "bit (types b) k" "types_conflict j k"
      "j < 4 \<longrightarrow> overlapping a b"
      using c by (auto simp: tokens_conflict_def)
    then have "host b \<noteq> host a \<and> bit (types b) k \<and> bit (types a) j \<and> types_conflict k j \<and>
        (k < 4 \<longrightarrow> overlapping b a)"
      using types_conflict_ranged [of j k] types_conflict_sym [of j k] overlapping_sym [of a b] by simp
    then show ?thesis unfolding tokens_conflict_def by blast
  qed
  then show ?thesis by blast
qed

lemma bit_f: "bit (0xF :: u32) n \<longleftrightarrow> n < 4"
proof -
  have "(0xF :: u32) = Bit_Operations.mask 4" by (simp add: mask_eq_exp_minus_1)
  then show ?thesis by (simp only: bit_mask_iff) auto
qed

lemma bit_with_range: "bit (TKM_TYPES_WITH_RANGE t) n \<longleftrightarrow> bit t n \<and> n < 4"
  by (simp only: TKM_TYPES_WITH_RANGE_def bit_and_iff bit_f)

lemma bit_without_range: "bit (TKM_TYPES_WITHOUT_RANGE t) n \<longleftrightarrow> bit t n \<and> \<not> n < 4"
proof -
  have "bit (TKM_TYPES_WITHOUT_RANGE t) n \<longleftrightarrow> bit t n \<and> \<not> bit (0xF :: u32) n"
    by (simp only: TKM_TYPES_WITHOUT_RANGE_def bit_and_iff bit_not_iff) (auto dest: bit_imp_le_length)
  then show ?thesis by (simp only: bit_f)
qed

lemma word_eq_0_iff: "t = 0 \<longleftrightarrow> (\<forall>n. \<not> bit t n)" for t :: "'a :: len word"
  by (auto intro: bit_word_eqI)

lemma real_without_range: "real_types t \<Longrightarrow> real_types (TKM_TYPES_WITHOUT_RANGE t)"
  by (simp add: real_types_def bit_without_range)

definition revoke_bit :: "tkm_internalToken \<Rightarrow> tkm_internalToken \<Rightarrow> nat \<Rightarrow> bool" where
  "revoke_bit issued requested k \<longleftrightarrow>
     bit (types issued) k \<and>
     (\<exists>j. bit (types requested) j \<and> types_conflict j k \<and> (j < 4 \<longrightarrow> overlapping issued requested))"

lemma RevokeReqd_bits:
  assumes ri: "real_types (types i)" and rr: "real_types (types r)"
  shows "tkm_RevokeReqd junk i r = None \<and> \<not> tokens_conflict i r \<or>
    (\<exists>rev. tkm_RevokeReqd junk i r =
        Some (rev, if \<not> is_vol i \<and> \<not> is_vol r then TKM_TYPES_WITH_RANGE rev else 0) \<and>
      tokens_conflict i r \<and> (\<forall>k. bit rev k \<longleftrightarrow> revoke_bit i r k))"
proof (cases "host i = host r")
  case True
  then show ?thesis by (simp add: tkm_RevokeReqd_def tokens_conflict_def)
next
  case False
  define ov where "ov \<longleftrightarrow> \<not> (TKM_TYPES_WITH_RANGE (types i) = 0 \<or> TKM_TYPES_WITH_RANGE (types r) = 0 \<or>
                 TKM_DISJOINT_BYTERANGES (tk_range i) (tk_range r))"
  define rt where "rt = (if ov then types r else TKM_TYPES_WITHOUT_RANGE (types r))"
  define rev where "rev = types i AND TKM_TYPE_CONFLICTS junk rt"
  have real: "real_types rt" using rr by (simp add: rt_def real_without_range)
  have "bit rev k \<longleftrightarrow> revoke_bit i r k" for k
  proof (cases "bit (types i) k")
    case False
    then show ?thesis by (simp add: rev_def bit_and_iff revoke_bit_def)
  next
    case True
    then have k: "k < 15" using ri by (simp add: real_types_def)
    have "bit rev k \<longleftrightarrow> (\<exists>j < 15. bit rt j \<and> types_conflict j k)"
      using True by (simp add: rev_def bit_and_iff bit_type_conflicts_real [OF real k])
    also have "\<dots> \<longleftrightarrow> (\<exists>j. bit (types r) j \<and> types_conflict j k \<and> (j < 4 \<longrightarrow> ov))"
      using types_conflict_less by (auto simp: rt_def bit_without_range)
    also have "\<dots> \<longleftrightarrow> (\<exists>j. bit (types r) j \<and> types_conflict j k \<and> (j < 4 \<longrightarrow> overlapping i r))"
    proof -
      have "ov \<longleftrightarrow> overlapping i r" if "bit (types r) j" "types_conflict j k" "j < 4" for j
      proof -
        have "k < 4" using types_conflict_ranged that by blast
        then show ?thesis using that True
          by (auto simp: ov_def overlapping_def disjoint_bytes word_eq_0_iff bit_with_range)
      qed
      then show ?thesis by blast
    qed
    finally show ?thesis using True by (simp add: revoke_bit_def)
  qed
  moreover have "tkm_RevokeReqd junk i r =
      (if rev \<noteq> 0 then Some (rev, if \<not> is_vol i \<and> \<not> is_vol r then TKM_TYPES_WITH_RANGE rev else 0) else None)"
    using False by (simp add: tkm_RevokeReqd_def Let_def rev_def rt_def ov_def)
  moreover have "tokens_conflict i r \<longleftrightarrow> (\<exists>k. revoke_bit i r k)"
  proof -
    have "types_conflict k j \<and> (k < 4 \<longrightarrow> overlapping i r) \<longleftrightarrow> types_conflict j k \<and> (j < 4 \<longrightarrow> overlapping i r)" for j k
      using types_conflict_sym [of j k] types_conflict_ranged [of j k] by auto
    then show ?thesis unfolding tokens_conflict_def revoke_bit_def using False by blast
  qed
  ultimately show ?thesis by (auto simp: word_eq_0_iff)
qed


section \<open>Queues of conflicting tokens\<close>

record tkm_tokenConflictElem =
  revoke :: u32
  grant :: u32
  ce_token :: "token_ref option"
  grantLow :: "token_ref option"
  grantHigh :: "token_ref option"

record tkm_tokenConflictQ =
  allocElements :: nat
  sliceNdiceNeeded :: nat
  numElements :: int
  elements :: "tkm_tokenConflictElem list"

abbreviation lastPos :: "tkm_tokenConflictQ \<Rightarrow> nat" where
  "lastPos q \<equiv> length (elements q)"

definition TKM_MAXPARALLELRPC :: nat where "TKM_MAXPARALLELRPC = 10"
definition TKM_MAX_CONFLICTS :: nat where "TKM_MAX_CONFLICTS = 4 * TKM_MAXPARALLELRPC"

definition TKM_CONFLICTQ_ISEMPTY :: "tkm_tokenConflictQ \<Rightarrow> bool" where
  "TKM_CONFLICTQ_ISEMPTY q \<longleftrightarrow> numElements q = 0"

definition tkm_InitConflictQ :: "nat \<Rightarrow> tkm_tokenConflictQ" where
  "tkm_InitConflictQ num = \<lparr>allocElements = num, sliceNdiceNeeded = 0, numElements = 0, elements = []\<rparr>"

text \<open>The queue and the token with one reference more.  The assertion of the code lets the position one past
  the array through; the access that follows it is outside, so both are \<^const>\<open>None\<close>.\<close>

definition TKM_HOLDTOKEN :: "tkm_internalToken \<Rightarrow> tkm_internalToken" where
  "TKM_HOLDTOKEN t = t\<lparr>refcount := refcount t + 1\<rparr>"

definition tkm_AddToConflictQ ::
    "tkm_tokenConflictQ \<Rightarrow> tkm_internalToken \<Rightarrow> u32 \<Rightarrow> u32 \<Rightarrow> (tkm_tokenConflictQ \<times> tkm_internalToken) option" where
  "tkm_AddToConflictQ q t revokeSet sliceSet =
     (if lastPos q < allocElements q then
        Some (q\<lparr>elements := elements q @ [\<lparr>revoke = revokeSet, grant = sliceSet, ce_token = Some (ref_of t),
                  grantLow = None, grantHigh = None\<rparr>],
                sliceNdiceNeeded := (if sliceSet \<noteq> 0 then sliceNdiceNeeded q + 1 else sliceNdiceNeeded q),
                numElements := numElements q + 1\<rparr>,
              TKM_HOLDTOKEN t)
      else None)"

fun remove_elem :: "token_ref \<Rightarrow> tkm_tokenConflictElem list \<Rightarrow> (tkm_tokenConflictElem list \<times> int) option" where
  "remove_elem r [] = None"
| "remove_elem r (e # es) =
     (if ce_token e = Some r then Some (e\<lparr>ce_token := None\<rparr> # es, 0)
      else map_option (\<lambda>(es, i). (e # es, i + 1)) (remove_elem r es))"

text \<open>The position of the removed element or \<open>-1\<close>; \<^const>\<open>None\<close> when the count of elements would be negative.\<close>

definition tkm_RemoveFromConflictQ :: "tkm_tokenConflictQ \<Rightarrow> token_ref \<Rightarrow> (tkm_tokenConflictQ \<times> int) option" where
  "tkm_RemoveFromConflictQ q r =
     (case remove_elem r (elements q) of
        None \<Rightarrow> Some (q, -1)
      | Some (es, i) \<Rightarrow>
          if 0 \<le> numElements q - 1
          then Some (q\<lparr>elements := es, numElements := numElements q - 1\<rparr>, i) else None)"

section \<open>The conflicting tokens of a list\<close>

text \<open>The walk over the granted tokens: the tokens with the references the queue holds, the queue and the
  mask of the types granted to other hosts.\<close>

fun conflicting_loop ::
    "(nat \<Rightarrow> bool) \<Rightarrow> tkm_internalToken \<Rightarrow> nat \<Rightarrow> tkm_internalToken list \<Rightarrow> tkm_tokenConflictQ \<Rightarrow> u32 \<Rightarrow> nat
      \<Rightarrow> (tkm_internalToken list \<times> tkm_tokenConflictQ \<times> u32) option" where
  "conflicting_loop junk requested maxnum [] q other confTokens = Some ([], q, other)"
| "conflicting_loop junk requested maxnum (granted # rest) q other confTokens =
     (case tkm_RevokeReqd junk granted requested of
        Some (revokeSet, sliceSet) \<Rightarrow>
          Option.bind (tkm_AddToConflictQ q granted revokeSet sliceSet) (\<lambda>(q, held).
            if confTokens + 1 = maxnum then Some (held # rest, q, other)
            else map_option (\<lambda>(ts, r). (held # ts, r))
                   (conflicting_loop junk requested maxnum rest q other (confTokens + 1)))
      | None \<Rightarrow>
          map_option (\<lambda>(ts, r). (granted # ts, r))
            (conflicting_loop junk requested maxnum rest q
               (if host granted \<noteq> host requested then other OR types granted else other) confTokens))"

definition tkm_ConflictingTokens ::
    "(nat \<Rightarrow> bool) \<Rightarrow> tkm_tokenList \<Rightarrow> tkm_internalToken \<Rightarrow> nat
      \<Rightarrow> (tkm_tokenList \<times> tkm_tokenConflictQ option \<times> u32) option" where
  "tkm_ConflictingTokens junk issued requested maxnum =
     (if TKM_TYPE_CONFLICTS junk (typeSum (tl_mask issued)) AND types requested = 0
      then Some (issued, None, typeSum (tl_mask issued))
      else map_option
             (\<lambda>(ts, q, other). (issued\<lparr>tl_list := ts\<rparr>, if TKM_CONFLICTQ_ISEMPTY q then None else Some q, other))
             (conflicting_loop junk requested maxnum (tl_list issued) (tkm_InitConflictQ maxnum) 0 0))"

subsection \<open>The walk as a filter\<close>

definition conflict_elem :: "(nat \<Rightarrow> bool) \<Rightarrow> tkm_internalToken \<Rightarrow> tkm_internalToken \<Rightarrow> tkm_tokenConflictElem" where
  "conflict_elem junk r g =
     (let (rev, sl) = the (tkm_RevokeReqd junk g r)
      in \<lparr>revoke = rev, grant = sl, ce_token = Some (ref_of g), grantLow = None, grantHigh = None\<rparr>)"

text \<open>\<open>held_first n P ts\<close>: the first \<open>n\<close> tokens with \<open>P\<close> get a reference.\<close>

fun held_first :: "nat \<Rightarrow> (tkm_internalToken \<Rightarrow> bool) \<Rightarrow> tkm_internalToken list \<Rightarrow> tkm_internalToken list" where
  "held_first n P [] = []"
| "held_first n P (t # ts) =
     (if P t then (case n of 0 \<Rightarrow> t # ts | Suc m \<Rightarrow> TKM_HOLDTOKEN t # held_first m P ts)
      else t # held_first n P ts)"

lemma held_first_0 [simp]: "held_first 0 P ts = ts"
  by (induction ts) auto

definition conf :: "(nat \<Rightarrow> bool) \<Rightarrow> tkm_internalToken \<Rightarrow> tkm_internalToken \<Rightarrow> bool" where
  "conf junk r g \<longleftrightarrow> tkm_RevokeReqd junk g r \<noteq> None"

lemma conflicting_loop_filter:
  assumes "confTokens = lastPos q" and "numElements q = int (lastPos q)" and "allocElements q = maxnum"
    and "confTokens < maxnum"
  shows "\<exists>q' other'. conflicting_loop junk r maxnum gs q other confTokens =
      Some (held_first (maxnum - confTokens) (conf junk r) gs, q', other') \<and>
    elements q' = elements q @ map (conflict_elem junk r) (take (maxnum - confTokens) (filter (conf junk r) gs)) \<and>
    allocElements q' = maxnum \<and> numElements q' = int (lastPos q') \<and>
    (filter (conf junk r) gs = [] \<longrightarrow>
       (\<forall>n. bit other' n \<longleftrightarrow> bit other n \<or> (\<exists>g \<in> set gs. host g \<noteq> host r \<and> bit (types g) n)))"
  using assms
proof (induction gs arbitrary: q other confTokens)
  case (Cons g gs)
  show ?case
  proof (cases "tkm_RevokeReqd junk g r")
    case None
    then obtain q' other' where "conflicting_loop junk r maxnum gs q
          (if host g \<noteq> host r then other OR types g else other) confTokens =
        Some (held_first (maxnum - confTokens) (conf junk r) gs, q', other') \<and>
      elements q' = elements q @ map (conflict_elem junk r) (take (maxnum - confTokens) (filter (conf junk r) gs)) \<and>
      allocElements q' = maxnum \<and> numElements q' = int (lastPos q') \<and>
      (filter (conf junk r) gs = [] \<longrightarrow>
         (\<forall>n. bit other' n \<longleftrightarrow> bit (if host g \<noteq> host r then other OR types g else other) n \<or>
            (\<exists>g \<in> set gs. host g \<noteq> host r \<and> bit (types g) n)))"
      using Cons.IH [OF Cons.prems] by blast
    moreover have "\<not> conf junk r g" using None by (simp add: conf_def)
    ultimately show ?thesis using None by (cases "host g \<noteq> host r") (auto simp: bit_or_iff)
  next
    case (Some p)
    obtain rev sl where p: "p = (rev, sl)" by (cases p)
    let ?e = "\<lparr>revoke = rev, grant = sl, ce_token = Some (ref_of g), grantLow = None, grantHigh = None\<rparr>"
    let ?q = "q\<lparr>elements := elements q @ [?e],
                sliceNdiceNeeded := (if sl \<noteq> 0 then sliceNdiceNeeded q + 1 else sliceNdiceNeeded q),
                numElements := numElements q + 1\<rparr>"
    have add: "tkm_AddToConflictQ q g rev sl = Some (?q, TKM_HOLDTOKEN g)"
      using Cons.prems by (simp add: tkm_AddToConflictQ_def)
    have e: "conflict_elem junk r g = ?e" using Some p by (simp add: conflict_elem_def)
    have c: "conf junk r g" using Some by (simp add: conf_def)
    obtain d where d: "maxnum - confTokens = Suc d"
      using Cons.prems(4) by (metis Suc_diff_Suc)
    show ?thesis
    proof (cases "confTokens + 1 = maxnum")
      case True
      then have "d = 0" using d by simp
      then show ?thesis using True d Cons.prems c e Some p add by simp
    next
      case False
      then have "\<exists>q' other'. conflicting_loop junk r maxnum gs ?q other (confTokens + 1) =
          Some (held_first (maxnum - (confTokens + 1)) (conf junk r) gs, q', other') \<and>
        elements q' = elements ?q @
          map (conflict_elem junk r) (take (maxnum - (confTokens + 1)) (filter (conf junk r) gs)) \<and>
        allocElements q' = maxnum \<and> numElements q' = int (lastPos q') \<and>
        (filter (conf junk r) gs = [] \<longrightarrow>
           (\<forall>n. bit other' n \<longleftrightarrow> bit other n \<or> (\<exists>g \<in> set gs. host g \<noteq> host r \<and> bit (types g) n)))"
        using Cons.prems by (intro Cons.IH) auto
      moreover have "maxnum - (confTokens + 1) = d" using d by simp
      ultimately show ?thesis using False d c e Some p add by auto
    qed
  qed
qed simp


subsection \<open>What the conflicting tokens are\<close>

definition list_ok :: "tkm_tokenList \<Rightarrow> bool" where
  "list_ok l \<longleftrightarrow> mask_ok (tl_mask l) (image_mset types (mset (tl_list l)))"

lemma list_ok_real: "list_ok l \<Longrightarrow> t \<in> set (tl_list l) \<Longrightarrow> real_types (types t)"
  by (simp add: list_ok_def mask_ok_def)

lemma list_ok_typeSum: "list_ok l \<Longrightarrow> bit (typeSum (tl_mask l)) n \<longleftrightarrow> (\<exists>t \<in> set (tl_list l). bit (types t) n)"
  by (simp add: list_ok_def mask_ok_def)

lemma held_first_none: "filter P ts = [] \<Longrightarrow> held_first n P ts = ts"
  by (induction n P ts rule: held_first.induct) (auto split: if_splits)

lemma held_first_cong: "(\<And>t. t \<in> set ts \<Longrightarrow> P t = Q t) \<Longrightarrow> held_first n P ts = held_first n Q ts"
  by (induction n P ts rule: held_first.induct) (auto split: nat.splits)

lemma conf_iff:
  "real_types (types g) \<Longrightarrow> real_types (types r) \<Longrightarrow> conf junk r g \<longleftrightarrow> tokens_conflict g r"
  using RevokeReqd_bits [of g r junk] by (auto simp: conf_def)

definition elem_of :: "tkm_internalToken \<Rightarrow> tkm_tokenConflictElem \<Rightarrow> tkm_internalToken \<Rightarrow> bool" where
  "elem_of r e g \<longleftrightarrow>
     ce_token e = Some (ref_of g) \<and> grantLow e = None \<and> grantHigh e = None \<and>
     (\<forall>k. bit (revoke e) k \<longleftrightarrow> revoke_bit g r k) \<and>
     grant e = (if \<not> is_vol g \<and> \<not> is_vol r then TKM_TYPES_WITH_RANGE (revoke e) else 0)"

lemma conflict_elem_of:
  assumes "real_types (types g)" and "real_types (types r)" and c: "tokens_conflict g r"
  shows "elem_of r (conflict_elem junk r g) g"
proof -
  from c obtain rev where "tkm_RevokeReqd junk g r =
        Some (rev, if \<not> is_vol g \<and> \<not> is_vol r then TKM_TYPES_WITH_RANGE rev else 0)"
      "\<forall>k. bit rev k \<longleftrightarrow> revoke_bit g r k"
    using RevokeReqd_bits [OF assms(1,2), of junk] by blast
  then show ?thesis by (simp add: conflict_elem_def elem_of_def)
qed

lemma mask_shortcut:
  assumes ok: "list_ok l" and r: "real_types (types r)"
    and none: "TKM_TYPE_CONFLICTS junk (typeSum (tl_mask l)) AND types r = 0"
    and g: "g \<in> set (tl_list l)"
  shows "\<not> tokens_conflict g r"
proof
  assume "tokens_conflict g r"
  then obtain j k where jk: "bit (types g) j" "bit (types r) k" "types_conflict j k"
    by (auto simp: tokens_conflict_def)
  have real: "real_types (typeSum (tl_mask l))"
    using ok list_ok_real by (auto simp: real_types_def list_ok_typeSum)
  have "bit (TKM_TYPE_CONFLICTS junk (typeSum (tl_mask l))) k"
    using jk g ok types_conflict_less [OF jk(3)]
    by (auto simp: bit_type_conflicts_real [OF real] list_ok_typeSum)
  then have "bit (TKM_TYPE_CONFLICTS junk (typeSum (tl_mask l)) AND types r) k" using jk by (simp add: bit_and_iff)
  then show False using none by simp
qed

definition other_types :: "tkm_internalToken \<Rightarrow> tkm_internalToken list \<Rightarrow> u32 \<Rightarrow> bool" where
  "other_types r ts other \<longleftrightarrow>
     (\<forall>g \<in> set ts. host g \<noteq> host r \<longrightarrow> (\<forall>n. bit (types g) n \<longrightarrow> bit other n))"

lemma ConflictingTokens_cases:
  assumes ok: "list_ok l" and r: "real_types (types r)" and max: "0 < maxnum"
  obtains (none) other where
      "tkm_ConflictingTokens junk l r maxnum = Some (l, None, other)"
      "\<forall>g \<in> set (tl_list l). \<not> tokens_conflict g r" "other_types r (tl_list l) other"
    | (some) q other where
      "tkm_ConflictingTokens junk l r maxnum =
         Some (l\<lparr>tl_list := held_first maxnum (\<lambda>g. tokens_conflict g r) (tl_list l)\<rparr>, Some q, other)"
      "filter (\<lambda>g. tokens_conflict g r) (tl_list l) \<noteq> []"
      "list_all2 (elem_of r) (elements q) (take maxnum (filter (\<lambda>g. tokens_conflict g r) (tl_list l)))"
      "numElements q = int (lastPos q)"
proof -
  let ?C = "\<lambda>g. tokens_conflict g r"
  let ?ts = "tl_list l"
  have conf: "conf junk r g = ?C g" if "g \<in> set ?ts" for g
    using that conf_iff list_ok_real [OF ok] r by blast
  show thesis
  proof (cases "TKM_TYPE_CONFLICTS junk (typeSum (tl_mask l)) AND types r = 0")
    case True
    then show thesis
      using none [of "typeSum (tl_mask l)"] mask_shortcut [OF ok r] ok
      by (auto simp: tkm_ConflictingTokens_def other_types_def list_ok_typeSum)
  next
    case False
    obtain q other where q: "conflicting_loop junk r maxnum ?ts (tkm_InitConflictQ maxnum) 0 0 =
        Some (held_first maxnum (conf junk r) ?ts, q, other)"
      "elements q = map (conflict_elem junk r) (take maxnum (filter (conf junk r) ?ts))"
      "numElements q = int (lastPos q)"
      "filter (conf junk r) ?ts = [] \<longrightarrow> (\<forall>n. bit other n \<longleftrightarrow> (\<exists>g \<in> set ?ts. host g \<noteq> host r \<and> bit (types g) n))"
      using conflicting_loop_filter [of 0 "tkm_InitConflictQ maxnum" maxnum junk r ?ts 0] max
      by (auto simp: tkm_InitConflictQ_def)
    have f: "filter (conf junk r) ?ts = filter ?C ?ts" and h: "held_first maxnum (conf junk r) ?ts = held_first maxnum ?C ?ts"
      using conf by (auto intro: filter_cong held_first_cong)
    have run: "tkm_ConflictingTokens junk l r maxnum =
        Some (l\<lparr>tl_list := held_first maxnum ?C ?ts\<rparr>, if TKM_CONFLICTQ_ISEMPTY q then None else Some q, other)"
      using False q(1) by (simp add: tkm_ConflictingTokens_def h)
    show thesis
    proof (cases "filter ?C ?ts = []")
      case True
      then have "TKM_CONFLICTQ_ISEMPTY q" using q f by (simp add: TKM_CONFLICTQ_ISEMPTY_def)
      then show thesis
        using none [of other] run True q(4) f by (auto simp: held_first_none filter_empty_conv other_types_def)
    next
      case ne: False
      then have "\<not> TKM_CONFLICTQ_ISEMPTY q" using q f max by (simp add: TKM_CONFLICTQ_ISEMPTY_def)
      moreover have "list_all2 (elem_of r) (elements q) (take maxnum (filter ?C ?ts))"
        unfolding q(2) f list_all2_map1
        unfolding list_all2_same
        using list_ok_real [OF ok] r by (auto intro!: conflict_elem_of dest: in_set_takeD)
      ultimately show thesis using some run ne q(3) by auto
    qed
  qed
qed

end
