(* ===== verification/Tkm_World.thy ===== *)
theory Tkm_World
  imports Tkm_Conflicts "HOL-Library.Monad_Syntax"
begin

text \<open>
  The files and the volume of the token manager and the operations on granted tokens: \<^verbatim>\<open>file/tkm/tkm_internal.h\<close>,
  \<^verbatim>\<open>tkm_recycle.c\<close>, \<^verbatim>\<open>tkm_recycle.h\<close>, \<^verbatim>\<open>tkm_asyncgrant.c\<close>, with the grant and return routines of
  \<^verbatim>\<open>tkm_filetoken.c\<close> and \<^verbatim>\<open>tkm_voltoken.c\<close>.

  \<^item> One volume and its files: the operations on a token touch the volume of the token only.  \<open>files\<close> has every
    file structure, \<open>v_files\<close> the chain of the ones that belong to the volume.
  \<^item> \<open>rest\<close> is what the other threads, the hosts and the clock depend on.
  \<^item> Reference counts and the counts of grants are natural numbers (\<open>int\<close> and \<open>unsigned long\<close> in the code, for
    which an overflow takes 2 to the 31 grants since the machine was started).
  \<^item> \<^const>\<open>None\<close> is a failed assertion or the use of a pointer to a token that is gone.
  \<^item> The reference counts of hosts belong to the host package.
\<close>

section \<open>The state\<close>

record asyncQElem =
  aq_flags :: u32
  aq_holder :: nat
  aq_types :: u32
  aq_host :: nat

record tkm_file =
  f_tokenGrants :: nat
  f_refcount :: nat
  f_granted :: tkm_tokenList
  queued :: "tkm_internalToken list"
  f_host :: "nat option"

record tkm_vol =
  v_readonly :: bool
  v_tokenGrants :: nat
  v_refcount :: nat
  v_granted :: tkm_tokenList
  beingGranted :: "tkm_internalToken list"
  queuedFileTokens :: "tkm_internalToken list"
  fileTokens :: tkm_tokenMask
  v_files :: "nat list"

record 'e tkm_world =
  files :: "nat \<Rightarrow> tkm_file"
  vol :: tkm_vol
  gcList :: "token_ref list"
  numOfFreeTokens :: nat
  tokenCounter :: int
  maxTokens :: int
  freeTokensGcFailed :: bool
  lastTokenId :: u64
  asyncTryQ :: "asyncQElem list"
  osi_Time :: u32
  expiration_secs :: u32
  lockDescriptor :: nat
  rest :: 'e

definition on_file :: "nat \<Rightarrow> (tkm_file \<Rightarrow> tkm_file) \<Rightarrow> 'e tkm_world \<Rightarrow> 'e tkm_world" where
  "on_file f g w = w\<lparr>files := (files w)(f := g (files w f))\<rparr>"

definition on_vol :: "(tkm_vol \<Rightarrow> tkm_vol) \<Rightarrow> 'e tkm_world \<Rightarrow> 'e tkm_world" where
  "on_vol g w = w\<lparr>vol := g (vol w)\<rparr>"

text \<open>The list of granted tokens of a holder, a file or (\<^const>\<open>None\<close>) the volume.\<close>

definition granted :: "nat option \<Rightarrow> 'e tkm_world \<Rightarrow> tkm_tokenList" where
  "granted h w = (case h of None \<Rightarrow> v_granted (vol w) | Some f \<Rightarrow> f_granted (files w f))"

definition set_granted :: "nat option \<Rightarrow> tkm_tokenList \<Rightarrow> 'e tkm_world \<Rightarrow> 'e tkm_world" where
  "set_granted h l w =
     (case h of
        None \<Rightarrow> on_vol (\<lambda>v. v\<lparr>v_granted := l\<rparr>) w
      | Some f \<Rightarrow> on_file f (\<lambda>x. x\<lparr>f_granted := l\<rparr>) w)"

definition the_token :: "token_ref \<Rightarrow> 'e tkm_world \<Rightarrow> tkm_internalToken option" where
  "the_token r w = find_token (snd r) (tl_list (granted (fst r) w))"

definition on_token ::
    "token_ref \<Rightarrow> (tkm_internalToken \<Rightarrow> tkm_internalToken) \<Rightarrow> 'e tkm_world \<Rightarrow> 'e tkm_world" where
  "on_token r g w =
     (let l = granted (fst r) w
      in set_granted (fst r) (l\<lparr>tl_list := update_token (snd r) g (tl_list l)\<rparr>) w)"

section \<open>Holding files and volumes\<close>

definition tkm_HoldFile :: "nat \<Rightarrow> 'e tkm_world \<Rightarrow> 'e tkm_world" where
  "tkm_HoldFile f w = on_file f (\<lambda>x. x\<lparr>f_refcount := f_refcount x + 1\<rparr>) w"

definition tkm_ReleFile :: "nat \<Rightarrow> 'e tkm_world \<Rightarrow> 'e tkm_world option" where
  "tkm_ReleFile f w =
     (if 0 < f_refcount (files w f)
      then Some (on_file f (\<lambda>x. x\<lparr>f_refcount := f_refcount x - 1\<rparr>) w) else None)"

definition tkm_HoldVol :: "'e tkm_world \<Rightarrow> 'e tkm_world" where
  "tkm_HoldVol w = on_vol (\<lambda>v. v\<lparr>v_refcount := v_refcount v + 1\<rparr>) w"

definition tkm_ReleVol :: "'e tkm_world \<Rightarrow> 'e tkm_world option" where
  "tkm_ReleVol w =
     (if 0 < v_refcount (vol w) then Some (on_vol (\<lambda>v. v\<lparr>v_refcount := v_refcount v - 1\<rparr>) w) else None)"

definition TKM_HOLD_TOKEN_HOLDER :: "tkm_internalToken \<Rightarrow> 'e tkm_world \<Rightarrow> 'e tkm_world" where
  "TKM_HOLD_TOKEN_HOLDER t w = (if is_vol t then tkm_HoldVol w else tkm_HoldFile (holder t) w)"

text \<open>The holder of a token and its volume, before a token is recycled and after it.\<close>

definition TKM_PREPARE_FOR_TOKEN_RECYCLE :: "nat option \<Rightarrow> 'e tkm_world \<Rightarrow> 'e tkm_world" where
  "TKM_PREPARE_FOR_TOKEN_RECYCLE h w =
     tkm_HoldVol (case h of None \<Rightarrow> w | Some f \<Rightarrow> tkm_HoldFile f w)"

definition TKM_UNLOCK_AFTER_TOKEN_RECYCLE :: "nat option \<Rightarrow> 'e tkm_world \<Rightarrow> 'e tkm_world option" where
  "TKM_UNLOCK_AFTER_TOKEN_RECYCLE h w =
     do { w \<leftarrow> (case h of None \<Rightarrow> Some w | Some f \<Rightarrow> tkm_ReleFile f w); tkm_ReleVol w }"

section \<open>Asynchronous grants\<close>

definition tkm_TriggerAsyncGrants :: "tkm_internalToken \<Rightarrow> 'e tkm_world \<Rightarrow> 'e tkm_world" where
  "tkm_TriggerAsyncGrants t w =
     (if (if is_vol t then queuedFileTokens (vol w) else queued (files w (holder t))) = [] then w
      else
        let w = TKM_HOLD_TOKEN_HOLDER t w;
            new = \<lparr>aq_flags = tk_flags t, aq_holder = holder t, aq_types = types t, aq_host = host t\<rparr>
        in w\<lparr>asyncTryQ := new # asyncTryQ w\<rparr>)"

section \<open>The lists of tokens to collect and of free tokens\<close>

definition tkm_AddToGcList :: "token_ref \<Rightarrow> 'e tkm_world \<Rightarrow> 'e tkm_world" where
  "tkm_AddToGcList r w = w\<lparr>gcList := gcList w @ [r]\<rparr>"

definition tkm_RemoveFromGcList :: "token_ref \<Rightarrow> 'e tkm_world \<Rightarrow> 'e tkm_world option" where
  "tkm_RemoveFromGcList r w = (if r \<in> set (gcList w) then Some (w\<lparr>gcList := remove1 r (gcList w)\<rparr>) else None)"

definition tkm_PutTokenInFreeList :: "'e tkm_world \<Rightarrow> 'e tkm_world" where
  "tkm_PutTokenInFreeList w = w\<lparr>freeTokensGcFailed := False, numOfFreeTokens := numOfFreeTokens w + 1\<rparr>"

definition TKM_BULK_TOKENS :: nat where "TKM_BULK_TOKENS = 100"

definition tkm_GetFreeToken :: "'e tkm_world \<Rightarrow> (u64 \<times> 'e tkm_world) option" where
  "tkm_GetFreeToken w =
     (if numOfFreeTokens w \<noteq> 0 then
        let i = lastTokenId w + 1
        in Some (i, w\<lparr>lastTokenId := i, numOfFreeTokens := numOfFreeTokens w - 1\<rparr>)
      else None)"

text \<open>The identifiers of the tokens; a token that was not on the free list is a zeroed one.\<close>

function tkm_AllocTokenNoSleep :: "nat \<Rightarrow> 'e tkm_world \<Rightarrow> u64 list \<times> 'e tkm_world" where
  "tkm_AllocTokenNoSleep n w =
     (if n = 0 then ([], w)
      else
        (case tkm_GetFreeToken w of
           Some (i, w) \<Rightarrow> (let (ret, w) = tkm_AllocTokenNoSleep (n - 1) w in (ret @ [i], w))
         | None \<Rightarrow>
             if tokenCounter w \<le> maxTokens w then
               tkm_AllocTokenNoSleep n
                 ((tkm_PutTokenInFreeList ^^ TKM_BULK_TOKENS) w
                    \<lparr>tokenCounter := tokenCounter w + int TKM_BULK_TOKENS\<rparr>)
             else ([], w)))"
  by pat_completeness auto

lemma free_put [simp]: "numOfFreeTokens ((tkm_PutTokenInFreeList ^^ k) w) = numOfFreeTokens w + k"
  by (induction k) (auto simp: tkm_PutTokenInFreeList_def)

termination tkm_AllocTokenNoSleep
  by (relation "measures [\<lambda>(n, w). n, \<lambda>(n, w). if numOfFreeTokens w = 0 then 1 else 0]")
    (auto simp: tkm_GetFreeToken_def TKM_BULK_TOKENS_def Let_def split: if_splits)

declare tkm_AllocTokenNoSleep.simps [simp del]

definition tkm_FreeToken :: "'e tkm_world \<Rightarrow> 'e tkm_world" where
  "tkm_FreeToken w = tkm_PutTokenInFreeList w"

section \<open>Granting and returning tokens\<close>

definition tkm_FreshExpTime :: "tkm_internalToken \<Rightarrow> 'e tkm_world \<Rightarrow> u32" where
  "tkm_FreshExpTime t w = (if bit (tk_flags t) TKM_TOKEN_FOREVER then - 1 else osi_Time w + expiration_secs w)"

definition tkm_GrantFileToken :: "tkm_internalToken \<Rightarrow> 'e tkm_world \<Rightarrow> 'e tkm_world" where
  "tkm_GrantFileToken t w =
     (let f = holder t;
          w = on_file f (\<lambda>x. x\<lparr>f_tokenGrants := f_tokenGrants x + 1\<rparr>) w;
          w = on_vol (\<lambda>v. v\<lparr>v_tokenGrants := v_tokenGrants v + 1\<rparr>) w;
          w = tkm_HoldFile f w;
          t = t\<lparr>expiration := tkm_FreshExpTime t w\<rparr>;
          w = on_file f (\<lambda>x. x\<lparr>f_granted := tkm_AddToTokenList t (f_granted x)\<rparr>) w;
          w = tkm_AddToGcList (Some f, tk_id t) w
      in on_vol (\<lambda>v. v\<lparr>fileTokens := tkm_AddToTokenMask (fileTokens v) (types t)\<rparr>) w)"

definition tkm_GrantVolToken :: "tkm_internalToken \<Rightarrow> 'e tkm_world \<Rightarrow> 'e tkm_world" where
  "tkm_GrantVolToken t w =
     (let w = on_vol (\<lambda>v. v\<lparr>v_tokenGrants := v_tokenGrants v + 1\<rparr>) w;
          w = tkm_HoldVol w;
          t = t\<lparr>expiration := tkm_FreshExpTime t w\<rparr>;
          w = on_vol (\<lambda>v. v\<lparr>v_granted := tkm_AddToTokenList t (v_granted v)\<rparr>) w
      in tkm_AddToGcList (None, tk_id t) w)"

definition unlink_token :: "token_ref \<Rightarrow> 'e tkm_world \<Rightarrow> 'e tkm_world" where
  "unlink_token r w =
     (let l = granted (fst r) w
      in set_granted (fst r) (l\<lparr>tl_list := tkm_RemoveFromDoubleList (snd r) (tl_list l)\<rparr>) w)"

definition tkm_ReturnFileToken :: "nat \<Rightarrow> u64 \<Rightarrow> 'e tkm_world \<Rightarrow> 'e tkm_world option" where
  "tkm_ReturnFileToken f i w =
     do { w \<leftarrow> tkm_RemoveFromGcList (Some f, i) w; tkm_ReleFile f (unlink_token (Some f, i) w) }"

definition tkm_ReturnVolToken :: "u64 \<Rightarrow> 'e tkm_world \<Rightarrow> 'e tkm_world option" where
  "tkm_ReturnVolToken i w =
     do { w \<leftarrow> tkm_RemoveFromGcList (None, i) (unlink_token (None, i) w); tkm_ReleVol w }"

definition TKM_REMOVE_FROM_MASK :: "nat option \<Rightarrow> u32 \<Rightarrow> 'e tkm_world \<Rightarrow> 'e tkm_world option" where
  "TKM_REMOVE_FROM_MASK h ts w =
     do { m \<leftarrow> tkm_RemoveFromTokenMask (tl_mask (granted h w)) ts;
          let w = set_granted h ((granted h w)\<lparr>tl_mask := m\<rparr>) w;
          case h of
            None \<Rightarrow> Some w
          | Some f \<Rightarrow>
              do { m \<leftarrow> tkm_RemoveFromTokenMask (fileTokens (vol w)) ts;
                   Some (on_vol (\<lambda>v. v\<lparr>fileTokens := m\<rparr>) w) } }"

definition is_granting :: "tkm_internalToken \<Rightarrow> bool" where
  "is_granting t \<longleftrightarrow> bit (tk_flags t) TKM_TOKEN_GRANTING"

definition clear_granting :: "tkm_internalToken \<Rightarrow> tkm_internalToken" where
  "clear_granting t = t\<lparr>tk_flags := tk_flags t AND NOT (push_bit TKM_TOKEN_GRANTING 1)\<rparr>"

definition set_granting :: "tkm_internalToken \<Rightarrow> tkm_internalToken" where
  "set_granting t = t\<lparr>tk_flags := tk_flags t OR push_bit TKM_TOKEN_GRANTING 1\<rparr>"

definition tkm_RemoveTypes :: "token_ref \<Rightarrow> u32 \<Rightarrow> 'e tkm_world \<Rightarrow> 'e tkm_world option" where
  "tkm_RemoveTypes r ts w =
     do { t \<leftarrow> the_token r w;
          w \<leftarrow> (if types t AND ts \<noteq> 0 then
                  do { w \<leftarrow> TKM_REMOVE_FROM_MASK (fst r) (types t AND ts) w;
                       if \<not> is_granting t then Some (tkm_TriggerAsyncGrants t w)
                       else if is_vol t then None
                       else Some (on_token r clear_granting w) }
                else Some w);
          let w = on_token r (\<lambda>t. t\<lparr>types := types t AND NOT ts, refused := refused t AND NOT ts\<rparr>) w;
          if types t AND NOT ts = 0 \<and> refcount t = 0 then
            map_option tkm_PutTokenInFreeList
              (case fst r of None \<Rightarrow> tkm_ReturnVolToken (snd r) w | Some f \<Rightarrow> tkm_ReturnFileToken f (snd r) w)
          else Some w }"

definition drop_ref :: "token_ref \<Rightarrow> 'e tkm_world \<Rightarrow> 'e tkm_world option" where
  "drop_ref r w =
     do { t \<leftarrow> the_token r w;
          if 0 < refcount t then Some (on_token r (\<lambda>t. t\<lparr>refcount := refcount t - 1\<rparr>) w) else None }"

definition TKM_RELETOKEN :: "token_ref \<Rightarrow> 'e tkm_world \<Rightarrow> 'e tkm_world option" where
  "TKM_RELETOKEN r w = do { w \<leftarrow> drop_ref r w; tkm_RemoveTypes r 0 w }"

definition TKM_RECYCLE_TOKEN :: "token_ref \<Rightarrow> 'e tkm_world \<Rightarrow> 'e tkm_world option" where
  "TKM_RECYCLE_TOKEN r w = do { t \<leftarrow> the_token r w; tkm_RemoveTypes r (types t) w }"

definition TKM_RELE_AND_RECYCLE_TOKEN :: "token_ref \<Rightarrow> 'e tkm_world \<Rightarrow> 'e tkm_world option" where
  "TKM_RELE_AND_RECYCLE_TOKEN r w = do { w \<leftarrow> drop_ref r w; TKM_RECYCLE_TOKEN r w }"

text \<open>The elements that still have a token give their reference back.\<close>

fun rele_elems :: "tkm_tokenConflictElem list \<Rightarrow> 'e tkm_world \<Rightarrow> 'e tkm_world option" where
  "rele_elems [] w = Some w"
| "rele_elems (e # es) w =
     do { w \<leftarrow> (case ce_token e of None \<Rightarrow> Some w | Some r \<Rightarrow> TKM_RELETOKEN r w); rele_elems es w }"

definition tkm_DeleteConflictQ :: "tkm_tokenConflictQ \<Rightarrow> 'e tkm_world \<Rightarrow> 'e tkm_world option" where
  "tkm_DeleteConflictQ q w = (if \<not> TKM_CONFLICTQ_ISEMPTY q then rele_elems (elements q) w else Some w)"

end
