(* ===== verification/Tkm_Revoke.thy ===== *)
theory Tkm_Revoke
  imports Tkm_World
begin

text \<open>
  Revocation of tokens: \<^verbatim>\<open>file/tkm/tkm_revokes.c\<close>.

  \<^item> \<open>others h w\<close> is what the other threads do to the state while this thread waits for a lock or sleeps; it
    holds the lock of the file \<open>h\<close> meanwhile, or none.
  \<^item> \<open>HS_REVOKETOKEN\<close> is the call of the host package to the client: its code, the descriptors as the client
    leaves them, and the state that the other threads leave.
  \<^item> The threads that \<open>tpq_Pardo\<close> starts run one after the other, in the order of the hosts.
  \<^item> Loops that wait for other threads are partial functions.
\<close>

datatype tkm_code = TKM_SUCCESS | TKM_ERROR_TOKENCONFLICT | TKM_ERROR_TRYAGAIN | TKM_ERROR_HARDCONFLICT
  | TKM_ERROR_REQUESTQUEUED | TKM_ERROR_NOMEM | TKM_ERROR_ILLEGALTKNTYPE | TKM_ERROR_TOKENINVALID
  | TKM_ERROR_NOENTRY | TKM_ERROR_INVALIDID | VOLERR_PERS_DELETED | EROFS | ENOMEM

datatype hs_code = HS_SUCCESS | HS_ERR_PARTIAL | HS_ERR_TRYAGAIN | HS_ERR_OTHER

record afs_token =
  tokenID :: u64
  expirationTime :: u32
  at_type :: u64
  beginRange :: u64
  endRange :: u64

record afsRevokeDesc =
  rd_fid :: "nat option"
  rd_tokenID :: u64
  rd_type :: u64
  colA_valid :: bool
  colB_valid :: bool
  due_to_gc :: bool
  lockdata_valid :: bool
  errorIDs :: u64
  columnA :: afs_token
  colAChoice :: u64
  columnB :: afs_token
  colBChoice :: u64
  recordLock :: nat

record 'e tkm_env =
  others :: "nat option \<Rightarrow> 'e tkm_world \<Rightarrow> 'e tkm_world"
  HS_REVOKETOKEN :: "nat \<Rightarrow> afsRevokeDesc list \<Rightarrow> 'e tkm_world \<Rightarrow> hs_code \<times> afsRevokeDesc list \<times> 'e tkm_world"
  HS_ASYNCGRANT :: "nat \<Rightarrow> afs_token \<Rightarrow> u32 \<Rightarrow> 'e tkm_world \<Rightarrow> 'e tkm_world"
  junk :: "nat \<Rightarrow> bool"

definition tkm_InternalToExternalToken :: "tkm_internalToken \<Rightarrow> afs_token" where
  "tkm_InternalToExternalToken t =
     \<lparr>tokenID = tk_id t, expirationTime = expiration t, at_type = ucast (types t),
      beginRange = lowBnd (tk_range t), endRange = upBnd (tk_range t)\<rparr>"

definition no_token :: afs_token where
  "no_token = \<lparr>tokenID = 0, expirationTime = 0, at_type = 0, beginRange = 0, endRange = 0\<rparr>"

definition osi_assert :: "bool \<Rightarrow> unit option" where
  "osi_assert b = (if b then Some () else None)"

section \<open>Before the calls\<close>

definition TKM_REFUSED_VALID_TIME :: u32 where "TKM_REFUSED_VALID_TIME = 2 * 60"

definition TKM_TOKEN_EXPIRED :: "tkm_internalToken \<Rightarrow> 'e tkm_world \<Rightarrow> bool" where
  "TKM_TOKEN_EXPIRED t w \<longleftrightarrow> expiration t < osi_Time w \<and> \<not> bit (tk_flags t) TKM_TOKEN_FOREVER"

text \<open>The lock of the file is dropped while the thread sleeps.\<close>

partial_function (option) sleep_granting ::
    "'e tkm_env \<Rightarrow> token_ref \<Rightarrow> 'e tkm_world \<Rightarrow> 'e tkm_world option" where
  "sleep_granting E r w =
     (case the_token r w of
        None \<Rightarrow> None
      | Some t \<Rightarrow> if is_granting t then sleep_granting E r (others E None w) else Some w)"

definition recycle_offer :: "token_ref option \<Rightarrow> 'e tkm_world \<Rightarrow> 'e tkm_world option" where
  "recycle_offer g w = (case g of None \<Rightarrow> Some w | Some r \<Rightarrow> TKM_RECYCLE_TOKEN r (on_token r clear_granting w))"

fun preprocess ::
    "'e tkm_env \<Rightarrow> bool \<Rightarrow> bool \<Rightarrow> nat list \<Rightarrow> tkm_tokenConflictQ \<Rightarrow> 'e tkm_world
      \<Rightarrow> (tkm_code \<times> tkm_tokenConflictQ \<times> 'e tkm_world) option" where
  "preprocess E doinggc forvol [] q w = Some (TKM_SUCCESS, q, w)"
| "preprocess E doinggc forvol (i # is) q w =
     do { r \<leftarrow> ce_token (elements q ! i);
          let w = TKM_PREPARE_FOR_TOKEN_RECYCLE (fst r) (others E None w);
          t \<leftarrow> the_token r w;
          if TKM_TOKEN_EXPIRED t w \<or> types t = 0 then
            do { (q, pos) \<leftarrow> tkm_RemoveFromConflictQ q r;
                 w \<leftarrow> TKM_RELE_AND_RECYCLE_TOKEN r w;
                 w \<leftarrow> (if 0 \<le> pos then
                         do { w \<leftarrow> recycle_offer (grantLow (elements q ! nat pos)) w;
                              recycle_offer (grantHigh (elements q ! nat pos)) w }
                       else Some w);
                 w \<leftarrow> TKM_UNLOCK_AFTER_TOKEN_RECYCLE (fst r) w;
                 preprocess E doinggc forvol is q w }
          else if refused t AND revoke (elements q ! i) \<noteq> 0 \<and>
               grantLow (elements q ! i) = None \<and> grantHigh (elements q ! i) = None \<and>
               \<not> forvol \<and> osi_Time w - lastRefused t < TKM_REFUSED_VALID_TIME then
            if doinggc then
              do { (q, pos) \<leftarrow> tkm_RemoveFromConflictQ q r;
                   w \<leftarrow> TKM_RELETOKEN r w;
                   w \<leftarrow> TKM_UNLOCK_AFTER_TOKEN_RECYCLE (fst r) w;
                   preprocess E doinggc forvol is q w }
            else
              do { w \<leftarrow> TKM_UNLOCK_AFTER_TOKEN_RECYCLE (fst r) w;
                   Some (TKM_ERROR_TOKENCONFLICT, q, w) }
          else if is_granting t then
            if fst r = None then None
            else if doinggc then
              do { (q, pos) \<leftarrow> tkm_RemoveFromConflictQ q r;
                   w \<leftarrow> TKM_RELETOKEN r w;
                   w \<leftarrow> TKM_UNLOCK_AFTER_TOKEN_RECYCLE (fst r) w;
                   preprocess E doinggc forvol is q w }
            else
              do { w \<leftarrow> sleep_granting E r w;
                   w \<leftarrow> TKM_UNLOCK_AFTER_TOKEN_RECYCLE (fst r) w;
                   preprocess E doinggc forvol is q w }
          else
            do { w \<leftarrow> TKM_UNLOCK_AFTER_TOKEN_RECYCLE (fst r) w;
                 preprocess E doinggc forvol is q w } }"

definition tkm_PreProcessConflictQ ::
    "'e tkm_env \<Rightarrow> bool \<Rightarrow> bool \<Rightarrow> tkm_tokenConflictQ \<Rightarrow> 'e tkm_world
      \<Rightarrow> (tkm_code \<times> tkm_tokenConflictQ \<times> 'e tkm_world) option" where
  "tkm_PreProcessConflictQ E doinggc forvol q w = preprocess E doinggc forvol [0..<lastPos q] q w"

section \<open>One host\<close>

definition column :: "token_ref option \<Rightarrow> 'e tkm_world \<Rightarrow> afs_token option" where
  "column g w =
     (case g of None \<Rightarrow> Some no_token | Some r \<Rightarrow> map_option tkm_InternalToExternalToken (the_token r w))"

definition tkm_ConflictToAfsRevokeDesc ::
    "bool \<Rightarrow> tkm_tokenConflictElem \<Rightarrow> 'e tkm_world \<Rightarrow> afsRevokeDesc option" where
  "tkm_ConflictToAfsRevokeDesc doinggc c w =
     do { r \<leftarrow> ce_token c;
          a \<leftarrow> column (grantLow c) w;
          b \<leftarrow> column (grantHigh c) w;
          Some \<lparr>rd_fid = fst r, rd_tokenID = snd r, rd_type = ucast (revoke c),
                colA_valid = (grantLow c \<noteq> None), colB_valid = (grantHigh c \<noteq> None), due_to_gc = doinggc,
                lockdata_valid = False, errorIDs = 0, columnA = a, colAChoice = 0, columnB = b, colBChoice = 0,
                recordLock = 0\<rparr> }"

definition tkm_AdjustAccepted ::
    "'e tkm_env \<Rightarrow> token_ref option \<Rightarrow> afs_token \<Rightarrow> u32 \<Rightarrow> 'e tkm_world \<Rightarrow> 'e tkm_world option" where
  "tkm_AdjustAccepted E internal offered accepted w =
     do { r \<leftarrow> internal;
          t \<leftarrow> the_token r w;
          osi_assert (is_granting t \<and> \<not> is_vol t \<and> tokenID offered = tk_id t);
          if accepted = 0 then
              do { w \<leftarrow> TKM_RECYCLE_TOKEN r (TKM_PREPARE_FOR_TOKEN_RECYCLE (fst r) (others E None w));
                   TKM_UNLOCK_AFTER_TOKEN_RECYCLE (fst r) w }
          else
              do { let w = others E None w;
                   t \<leftarrow> the_token r w;
                   Some (on_token r (\<lambda>t. clear_granting (t\<lparr>types := accepted\<rparr>)) w) } }"

definition MostSevere :: "tkm_code \<Rightarrow> tkm_code \<Rightarrow> tkm_code" where
  "MostSevere code1 code2 =
     (if code1 = TKM_ERROR_TOKENCONFLICT \<or> code2 = TKM_ERROR_TOKENCONFLICT then TKM_ERROR_TOKENCONFLICT
      else if code1 = TKM_SUCCESS then code2
      else if code2 = TKM_SUCCESS then code1
      else code1)"

text \<open>The descriptors of one reply with the positions of their elements in the queue.\<close>

definition revoke_reply ::
    "'e tkm_env \<Rightarrow> hs_code \<Rightarrow> bool \<Rightarrow> afsRevokeDesc list \<Rightarrow> nat \<Rightarrow> afsRevokeDesc
      \<Rightarrow> tkm_code \<times> tkm_tokenConflictQ \<times> 'e tkm_world
      \<Rightarrow> (tkm_code \<times> tkm_tokenConflictQ \<times> 'e tkm_world) option" where
  "revoke_reply E code wantLock descs i d =
     (\<lambda>(rtn, q, w).
       do { r \<leftarrow> ce_token (elements q ! i);
            osi_assert (snd r = rd_tokenID d);
            let c = elements q ! i;
            let w = TKM_PREPARE_FOR_TOKEN_RECYCLE (fst r) (others E None w);
            let ref = (ucast (errorIDs d) AND ucast (rd_type d) :: u32);
            let typesRevoked = ucast (rd_type d) AND NOT ref;
            (rtn, q, w) \<leftarrow>
              (if code \<noteq> HS_SUCCESS \<and> ref \<noteq> 0 then
                 let w = (if \<not> due_to_gc d
                          then on_token r (\<lambda>t. t\<lparr>refused := refused t OR ref, lastRefused := osi_Time w\<rparr>) w
                          else w);
                     w = (if wantLock then
                            case find lockdata_valid descs of
                              None \<Rightarrow> w
                            | Some l \<Rightarrow> w\<lparr>lockDescriptor := recordLock l\<rparr>
                          else w)
                 in Some (TKM_ERROR_TOKENCONFLICT, q, w)
               else
                 do { (q, pos) \<leftarrow> tkm_RemoveFromConflictQ q r;
                      w \<leftarrow> drop_ref r w;
                      Some (rtn, q, w) });
            w \<leftarrow> tkm_RemoveTypes r typesRevoked w;
            w \<leftarrow> TKM_UNLOCK_AFTER_TOKEN_RECYCLE (fst r) w;
            w \<leftarrow> (if colA_valid d then tkm_AdjustAccepted E (grantLow c) (columnA d) (ucast (colAChoice d)) w
                  else Some w);
            w \<leftarrow> (if colB_valid d then tkm_AdjustAccepted E (grantHigh c) (columnB d) (ucast (colBChoice d)) w
                  else Some w);
            Some (rtn, q, w) })"

fun revoke_replies ::
    "'e tkm_env \<Rightarrow> hs_code \<Rightarrow> bool \<Rightarrow> afsRevokeDesc list \<Rightarrow> (nat \<times> afsRevokeDesc) list
      \<Rightarrow> tkm_code \<times> tkm_tokenConflictQ \<times> 'e tkm_world
      \<Rightarrow> (tkm_code \<times> tkm_tokenConflictQ \<times> 'e tkm_world) option" where
  "revoke_replies E code wantLock descs [] s = Some s"
| "revoke_replies E code wantLock descs ((i, d) # ds) s =
     do { s \<leftarrow> revoke_reply E code wantLock descs i d s; revoke_replies E code wantLock descs ds s }"

definition tkm_DoRevoke ::
    "'e tkm_env \<Rightarrow> bool \<Rightarrow> nat \<Rightarrow> (nat \<times> afsRevokeDesc) list \<Rightarrow> tkm_tokenConflictQ \<Rightarrow> 'e tkm_world
      \<Rightarrow> (tkm_code \<times> tkm_tokenConflictQ \<times> 'e tkm_world) option" where
  "tkm_DoRevoke E wantLock h revokes q w =
     (let (code, descs, w) = HS_REVOKETOKEN E h (map snd revokes) w
      in if code = HS_SUCCESS \<or> code = HS_ERR_PARTIAL then
           revoke_replies E code wantLock descs (zip (map fst revokes) descs) (TKM_SUCCESS, q, w)
         else Some (if code = HS_ERR_TRYAGAIN then TKM_ERROR_TRYAGAIN else TKM_ERROR_HARDCONFLICT, q, w))"

section \<open>All hosts\<close>

type_synonym host_list = "(nat \<times> (nat \<times> afsRevokeDesc) list) list"

fun pardo ::
    "'e tkm_env \<Rightarrow> bool \<Rightarrow> host_list \<Rightarrow> tkm_code \<Rightarrow> tkm_tokenConflictQ \<Rightarrow> 'e tkm_world
      \<Rightarrow> (tkm_code \<times> tkm_tokenConflictQ \<times> 'e tkm_world) option" where
  "pardo E wantLock [] code q w = Some (code, q, w)"
| "pardo E wantLock ((h, revokes) # hs) code q w =
     do { (c, q, w) \<leftarrow> tkm_DoRevoke E wantLock h revokes q w; pardo E wantLock hs (MostSevere code c) q w }"

fun add_revoke :: "nat \<Rightarrow> nat \<times> afsRevokeDesc \<Rightarrow> host_list \<Rightarrow> host_list" where
  "add_revoke h d [] = [(h, [d])]"
| "add_revoke h d ((h', ds) # hs) = (if h' = h then (h', ds @ [d]) # hs else (h', ds) # add_revoke h d hs)"

text \<open>The walk over the positions of the queue, with the hosts gathered so far.\<close>

function revoke_loop ::
    "'e tkm_env \<Rightarrow> bool \<Rightarrow> bool \<Rightarrow> nat list \<Rightarrow> host_list \<Rightarrow> tkm_tokenConflictQ \<Rightarrow> 'e tkm_world
      \<Rightarrow> (tkm_code \<times> tkm_tokenConflictQ \<times> 'e tkm_world) option" where
  "revoke_loop E doinggc wantLock [] hosts q w =
     (if hosts \<noteq> [] then pardo E wantLock hosts TKM_SUCCESS q w else Some (TKM_SUCCESS, q, w))"
| "revoke_loop E doinggc wantLock (pos # ps) hosts q w =
     (case ce_token (elements q ! pos) of
        None \<Rightarrow> revoke_loop E doinggc wantLock ps hosts q w
      | Some r \<Rightarrow>
          do { t \<leftarrow> the_token r w;
               osi_assert (0 < refcount t);
               if host t \<notin> fst ` set hosts \<and> length hosts = TKM_MAXPARALLELRPC then
                 do { (code, q, w) \<leftarrow> pardo E wantLock hosts TKM_SUCCESS q w;
                      if code \<noteq> TKM_SUCCESS then Some (code, q, w)
                      else revoke_loop E doinggc wantLock (pos # ps) [] q w }
               else
                 do { d \<leftarrow> tkm_ConflictToAfsRevokeDesc doinggc (elements q ! pos) w;
                      revoke_loop E doinggc wantLock ps (add_revoke (host t) (pos, d) hosts) q w } })"
  by pat_completeness auto
termination
  by (relation "measures [\<lambda>(E, g, l, ps, hosts, q, w). length ps, \<lambda>(E, g, l, ps, hosts, q, w). length hosts]")
    (auto simp: TKM_MAXPARALLELRPC_def)

definition tkm_ParallelRevoke ::
    "'e tkm_env \<Rightarrow> bool \<Rightarrow> bool \<Rightarrow> bool \<Rightarrow> tkm_tokenConflictQ \<Rightarrow> 'e tkm_world
      \<Rightarrow> (tkm_code \<times> tkm_tokenConflictQ \<times> 'e tkm_world) option" where
  "tkm_ParallelRevoke E doinggc forvol wantLock q w =
     (if TKM_CONFLICTQ_ISEMPTY q then Some (TKM_SUCCESS, q, w)
      else
        do { (code, q, w) \<leftarrow> tkm_PreProcessConflictQ E doinggc forvol q w;
             if code \<noteq> TKM_SUCCESS \<or> TKM_CONFLICTQ_ISEMPTY q then Some (code, q, w)
             else revoke_loop E doinggc wantLock [0..<lastPos q] [] q w })"

end
