(* ===== verification/Tkm_Grant.thy ===== *)
theory Tkm_Grant
  imports Tkm_Revoke
begin

text \<open>
  Grants of tokens for files and for the volume: \<^verbatim>\<open>file/tkm/tkm_filetoken.c\<close>, \<^verbatim>\<open>tkm_voltoken.c\<close>, and the
  allocator that sleeps, \<^verbatim>\<open>tkm_recycle.c\<close>.

  \<^item> The new token is a value until it is linked into a list.  The conflicts, the pools and the slices are those of
    the code; a pool is the list of the identifiers of its tokens.
  \<^item> The loops repeat when other threads have changed what they rely on, so they are partial functions.
\<close>

definition TKM_FLAGS_QUEUEREQUEST :: u32 where "TKM_FLAGS_QUEUEREQUEST = 0x1"
definition TKM_FLAGS_OPTIMISTICGRANT :: u32 where "TKM_FLAGS_OPTIMISTICGRANT = 0x4"
definition TKM_FLAGS_DOING_ASYNCGRANT :: u32 where "TKM_FLAGS_DOING_ASYNCGRANT = 0x8"
definition TKM_FLAGS_NOEXPIRE :: u32 where "TKM_FLAGS_NOEXPIRE = 0x20"
definition TKM_FLAGS_EXPECTNOCONFL :: u32 where "TKM_FLAGS_EXPECTNOCONFL = 0x80"
definition TKM_FLAGS_GETSAMEID :: u32 where "TKM_FLAGS_GETSAMEID = 0x100"
definition TKM_FLAGS_DONTSLEEP :: u32 where "TKM_FLAGS_DONTSLEEP = 0x200"

definition has_flag :: "u32 \<Rightarrow> u32 \<Rightarrow> bool" where
  "has_flag flags f \<longleftrightarrow> flags AND f \<noteq> 0"

section \<open>Allocation\<close>

partial_function (option) tkm_AllocToken ::
    "'e tkm_env \<Rightarrow> nat \<Rightarrow> u64 list \<Rightarrow> 'e tkm_world \<Rightarrow> (u64 list option \<times> 'e tkm_world) option" where
  "tkm_AllocToken E n ret w =
     (if length ret < n then
        let p = tkm_AllocTokenNoSleep (n - length ret) w in
        if fst p \<noteq> [] then tkm_AllocToken E n (ret @ fst p) (snd p)
        else if freeTokensGcFailed (snd p) then
          Some (None, (tkm_PutTokenInFreeList ^^ length ret) (snd p))
        else tkm_AllocToken E n ret (others E None (snd p))
      else Some (Some ret, w))"

text \<open>New tokens are put in front of the pool one by one; an empty pool becomes the new list.\<close>

definition join_pool :: "u64 list \<Rightarrow> u64 list \<Rightarrow> u64 list" where
  "join_pool ids pool = (if pool = [] then ids else rev ids @ pool)"

definition free_pool :: "u64 list \<Rightarrow> 'e tkm_world \<Rightarrow> 'e tkm_world" where
  "free_pool pool w = (tkm_FreeToken ^^ length pool) w"

section \<open>Slice and dice\<close>

definition slice_token ::
    "tkm_internalToken \<Rightarrow> u32 \<Rightarrow> u64 \<Rightarrow> tkm_byterange \<Rightarrow> 'e tkm_world \<Rightarrow> tkm_internalToken" where
  "slice_token t ts i rng w =
     \<lparr>tk_id = i, expiration = tkm_FreshExpTime t w, tk_range = rng, holder = holder t, types = ts, refused = 0,
      host = host t, tk_flags = push_bit TKM_TOKEN_GRANTING 1, refcount = 0, reqNum = 0, lastRefused = 0\<rparr>"

definition take_slice ::
    "tkm_internalToken \<Rightarrow> u32 \<Rightarrow> tkm_byterange option \<Rightarrow> u64 list \<Rightarrow> 'e tkm_world
      \<Rightarrow> (tkm_internalToken option \<times> u64 list) option" where
  "take_slice t ts part pool w =
     (case part of
        None \<Rightarrow> Some (None, pool)
      | Some rng \<Rightarrow> (case pool of [] \<Rightarrow> None | i # pool \<Rightarrow> Some (Some (slice_token t ts i rng w), pool)))"

definition tkm_MakeSliceNdice ::
    "tkm_internalToken \<Rightarrow> tkm_tokenConflictElem \<Rightarrow> u64 list \<Rightarrow> 'e tkm_world
      \<Rightarrow> (tkm_internalToken option \<times> tkm_internalToken option \<times> u64 list) option" where
  "tkm_MakeSliceNdice new c pool w =
     do { r \<leftarrow> ce_token c;
          t \<leftarrow> the_token r w;
          let (lo, hi) = tkm_ByterangeComplement (tk_range t) (tk_range new);
          (low, pool) \<leftarrow> take_slice t (grant c) lo pool w;
          (high, pool) \<leftarrow> take_slice t (grant c) hi pool w;
          Some (low, high, pool) }"

definition push_slice :: "tkm_internalToken option \<Rightarrow> tkm_internalToken list \<Rightarrow> tkm_internalToken list" where
  "push_slice s ts = (case s of None \<Rightarrow> ts | Some t \<Rightarrow> tkm_AddToDoubleList t ts)"

fun make_slices ::
    "tkm_internalToken \<Rightarrow> tkm_tokenConflictElem list \<Rightarrow> u64 list \<Rightarrow> tkm_internalToken list \<Rightarrow> 'e tkm_world
      \<Rightarrow> (tkm_tokenConflictElem list \<times> u64 list \<times> tkm_internalToken list) option" where
  "make_slices new [] pool slices w = Some ([], pool, slices)"
| "make_slices new (c # cs) pool slices w =
     (if grant c \<noteq> 0 then
        do { (low, high, pool) \<leftarrow> tkm_MakeSliceNdice new c pool w;
             (cs, rest) \<leftarrow> make_slices new cs pool (push_slice high (push_slice low slices)) w;
             Some (c\<lparr>grantLow := map_option ref_of low, grantHigh := map_option ref_of high\<rparr> # cs, rest) }
      else
        do { (cs, rest) \<leftarrow> make_slices new cs pool slices w; Some (c # cs, rest) })"

definition clean_offer :: "token_ref option \<Rightarrow> 'e tkm_world \<Rightarrow> 'e tkm_world option" where
  "clean_offer g w =
     (case g of
        None \<Rightarrow> Some w
      | Some r \<Rightarrow> do { t \<leftarrow> the_token r w; if is_granting t then TKM_RECYCLE_TOKEN r w else Some w })"

fun clean_elems :: "tkm_tokenConflictElem list \<Rightarrow> 'e tkm_world \<Rightarrow> 'e tkm_world option" where
  "clean_elems [] w = Some w"
| "clean_elems (c # cs) w =
     do { w \<leftarrow> (if ce_token c \<noteq> None then do { w \<leftarrow> clean_offer (grantLow c) w; clean_offer (grantHigh c) w }
               else Some w);
          clean_elems cs w }"

definition tkm_CleanConflictQ :: "tkm_tokenConflictQ \<Rightarrow> 'e tkm_world \<Rightarrow> 'e tkm_world option" where
  "tkm_CleanConflictQ q w = do { w \<leftarrow> clean_elems (elements q) w; tkm_DeleteConflictQ q w }"

section \<open>Conflicts with the tokens of a file\<close>

text \<open>Whether a token that was refused still has the types.\<close>

fun still_conflicting :: "tkm_tokenConflictElem list \<Rightarrow> 'e tkm_world \<Rightarrow> bool option" where
  "still_conflicting [] w = Some False"
| "still_conflicting (c # cs) w =
     (case ce_token c of
        None \<Rightarrow> still_conflicting cs w
      | Some r \<Rightarrow>
          do { t \<leftarrow> the_token r w;
               if revoke c AND types t \<noteq> 0 then Some True else still_conflicting cs w })"

definition grant_slices :: "tkm_internalToken list \<Rightarrow> 'e tkm_world \<Rightarrow> 'e tkm_world" where
  "grant_slices ts w = fold tkm_GrantFileToken ts w"

text \<open>The new tokens of the pool: the pool and whether the locks were dropped and the conflicts are to be
  determined again.  No pool: there is no memory.\<close>

definition fill_pool ::
    "'e tkm_env \<Rightarrow> nat \<Rightarrow> u64 list \<Rightarrow> 'e tkm_world \<Rightarrow> (u64 list option \<times> bool \<times> 'e tkm_world) option" where
  "fill_pool E needed pool w =
     (if needed = 0 then Some (Some pool, False, w)
      else
        let (got, w) = tkm_AllocTokenNoSleep needed w;
            pool = join_pool got pool
        in if length got = needed then Some (Some pool, False, w)
           else
             do { (rest, w) \<leftarrow> tkm_AllocToken E (needed - length got) [] (others E None w);
                  case rest of
                    None \<Rightarrow> Some (None, True, others E None (free_pool pool w))
                  | Some ms \<Rightarrow> Some (Some (join_pool ms pool), pool \<noteq> [], others E None w) })"

partial_function (option) fix_file_loop ::
    "'e tkm_env \<Rightarrow> tkm_internalToken \<Rightarrow> nat \<Rightarrow> u32 \<Rightarrow> bool \<Rightarrow> u64 list \<Rightarrow> 'e tkm_world
      \<Rightarrow> (tkm_code \<times> u32 \<times> 'e tkm_world) option" where
  "fix_file_loop E new f flags wantLock pool w =
     do { (l, found, other) \<leftarrow> tkm_ConflictingTokens (junk E) (granted (Some f) w) new TKM_MAX_CONFLICTS;
          case found of
            None \<Rightarrow> Some (TKM_SUCCESS, other, w)
          | Some q \<Rightarrow>
              let w = set_granted (Some f) l w in
              if has_flag flags TKM_FLAGS_EXPECTNOCONFL then
                do { w \<leftarrow> tkm_DeleteConflictQ q w; Some (TKM_ERROR_TOKENCONFLICT, other, w) }
              else
                do { (filled, again, w) \<leftarrow> fill_pool E (2 * sliceNdiceNeeded q) pool w;
                     case filled of
                       None \<Rightarrow> do { w \<leftarrow> tkm_DeleteConflictQ q w; Some (ENOMEM, other, w) }
                     | Some pool \<Rightarrow>
                         if again then
                           do { w \<leftarrow> tkm_DeleteConflictQ q w; fix_file_loop E new f flags wantLock pool w }
                         else
                           do { (q, w) \<leftarrow>
                                  (if 0 < sliceNdiceNeeded q then
                                     do { (cs, pool, slices) \<leftarrow> make_slices new (elements q) pool [] w;
                                          let w = others E (Some f) (free_pool pool w);
                                          Some (q\<lparr>elements := cs\<rparr>, grant_slices slices w) }
                                   else Some (q, free_pool pool w));
                                (code, q, w) \<leftarrow> tkm_ParallelRevoke E False (is_vol new) wantLock q w;
                                let w = others E None w;
                                if code \<noteq> TKM_SUCCESS then
                                  do { still \<leftarrow> (if code = TKM_ERROR_TOKENCONFLICT \<and> has_flag flags TKM_FLAGS_QUEUEREQUEST
                                               then still_conflicting (elements q) w else Some True);
                                       w \<leftarrow> tkm_CleanConflictQ q (others E (Some f) w);
                                       if still then Some (code, other, w)
                                       else fix_file_loop E new f flags wantLock [] w }
                                else if TKM_CONFLICTQ_ISEMPTY q then
                                  do { w \<leftarrow> tkm_DeleteConflictQ q w; fix_file_loop E new f flags wantLock [] w }
                                else None } } }"

definition tkm_FixFileConflicts ::
    "'e tkm_env \<Rightarrow> tkm_internalToken \<Rightarrow> nat \<Rightarrow> u32 \<Rightarrow> bool \<Rightarrow> 'e tkm_world
      \<Rightarrow> (tkm_code \<times> u32 \<times> 'e tkm_world) option" where
  "tkm_FixFileConflicts E new f flags wantLock w =
     (if f_host (files w f) = Some (host new) then Some (TKM_SUCCESS, 0, w)
      else fix_file_loop E new f flags wantLock [] w)"

section \<open>Conflicts with the tokens of the volume\<close>

text \<open>The same question without a test for the null pointer.\<close>

fun still_conflicting_vol :: "tkm_tokenConflictElem list \<Rightarrow> 'e tkm_world \<Rightarrow> bool option" where
  "still_conflicting_vol [] w = Some False"
| "still_conflicting_vol (c # cs) w =
     do { r \<leftarrow> ce_token c;
          t \<leftarrow> the_token r w;
          if revoke c AND types t \<noteq> 0 then Some True else still_conflicting_vol cs w }"

partial_function (option) tkm_FixVolConflicts ::
    "'e tkm_env \<Rightarrow> tkm_internalToken \<Rightarrow> u32 \<Rightarrow> 'e tkm_world \<Rightarrow> (tkm_code \<times> u32 \<times> 'e tkm_world) option" where
  "tkm_FixVolConflicts E new flags w =
     do { (l, found, other) \<leftarrow> tkm_ConflictingTokens (junk E) (granted None w) new TKM_MAX_CONFLICTS;
          case found of
            None \<Rightarrow> Some (TKM_SUCCESS, other, w)
          | Some q \<Rightarrow>
              let w = set_granted None l w in
              if has_flag flags TKM_FLAGS_EXPECTNOCONFL then
                do { w \<leftarrow> tkm_DeleteConflictQ q w; Some (TKM_ERROR_TOKENCONFLICT, other, w) }
              else
                do { (code, q, w) \<leftarrow> tkm_ParallelRevoke E False (is_vol new) False q w;
                     let w = others E None w;
                     if code \<noteq> TKM_SUCCESS then
                       do { still \<leftarrow> (if \<not> is_vol new \<and> code = TKM_ERROR_TOKENCONFLICT \<and>
                                      has_flag flags TKM_FLAGS_QUEUEREQUEST
                                    then still_conflicting_vol (elements q) w else Some True);
                            w \<leftarrow> tkm_DeleteConflictQ q w;
                            if still then Some (code, other, w) else tkm_FixVolConflicts E new flags w }
                     else
                       do { w \<leftarrow> tkm_DeleteConflictQ q w; tkm_FixVolConflicts E new flags w } } }"

section \<open>A token for a file\<close>

text \<open>Waiting for the tokens of the volume that are being granted; true: there is a conflict and no waiting.\<close>

partial_function (option) wait_being_granted ::
    "'e tkm_env \<Rightarrow> tkm_internalToken \<Rightarrow> u32 \<Rightarrow> 'e tkm_world \<Rightarrow> (bool \<times> 'e tkm_world) option" where
  "wait_being_granted E new flags w =
     (if list_ex (\<lambda>t. host new \<noteq> host t \<and> types new AND TKM_TYPE_CONFLICTS (junk E) (types t) \<noteq> 0)
           (beingGranted (vol w)) then
        if has_flag flags TKM_FLAGS_EXPECTNOCONFL then Some (True, w)
        else wait_being_granted E new flags (others E None w)
      else Some (False, w))"

definition optimistic_rights :: "'e tkm_env \<Rightarrow> tkm_internalToken \<Rightarrow> u32 \<Rightarrow> u32" where
  "optimistic_rights E new other =
     (let rights = NOT (TKM_TOKENTYPE_MASK TKM_OPEN_DELETE OR TKM_TOKENTYPE_MASK TKM_SPOT_HERE OR
                      TKM_TOKENTYPE_MASK TKM_SPOT_THERE OR TKM_TYPE_CONFLICTS (junk E) other)
                 AND (TKM_TOKENTYPE_MASK TKM_ALL_TOKENS - 1)
      in if lowBnd (tk_range new) \<noteq> 0 \<or> upBnd (tk_range new) < 0x7FFFFFFF
         then TKM_TYPES_WITH_RANGE rights else rights)"

text \<open>The grant at the end of \<open>tkm_GetFileToken\<close>, both locks held.\<close>

definition grant_file ::
    "'e tkm_env \<Rightarrow> tkm_internalToken \<Rightarrow> u32 \<Rightarrow> u32 \<Rightarrow> u32 \<Rightarrow> 'e tkm_world
      \<Rightarrow> (tkm_code \<times> tkm_internalToken \<times> 'e tkm_world) option" where
  "grant_file E new flags otherFile otherVol w =
     (let f = holder new;
          w = on_file f (\<lambda>x. x\<lparr>f_host :=
                 (if otherFile OR otherVol = 0 then Some (host new)
                  else if f_host x \<noteq> Some (host new) then None else f_host x)\<rparr>) w;
          new = (if has_flag flags TKM_FLAGS_OPTIMISTICGRANT
                 then new\<lparr>types := types new OR optimistic_rights E new (otherVol OR otherFile)\<rparr> else new);
          w = tkm_GrantFileToken new w
      in if has_flag flags TKM_FLAGS_DOING_ASYNCGRANT then
           do { t \<leftarrow> the_token (Some f, tk_id new) w;
                let w = HS_ASYNCGRANT E (host new) (tkm_InternalToExternalToken t) (reqNum new)
                          (on_token (Some f, tk_id new) set_granting w);
                t \<leftarrow> the_token (Some f, tk_id new) w;
                Some (TKM_SUCCESS, clear_granting t, on_token (Some f, tk_id new) clear_granting w) }
         else Some (TKM_SUCCESS, new, w))"

partial_function (option) get_file_loop ::
    "'e tkm_env \<Rightarrow> tkm_internalToken \<Rightarrow> u32 \<Rightarrow> bool \<Rightarrow> 'e tkm_world
      \<Rightarrow> (tkm_code \<times> tkm_internalToken \<times> 'e tkm_world) option" where
  "get_file_loop E new flags wantLock w =
     do { (code, otherFile, w) \<leftarrow> tkm_FixFileConflicts E new (holder new) flags wantLock w;
          let count = f_tokenGrants (files w (holder new));
          if code \<noteq> TKM_SUCCESS then
            if has_flag flags TKM_FLAGS_QUEUEREQUEST \<and> code = TKM_ERROR_TOKENCONFLICT then
              Some (TKM_ERROR_REQUESTQUEUED, new,
                    on_file (holder new) (\<lambda>x. x\<lparr>queued := tkm_AddToDoubleList new (queued x)\<rparr>)
                      (tkm_HoldFile (holder new) w))
            else Some (code, new, w)
          else
            do { (blocked, w) \<leftarrow> wait_being_granted E new flags (others E (Some (holder new)) w);
                 if blocked then Some (TKM_ERROR_TOKENCONFLICT, new, w)
                 else
                   do { (code, otherVol, w) \<leftarrow> tkm_FixVolConflicts E new flags w;
                        if count \<noteq> f_tokenGrants (files w (holder new)) then get_file_loop E new flags wantLock w
                        else if code \<noteq> TKM_SUCCESS then
                          if has_flag flags TKM_FLAGS_QUEUEREQUEST \<and> code = TKM_ERROR_TOKENCONFLICT then
                            Some (TKM_ERROR_REQUESTQUEUED, new,
                                  on_vol (\<lambda>v. v\<lparr>queuedFileTokens := tkm_AddToDoubleList new (queuedFileTokens v)\<rparr>)
                                    (tkm_HoldFile (holder new) w))
                          else Some (code, new, w)
                        else grant_file E new flags otherFile otherVol w } } }"

definition tkm_GetFileToken ::
    "'e tkm_env \<Rightarrow> tkm_internalToken \<Rightarrow> u32 \<Rightarrow> bool \<Rightarrow> 'e tkm_world
      \<Rightarrow> (tkm_code \<times> tkm_internalToken \<times> 'e tkm_world) option" where
  "tkm_GetFileToken E new flags wantLock w = get_file_loop E new flags wantLock (others E None w)"

section \<open>A token for the volume\<close>

definition no_longer_being_granted :: "tkm_internalToken \<Rightarrow> 'e tkm_world \<Rightarrow> 'e tkm_world" where
  "no_longer_being_granted new w =
     on_vol (\<lambda>v. v\<lparr>beingGranted := tkm_RemoveFromDoubleList (tk_id new) (beingGranted v)\<rparr>) w"

fun next_file :: "nat \<Rightarrow> nat list \<Rightarrow> nat option" where
  "next_file f [] = None"
| "next_file f (g # gs) = (if g = f then (case gs of [] \<Rightarrow> None | h # hs \<Rightarrow> Some h) else next_file f gs)"

definition hold_next :: "nat option \<Rightarrow> 'e tkm_world \<Rightarrow> 'e tkm_world" where
  "hold_next n w = (case n of None \<Rightarrow> w | Some f \<Rightarrow> tkm_HoldFile f w)"

definition rele_next :: "nat option \<Rightarrow> 'e tkm_world \<Rightarrow> 'e tkm_world option" where
  "rele_next n w = (case n of None \<Rightarrow> Some w | Some f \<Rightarrow> tkm_ReleFile f w)"

text \<open>The walk over the files of the volume, from a file that is held.\<close>

partial_function (option) fix_files ::
    "'e tkm_env \<Rightarrow> tkm_internalToken \<Rightarrow> u32 \<Rightarrow> nat option \<Rightarrow> 'e tkm_world
      \<Rightarrow> (tkm_code \<times> 'e tkm_world) option" where
  "fix_files E new flags cur w =
     (case cur of
        None \<Rightarrow> Some (TKM_SUCCESS, w)
      | Some f \<Rightarrow>
          let nxt = next_file f (v_files (vol w));
              w = others E None (hold_next nxt w)
          in do { (code, other, w) \<leftarrow> tkm_FixFileConflicts E new f flags False w;
                  if code \<noteq> TKM_SUCCESS then
                    do { w \<leftarrow> tkm_ReleFile f (no_longer_being_granted new (others E (Some f) w));
                         w \<leftarrow> rele_next nxt w;
                         Some (code, w) }
                  else
                    do { w \<leftarrow> tkm_ReleFile f w; fix_files E new flags nxt w } })"

definition grant_vol :: "tkm_internalToken \<Rightarrow> 'e tkm_world \<Rightarrow> 'e tkm_world" where
  "grant_vol new w = tkm_GrantVolToken new (no_longer_being_granted new w)"

partial_function (option) get_vol_loop ::
    "'e tkm_env \<Rightarrow> tkm_internalToken \<Rightarrow> u32 \<Rightarrow> 'e tkm_world \<Rightarrow> (tkm_code \<times> 'e tkm_world) option" where
  "get_vol_loop E new flags w =
     do { (code, otherVol, w) \<leftarrow> tkm_FixVolConflicts E new flags w;
          let count = v_tokenGrants (vol w);
          if code \<noteq> TKM_SUCCESS then Some (code, no_longer_being_granted new w)
          else if typeSum (fileTokens (vol w)) AND TKM_TYPE_CONFLICTS (junk E) (types new) = 0 then
            Some (TKM_SUCCESS, grant_vol new w)
          else
            let w = others E None w;
                first = (case v_files (vol w) of [] \<Rightarrow> None | f # fs \<Rightarrow> Some f)
            in do { (code, w) \<leftarrow> fix_files E new flags first (hold_next first w);
                    if code \<noteq> TKM_SUCCESS then Some (code, w)
                    else
                      let w = others E None w in
                      if count \<noteq> v_tokenGrants (vol w) then get_vol_loop E new flags w
                      else Some (TKM_SUCCESS, grant_vol new w) } }"

definition tkm_GetVolToken ::
    "'e tkm_env \<Rightarrow> tkm_internalToken \<Rightarrow> u32 \<Rightarrow> 'e tkm_world \<Rightarrow> (tkm_code \<times> 'e tkm_world) option" where
  "tkm_GetVolToken E new flags w =
     get_vol_loop E new flags
       (on_vol (\<lambda>v. v\<lparr>beingGranted := tkm_AddToDoubleList new (beingGranted v)\<rparr>) (others E None w))"

end
