(* ===== verification/Tkm_Tokens.thy ===== *)
theory Tkm_Tokens
  imports Tkm_Grant
begin

text \<open>
  The routines that the token manager exports: \<^verbatim>\<open>file/tkm/tkm_tokens.c\<close>.

  \<^item> \<open>tkm_FindFile\<close> and \<open>tkm_FindVol\<close>, which look the file identifier up in the tables of \<^verbatim>\<open>tkm_file.c\<close> and
    \<^verbatim>\<open>tkm_volume.c\<close>, are the argument \<open>fid\<close>: the volume or one of its files, or neither is found.
  \<^item> A held token of the caller is the state before the call; the lookup and the release at the end cancel.
\<close>

datatype fid = FidVol | FidFile nat

definition TKM_FREE_RO_TOKENS :: u32 where
  "TKM_FREE_RO_TOKENS =
     TKM_TOKENTYPE_MASK TKM_LOCK_READ OR TKM_TOKENTYPE_MASK TKM_DATA_READ OR TKM_TOKENTYPE_MASK TKM_OPEN_READ OR
     TKM_TOKENTYPE_MASK TKM_OPEN_SHARED OR TKM_TOKENTYPE_MASK TKM_OPEN_PRESERVE OR
     TKM_TOKENTYPE_MASK TKM_STATUS_READ OR TKM_TOKENTYPE_MASK TKM_SPOT_HERE"

definition TKM_FREETOKENS :: "tkm_vol \<Rightarrow> u32" where
  "TKM_FREETOKENS v = (if v_readonly v then TKM_FREE_RO_TOKENS else 0)"

definition TKM_MAXTOKENS :: "tkm_vol \<Rightarrow> u32" where
  "TKM_MAXTOKENS v = (if v_readonly v then TKM_FREE_RO_TOKENS else NOT 0)"

definition TKM_FREE_TOKENID :: "u64 \<Rightarrow> bool" where
  "TKM_FREE_TOKENID i \<longleftrightarrow> i = - 1"

section \<open>Tokens that a host has\<close>

definition tkm_RefreshToken ::
    "'e tkm_env \<Rightarrow> afs_token \<Rightarrow> fid option \<Rightarrow> 'e tkm_world \<Rightarrow> (tkm_code \<times> afs_token \<times> 'e tkm_world) option" where
  "tkm_RefreshToken E ext fid w =
     (if TKM_FREE_TOKENID (tokenID ext) then Some (TKM_SUCCESS, ext, w)
      else
        case fid of
          None \<Rightarrow> Some (TKM_ERROR_NOENTRY, ext, w)
        | Some x \<Rightarrow>
            let w = others E None w;
                r = (case x of FidVol \<Rightarrow> None | FidFile f \<Rightarrow> Some f, tokenID ext);
                reqtype = (ucast (at_type ext) :: u32)
            in case the_token r w of
                 None \<Rightarrow> Some (TKM_ERROR_INVALIDID, ext, w)
               | Some t \<Rightarrow>
                   if reqtype AND types t = reqtype then
                     let t' = t\<lparr>expiration := tkm_FreshExpTime t w\<rparr>;
                         w = on_token r (\<lambda>t. t\<lparr>expiration := tkm_FreshExpTime t w\<rparr>) w
                     in do { w \<leftarrow> tkm_RemoveFromGcList r (others E None w);
                             Some (TKM_SUCCESS, ext\<lparr>expirationTime := expiration t'\<rparr>, tkm_AddToGcList r w) }
                   else Some (TKM_ERROR_INVALIDID, ext, w))"

definition tkm_ReturnToken ::
    "'e tkm_env \<Rightarrow> fid option \<Rightarrow> u64 \<Rightarrow> u64 \<Rightarrow> 'e tkm_world \<Rightarrow> (tkm_code \<times> 'e tkm_world) option" where
  "tkm_ReturnToken E fid i rights w =
     (if TKM_FREE_TOKENID i then Some (TKM_SUCCESS, w)
      else
        case fid of
          None \<Rightarrow> Some (TKM_ERROR_NOENTRY, w)
        | Some x \<Rightarrow>
            let w = others E None w;
                retRights = (ucast rights :: u32);
                h = (case x of FidVol \<Rightarrow> None | FidFile f \<Rightarrow> Some f);
                r = (h, i)
            in case the_token r w of
                 None \<Rightarrow> Some (TKM_SUCCESS, w)
               | Some t \<Rightarrow>
                   if h = None then map_option (Pair TKM_SUCCESS) (tkm_RemoveTypes r retRights w)
                   else
                     do { osi_assert (Some (holder t) = h);
                          w \<leftarrow> tkm_RemoveTypes r retRights (others E h w);
                          Some (TKM_SUCCESS,
                            if retRights = 0 then
                              (case the_token r w of
                                 None \<Rightarrow> w
                               | Some t \<Rightarrow>
                                   if types t \<noteq> 0 \<and> \<not> is_granting t then
                                     tkm_TriggerAsyncGrants (t\<lparr>refused := 0\<rparr>) (on_token r (\<lambda>t. t\<lparr>refused := 0\<rparr>) w)
                                   else w)
                            else w) })"

definition tkm_VolRightsHeld :: "nat \<Rightarrow> u32 \<Rightarrow> 'e tkm_world \<Rightarrow> u32" where
  "tkm_VolRightsHeld h rights w =
     fold (\<lambda>t r. if host t = h then r OR types t else r) (tl_list (v_granted (vol w))) rights"

text \<open>\<open>rights\<close> is what the caller's variable holds before.\<close>

definition tkm_FileRightsHeld :: "nat \<Rightarrow> nat \<Rightarrow> u64 \<Rightarrow> u64 \<Rightarrow> u32 \<Rightarrow> 'e tkm_world \<Rightarrow> u32" where
  "tkm_FileRightsHeld h f startPos endPos rights w =
     (let x = files w f;
          allHeld = typeSum (tl_mask (f_granted x));
          inRange = \<lparr>lowBnd = startPos, upBnd = endPos\<rparr>;
          walk = fold (\<lambda>t r. if host t = h \<and> TKM_BYTERANGE_IS_SUBRANGE inRange (tk_range t) then r OR types t else r)
                   (tl_list (f_granted x)) rights
      in if f_host x = Some h then
           if TKM_TYPES_WITHOUT_RANGE allHeld = allHeld then allHeld else walk
         else if f_host x \<noteq> None then rights
         else walk)"

text \<open>\<open>held\<close> is the uninitialised local variable.\<close>

definition tkm_GetRightsHeld ::
    "u32 \<Rightarrow> nat \<Rightarrow> fid option \<Rightarrow> u64 \<Rightarrow> u64 \<Rightarrow> 'e tkm_world \<Rightarrow> tkm_code \<times> u64" where
  "tkm_GetRightsHeld held h fid startPos endPos w =
     (case fid of
        None \<Rightarrow> (TKM_ERROR_NOENTRY, 0)
      | Some FidVol \<Rightarrow> (TKM_SUCCESS, ucast (tkm_VolRightsHeld h held w))
      | Some (FidFile f) \<Rightarrow> (TKM_SUCCESS, ucast (tkm_FileRightsHeld h f startPos endPos held w)))"

section \<open>New tokens\<close>

definition tkm_ExternalToInternalToken :: "afs_token \<Rightarrow> tkm_internalToken \<Rightarrow> tkm_internalToken" where
  "tkm_ExternalToInternalToken ext t =
     t\<lparr>types := ucast (at_type ext), tk_range := \<lparr>lowBnd = beginRange ext, upBnd = endRange ext\<rparr>\<rparr>"

definition zero_token :: "u64 \<Rightarrow> tkm_internalToken" where
  "zero_token i =
     \<lparr>tk_id = i, expiration = 0, tk_range = \<lparr>lowBnd = 0, upBnd = 0\<rparr>, holder = 0, types = 0, refused = 0, host = 0,
      tk_flags = 0, refcount = 0, reqNum = 0, lastRefused = 0\<rparr>"

definition alloc_one :: "'e tkm_env \<Rightarrow> u32 \<Rightarrow> 'e tkm_world \<Rightarrow> (u64 option \<times> 'e tkm_world) option" where
  "alloc_one E flags w =
     (if has_flag flags TKM_FLAGS_DONTSLEEP then
        let (is, w) = tkm_AllocTokenNoSleep 1 w in Some (if length is = 1 then Some (hd is) else None, w)
      else
        do { (is, w) \<leftarrow> tkm_AllocToken E 1 [] w; Some (map_option hd is, w) })"

text \<open>What the caller writes into the token that it has, granted or queued, after the locks are released.\<close>

definition set_request :: "u32 \<Rightarrow> u32 \<Rightarrow> 'e tkm_world \<Rightarrow> tkm_internalToken \<Rightarrow> tkm_internalToken" where
  "set_request flags reqNumber w t =
     (let t = t\<lparr>reqNum := reqNumber\<rparr>;
          t = (if has_flag flags TKM_FLAGS_NOEXPIRE
               then t\<lparr>tk_flags := tk_flags t OR push_bit TKM_TOKEN_FOREVER 1\<rparr> else t)
      in t\<lparr>expiration := tkm_FreshExpTime t w\<rparr>)"

definition on_queued :: "u64 \<Rightarrow> nat \<Rightarrow> (tkm_internalToken \<Rightarrow> tkm_internalToken) \<Rightarrow> 'e tkm_world \<Rightarrow> 'e tkm_world" where
  "on_queued i f g w =
     on_vol (\<lambda>v. v\<lparr>queuedFileTokens := update_token i g (queuedFileTokens v)\<rparr>)
       (on_file f (\<lambda>x. x\<lparr>queued := update_token i g (queued x)\<rparr>) w)"

definition finish_request ::
    "u32 \<Rightarrow> u32 \<Rightarrow> afs_token \<Rightarrow> tkm_code \<times> tkm_internalToken \<times> 'e tkm_world
      \<Rightarrow> tkm_code \<times> afs_token \<times> 'e tkm_world" where
  "finish_request flags reqNumber ext r =
     (case r of (code, t, w) \<Rightarrow>
        if code = TKM_SUCCESS \<or> code = TKM_ERROR_REQUESTQUEUED then
          let w' = (if code = TKM_SUCCESS then on_token (ref_of t) (set_request flags reqNumber w) w
                    else on_queued (tk_id t) (holder t) (set_request flags reqNumber w) w)
          in (code, tkm_InternalToExternalToken (set_request flags reqNumber w t), w')
        else (code, ext, tkm_FreeToken w))"

definition tkm_GetToken ::
    "'e tkm_env \<Rightarrow> fid \<Rightarrow> bool \<Rightarrow> u32 \<Rightarrow> afs_token \<Rightarrow> nat \<Rightarrow> u32 \<Rightarrow> bool \<Rightarrow> 'e tkm_world
      \<Rightarrow> (tkm_code \<times> afs_token \<times> 'e tkm_world) option" where
  "tkm_GetToken E fid found flags ext h reqNumber wantLock w =
     (let reqtype = (ucast (at_type ext) :: u32) in
      if \<not> at_type ext < 2 ^ 32 \<or> sint reqtype < 0 \<or> sint (TKM_TOKENTYPE_MASK TKM_ALL_TOKENS) \<le> sint reqtype then
        Some (TKM_ERROR_ILLEGALTKNTYPE, ext, w)
      else if has_flag flags TKM_FLAGS_GETSAMEID then
        tkm_RefreshToken E ext (if found then Some fid else None) w
      else
        do { (i, w) \<leftarrow> alloc_one E flags w;
             let flags = flags AND NOT TKM_FLAGS_DONTSLEEP;
             case i of
               None \<Rightarrow> Some (TKM_ERROR_NOMEM, ext, w)
             | Some i \<Rightarrow>
                 let new = tkm_ExternalToInternalToken ext ((zero_token i)\<lparr>host := h\<rparr>);
                     new = (case fid of
                              FidVol \<Rightarrow> new\<lparr>tk_flags := tk_flags new OR push_bit TKM_TOKEN_ISVOL 1\<rparr>
                            | FidFile f \<Rightarrow> new\<lparr>holder := f\<rparr>)
                 in if \<not> found then Some (VOLERR_PERS_DELETED, ext, tkm_FreeToken w)
                    else if fid = FidVol \<and> (beginRange ext \<noteq> 0 \<or> endRange ext < 0x7FFFFFFF) then
                      Some (TKM_ERROR_TOKENINVALID, ext, tkm_FreeToken w)
                    else if reqtype AND TKM_FREETOKENS (vol w) = reqtype then
                      Some (TKM_SUCCESS,
                        ext\<lparr>tokenID := - 1, expirationTime := - 1,
                            at_type := (if has_flag flags TKM_FLAGS_OPTIMISTICGRANT
                                        then ucast (TKM_FREE_RO_TOKENS AND NOT (TKM_TOKENTYPE_MASK TKM_SPOT_HERE))
                                        else at_type ext)\<rparr>,
                        tkm_FreeToken w)
                    else if reqtype AND TKM_MAXTOKENS (vol w) \<noteq> reqtype then Some (EROFS, ext, tkm_FreeToken w)
                    else
                      map_option (finish_request flags reqNumber ext)
                        (case fid of
                           FidVol \<Rightarrow> map_option (\<lambda>(c, w). (c, new, w)) (tkm_GetVolToken E new flags w)
                         | FidFile f \<Rightarrow> tkm_GetFileToken E new flags wantLock w) })"

end
