(* ===== verification/Tkm_Inv.thy ===== *)
theory Tkm_Inv
  imports Tkm_Tokens
begin

text \<open>
  The invariant of the files and the volume and its preservation by the operations on granted tokens.
\<close>

section \<open>Lists of tokens\<close>

lemma find_token_split:
  assumes "find_token i ts = Some t"
  obtains A B where "ts = A @ t # B" and "tk_id t = i" and "i \<notin> tk_id ` set A"
  using assms
proof (induction ts arbitrary: thesis)
  case (Cons a ts)
  show ?case
  proof (cases "tk_id a = i")
    case True
    with Cons.prems show ?thesis by (intro Cons.prems(1) [of "[]" ts]) auto
  next
    case False
    with Cons.prems(2) have "find_token i ts = Some t" by simp
    then obtain A B where "ts = A @ t # B" "tk_id t = i" "i \<notin> tk_id ` set A" using Cons.IH by blast
    with False show ?thesis by (intro Cons.prems(1) [of "a # A" B]) auto
  qed
qed simp

lemma find_token_set: "find_token i ts = Some t \<Longrightarrow> t \<in> set ts \<and> tk_id t = i"
  by (induction ts) (auto split: if_splits)

lemma update_token_split:
  "i \<notin> tk_id ` set A \<Longrightarrow> tk_id t = i \<Longrightarrow> update_token i g (A @ t # B) = A @ g t # B"
  by (induction A) auto

lemma remove_token_split:
  "i \<notin> tk_id ` set A \<Longrightarrow> tk_id t = i \<Longrightarrow> tkm_RemoveFromDoubleList i (A @ t # B) = A @ B"
  by (induction A) auto

lemma find_split: "i \<notin> tk_id ` set A \<Longrightarrow> tk_id t = i \<Longrightarrow> find_token i (A @ t # B) = Some t"
  by (induction A) auto

section \<open>What the operations change\<close>

named_theorems tkm_frame

lemma granted_set [tkm_frame]: "granted h (set_granted h' l w) = (if h = h' then l else granted h w)"
  by (auto simp: granted_def set_granted_def on_file_def on_vol_def split: option.splits)

lemma granted_on_vol [tkm_frame]:
  "(\<And>v. v_granted (g v) = v_granted v) \<Longrightarrow> granted h (on_vol g w) = granted h w"
  by (auto simp: granted_def on_vol_def split: option.splits)

lemma granted_on_file [tkm_frame]:
  "(\<And>x. f_granted (g x) = f_granted x) \<Longrightarrow> granted h (on_file f g w) = granted h w"
  by (auto simp: granted_def on_file_def split: option.splits)

lemma set_granted_set [tkm_frame]: "set_granted h l (set_granted h l' w) = set_granted h l w"
  by (auto simp: set_granted_def on_file_def on_vol_def split: option.splits)

lemma set_granted_same: "set_granted h (granted h w) w = w"
  by (auto simp: set_granted_def granted_def on_file_def on_vol_def split: option.splits)

lemma vol_on_vol [tkm_frame]: "vol (on_vol g w) = g (vol w)"
  by (simp add: on_vol_def)

lemma vol_on_file [tkm_frame]: "vol (on_file f g w) = vol w"
  by (simp add: on_file_def)

lemma files_on_file [tkm_frame]: "files (on_file f g w) x = (if x = f then g (files w f) else files w x)"
  by (simp add: on_file_def)

lemma files_on_vol [tkm_frame]: "files (on_vol g w) = files w"
  by (simp add: on_vol_def)

lemma gcList_on [tkm_frame]: "gcList (on_vol g w) = gcList w" "gcList (on_file f h w) = gcList w"
  "gcList (set_granted k l w) = gcList w"
  by (auto simp: on_vol_def on_file_def set_granted_def split: option.splits)

lemma vol_set [tkm_frame]:
  "fileTokens (vol (set_granted h l w)) = fileTokens (vol w)"
  "v_files (vol (set_granted h l w)) = v_files (vol w)"
  "v_refcount (vol (set_granted h l w)) = v_refcount (vol w)"
  "v_tokenGrants (vol (set_granted h l w)) = v_tokenGrants (vol w)"
  "beingGranted (vol (set_granted h l w)) = beingGranted (vol w)"
  by (auto simp: set_granted_def on_vol_def on_file_def split: option.splits)

lemma files_set [tkm_frame]:
  "f_host (files (set_granted h l w) f) = f_host (files w f)"
  "f_refcount (files (set_granted h l w) f) = f_refcount (files w f)"
  "f_tokenGrants (files (set_granted h l w) f) = f_tokenGrants (files w f)"
  by (auto simp: set_granted_def on_vol_def on_file_def split: option.splits)

lemma the_token_set [tkm_frame]:
  "the_token (h, i) (set_granted h l w) = find_token i (tl_list l)"
  by (simp add: the_token_def granted_set)

lemma on_token_set [tkm_frame]:
  "on_token (h, i) g (set_granted h l w) = set_granted h (l\<lparr>tl_list := update_token i g (tl_list l)\<rparr>) w"
  by (simp add: on_token_def granted_set set_granted_set Let_def)

section \<open>The invariant\<close>

definition types_of :: "nat option \<Rightarrow> 'e tkm_world \<Rightarrow> u32 multiset" where
  "types_of h w = image_mset types (mset (tl_list (granted h w)))"

definition holders_ok :: "'e tkm_world \<Rightarrow> bool" where
  "holders_ok w \<longleftrightarrow>
     (\<forall>h. distinct (map tk_id (tl_list (granted h w))) \<and>
       (\<forall>t \<in> set (tl_list (granted h w)). ref_of t = (h, tk_id t) \<and> (h = None \<longrightarrow> \<not> is_granting t)))"

definition masks_ok :: "'e tkm_world \<Rightarrow> bool" where
  "masks_ok w \<longleftrightarrow>
     (\<forall>h. list_ok (granted h w)) \<and>
     mask_ok (fileTokens (vol w)) (\<Sum>f\<leftarrow>v_files (vol w). types_of (Some f) w) \<and>
     distinct (v_files (vol w)) \<and>
     (\<forall>f. f \<notin> set (v_files (vol w)) \<longrightarrow> tl_list (granted (Some f) w) = [])"

text \<open>The tokens that a token for a file competes with.\<close>

definition competing :: "nat \<Rightarrow> 'e tkm_world \<Rightarrow> tkm_internalToken set" where
  "competing f w = set (tl_list (granted None w)) \<union> set (tl_list (granted (Some f) w))"

definition conflict_free :: "'e tkm_world \<Rightarrow> bool" where
  "conflict_free w \<longleftrightarrow> (\<forall>f. \<forall>t \<in> competing f w. \<forall>u \<in> competing f w. \<not> tokens_conflict t u)"

definition hosts_ok :: "'e tkm_world \<Rightarrow> bool" where
  "hosts_ok w \<longleftrightarrow>
     (\<forall>f. \<forall>h. f_host (files w f) = Some h \<longrightarrow> (\<forall>t \<in> set (tl_list (granted (Some f) w)). types t \<noteq> 0 \<longrightarrow> host t = h))"

definition counts_ok :: "'e tkm_world \<Rightarrow> bool" where
  "counts_ok w \<longleftrightarrow>
     (\<forall>h. \<forall>t \<in> set (tl_list (granted h w)). (h, tk_id t) \<in> set (gcList w)) \<and>
     (\<forall>f. length (tl_list (granted (Some f) w)) \<le> f_refcount (files w f)) \<and>
     length (tl_list (granted None w)) \<le> v_refcount (vol w)"

definition world_ok :: "'e tkm_world \<Rightarrow> bool" where
  "world_ok w \<longleftrightarrow> holders_ok w \<and> masks_ok w \<and> conflict_free w \<and> hosts_ok w \<and> counts_ok w"

lemma sum_list_remove:
  assumes "distinct fs" and "f \<in> set fs"
  obtains R where "\<And>M. (\<And>g. g \<noteq> f \<Longrightarrow> M g = N g) \<Longrightarrow> (\<Sum>g\<leftarrow>fs. M g) = M f + (R :: 'a :: comm_monoid_add)"
proof -
  obtain P Q where fs: "fs = P @ f # Q" and "f \<notin> set P" "f \<notin> set Q"
    using assms by (metis split_list distinct.simps(2) distinct_append not_distinct_conv_prefix)
  have "(\<Sum>g\<leftarrow>fs. M g) = M f + (sum_list (map N P) + sum_list (map N Q))" if "\<And>g. g \<noteq> f \<Longrightarrow> M g = N g" for M
  proof -
    have eq: "map M P = map N P" "map M Q = map N Q"
      unfolding map_eq_conv using that \<open>f \<notin> set P\<close> \<open>f \<notin> set Q\<close> by metis+
    show ?thesis unfolding fs by (simp only: map_append list.map eq sum_list.append sum_list.Cons add.left_commute)
  qed
  then show thesis using that by blast
qed

lemma mask_ok_zero: "mask_ok m (add_mset 0 M) \<longleftrightarrow> mask_ok m M"
  by (auto simp: mask_ok_def real_types_def)


lemma types_of_cong: "granted h w = granted h w' \<Longrightarrow> types_of h w = types_of h w'"
  by (simp add: types_of_def)

section \<open>Removal of types\<close>

lemma trigger_frame [tkm_frame]:
  "granted h (tkm_TriggerAsyncGrants t w) = granted h w"
  "fileTokens (vol (tkm_TriggerAsyncGrants t w)) = fileTokens (vol w)"
  "v_files (vol (tkm_TriggerAsyncGrants t w)) = v_files (vol w)"
  "v_tokenGrants (vol (tkm_TriggerAsyncGrants t w)) = v_tokenGrants (vol w)"
  "f_tokenGrants (files (tkm_TriggerAsyncGrants t w) f) = f_tokenGrants (files w f)"
  "f_host (files (tkm_TriggerAsyncGrants t w) f) = f_host (files w f)"
  "gcList (tkm_TriggerAsyncGrants t w) = gcList w"
  "f_refcount (files w f) \<le> f_refcount (files (tkm_TriggerAsyncGrants t w) f)"
  "v_refcount (vol w) \<le> v_refcount (vol (tkm_TriggerAsyncGrants t w))"
  by (auto simp: tkm_TriggerAsyncGrants_def TKM_HOLD_TOKEN_HOLDER_def tkm_HoldVol_def tkm_HoldFile_def
      granted_def on_vol_def on_file_def Let_def split: option.splits)

text \<open>The state up to the part that the invariant does not restrict from above.\<close>

definition same_but :: "nat option \<Rightarrow> 'e tkm_world \<Rightarrow> 'e tkm_world \<Rightarrow> bool" where
  "same_but h w w' \<longleftrightarrow>
     (\<forall>k. k \<noteq> h \<longrightarrow> granted k w' = granted k w) \<and> v_files (vol w') = v_files (vol w) \<and>
     (\<forall>f. f_host (files w' f) = f_host (files w f)) \<and>
     (\<forall>f. f_tokenGrants (files w' f) = f_tokenGrants (files w f)) \<and>
     v_tokenGrants (vol w') = v_tokenGrants (vol w)"

lemma remove_masks:
  fixes w :: "'e tkm_world"
  assumes ok: "world_ok w" and l: "tl_list (granted h w) = A @ t # B" and sub: "\<forall>n. bit r n \<longrightarrow> bit (types t) n"
  obtains m fm where
    "TKM_REMOVE_FROM_MASK h r w =
       Some (on_vol (\<lambda>v. v\<lparr>fileTokens := fm\<rparr>) (set_granted h ((granted h w)\<lparr>tl_mask := m\<rparr>) w))"
    "\<And>t'. types t' = types t AND NOT r \<Longrightarrow> mask_ok m (image_mset types (mset (A @ t' # B)))"
    "types t AND NOT r = 0 \<Longrightarrow> mask_ok m (image_mset types (mset (A @ B)))"
    "\<And>w' :: 'e tkm_world. (\<forall>k. k \<noteq> h \<longrightarrow> granted k w' = granted k w) \<Longrightarrow>
      (if types t AND NOT r = 0 then tl_list (granted h w') = A @ B else False) \<or>
      (\<exists>t'. types t' = types t AND NOT r \<and> tl_list (granted h w') = A @ t' # B) \<Longrightarrow>
      mask_ok fm (\<Sum>f\<leftarrow>v_files (vol w). types_of (Some f) w')"
proof -
  let ?M = "image_mset types (mset (A @ B))"
  let ?r = "types t AND NOT r"
  have lok: "mask_ok (tl_mask (granted h w)) (add_mset (types t) ?M)"
    using ok l by (auto simp: world_ok_def masks_ok_def list_ok_def dest: spec [of _ h])
  obtain m where m: "tkm_RemoveFromTokenMask (tl_mask (granted h w)) r = Some m" "mask_ok m (add_mset ?r ?M)"
    using mask_ok_remove [OF lok sub] by blast
  have m1: "mask_ok m (image_mset types (mset (A @ t' # B)))" if "types t' = ?r" for t'
    using m(2) that by simp
  have m2: "mask_ok m ?M" if "?r = 0" using m(2) that mask_ok_zero by simp
  show thesis
  proof (cases h)
    case None
    have fm: "mask_ok (fileTokens (vol w)) (\<Sum>f\<leftarrow>v_files (vol w). types_of (Some f) w')"
      if "\<forall>k. k \<noteq> h \<longrightarrow> granted k w' = granted k w" for w' :: "'e tkm_world"
    proof -
      have "(\<lambda>f. types_of (Some f) w') = (\<lambda>f. types_of (Some f) w)"
        using that None by (auto intro!: ext types_of_cong)
      then show ?thesis using ok by (simp add: world_ok_def masks_ok_def)
    qed
    have "on_vol (\<lambda>v. v\<lparr>fileTokens := fileTokens (vol w)\<rparr>) (set_granted h ((granted h w)\<lparr>tl_mask := m\<rparr>) w) =
        set_granted h ((granted h w)\<lparr>tl_mask := m\<rparr>) w"
      by (simp add: None set_granted_def on_vol_def)
    then have "TKM_REMOVE_FROM_MASK h r w = Some (on_vol (\<lambda>v. v\<lparr>fileTokens := fileTokens (vol w)\<rparr>)
        (set_granted h ((granted h w)\<lparr>tl_mask := m\<rparr>) w))"
      using m(1) None by (simp add: TKM_REMOVE_FROM_MASK_def)
    then show thesis using m1 m2 fm by (rule that)
  next
    case (Some f)
    have f: "f \<in> set (v_files (vol w))" and d: "distinct (v_files (vol w))"
      using ok l Some by (auto simp: world_ok_def masks_ok_def)
    obtain R where R: "\<And>M. (\<And>g. g \<noteq> f \<Longrightarrow> M g = types_of (Some g) w) \<Longrightarrow> (\<Sum>g\<leftarrow>v_files (vol w). M g) = M f + R"
      using sum_list_remove [OF d f, of "\<lambda>g. types_of (Some g) w"] by blast
    have "mask_ok (fileTokens (vol w)) (types_of (Some f) w + R)"
      using ok R [of "\<lambda>g. types_of (Some g) w"] by (simp add: world_ok_def masks_ok_def)
    then have "mask_ok (fileTokens (vol w)) (add_mset (types t) (?M + R))"
      using l Some by (simp add: types_of_def)
    then obtain fm where fm: "tkm_RemoveFromTokenMask (fileTokens (vol w)) r = Some fm"
        "mask_ok fm (add_mset ?r (?M + R))"
      using mask_ok_remove sub by blast
    have sum: "(\<Sum>g\<leftarrow>v_files (vol w). types_of (Some g) w') = types_of (Some f) w' + R"
      if "\<forall>k. k \<noteq> h \<longrightarrow> granted k w' = granted k w" for w' :: "'e tkm_world"
      using that Some by (intro R types_of_cong) auto
    have "mask_ok fm (\<Sum>g\<leftarrow>v_files (vol w). types_of (Some g) w')"
      if "\<forall>k. k \<noteq> h \<longrightarrow> granted k w' = granted k w"
        "(if ?r = 0 then tl_list (granted h w') = A @ B else False) \<or>
         (\<exists>t'. types t' = ?r \<and> tl_list (granted h w') = A @ t' # B)" for w' :: "'e tkm_world"
      using that(2) fm(2) unfolding sum [OF that(1)] Some
      by (auto simp: types_of_def mask_ok_zero split: if_splits)
    moreover have "TKM_REMOVE_FROM_MASK h r w =
       Some (on_vol (\<lambda>v. v\<lparr>fileTokens := fm\<rparr>) (set_granted h ((granted h w)\<lparr>tl_mask := m\<rparr>) w))"
      using m(1) fm(1) Some by (simp add: TKM_REMOVE_FROM_MASK_def vol_set)
    ultimately show thesis using that m1 m2 by blast
  qed
qed


section \<open>Tokens that lose types\<close>

definition weaker :: "tkm_internalToken \<Rightarrow> tkm_internalToken \<Rightarrow> bool" where
  "weaker t' t \<longleftrightarrow> host t' = host t \<and> tk_range t' = tk_range t \<and> (\<forall>n. bit (types t') n \<longrightarrow> bit (types t) n)"

definition shrinks :: "'e tkm_world \<Rightarrow> 'e tkm_world \<Rightarrow> bool" where
  "shrinks w w' \<longleftrightarrow> (\<forall>h. \<forall>t' \<in> set (tl_list (granted h w')). \<exists>t \<in> set (tl_list (granted h w)). weaker t' t)"

lemma weaker_refl [simp]: "weaker t t"
  by (simp add: weaker_def)

lemma tokens_conflict_mono:
  "weaker t' t \<Longrightarrow> weaker u' u \<Longrightarrow> tokens_conflict t' u' \<Longrightarrow> tokens_conflict t u"
proof -
  assume w: "weaker t' t" "weaker u' u" and c: "tokens_conflict t' u'"
  obtain j k where "host t' \<noteq> host u'" "bit (types t') j" "bit (types u') k" "types_conflict j k"
    "j < 4 \<longrightarrow> overlapping t' u'"
    using c by (auto simp: tokens_conflict_def)
  then have "host t \<noteq> host u \<and> bit (types t) j \<and> bit (types u) k \<and> types_conflict j k \<and>
      (j < 4 \<longrightarrow> overlapping t u)"
    using w by (simp add: weaker_def overlapping_def)
  then show ?thesis unfolding tokens_conflict_def by blast
qed

lemma competing_shrinks: "shrinks w w' \<Longrightarrow> t' \<in> competing f w' \<Longrightarrow> \<exists>t \<in> competing f w. weaker t' t"
  by (auto simp: shrinks_def competing_def)

lemma conflict_free_shrinks: "conflict_free w \<Longrightarrow> shrinks w w' \<Longrightarrow> conflict_free w'"
proof -
  assume ok: "conflict_free w" and shr: "shrinks w w'"
  have False if tu: "t' \<in> competing f w'" "u' \<in> competing f w'" and c: "tokens_conflict t' u'" for f t' u'
  proof -
    obtain t u where "t \<in> competing f w" "weaker t' t" "u \<in> competing f w" "weaker u' u"
      using competing_shrinks [OF shr] tu by metis
    then show False using tokens_conflict_mono [OF _ _ c] ok unfolding conflict_free_def by blast
  qed
  then show ?thesis unfolding conflict_free_def by blast
qed

lemma hosts_ok_shrinks:
  "hosts_ok w \<Longrightarrow> shrinks w w' \<Longrightarrow> (\<forall>f. f_host (files w' f) = f_host (files w f)) \<Longrightarrow> hosts_ok w'"
  unfolding hosts_ok_def shrinks_def weaker_def word_eq_0_iff by metis

lemma world_ok_one_token:
  assumes ok: "world_ok w" and same: "same_but h w w'" and l: "tl_list (granted h w) = A @ t # B"
    and l': "tl_list (granted h w') = A @ B \<or>
      (\<exists>t'. tl_list (granted h w') = A @ t' # B \<and> weaker t' t \<and> tk_id t' = tk_id t \<and> ref_of t' = ref_of t \<and>
        (h = None \<longrightarrow> \<not> is_granting t'))"
    and masks: "list_ok (granted h w')" "mask_ok (fileTokens (vol w')) (\<Sum>f\<leftarrow>v_files (vol w). types_of (Some f) w')"
    and counts: "counts_ok w'"
  shows "world_ok w' \<and> shrinks w w'"
proof -
  have sub: "\<exists>u \<in> set (tl_list (granted k w)). weaker t' u \<and> tk_id t' = tk_id u \<and> ref_of t' = ref_of u"
    if "t' \<in> set (tl_list (granted k w'))" for k t'
  proof (cases "k = h")
    case True
    show ?thesis
    proof (cases "t' \<in> set (A @ B)")
      case mem: True
      then have "t' \<in> set (tl_list (granted k w))" using True l by auto
      then show ?thesis by (intro bexI [of _ t']) auto
    next
      case False
      then have "weaker t' t \<and> tk_id t' = tk_id t \<and> ref_of t' = ref_of t" using True that l' by auto
      then show ?thesis using True l by (intro bexI [of _ t]) auto
    qed
  next
    case False
    then show ?thesis using that same by (auto simp: same_but_def intro!: bexI [of _ t'])
  qed
  then have shr: "shrinks w w'" by (auto simp: shrinks_def)
  have "distinct (map tk_id (tl_list (granted k w')))" for k
  proof (cases "k = h")
    case True
    have "distinct (map tk_id (A @ t # B))" using ok l by (metis world_ok_def holders_ok_def)
    then show ?thesis using True l' by auto
  next
    case False
    then show ?thesis using ok same by (simp add: same_but_def world_ok_def holders_ok_def)
  qed
  moreover have "ref_of t' = (k, tk_id t') \<and> (k = None \<longrightarrow> \<not> is_granting t')" if "t' \<in> set (tl_list (granted k w'))" for k t'
  proof
    show "ref_of t' = (k, tk_id t')"
      using sub [OF that] ok by (auto simp: world_ok_def holders_ok_def)
    show "k = None \<longrightarrow> \<not> is_granting t'"
    proof (cases "k = h")
      case True
      have "\<forall>u \<in> set (tl_list (granted None w)). \<not> is_granting u"
        using ok by (simp add: world_ok_def holders_ok_def)
      then show ?thesis using True that l l' by auto
    next
      case False
      then show ?thesis using that ok same by (simp add: same_but_def world_ok_def holders_ok_def)
    qed
  qed
  ultimately have "holders_ok w'" by (simp add: holders_ok_def)
  moreover have "masks_ok w'"
  proof -
    have "list_ok (granted k w')" for k
      using masks(1) ok same by (cases "k = h") (auto simp: same_but_def world_ok_def masks_ok_def)
    moreover have "tl_list (granted (Some f) w') = []" if "f \<notin> set (v_files (vol w))" for f
    proof -
      have "tl_list (granted (Some f) w) = []" using ok that by (simp add: world_ok_def masks_ok_def)
      then show ?thesis using sub [of _ "Some f"] by (cases "tl_list (granted (Some f) w')") auto
    qed
    ultimately show ?thesis using ok same masks(2) by (simp add: same_but_def world_ok_def masks_ok_def)
  qed
  moreover have "conflict_free w'" "hosts_ok w'"
    using conflict_free_shrinks [OF _ shr] hosts_ok_shrinks [OF _ shr] ok same
    by (auto simp: same_but_def world_ok_def)
  ultimately show ?thesis using counts shr by (simp add: world_ok_def)
qed

lemma on_token_frame [tkm_frame]:
  "granted k (on_token r g w) =
     (if k = fst r then (granted k w)\<lparr>tl_list := update_token (snd r) g (tl_list (granted k w))\<rparr> else granted k w)"
  "fileTokens (vol (on_token r g w)) = fileTokens (vol w)" "v_files (vol (on_token r g w)) = v_files (vol w)"
  "v_refcount (vol (on_token r g w)) = v_refcount (vol w)"
  "v_tokenGrants (vol (on_token r g w)) = v_tokenGrants (vol w)"
  "f_host (files (on_token r g w) f) = f_host (files w f)"
  "f_refcount (files (on_token r g w) f) = f_refcount (files w f)"
  "f_tokenGrants (files (on_token r g w) f) = f_tokenGrants (files w f)"
  "gcList (on_token r g w) = gcList w"
  by (auto simp: on_token_def Let_def tkm_frame)

lemma clear_granting_frame [simp]:
  "tk_id (clear_granting t) = tk_id t" "types (clear_granting t) = types t" "host (clear_granting t) = host t"
  "tk_range (clear_granting t) = tk_range t" "refcount (clear_granting t) = refcount t" "holder (clear_granting t) = holder t"
  "ref_of (clear_granting t) = ref_of t" "is_granting (clear_granting t) = False"
  by (auto simp: clear_granting_def ref_of_def is_vol_def is_granting_def tkm_flag_defs bit_and_iff bit_not_iff
      bit_1_iff bit_push_bit_iff)

lemma remove_no_types: "tkm_RemoveFromTokenMask m 0 = Some m"
proof -
  have "remove_from_mask 0 is m = Some m" for "is" by (induction "is") auto
  then show ?thesis by (simp add: tkm_RemoveFromTokenMask_def)
qed

lemma remove_mask_no_types: "TKM_REMOVE_FROM_MASK h 0 w = Some w"
  by (cases h) (simp_all add: TKM_REMOVE_FROM_MASK_def remove_no_types set_granted_same set_granted_def on_vol_def
      on_file_def granted_def)


definition strip :: "u32 \<Rightarrow> tkm_internalToken \<Rightarrow> tkm_internalToken" where
  "strip ts t = t\<lparr>types := types t AND NOT ts, refused := refused t AND NOT ts\<rparr>"

lemma strip_frame [simp]:
  "tk_id (strip ts t) = tk_id t" "types (strip ts t) = types t AND NOT ts" "host (strip ts t) = host t"
  "tk_range (strip ts t) = tk_range t" "ref_of (strip ts t) = ref_of t" "refcount (strip ts t) = refcount t"
  "is_granting (strip ts t) = is_granting t" "is_vol (strip ts t) = is_vol t"
  by (auto simp: strip_def ref_of_def is_vol_def is_granting_def)

lemma bit_strip: "bit (t AND NOT ts) n \<longleftrightarrow> bit t n \<and> \<not> bit ts n" for t ts :: u32
  by (auto simp: bit_and_iff bit_not_iff dest: bit_imp_le_length)

lemma weaker_strip: "weaker (strip ts t) t" "weaker (strip ts (clear_granting t)) t"
  by (auto simp: weaker_def bit_strip)

lemma strip_types: "types t AND NOT (types t AND ts) = types t AND NOT ts"
  by (rule bit_word_eqI) (simp only: bit_strip, simp only: bit_and_iff, blast)

lemma put_frame [tkm_frame]:
  "granted h (tkm_PutTokenInFreeList w) = granted h w" "vol (tkm_PutTokenInFreeList w) = vol w"
  "files (tkm_PutTokenInFreeList w) = files w" "gcList (tkm_PutTokenInFreeList w) = gcList w"
  by (auto simp: tkm_PutTokenInFreeList_def granted_def split: option.splits)

lemma gc_update_frame [tkm_frame]:
  "granted h (w\<lparr>gcList := g\<rparr>) = granted h w"
  by (auto simp: granted_def split: option.splits)

lemma unlink_frame [tkm_frame]:
  "granted k (unlink_token r w) =
     (if k = fst r then (granted k w)\<lparr>tl_list := tkm_RemoveFromDoubleList (snd r) (tl_list (granted k w))\<rparr>
      else granted k w)"
  "fileTokens (vol (unlink_token r w)) = fileTokens (vol w)" "v_files (vol (unlink_token r w)) = v_files (vol w)"
  "v_refcount (vol (unlink_token r w)) = v_refcount (vol w)"
  "v_tokenGrants (vol (unlink_token r w)) = v_tokenGrants (vol w)"
  "f_host (files (unlink_token r w) f) = f_host (files w f)"
  "f_refcount (files (unlink_token r w) f) = f_refcount (files w f)"
  "f_tokenGrants (files (unlink_token r w) f) = f_tokenGrants (files w f)"
  "gcList (unlink_token r w) = gcList w"
  by (auto simp: unlink_token_def Let_def tkm_frame)

text \<open>The return of the token \<open>t\<close>, whose holder lists it once.\<close>

lemma return_token:
  assumes l: "tl_list (granted h w) = A @ t # B" and i: "i \<notin> tk_id ` set A" "tk_id t = i"
    and gc: "(h, i) \<in> set (gcList w)"
    and refs: "case h of None \<Rightarrow> 0 < v_refcount (vol w) | Some f \<Rightarrow> 0 < f_refcount (files w f)"
  obtains w' where
    "(case h of None \<Rightarrow> tkm_ReturnVolToken i w | Some f \<Rightarrow> tkm_ReturnFileToken f i w) = Some w'"
    "same_but h w w'" "granted h w' = (granted h w)\<lparr>tl_list := A @ B\<rparr>" "fileTokens (vol w') = fileTokens (vol w)"
    "gcList w' = remove1 (h, i) (gcList w)"
    "\<And>f. f_refcount (files w' f) = (if h = Some f then f_refcount (files w f) - 1 else f_refcount (files w f))"
    "v_refcount (vol w') = (if h = None then v_refcount (vol w) - 1 else v_refcount (vol w))"
proof -
  let ?u = "unlink_token (h, i) (w\<lparr>gcList := remove1 (h, i) (gcList w)\<rparr>)"
  have u: "granted h ?u = (granted h w)\<lparr>tl_list := A @ B\<rparr>"
    using remove_token_split [OF i] l by (simp add: tkm_frame)
  show thesis
  proof (cases h)
    case None
    have swap: "(unlink_token (None, i) w)\<lparr>gcList := remove1 (None, i) (gcList w)\<rparr> = ?u"
      by (simp add: None unlink_token_def Let_def set_granted_def on_vol_def granted_def)
    let ?w = "on_vol (\<lambda>v. v\<lparr>v_refcount := v_refcount v - 1\<rparr>) ?u"
    have "tkm_ReturnVolToken i w = Some ?w"
      using gc refs None swap
      by (simp add: tkm_ReturnVolToken_def tkm_RemoveFromGcList_def tkm_ReleVol_def tkm_frame)
    then show thesis using None u by (intro that [of ?w]) (auto simp: tkm_frame same_but_def)
  next
    case (Some f)
    let ?w = "on_file f (\<lambda>x. x\<lparr>f_refcount := f_refcount x - 1\<rparr>) ?u"
    have "tkm_ReturnFileToken f i w = Some ?w"
      using gc refs Some
      by (simp add: tkm_ReturnFileToken_def tkm_RemoveFromGcList_def tkm_ReleFile_def tkm_frame)
    then show thesis using Some u by (intro that [of ?w]) (auto simp: tkm_frame same_but_def)
  qed
qed

lemma RemoveTypes_ok:
  fixes w :: "'e tkm_world"
  assumes ok: "world_ok w" and t: "the_token (h, i) w = Some t"
  obtains w' A B t' where
    "tkm_RemoveTypes (h, i) ts w = Some w'" "world_ok w'" "shrinks w w'" "same_but h w w'"
    "tl_list (granted h w) = A @ t # B" "weaker t' t" "tk_id t' = i" "types t' = types t AND NOT ts"
    "tl_list (granted h w') = (if types t' = 0 \<and> refcount t = 0 then A @ B else A @ t' # B)"
proof -
  let ?r = "types t AND ts"
  obtain A B where l: "tl_list (granted h w) = A @ t # B" and i: "i \<notin> tk_id ` set A" "tk_id t = i"
    using find_token_split t by (metis the_token_def fst_conv snd_conv)
  have dist: "i \<notin> tk_id ` set B"
  proof -
    have "distinct (map tk_id (A @ t # B))" using ok l by (metis world_ok_def holders_ok_def)
    then show ?thesis using i by auto
  qed
  have ref: "ref_of t = (h, i)" and vol: "h = None \<Longrightarrow> \<not> is_granting t"
    using ok l i by (auto simp: world_ok_def holders_ok_def dest!: spec [of _ h])
  have is_vol: "is_vol t \<longleftrightarrow> h = None" using ref by (auto simp: ref_of_def split: if_splits)
  obtain m fm where mf: "TKM_REMOVE_FROM_MASK h ?r w =
       Some (on_vol (\<lambda>v. v\<lparr>fileTokens := fm\<rparr>) (set_granted h ((granted h w)\<lparr>tl_mask := m\<rparr>) w))"
    "\<And>t'. types t' = types t AND NOT ?r \<Longrightarrow> mask_ok m (image_mset types (mset (A @ t' # B)))"
    "types t AND NOT ?r = 0 \<Longrightarrow> mask_ok m (image_mset types (mset (A @ B)))"
    "\<And>w' :: 'e tkm_world. (\<forall>k. k \<noteq> h \<longrightarrow> granted k w' = granted k w) \<Longrightarrow>
      (if types t AND NOT ?r = 0 then tl_list (granted h w') = A @ B else False) \<or>
      (\<exists>t'. types t' = types t AND NOT ?r \<and> tl_list (granted h w') = A @ t' # B) \<Longrightarrow>
      mask_ok fm (\<Sum>f\<leftarrow>v_files (vol w). types_of (Some f) w')"
    by (rule remove_masks [OF ok l, of ?r]) (auto simp: bit_and_iff intro: that)
  note mf = mf [unfolded strip_types]
  let ?W = "on_vol (\<lambda>v. v\<lparr>fileTokens := fm\<rparr>) (set_granted h ((granted h w)\<lparr>tl_mask := m\<rparr>) w)"
  define w1 where "w1 = (if ?r \<noteq> 0 then if \<not> is_granting t then tkm_TriggerAsyncGrants t ?W
                       else on_token (h, i) clear_granting ?W else ?W)"
  have step1: "(if ?r \<noteq> 0 then
       do { w \<leftarrow> TKM_REMOVE_FROM_MASK h ?r w;
            if \<not> is_granting t then Some (tkm_TriggerAsyncGrants t w)
            else if is_vol t then None else Some (on_token (h, i) clear_granting w) }
       else Some w) = Some w1"
  proof (cases "?r = 0")
    case True
    then have "?W = w" using mf(1) remove_mask_no_types [of h w] by simp
    then show ?thesis using True by (simp add: w1_def)
  next
    case False
    then show ?thesis using mf(1) vol is_vol by (auto simp: w1_def)
  qed
  obtain t1 where t1: "granted h w1 = \<lparr>tl_mask = m, tl_list = A @ t1 # B\<rparr>" "weaker (strip ts t1) t" "tk_id t1 = i"
    "types t1 = types t" "ref_of t1 = (h, i)" "h = None \<longrightarrow> \<not> is_granting t1"
  proof (cases "?r \<noteq> 0 \<and> is_granting t")
    case True
    then show thesis
      using that [of "clear_granting t"] l i ref weaker_strip(2) [of ts t] update_token_split [OF i, of clear_granting B]
      by (auto simp: w1_def tkm_frame)
  next
    case False
    then show thesis using that [of t] l i ref vol weaker_strip(1) [of ts t] by (auto simp: w1_def tkm_frame)
  qed
  have w1: "same_but h w w1" "fileTokens (vol w1) = fm" "gcList w1 = gcList w"
    "\<And>f. f_refcount (files w f) \<le> f_refcount (files w1 f)" "v_refcount (vol w) \<le> v_refcount (vol w1)"
  proof -
    show "same_but h w w1" "fileTokens (vol w1) = fm" "gcList w1 = gcList w"
      by (auto simp: w1_def tkm_frame same_but_def)
    have "f_refcount (files ?W f) = f_refcount (files w f)" "v_refcount (vol ?W) = v_refcount (vol w)" for f
      by (auto simp: tkm_frame)
    then show "\<And>f. f_refcount (files w f) \<le> f_refcount (files w1 f)" "v_refcount (vol w) \<le> v_refcount (vol w1)"
      using trigger_frame(8) [of ?W _ t] trigger_frame(9) [of ?W t] by (auto simp: w1_def tkm_frame)
  qed
  define w2 where "w2 = on_token (h, i) (\<lambda>t. t\<lparr>types := types t AND NOT ts, refused := refused t AND NOT ts\<rparr>) w1"
  let ?t = "strip ts t1"
  have w2: "granted h w2 = \<lparr>tl_mask = m, tl_list = A @ ?t # B\<rparr>" "same_but h w w2" "fileTokens (vol w2) = fm"
    "gcList w2 = gcList w" "\<And>f. f_refcount (files w2 f) = f_refcount (files w1 f)"
    "v_refcount (vol w2) = v_refcount (vol w1)"
    using t1 w1 update_token_split [OF i(1) t1(3), of "strip ts" B]
    by (auto simp: w2_def tkm_frame same_but_def strip_def [abs_def])
  have st: "types ?t = types t AND NOT ts" using t1 by simp
  let ?gone = "types t AND NOT ts = 0 \<and> refcount t = 0"
  have counts: "counts_ok w" using ok by (simp add: world_ok_def)
  have gc: "(k, tk_id u) \<in> set (gcList w)" if "u \<in> set (tl_list (granted k w))" for k u
    using counts that by (simp add: counts_ok_def)
  have fcount: "length (tl_list (granted (Some f) w)) \<le> f_refcount (files w1 f)" for f
    using counts w1(4) le_trans unfolding counts_ok_def by blast
  have vcount: "length (tl_list (granted None w)) \<le> v_refcount (vol w1)"
    using counts w1(5) le_trans unfolding counts_ok_def by blast
  have expand: "tkm_RemoveTypes (h, i) ts w =
      (if ?gone then map_option tkm_PutTokenInFreeList
         (case h of None \<Rightarrow> tkm_ReturnVolToken i w2 | Some f \<Rightarrow> tkm_ReturnFileToken f i w2) else Some w2)"
    by (simp only: tkm_RemoveTypes_def t Option.bind.bind_lunit fst_conv snd_conv step1 Let_def w2_def)
  show thesis
  proof (cases ?gone)
    case False
    have run: "tkm_RemoveTypes (h, i) ts w = Some w2" unfolding expand using False by (rule if_not_P)
    have ids: "map tk_id (tl_list (granted k w2)) = map tk_id (tl_list (granted k w))" for k
      using w2 l i t1 by (cases "k = h") (auto simp: same_but_def)
    then have len: "length (tl_list (granted k w2)) = length (tl_list (granted k w))" for k
      by (metis length_map)
    have "(k, tk_id u) \<in> set (gcList w2)" if u: "u \<in> set (tl_list (granted k w2))" for k u
    proof -
      have "tk_id u \<in> set (map tk_id (tl_list (granted k w)))" using u ids [of k] by (metis image_eqI set_map)
      then show ?thesis using gc w2(4) by auto
    qed
    then have "counts_ok w2"
      using fcount vcount w2(5,6) unfolding counts_ok_def len by auto
    moreover have "list_ok (granted h w2)" using mf(2) [of ?t] st by (simp add: w2 list_ok_def)
    moreover have "mask_ok (fileTokens (vol w2)) (\<Sum>f\<leftarrow>v_files (vol w). types_of (Some f) w2)"
      using mf(4) [of w2] w2 st by (auto simp: same_but_def)
    ultimately have "world_ok w2 \<and> shrinks w w2"
      using w2(1,3) l t1 i ref
      by (intro world_ok_one_token [OF ok w2(2) l]) (auto simp: w2(1))
    then show thesis using that [of w2 A B ?t] run w2 l t1 st False i by auto
  next
    case True
    have "case h of None \<Rightarrow> 0 < v_refcount (vol w2) | Some f \<Rightarrow> 0 < f_refcount (files w2 f)"
    proof (cases h)
      case None
      then show ?thesis using vcount l w2(6) by simp
    next
      case (Some f)
      then show ?thesis using fcount [of f] l w2(5) [of f] by simp
    qed
    then obtain w3 where w3:
      "(case h of None \<Rightarrow> tkm_ReturnVolToken i w2 | Some f \<Rightarrow> tkm_ReturnFileToken f i w2) = Some w3"
      "same_but h w2 w3" "granted h w3 = (granted h w2)\<lparr>tl_list := A @ B\<rparr>" "fileTokens (vol w3) = fileTokens (vol w2)"
      "gcList w3 = remove1 (h, i) (gcList w2)"
      "\<And>f. f_refcount (files w3 f) = (if h = Some f then f_refcount (files w2 f) - 1 else f_refcount (files w2 f))"
      "v_refcount (vol w3) = (if h = None then v_refcount (vol w2) - 1 else v_refcount (vol w2))"
      using return_token [of h w2 A ?t B i] w2 i t1 gc [of t h] l by auto
    let ?w = "tkm_PutTokenInFreeList w3"
    have run: "tkm_RemoveTypes (h, i) ts w = Some ?w"
      unfolding expand if_P [OF True] w3(1) by simp
    have same: "same_but h w ?w" using w2(2) w3(2) by (simp add: same_but_def tkm_frame)
    have "counts_ok ?w"
      unfolding counts_ok_def
    proof (intro conjI allI ballI)
      show "(k, tk_id u) \<in> set (gcList ?w)" if u: "u \<in> set (tl_list (granted k ?w))" for k u
      proof -
        have "u \<in> set (tl_list (granted k w)) \<and> (k, tk_id u) \<noteq> (h, i)"
        proof (cases "k = h")
          case True
          then have "u \<in> set (A @ B)" using u w3(3) by (simp add: tkm_frame)
          then have "tk_id u \<noteq> i" and "u \<in> set (tl_list (granted k w))"
            using i(1) dist l True by auto
          then show ?thesis by simp
        next
          case False
          then show ?thesis using u same by (simp add: same_but_def)
        qed
        then show ?thesis using gc w3(5) w2(4) in_set_remove1 [of "(k, tk_id u)" "(h, i)"] by (simp add: tkm_frame)
      qed
      show "length (tl_list (granted (Some f) ?w)) \<le> f_refcount (files ?w f)" for f
        using fcount [of f] w3 w2 l same by (cases "h = Some f") (auto simp: tkm_frame same_but_def)
      show "length (tl_list (granted None ?w)) \<le> v_refcount (vol ?w)"
        using vcount w3 w2 l same by (cases "h = None") (auto simp: tkm_frame same_but_def)
    qed
    moreover have "list_ok (granted h ?w)" using mf(3) True by (simp add: w3 w2 list_ok_def tkm_frame)
    moreover have "mask_ok (fileTokens (vol ?w)) (\<Sum>f\<leftarrow>v_files (vol w). types_of (Some f) ?w)"
      using mf(4) [of ?w] w3 w2 same True by (auto simp: same_but_def tkm_frame)
    ultimately have "world_ok ?w \<and> shrinks w ?w"
      using w3(3) w2(1) by (intro world_ok_one_token [OF ok same l]) (simp_all add: tkm_frame)
    then show thesis using that [of ?w A B ?t] run w2 w3 l t1 st True same i by (auto simp: tkm_frame)
  qed
qed

end
