(* ===== verification/Tkm_Ops.thy ===== *)
theory Tkm_Ops
  imports Tkm_Inv
begin

text \<open>
  The invariant of the token manager under the return of tokens and under the grant of a token to a file.
\<close>

section \<open>Operations that leave the types alone\<close>

lemma world_ok_same:
  assumes ok: "world_ok w" and g: "\<And>h. granted h w' = granted h w"
    and v: "fileTokens (vol w') = fileTokens (vol w)" "v_files (vol w') = v_files (vol w)"
    and f: "\<And>f. f_host (files w' f) = f_host (files w f)" and gc: "gcList w' = gcList w"
    and refs: "\<And>f. f_refcount (files w f) \<le> f_refcount (files w' f)" "v_refcount (vol w) \<le> v_refcount (vol w')"
  shows "world_ok w'"
proof -
  have "types_of h w' = types_of h w" for h using g by (intro types_of_cong) auto
  moreover have "competing f w' = competing f w" for f using g by (simp add: competing_def)
  moreover have "counts_ok w'"
    using ok refs le_trans unfolding world_ok_def counts_ok_def g gc by blast
  ultimately show ?thesis
    using ok by (simp add: world_ok_def holders_ok_def masks_ok_def conflict_free_def hosts_ok_def g v f)
qed

lemma trigger_ok: "world_ok w \<Longrightarrow> world_ok (tkm_TriggerAsyncGrants t w)"
  by (rule world_ok_same) (auto simp: tkm_frame)

lemma on_token_ok:
  assumes ok: "world_ok w"
    and g: "\<And>t. tk_id (g t) = tk_id t" "\<And>t. types (g t) = types t" "\<And>t. weaker (g t) t" "\<And>t. ref_of (g t) = ref_of t"
      "\<And>t. is_granting (g t) \<Longrightarrow> is_granting t"
  shows "world_ok (on_token (h, i) g w)"
proof (cases "the_token (h, i) w")
  case None
  have "update_token i g ts = ts" if "find_token i ts = None" for ts
    using that by (induction ts) (auto split: if_splits)
  then have "update_token i g (tl_list (granted h w)) = tl_list (granted h w)"
    using None by (simp add: the_token_def)
  then show ?thesis by (intro world_ok_same [OF ok]) (auto simp: tkm_frame)
next
  case (Some t)
  then obtain A B where l: "tl_list (granted h w) = A @ t # B" and i: "i \<notin> tk_id ` set A" "tk_id t = i"
    using find_token_split by (metis the_token_def fst_conv snd_conv)
  let ?w = "on_token (h, i) g w"
  have l': "granted h ?w = (granted h w)\<lparr>tl_list := A @ g t # B\<rparr>"
    using update_token_split [OF i, of g B] l by (simp add: tkm_frame)
  have ty: "types_of k ?w = types_of k w" for k
    using l l' g(2) by (cases "k = h") (auto simp: types_of_def tkm_frame)
  have ids: "map tk_id (tl_list (granted k ?w)) = map tk_id (tl_list (granted k w))" for k
    using l l' g(1) by (cases "k = h") (auto simp: tkm_frame)
  then have len: "length (tl_list (granted k ?w)) = length (tl_list (granted k w))" for k
    by (metis length_map)
  have counts: "counts_ok w" and masks: "masks_ok w" using ok by (auto simp: world_ok_def)
  have "(k, tk_id u) \<in> set (gcList ?w)" if u: "u \<in> set (tl_list (granted k ?w))" for k u
  proof -
    have "tk_id u \<in> set (map tk_id (tl_list (granted k w)))" using u ids [of k] by (metis image_eqI set_map)
    then show ?thesis using counts by (auto simp: counts_ok_def tkm_frame)
  qed
  then have "counts_ok ?w" using counts unfolding counts_ok_def len by (auto simp: tkm_frame)
  moreover have "list_ok (granted h ?w)"
  proof -
    have "list_ok (granted h w)" using masks by (simp add: masks_ok_def)
    then show ?thesis using l l' g(2) by (simp add: list_ok_def)
  qed
  moreover have "mask_ok (fileTokens (vol ?w)) (\<Sum>f\<leftarrow>v_files (vol w). types_of (Some f) ?w)"
    using masks unfolding ty by (simp add: masks_ok_def tkm_frame)
  moreover have "h = None \<longrightarrow> \<not> is_granting (g t)"
  proof
    assume "h = None"
    moreover have "\<forall>u \<in> set (tl_list (granted None w)). \<not> is_granting u"
      using ok by (simp add: world_ok_def holders_ok_def)
    ultimately have "\<not> is_granting t" using l by simp
    then show "\<not> is_granting (g t)" using g(5) by blast
  qed
  ultimately have "world_ok ?w \<and> shrinks w ?w"
    using l l' g by (intro world_ok_one_token [OF ok _ l]) (auto simp: same_but_def tkm_frame)
  then show ?thesis by blast
qed

section \<open>The return of a token\<close>

text \<open>Other threads keep the invariant, do not touch a file whose lock this thread holds, and do not use the
  identifier \<open>i\<close>, which is not theirs.\<close>

definition well_behaved :: "'e tkm_env \<Rightarrow> bool" where
  "well_behaved E \<longleftrightarrow>
     (\<forall>h w. world_ok w \<longrightarrow> world_ok (others E h w)) \<and>
     (\<forall>f w. granted (Some f) (others E (Some f) w) = granted (Some f) w \<and>
        f_host (files (others E (Some f) w) f) = f_host (files w f) \<and>
        f_tokenGrants (files (others E (Some f) w) f) = f_tokenGrants (files w f))"

definition holder_of :: "fid \<Rightarrow> nat option" where
  "holder_of x = (case x of FidVol \<Rightarrow> None | FidFile f \<Rightarrow> Some f)"

lemma refused_ok: "world_ok w \<Longrightarrow> world_ok (on_token (h, i) (\<lambda>t. t\<lparr>refused := 0\<rparr>) w)"
  by (rule on_token_ok) (auto simp: weaker_def ref_of_def is_vol_def is_granting_def)

lemma returned_types:
  assumes ok: "world_ok w" and t: "the_token (h, i) w = Some t"
  obtains w' where "tkm_RemoveTypes (h, i) ts w = Some w'" "world_ok w'"
    "\<forall>u \<in> set (tl_list (granted h w')). tk_id u = i \<longrightarrow> types u AND ts = 0"
proof -
  obtain w' A B t' where r: "tkm_RemoveTypes (h, i) ts w = Some w'" "world_ok w'"
    "tl_list (granted h w) = A @ t # B" "tk_id t' = i" "types t' = types t AND NOT ts"
    "tl_list (granted h w') = (if types t' = 0 \<and> refcount t = 0 then A @ B else A @ t' # B)"
    using RemoveTypes_ok [OF ok t, of ts] by metis
  have "tk_id t = i" using t find_token_set [of i "tl_list (granted h w)" t] by (simp add: the_token_def)
  moreover have "distinct (map tk_id (A @ t # B))" using ok r(3) by (metis world_ok_def holders_ok_def)
  ultimately have "i \<notin> tk_id ` set (A @ B)" by auto
  then have "\<forall>u \<in> set (A @ B). tk_id u \<noteq> i" by blast
  moreover have "types t' AND ts = 0"
    by (simp add: r(5) word_eq_0_iff) (auto simp: bit_and_iff bit_not_iff)
  moreover have "set (tl_list (granted h w')) \<subseteq> insert t' (set (A @ B))" unfolding r(6) by auto
  ultimately have "\<forall>u \<in> set (tl_list (granted h w')). tk_id u = i \<longrightarrow> types u AND ts = 0" by blast
  then show thesis by (rule that [OF r(1,2)])
qed

lemma ReturnToken_ok:
  assumes ok: "world_ok w" and E: "well_behaved E"
  shows "\<exists>code w'. tkm_ReturnToken E fid i rights w = Some (code, w') \<and> world_ok w' \<and>
    code = (if i \<noteq> - 1 \<and> fid = None then TKM_ERROR_NOENTRY else TKM_SUCCESS) \<and>
    (\<forall>x. fid = Some x \<longrightarrow> i \<noteq> - 1 \<longrightarrow>
       (\<forall>u \<in> set (tl_list (granted (holder_of x) w')). tk_id u = i \<longrightarrow> types u AND ucast rights = 0))"
proof (cases "i = - 1 \<or> fid = None")
  case True
  then show ?thesis using ok by (auto simp: tkm_ReturnToken_def TKM_FREE_TOKENID_def)
next
  case False
  then obtain x where x: "fid = Some x" "i \<noteq> - 1" by auto
  let ?h = "holder_of x" and ?ts = "ucast rights :: u32"
  let ?w = "others E None w"
  have okw: "world_ok ?w" using ok E by (simp add: well_behaved_def)
  have h: "(case x of FidVol \<Rightarrow> None | FidFile f \<Rightarrow> Some f) = ?h" by (simp add: holder_of_def)
  have run: "tkm_ReturnToken E fid i rights w =
      (case the_token (?h, i) ?w of
                 None \<Rightarrow> Some (TKM_SUCCESS, ?w)
               | Some t \<Rightarrow>
                   if ?h = None then map_option (Pair TKM_SUCCESS) (tkm_RemoveTypes (?h, i) ?ts ?w)
                   else
                     do { osi_assert (Some (holder t) = ?h);
                          w \<leftarrow> tkm_RemoveTypes (?h, i) ?ts (others E ?h ?w);
                          Some (TKM_SUCCESS,
                            if ?ts = 0 then
                              (case the_token (?h, i) w of
                                 None \<Rightarrow> w
                               | Some t \<Rightarrow>
                                   if types t \<noteq> 0 \<and> \<not> is_granting t then
                                     tkm_TriggerAsyncGrants (t\<lparr>refused := 0\<rparr>) (on_token (?h, i) (\<lambda>t. t\<lparr>refused := 0\<rparr>) w)
                                   else w)
                            else w) })"
    using x by (simp add: tkm_ReturnToken_def TKM_FREE_TOKENID_def Let_def h)
  show ?thesis
  proof (cases "the_token (?h, i) ?w")
    case None
    then have "\<forall>u \<in> set (tl_list (granted ?h ?w)). tk_id u \<noteq> i"
      by (auto simp: the_token_def find_None_iff)
    then show ?thesis using run None okw x by auto
  next
    case (Some t)
    show ?thesis
    proof (cases "?h = None")
      case True
      then show ?thesis using returned_types [OF okw Some, of ?ts] run Some x by auto
    next
      case False
      then obtain f where f: "?h = Some f" by auto
      let ?v = "others E ?h ?w"
      have okv: "world_ok ?v" and t: "the_token (?h, i) ?v = Some t"
        using okw E Some f by (auto simp: well_behaved_def the_token_def)
      have "t \<in> set (tl_list (granted ?h ?w))"
        using Some find_token_set [of i "tl_list (granted ?h ?w)" t] by (simp add: the_token_def)
      then have "ref_of t = (?h, tk_id t)" using okw by (simp add: world_ok_def holders_ok_def)
      then have "Some (holder t) = ?h" using f by (auto simp: ref_of_def split: if_splits)
      then have "osi_assert (Some (holder t) = ?h) = Some ()" by (simp add: osi_assert_def)
      note assertion = this
      obtain w' where w': "tkm_RemoveTypes (?h, i) ?ts ?v = Some w'" "world_ok w'"
          "\<forall>u \<in> set (tl_list (granted ?h w')). tk_id u = i \<longrightarrow> types u AND ?ts = 0"
        using returned_types [OF okv t] by blast
      define W where "W = (if ?ts = 0 then
                              (case the_token (?h, i) w' of
                                 None \<Rightarrow> w'
                               | Some t \<Rightarrow>
                                   if types t \<noteq> 0 \<and> \<not> is_granting t then
                                     tkm_TriggerAsyncGrants (t\<lparr>refused := 0\<rparr>) (on_token (?h, i) (\<lambda>t. t\<lparr>refused := 0\<rparr>) w')
                                   else w')
                            else w')"
      have res: "tkm_ReturnToken E fid i rights w = Some (TKM_SUCCESS, W)"
        unfolding run Some option.case if_not_P [OF False] assertion Option.bind.bind_lunit w'(1) W_def by (rule refl)
      have "world_ok W"
        using w'(2) refused_ok [OF w'(2)] trigger_ok [OF refused_ok [OF w'(2)]]
        by (simp add: W_def split: option.split)
      moreover have "\<forall>u \<in> set (tl_list (granted ?h W)). tk_id u = i \<longrightarrow> types u AND ?ts = 0"
        using w'(3) by (cases "?ts = 0") (simp_all add: W_def)
      ultimately show ?thesis using res x by auto
    qed
  qed
qed

end
