(* ===== verification/Tkm_Grants.thy ===== *)
theory Tkm_Grants
  imports Tkm_Ops
begin

text \<open>
  The grant of a token to a file when the caller expects no conflict: \<open>tkm_GetFileToken\<close> with
  \<open>TKM_FLAGS_EXPECTNOCONFL\<close> decides at once.
\<close>

section \<open>A queue that is deleted again\<close>

lemma RELETOKEN_held:
  assumes "find_token i ts = Some t" and "types t \<noteq> 0" and "0 < refcount t"
  shows "TKM_RELETOKEN (h, i) (set_granted h (l\<lparr>tl_list := ts\<rparr>) w) =
    Some (set_granted h (l\<lparr>tl_list := update_token i (\<lambda>t. t\<lparr>refcount := refcount t - 1\<rparr>) ts\<rparr>) w)"
proof -
  let ?dec = "\<lambda>t. t\<lparr>refcount := refcount t - 1\<rparr>"
  obtain A B where ts: "ts = A @ t # B" and i: "tk_id t = i" "i \<notin> tk_id ` set A"
    using find_token_split [OF assms(1)] by metis
  have u: "update_token i ?dec ts = A @ ?dec t # B" using update_token_split [of i A t ?dec B] ts i by simp
  let ?w = "set_granted h (l\<lparr>tl_list := A @ ?dec t # B\<rparr>) w"
  have drop: "drop_ref (h, i) (set_granted h (l\<lparr>tl_list := ts\<rparr>) w) = Some ?w"
    using assms u by (simp add: drop_ref_def tkm_frame)
  have t': "the_token (h, i) ?w = Some (?dec t)" using find_split [of i A "?dec t" B] i by (simp add: tkm_frame)
  have "update_token i (\<lambda>t. t\<lparr>types := types t AND NOT 0, refused := refused t AND NOT 0\<rparr>) (A @ ?dec t # B) =
      A @ ?dec t # B"
    using update_token_split [of i A "?dec t" _ B] i by simp
  then have "on_token (h, i) (\<lambda>t. t\<lparr>types := types t AND NOT 0, refused := refused t AND NOT 0\<rparr>) ?w = ?w"
    by (simp add: tkm_frame)
  then have "tkm_RemoveTypes (h, i) 0 ?w = Some ?w"
    using t' assms(2) by (simp add: tkm_RemoveTypes_def)
  then show ?thesis using drop u by (simp add: TKM_RELETOKEN_def)
qed

lemma rele_held:
  assumes "distinct (map tk_id (pre @ ts))" and "\<forall>t \<in> set ts. P t \<longrightarrow> types t \<noteq> 0"
    and "list_all2 (\<lambda>e t. ce_token e = Some (h, tk_id t)) es (take n (filter P ts))"
  shows "rele_elems es (set_granted h (l\<lparr>tl_list := pre @ held_first n P ts\<rparr>) w) =
    Some (set_granted h (l\<lparr>tl_list := pre @ ts\<rparr>) w)"
  using assms
proof (induction ts arbitrary: n pre es)
  case (Cons t ts)
  show ?case
  proof (cases "P t \<and> n \<noteq> 0")
    case False
    then have h: "held_first n P (t # ts) = t # held_first n P ts" by (cases n) auto
    have f: "take n (filter P (t # ts)) = take n (filter P ts)" using False by auto
    show ?thesis using Cons.IH [of "pre @ [t]" es n] Cons.prems unfolding h f by simp
  next
    case True
    then obtain m where n: "n = Suc m" by (cases n) auto
    obtain e es' where es: "es = e # es'" "ce_token e = Some (h, tk_id t)"
        "list_all2 (\<lambda>e t. ce_token e = Some (h, tk_id t)) es' (take m (filter P ts))"
      using Cons.prems(3) True n by (auto simp: list_all2_Cons2)
    let ?rest = "held_first m P ts"
    let ?dec = "\<lambda>t. t\<lparr>refcount := refcount t - 1\<rparr>"
    have pre: "tk_id t \<notin> tk_id ` set pre" using Cons.prems(1) by auto
    have held: "held_first n P (t # ts) = TKM_HOLDTOKEN t # ?rest" using True n by simp
    have id: "tk_id (TKM_HOLDTOKEN t) = tk_id t" "types (TKM_HOLDTOKEN t) = types t" "0 < refcount (TKM_HOLDTOKEN t)"
      "?dec (TKM_HOLDTOKEN t) = t"
      by (auto simp: TKM_HOLDTOKEN_def)
    have "TKM_RELETOKEN (h, tk_id t) (set_granted h (l\<lparr>tl_list := pre @ TKM_HOLDTOKEN t # ?rest\<rparr>) w) =
        Some (set_granted h (l\<lparr>tl_list := update_token (tk_id t) ?dec (pre @ TKM_HOLDTOKEN t # ?rest)\<rparr>) w)"
      using True Cons.prems(2) id pre
      by (intro RELETOKEN_held [of _ _ "TKM_HOLDTOKEN t"] find_split) auto
    also have "update_token (tk_id t) ?dec (pre @ TKM_HOLDTOKEN t # ?rest) = (pre @ [t]) @ ?rest"
      using update_token_split [OF pre id(1), of ?dec ?rest] id(4) by simp
    finally have "rele_elems es (set_granted h (l\<lparr>tl_list := pre @ held_first n P (t # ts)\<rparr>) w) =
        rele_elems es' (set_granted h (l\<lparr>tl_list := (pre @ [t]) @ ?rest\<rparr>) w)"
      unfolding held es by (simp add: es)
    then show ?thesis using Cons.IH [of "pre @ [t]" es' m] Cons.prems es by simp
  qed
qed simp

lemma conflict_has_types: "tokens_conflict g r \<Longrightarrow> types g \<noteq> 0"
  by (auto simp: tokens_conflict_def word_eq_0_iff)

lemma delete_held:
  assumes ok: "world_ok w" and n: "0 < n"
    and es: "list_all2 (elem_of r) (elements q) (take n (filter (\<lambda>g. tokens_conflict g r) (tl_list (granted h w))))"
    and num: "numElements q = int (lastPos q)"
  shows "tkm_DeleteConflictQ q
      (set_granted h ((granted h w)\<lparr>tl_list := held_first n (\<lambda>g. tokens_conflict g r) (tl_list (granted h w))\<rparr>) w)
    = Some w"
proof -
  let ?ts = "tl_list (granted h w)"
  let ?P = "\<lambda>g. tokens_conflict g r"
  have ref: "\<forall>t \<in> set ?ts. ref_of t = (h, tk_id t)" and d: "distinct (map tk_id ?ts)"
    using ok by (auto simp: world_ok_def holders_ok_def)
  have "list_all2 (\<lambda>e t. ce_token e = Some (h, tk_id t)) (elements q) (take n (filter ?P ?ts))"
    using es ref by (rule_tac list.rel_mono_strong [OF es]) (auto simp: elem_of_def dest: in_set_takeD)
  then have rele: "rele_elems (elements q) (set_granted h ((granted h w)\<lparr>tl_list := [] @ held_first n ?P ?ts\<rparr>) w) =
      Some (set_granted h ((granted h w)\<lparr>tl_list := [] @ ?ts\<rparr>) w)"
    using d conflict_has_types by (intro rele_held) auto
  have same: "set_granted h ((granted h w)\<lparr>tl_list := ?ts\<rparr>) w = w"
    using set_granted_same [of h w] by simp
  show ?thesis
  proof (cases "TKM_CONFLICTQ_ISEMPTY q")
    case True
    then have "elements q = []" using num by (simp add: TKM_CONFLICTQ_ISEMPTY_def)
    then show ?thesis using rele same by (simp add: tkm_DeleteConflictQ_def True)
  next
    case False
    then show ?thesis using rele same by (simp add: tkm_DeleteConflictQ_def)
  qed
qed

section \<open>Conflicts that are only reported\<close>

lemma max_conflicts_pos: "0 < TKM_MAX_CONFLICTS"
  by (simp add: TKM_MAX_CONFLICTS_def TKM_MAXPARALLELRPC_def)

lemma fix_file_expect:
  assumes ok: "world_ok w" and r: "real_types (types new)" and fl: "has_flag flags TKM_FLAGS_EXPECTNOCONFL"
  obtains other where
    "tkm_FixFileConflicts E new f flags lk w =
       Some (if \<exists>g \<in> set (tl_list (granted (Some f) w)). tokens_conflict g new then TKM_ERROR_TOKENCONFLICT
             else TKM_SUCCESS, other, w)"
    "(\<forall>g \<in> set (tl_list (granted (Some f) w)). \<not> tokens_conflict g new) \<Longrightarrow>
      other_types new (tl_list (granted (Some f) w)) other"
proof (cases "f_host (files w f) = Some (host new)")
  case True
  have same: "\<forall>g \<in> set (tl_list (granted (Some f) w)). types g \<noteq> 0 \<longrightarrow> host g = host new"
    using ok True by (simp add: world_ok_def hosts_ok_def)
  then have "\<not> tokens_conflict g new" if "g \<in> set (tl_list (granted (Some f) w))" for g
    using that conflict_has_types [of g new] by (auto simp: tokens_conflict_def)
  moreover have "other_types new (tl_list (granted (Some f) w)) 0"
    using same by (auto simp: other_types_def word_eq_0_iff)
  ultimately show thesis using that [of 0] True by (auto simp: tkm_FixFileConflicts_def)
next
  case False
  have lok: "list_ok (granted (Some f) w)" using ok by (simp add: world_ok_def masks_ok_def)
  have run: "tkm_FixFileConflicts E new f flags lk w = fix_file_loop E new f flags lk [] w"
    using False by (simp add: tkm_FixFileConflicts_def)
  show thesis
  proof (cases rule: ConflictingTokens_cases [OF lok r max_conflicts_pos, of "junk E"])
    case (1 other)
    then show thesis using that [of other] unfolding run by (auto simp: fix_file_loop.simps)
  next
    case (2 q other)
    have "tkm_DeleteConflictQ q (set_granted (Some f) ((granted (Some f) w)\<lparr>tl_list :=
        held_first TKM_MAX_CONFLICTS (\<lambda>g. tokens_conflict g new) (tl_list (granted (Some f) w))\<rparr>) w) = Some w"
      using delete_held [OF ok max_conflicts_pos 2(3,4)] .
    moreover have "\<exists>g \<in> set (tl_list (granted (Some f) w)). tokens_conflict g new"
      using 2(2) by (auto simp: filter_empty_conv)
    ultimately show thesis using that [of other] 2(1) fl unfolding run
      by (auto simp: fix_file_loop.simps Let_def)
  qed
qed

lemma fix_vol_expect:
  assumes ok: "world_ok w" and r: "real_types (types new)" and fl: "has_flag flags TKM_FLAGS_EXPECTNOCONFL"
  obtains other where
    "tkm_FixVolConflicts E new flags w =
       Some (if \<exists>g \<in> set (tl_list (granted None w)). tokens_conflict g new then TKM_ERROR_TOKENCONFLICT
             else TKM_SUCCESS, other, w)"
    "(\<forall>g \<in> set (tl_list (granted None w)). \<not> tokens_conflict g new) \<Longrightarrow>
      other_types new (tl_list (granted None w)) other"
proof -
  have lok: "list_ok (granted None w)" using ok by (simp add: world_ok_def masks_ok_def)
  show thesis
  proof (cases rule: ConflictingTokens_cases [OF lok r max_conflicts_pos, of "junk E"])
    case (1 other)
    then show thesis using that [of other] by (auto simp: tkm_FixVolConflicts.simps)
  next
    case (2 q other)
    have "tkm_DeleteConflictQ q (set_granted None ((granted None w)\<lparr>tl_list :=
        held_first TKM_MAX_CONFLICTS (\<lambda>g. tokens_conflict g new) (tl_list (granted None w))\<rparr>) w) = Some w"
      using delete_held [OF ok max_conflicts_pos 2(3,4)] .
    moreover have "\<exists>g \<in> set (tl_list (granted None w)). tokens_conflict g new"
      using 2(2) by (auto simp: filter_empty_conv)
    ultimately show thesis using that [of other] 2(1) fl
      by (auto simp: tkm_FixVolConflicts.simps Let_def)
  qed
qed

section \<open>The grant\<close>

lemma exp_time_frame [tkm_frame]:
  "tkm_FreshExpTime t (on_file f g w) = tkm_FreshExpTime t w" "tkm_FreshExpTime t (on_vol v w) = tkm_FreshExpTime t w"
  by (simp_all add: tkm_FreshExpTime_def on_file_def on_vol_def)

text \<open>The grant of a token to its file, with the host field of the file set before.\<close>

abbreviation granted_world ::
    "tkm_internalToken \<Rightarrow> (tkm_file \<Rightarrow> nat option) \<Rightarrow> 'e tkm_world \<Rightarrow> 'e tkm_world" where
  "granted_world t e w \<equiv> tkm_GrantFileToken t (on_file (holder t) (\<lambda>x. x\<lparr>f_host := e x\<rparr>) w)"

lemma grant_frame:
  "granted k (granted_world t e w) =
     (if k = Some (holder t) then tkm_AddToTokenList (t\<lparr>expiration := tkm_FreshExpTime t w\<rparr>) (granted k w)
      else granted k w)"
  "fileTokens (vol (granted_world t e w)) = tkm_AddToTokenMask (fileTokens (vol w)) (types t)"
  "v_files (vol (granted_world t e w)) = v_files (vol w)"
  "v_refcount (vol (granted_world t e w)) = v_refcount (vol w)"
  "f_host (files (granted_world t e w) f) = (if f = holder t then e (files w f) else f_host (files w f))"
  "f_refcount (files (granted_world t e w) f) = (if f = holder t then f_refcount (files w f) + 1 else f_refcount (files w f))"
  "gcList (granted_world t e w) = gcList w @ [(Some (holder t), tk_id t)]"
  by (cases k; auto simp: tkm_GrantFileToken_def tkm_HoldFile_def tkm_AddToGcList_def Let_def granted_def on_file_def
      on_vol_def tkm_FreshExpTime_def)+

lemma grant_ok:
  assumes ok: "world_ok w" and t: "\<not> is_vol t" "holder t = f" "real_types (types t)" and f: "f \<in> set (v_files (vol w))"
    and fresh: "tk_id t \<notin> tk_id ` set (tl_list (granted (Some f) w))"
    and free: "\<forall>u \<in> competing f w. \<not> tokens_conflict u t"
    and host: "\<And>h. e (files w f) = Some h \<Longrightarrow>
      host t = h \<and> (\<forall>u \<in> set (tl_list (granted (Some f) w)). types u \<noteq> 0 \<longrightarrow> host u = h)"
  shows "world_ok (granted_world t e w)"
proof -
  let ?t = "t\<lparr>expiration := tkm_FreshExpTime t w\<rparr>"
  let ?w = "granted_world t e w"
  have g: "granted k ?w = (if k = Some f then tkm_AddToTokenList ?t (granted k w) else granted k w)" for k
    using t(2) grant_frame(1) [of k t e w] by simp
  have l: "tl_list (granted k ?w) = (if k = Some f then ?t # tl_list (granted k w) else tl_list (granted k w))" for k
    by (simp add: g tkm_AddToTokenList_def tkm_AddToDoubleList_def)
  have ref: "ref_of ?t = (Some f, tk_id t)" using t by (simp add: ref_of_def is_vol_def)
  have parts: "holders_ok w" "masks_ok w" "conflict_free w" "hosts_ok w" "counts_ok w" using ok by (auto simp: world_ok_def)
  have "holders_ok ?w"
    using parts(1) fresh ref by (auto simp: holders_ok_def l)
  moreover have "masks_ok ?w"
  proof -
    have "list_ok (granted k ?w)" for k
    proof -
      have "list_ok (granted k w)" using parts(2) by (simp add: masks_ok_def)
      then show ?thesis using t(3) mask_ok_add [of "tl_mask (granted k w)" _ "types t"]
        by (auto simp: g list_ok_def tkm_AddToTokenList_def tkm_AddToDoubleList_def)
    qed
    moreover have "mask_ok (fileTokens (vol ?w)) (\<Sum>g\<leftarrow>v_files (vol w). types_of (Some g) ?w)"
    proof -
      obtain R where R: "\<And>M. (\<And>g. g \<noteq> f \<Longrightarrow> M g = types_of (Some g) w) \<Longrightarrow> (\<Sum>g\<leftarrow>v_files (vol w). M g) = M f + R"
        using sum_list_remove [OF _ f, of "\<lambda>g. types_of (Some g) w"] parts(2) by (auto simp: masks_ok_def)
      have "(\<Sum>g\<leftarrow>v_files (vol w). types_of (Some g) ?w) = types_of (Some f) ?w + R"
        by (rule R) (auto simp: types_of_def l)
      also have "types_of (Some f) ?w = add_mset (types t) (types_of (Some f) w)" by (simp add: types_of_def l)
      finally have "(\<Sum>g\<leftarrow>v_files (vol w). types_of (Some g) ?w) =
          add_mset (types t) (\<Sum>g\<leftarrow>v_files (vol w). types_of (Some g) w)"
        using R [of "\<lambda>g. types_of (Some g) w"] by simp
      then show ?thesis
        using mask_ok_add [OF _ t(3)] parts(2) by (simp add: grant_frame masks_ok_def)
    qed
    ultimately show ?thesis using parts(2) f by (auto simp: masks_ok_def grant_frame(3) l)
  qed
  moreover have "conflict_free ?w"
  proof -
    have self: "\<not> tokens_conflict ?t ?t" by (simp add: tokens_conflict_def)
    have "tokens_conflict u ?t = tokens_conflict u t" for u by (simp add: tokens_conflict_def overlapping_def)
    then have new: "\<not> tokens_conflict u ?t \<and> \<not> tokens_conflict ?t u" if "u \<in> competing f w" for u
      using free that tokens_conflict_sym by metis
    have comp: "competing k ?w = (if k = f then insert ?t (competing k w) else competing k w)" for k
      by (auto simp: competing_def l)
    show ?thesis unfolding conflict_free_def comp using parts(3) self new by (auto simp: conflict_free_def)
  qed
  moreover have "hosts_ok ?w"
    using parts(4) host t(2) by (auto simp: hosts_ok_def grant_frame(5) l split: if_splits)
  moreover have "counts_ok ?w"
    using parts(5) t(2) by (auto simp: counts_ok_def grant_frame(4,6,7) l split: if_splits)
  ultimately show ?thesis by (simp add: world_ok_def)
qed

section \<open>The rights added to an optimistic grant\<close>

lemma low_types: "bit (TKM_TOKENTYPE_MASK TKM_ALL_TOKENS - 1) n \<longleftrightarrow> n < 15"
proof -
  have "TKM_TOKENTYPE_MASK TKM_ALL_TOKENS - 1 = (Bit_Operations.mask 15 :: u32)"
    by (simp add: TKM_TOKENTYPE_MASK_def TKM_ALL_TOKENS_def mask_eq_exp_minus_1)
  then show ?thesis by (simp only: bit_mask_iff) auto
qed

lemma bit_optimistic:
  assumes "bit (optimistic_rights E new other) n"
  shows "n < 15 \<and> \<not> bit (TKM_TYPE_CONFLICTS (junk E) other) n"
proof -
  let ?r = "NOT (TKM_TOKENTYPE_MASK TKM_OPEN_DELETE OR TKM_TOKENTYPE_MASK TKM_SPOT_HERE OR
                      TKM_TOKENTYPE_MASK TKM_SPOT_THERE OR TKM_TYPE_CONFLICTS (junk E) other)
                 AND (TKM_TOKENTYPE_MASK TKM_ALL_TOKENS - 1)"
  have "bit ?r n" using assms by (auto simp: optimistic_rights_def Let_def bit_with_range split: if_splits)
  then show ?thesis by (simp only: bit_and_iff bit_not_iff bit_or_iff low_types) auto
qed

lemma optimistic_free:
  assumes c: "tokens_conflict u (new\<lparr>types := types new OR optimistic_rights E new other\<rparr>)"
    and u: "\<forall>n. bit (types u) n \<longrightarrow> bit other n"
  shows "tokens_conflict u new"
proof -
  obtain j k where jk: "host u \<noteq> host new" "bit (types u) j"
      "bit (types new) k \<or> bit (optimistic_rights E new other) k" "types_conflict j k"
      "j < 4 \<longrightarrow> overlapping u new"
    using c by (auto simp: tokens_conflict_def bit_or_iff overlapping_def)
  have "\<not> bit (optimistic_rights E new other) k"
  proof
    assume "bit (optimistic_rights E new other) k"
    then have "k < 15" and "\<not> bit (TKM_TYPE_CONFLICTS (junk E) other) k" using bit_optimistic by blast+
    moreover have "j < 15" using types_conflict_less [OF jk(4)] by simp
    ultimately show False
      using jk u by (auto simp: bit_type_conflicts ctable_inside)
  qed
  then show ?thesis using jk unfolding tokens_conflict_def by blast
qed

lemma real_optimistic: "real_types (types new) \<Longrightarrow> real_types (types new OR optimistic_rights E new other)"
  unfolding real_types_def bit_or_iff using bit_optimistic by blast


section \<open>The decision\<close>

text \<open>A whole volume token of another host that is being granted and whose types conflict.\<close>

definition blocked :: "'e tkm_env \<Rightarrow> tkm_internalToken \<Rightarrow> 'e tkm_world \<Rightarrow> bool" where
  "blocked E new w \<longleftrightarrow>
     (\<exists>t \<in> set (beingGranted (vol w)). host new \<noteq> host t \<and> types new AND TKM_TYPE_CONFLICTS (junk E) (types t) \<noteq> 0)"

lemma wait_expect:
  "has_flag flags TKM_FLAGS_EXPECTNOCONFL \<Longrightarrow> wait_being_granted E new flags w = Some (blocked E new w, w)"
  by (subst wait_being_granted.simps) (auto simp: blocked_def list_ex_iff)

lemma grant_file_ok:
  assumes ok: "world_ok w" and t: "\<not> is_vol new" "holder new = f" "real_types (types new)"
    and f: "f \<in> set (v_files (vol w))" and fresh: "tk_id new \<notin> tk_id ` set (tl_list (granted (Some f) w))"
    and free: "\<forall>u \<in> competing f w. \<not> tokens_conflict u new"
    and other: "other_types new (tl_list (granted (Some f) w)) off" "other_types new (tl_list (granted None w)) ov"
    and async: "\<not> has_flag flags TKM_FLAGS_DOING_ASYNCGRANT"
  obtains new' w' where "grant_file E new flags off ov w = Some (TKM_SUCCESS, new', w')" "world_ok w'"
    "tl_list (granted (Some f) w') = new'\<lparr>expiration := tkm_FreshExpTime new w\<rparr> # tl_list (granted (Some f) w)"
    "\<forall>n. bit (types new) n \<longrightarrow> bit (types new') n" "tk_id new' = tk_id new" "host new' = host new"
    "tk_range new' = tk_range new" "\<not> has_flag flags TKM_FLAGS_OPTIMISTICGRANT \<Longrightarrow> new' = new"
proof -
  let ?other = "ov OR off"
  define new' where "new' = (if has_flag flags TKM_FLAGS_OPTIMISTICGRANT
                 then new\<lparr>types := types new OR optimistic_rights E new ?other\<rparr> else new)"
  define e :: "tkm_file \<Rightarrow> nat option" where "e = (\<lambda>x. if off OR ov = 0 then Some (host new)
                  else if f_host x \<noteq> Some (host new) then None else f_host x)"
  have run: "grant_file E new flags off ov w = Some (TKM_SUCCESS, new', granted_world new' e w)"
    using t(2) async by (auto simp: grant_file_def Let_def new'_def e_def)
  have new': "tk_id new' = tk_id new" "host new' = host new" "tk_range new' = tk_range new" "holder new' = f"
    "\<not> is_vol new'" "real_types (types new')" "\<forall>n. bit (types new) n \<longrightarrow> bit (types new') n"
    "tkm_FreshExpTime new' w = tkm_FreshExpTime new w"
    using t real_optimistic by (auto simp: new'_def is_vol_def bit_or_iff tkm_FreshExpTime_def)
  have "\<not> tokens_conflict u new'" if u: "u \<in> competing f w" for u
  proof
    assume c: "tokens_conflict u new'"
    then have "host u \<noteq> host new" by (simp add: tokens_conflict_def new')
    then have "\<forall>n. bit (types u) n \<longrightarrow> bit ?other n"
      using u other by (auto simp: competing_def other_types_def bit_or_iff)
    then have "tokens_conflict u new" using c optimistic_free by (auto simp: new'_def split: if_splits)
    then show False using free u by blast
  qed
  moreover have "host new' = h \<and> (\<forall>u \<in> set (tl_list (granted (Some f) w)). types u \<noteq> 0 \<longrightarrow> host u = h)"
    if h: "e (files w f) = Some h" for h
  proof (cases "off OR ov = 0")
    case True
    then have "off = 0" by (simp add: or_eq_0_iff)
    then show ?thesis using h True other(1) new'(2) by (auto simp: e_def other_types_def word_eq_0_iff)
  next
    case False
    then have "h = host new" and "f_host (files w f) = Some h" using h by (auto simp: e_def split: if_splits)
    then show ?thesis using ok new'(2) by (auto simp: world_ok_def hosts_ok_def)
  qed
  ultimately have "world_ok (granted_world new' e w)"
    using new' fresh by (intro grant_ok [OF ok _ _ _ f]) auto
  moreover have "tl_list (granted (Some f) (granted_world new' e w)) =
      new'\<lparr>expiration := tkm_FreshExpTime new w\<rparr> # tl_list (granted (Some f) w)"
    using grant_frame(1) [of "Some f" new' e w] new'(4,8) by (simp add: tkm_AddToTokenList_def tkm_AddToDoubleList_def)
  ultimately show thesis using that run new' by (auto simp: new'_def)
qed

lemma get_file_expect:
  fixes E :: "'e tkm_env" and w :: "'e tkm_world"
  assumes v: "v = others E (Some (holder new)) (others E None w)"
    and ok: "world_ok w" and E: "well_behaved E"
    and t: "\<not> is_vol new" "real_types (types new)"
    and f: "holder new \<in> set (v_files (vol v))"
    and fresh: "tk_id new \<notin> tk_id ` set (tl_list (granted (Some (holder new)) v))"
    and fl: "has_flag flags TKM_FLAGS_EXPECTNOCONFL" "\<not> has_flag flags TKM_FLAGS_DOING_ASYNCGRANT"
      "\<not> has_flag flags TKM_FLAGS_QUEUEREQUEST"
  shows "\<exists>code new' w'. tkm_GetFileToken E new flags lk w = Some (code, new', w') \<and> world_ok w' \<and>
    (if (\<forall>u \<in> competing (holder new) v. \<not> tokens_conflict u new) \<and> \<not> blocked E new v
     then code = TKM_SUCCESS \<and>
       tl_list (granted (Some (holder new)) w') =
         new'\<lparr>expiration := tkm_FreshExpTime new v\<rparr> # tl_list (granted (Some (holder new)) v) \<and>
       (\<forall>n. bit (types new) n \<longrightarrow> bit (types new') n) \<and>
       (\<not> has_flag flags TKM_FLAGS_OPTIMISTICGRANT \<longrightarrow> new' = new)
     else code = TKM_ERROR_TOKENCONFLICT \<and> granted (Some (holder new)) w' = granted (Some (holder new)) v)"
proof -
  let ?f = "holder new"
  let ?u = "others E None w"
  have oku: "world_ok ?u" and okv: "world_ok v" and same: "granted (Some ?f) v = granted (Some ?f) ?u"
    "f_tokenGrants (files v ?f) = f_tokenGrants (files ?u ?f)"
    using ok E by (auto simp: well_behaved_def v)
  obtain off where off: "tkm_FixFileConflicts E new ?f flags lk ?u =
       Some (if \<exists>g \<in> set (tl_list (granted (Some ?f) ?u)). tokens_conflict g new then TKM_ERROR_TOKENCONFLICT
             else TKM_SUCCESS, off, ?u)"
    "(\<forall>g \<in> set (tl_list (granted (Some ?f) ?u)). \<not> tokens_conflict g new) \<Longrightarrow>
      other_types new (tl_list (granted (Some ?f) ?u)) off"
    using fix_file_expect [OF oku t(2) fl(1)] by blast
  obtain ov where ov: "tkm_FixVolConflicts E new flags v =
       Some (if \<exists>g \<in> set (tl_list (granted None v)). tokens_conflict g new then TKM_ERROR_TOKENCONFLICT
             else TKM_SUCCESS, ov, v)"
    "(\<forall>g \<in> set (tl_list (granted None v)). \<not> tokens_conflict g new) \<Longrightarrow>
      other_types new (tl_list (granted None v)) ov"
    using fix_vol_expect [OF okv t(2) fl(1)] by blast
  have run: "tkm_GetFileToken E new flags lk w = get_file_loop E new flags lk ?u"
    by (simp add: tkm_GetFileToken_def)
  show ?thesis
  proof (cases "\<exists>g \<in> set (tl_list (granted (Some ?f) ?u)). tokens_conflict g new")
    case True
    then have "tkm_GetFileToken E new flags lk w = Some (TKM_ERROR_TOKENCONFLICT, new, ?u)"
      unfolding run using off(1) fl(3) by (subst get_file_loop.simps) simp
    moreover have "\<not> (\<forall>u \<in> competing ?f v. \<not> tokens_conflict u new)" using True same by (auto simp: competing_def)
    ultimately show ?thesis using oku same by auto
  next
    case nofile: False
    have step: "tkm_GetFileToken E new flags lk w =
        (if blocked E new v then Some (TKM_ERROR_TOKENCONFLICT, new, v)
         else if \<exists>g \<in> set (tl_list (granted None v)). tokens_conflict g new then Some (TKM_ERROR_TOKENCONFLICT, new, v)
         else grant_file E new flags off ov v)"
      unfolding run using off(1) nofile fl(3) ov(1) wait_expect [OF fl(1), of E new v] same(2)
      by (subst get_file_loop.simps) (auto simp: v)
    show ?thesis
    proof (cases "blocked E new v \<or> (\<exists>g \<in> set (tl_list (granted None v)). tokens_conflict g new)")
      case True
      then have "tkm_GetFileToken E new flags lk w = Some (TKM_ERROR_TOKENCONFLICT, new, v)"
        unfolding step by auto
      moreover have "\<not> ((\<forall>u \<in> competing ?f v. \<not> tokens_conflict u new) \<and> \<not> blocked E new v)"
        using True by (auto simp: competing_def)
      ultimately show ?thesis using okv by (simp only: if_not_P) auto
    next
      case False
      then have free: "\<forall>u \<in> competing ?f v. \<not> tokens_conflict u new"
        using nofile same by (auto simp: competing_def)
      obtain new' w' where "grant_file E new flags off ov v = Some (TKM_SUCCESS, new', w')" "world_ok w'"
        "tl_list (granted (Some ?f) w') = new'\<lparr>expiration := tkm_FreshExpTime new v\<rparr> # tl_list (granted (Some ?f) v)"
        "\<forall>n. bit (types new) n \<longrightarrow> bit (types new') n" "\<not> has_flag flags TKM_FLAGS_OPTIMISTICGRANT \<Longrightarrow> new' = new"
        using grant_file_ok [OF okv t(1) refl t(2) f fresh free _ _ fl(2), of off ov] off(2) ov(2) nofile False same
        by (metis (no_types, lifting))
      then show ?thesis using free False unfolding step by auto
    qed
  qed
qed

end
