(* ===== verification/Tkm_Props.thy ===== *)
theory Tkm_Props
  imports Tkm_Grants
begin

text \<open>
  The properties of the token manager, with the states of their witnesses.
\<close>

section \<open>A small volume\<close>

definition empty_file :: tkm_file where
  "empty_file = \<lparr>f_tokenGrants = 0, f_refcount = 0, f_granted = \<lparr>tl_mask = no_mask, tl_list = []\<rparr>, queued = [], f_host = None\<rparr>"

definition empty_world :: "unit tkm_world" where
  "empty_world =
     \<lparr>files = (\<lambda>_. empty_file),
      vol = \<lparr>v_readonly = False, v_tokenGrants = 0, v_refcount = 0, v_granted = \<lparr>tl_mask = no_mask, tl_list = []\<rparr>,
             beingGranted = [], queuedFileTokens = [], fileTokens = no_mask, v_files = [0]\<rparr>,
      gcList = [], numOfFreeTokens = 0, tokenCounter = 0, maxTokens = 100, freeTokensGcFailed = False,
      lastTokenId = 0, asyncTryQ = [], osi_Time = 0, expiration_secs = 7200, lockDescriptor = 0, rest = ()\<rparr>"

definition quiet_env :: "unit tkm_env" where
  "quiet_env = \<lparr>others = (\<lambda>_ w. w), HS_REVOKETOKEN = (\<lambda>_ ds w. (HS_SUCCESS, ds, w)), HS_ASYNCGRANT = (\<lambda>_ _ _ w. w),
                junk = (\<lambda>_. False)\<rparr>"

definition tok :: "u64 \<Rightarrow> nat \<Rightarrow> u32 \<Rightarrow> tkm_internalToken" where
  "tok i h ts = (zero_token i)\<lparr>host := h, types := ts, tk_range := \<lparr>lowBnd = 0, upBnd = - 1\<rparr>\<rparr>"

lemma tok_frame [simp]:
  "tk_id (tok i h ts) = i" "host (tok i h ts) = h" "types (tok i h ts) = ts" "holder (tok i h ts) = 0"
  "tk_range (tok i h ts) = \<lparr>lowBnd = 0, upBnd = - 1\<rparr>" "refcount (tok i h ts) = 0" "\<not> is_vol (tok i h ts)"
  "\<not> is_granting (tok i h ts)"
  by (simp_all add: tok_def zero_token_def is_vol_def is_granting_def)

lemma mask_ok_none: "mask_ok no_mask {#}"
  by (simp add: mask_ok_def no_mask_def TKM_ALL_TOKENS_def)

lemma granted_empty: "granted h empty_world = \<lparr>tl_mask = no_mask, tl_list = []\<rparr>"
  by (cases h) (simp_all add: granted_def empty_world_def empty_file_def)

lemma empty_world_ok: "world_ok empty_world"
  using mask_ok_none
  by (auto simp: world_ok_def holders_ok_def masks_ok_def conflict_free_def hosts_ok_def counts_ok_def competing_def
      granted_empty list_ok_def types_of_def) (auto simp: empty_world_def)

lemma quiet_well_behaved: "well_behaved quiet_env"
  by (simp add: well_behaved_def quiet_env_def)

lemma bit_read_write: "bit (8 :: u32) n \<longleftrightarrow> n = 3" "bit (4 :: u32) n \<longleftrightarrow> n = 2"
  using bit_type_mask [of 3 n] bit_type_mask [of 2 n] by (auto simp: TKM_TOKENTYPE_MASK_def)

lemma real_read_write: "real_types 8" "real_types 4"
  by (simp_all only: real_types_def bit_read_write) simp_all

text \<open>The first file has one token, here one of the host 1 for writing data.\<close>

definition with_token :: "tkm_internalToken \<Rightarrow> unit tkm_world" where
  "with_token t = granted_world t (\<lambda>_. Some (host t)) empty_world"

lemma with_token_ok: "\<not> is_vol t \<Longrightarrow> holder t = 0 \<Longrightarrow> real_types (types t) \<Longrightarrow> world_ok (with_token t)"
  unfolding with_token_def
  by (rule grant_ok [OF empty_world_ok, of _ 0]) (auto simp: granted_empty competing_def, simp add: empty_world_def)

lemma with_token_list:
  "holder t = 0 \<Longrightarrow> tl_list (granted (Some 0) (with_token t)) = [t\<lparr>expiration := tkm_FreshExpTime t empty_world\<rparr>]"
  "tl_list (granted None (with_token t)) = []"
  unfolding with_token_def grant_frame
  by (simp_all add: granted_empty tkm_AddToTokenList_def tkm_AddToDoubleList_def)

definition one_token :: "unit tkm_world" where
  "one_token = with_token (tok 7 1 8)"

lemma one_token_ok: "world_ok one_token"
  unfolding one_token_def by (rule with_token_ok) (simp_all add: real_read_write)

lemma one_token_list:
  "tl_list (granted (Some 0) one_token) = [(tok 7 1 8)\<lparr>expiration := tkm_FreshExpTime (tok 7 1 8) empty_world\<rparr>]"
  "tl_list (granted None one_token) = []"
  unfolding one_token_def by (simp_all add: with_token_list)

lemma write_conflicts_read:
  assumes "host t = 1" and "types t = 8" and "tk_range t = \<lparr>lowBnd = 0, upBnd = - 1\<rparr>"
  shows "tokens_conflict t (tok 9 2 4)"
proof -
  have "types_conflict 3 2" by (simp add: types_conflict_def conflict_def tkm_type_defs)
  moreover have "overlapping t (tok 9 2 4)" using assms by (auto simp: overlapping_def bytes_def)
  moreover have "bit (types t) 3" "bit (types (tok 9 2 4)) 2" by (simp_all only: assms tok_frame bit_read_write)
  moreover have "host t \<noteq> host (tok 9 2 4)" using assms by simp
  ultimately show ?thesis unfolding tokens_conflict_def by blast
qed

section \<open>Properties\<close>

text \<open>C28. The quick conflict tables against the list of conflicting pairs: for the fifteen types the bit \<open>n\<close> of
  \<open>TKM_TYPE_CONFLICTS\<close> is set exactly when one of the given types conflicts with \<open>n\<close> (the sixteenth bit of the
  argument, which no token has, reads behind the table).  The bits from 15 on are not zero as the comments of
  the code say: the initialisation reads a sixteenth column, so they are all set for \<open>TKM_LOCK_READ\<close>, and for
  \<open>TKM_SPOT_THERE\<close> when the byte behind the table is not zero.\<close>

theorem type_conflicts_table:
  "bit (TKM_TYPE_CONFLICTS past t) n \<longleftrightarrow>
     (if n < 15 then (\<exists>j < 15. bit t j \<and> types_conflict j n) \<or> bit t 15 \<and> past (225 + n)
      else n < 32 \<and> (bit t TKM_LOCK_READ \<or> bit t TKM_SPOT_THERE \<and> past 225 \<or> bit t 15 \<and> past 240))"
proof (cases "n < 15")
  case True
  have "(\<exists>j < 16. bit t j \<and> ctable past j n) \<longleftrightarrow> (\<exists>j < 15. bit t j \<and> ctable past j n) \<or> bit t 15 \<and> ctable past 15 n"
    by (auto simp: less_Suc_eq numeral_eq_Suc)
  then show ?thesis using True by (auto simp: bit_type_conflicts min_def ctable_inside ctable_past_table)
next
  case False
  have "(\<exists>j < 16. bit t j \<and> ctable past j 15) \<longleftrightarrow>
      (\<exists>j < 14. bit t j \<and> ctable past j 15) \<or> bit t 14 \<and> ctable past 14 15 \<or> bit t 15 \<and> ctable past 15 15"
    by (auto simp: less_Suc_eq numeral_eq_Suc)
  also have "\<dots> \<longleftrightarrow> bit t 0 \<or> bit t 14 \<and> past 225 \<or> bit t 15 \<and> past 240"
  proof -
    have "(\<exists>j < 14. bit t j \<and> ctable past j 15) \<longleftrightarrow> bit t 0"
      using ctable_past_row zero_less_numeral by blast
    then show ?thesis by (simp add: ctable_past_table)
  qed
  finally show ?thesis using False
    by (simp add: bit_type_conflicts min_def TKM_LOCK_READ_def TKM_SPOT_THERE_def)
qed

text \<open>C31. Slice and dice: the parts that \<open>tkm_ByterangeComplement\<close> offers in exchange are exactly the bytes of the
  revoked range outside the requested range, also at the ends of the 64 bit offsets and for empty ranges.\<close>

theorem complement_is_difference:
  "(case tkm_ByterangeComplement universe part of
      (lo, hi) \<Rightarrow> part_bytes lo \<union> part_bytes hi = bytes universe - bytes part)"
  using complement_bytes [of universe part] by (cases "tkm_ByterangeComplement universe part") simp

text \<open>C12. \<open>tkm_ConflictingTokens\<close> against a full search: when the mask counts the types of the list, the routine,
  which looks at the mask first, never runs past its array and finds exactly the first \<open>maxnum\<close> tokens of other
  hosts that conflict with the request, each with a reference taken, with exactly the types that have to be
  revoked, and with the byte range types among them as the ones that can be offered in exchange.  Without a
  conflict the mask of the other hosts contains every type that another host has.\<close>

theorem conflicting_tokens_exact:
  assumes "list_ok l" and "real_types (types r)" and "0 < maxnum"
  shows "\<exists>found other. tkm_ConflictingTokens past l r maxnum =
      Some (l\<lparr>tl_list := held_first maxnum (\<lambda>g. tokens_conflict g r) (tl_list l)\<rparr>, found, other) \<and>
    (case found of
       None \<Rightarrow> filter (\<lambda>g. tokens_conflict g r) (tl_list l) = [] \<and> other_types r (tl_list l) other
     | Some q \<Rightarrow> filter (\<lambda>g. tokens_conflict g r) (tl_list l) \<noteq> [] \<and> numElements q = int (lastPos q) \<and>
         list_all2 (elem_of r) (elements q) (take maxnum (filter (\<lambda>g. tokens_conflict g r) (tl_list l))))"
proof (cases rule: ConflictingTokens_cases [OF assms, of past])
  case (1 other)
  then have none: "filter (\<lambda>g. tokens_conflict g r) (tl_list l) = []" by (simp add: filter_empty_conv)
  show ?thesis using 1 none by (intro exI [of _ None] exI [of _ other]) (simp add: held_first_none)
next
  case (2 q other)
  then show ?thesis by (intro exI [of _ "Some q"] exI [of _ other]) simp
qed

lemma conflicting_tokens_exact_witness:
  "\<exists>q l other. tkm_ConflictingTokens (\<lambda>_. False) (granted (Some 0) one_token) (tok 9 2 4) 40 = Some (l, Some q, other) \<and>
     lastPos q = 1"
proof -
  let ?l = "granted (Some 0) one_token"
  have ok: "list_ok ?l" using one_token_ok by (simp add: world_ok_def masks_ok_def)
  have c: "filter (\<lambda>g. tokens_conflict g (tok 9 2 4)) (tl_list ?l) = tl_list ?l"
    using write_conflicts_read by (simp add: one_token_list)
  show ?thesis
    using conflicting_tokens_exact [OF ok, of "tok 9 2 4" 40 "\<lambda>_. False"] unfolding c
    by (auto simp: real_read_write one_token_list split: option.splits dest!: list_all2_lengthD)
qed


text \<open>C15. \<open>tkm_ReturnToken\<close> in a state that satisfies the invariant of the token manager (masks that count the
  granted types of every file, of the volume and of all files together, no two conflicting tokens of different
  hosts, the host fields, the list of tokens to collect, the reference counts): no assertion fails, whatever file,
  identifier and rights the client sends and whatever the other threads do within the invariant, the invariant
  holds again, and no token with the identifier has any of the rights.\<close>

theorem return_token_keeps_invariant:
  assumes "world_ok w" and "well_behaved E"
  shows "\<exists>code w'. tkm_ReturnToken E fid i rights w = Some (code, w') \<and> world_ok w' \<and>
    code = (if i \<noteq> - 1 \<and> fid = None then TKM_ERROR_NOENTRY else TKM_SUCCESS) \<and>
    (\<forall>x. fid = Some x \<longrightarrow> i \<noteq> - 1 \<longrightarrow>
       (\<forall>u \<in> set (tl_list (granted (holder_of x) w')). tk_id u = i \<longrightarrow> types u AND ucast rights = 0))"
  using assms by (rule ReturnToken_ok)

lemma return_token_keeps_invariant_witness:
  "\<exists>w'. tkm_ReturnToken quiet_env (Some (FidFile 0)) 7 8 one_token = Some (TKM_SUCCESS, w') \<and> world_ok w' \<and>
     (\<forall>u \<in> set (tl_list (granted (Some 0) w')). tk_id u = 7 \<longrightarrow> types u AND 8 = 0)"
  using return_token_keeps_invariant [OF one_token_ok quiet_well_behaved, of "Some (FidFile 0)" 7 8]
  by (auto simp: holder_of_def)

text \<open>C11. \<open>tkm_GetFileToken\<close> for a caller that expects no conflict returns, without a revocation and without
  waiting, and decides exactly: when no token of another host for the file or the whole volume conflicts with the
  request and no whole volume token that is being granted blocks it, the token is granted with at least the types
  of the request (with exactly them unless the grant is optimistic) and the invariant holds again, so an
  optimistic grant never adds a conflicting right; otherwise the result is \<open>TKM_ERROR_TOKENCONFLICT\<close> and the tokens
  of the file are as they were.  \<open>v\<close> is the state when both locks are held.\<close>

theorem get_file_token_decides:
  fixes E :: "'e tkm_env" and w :: "'e tkm_world"
  assumes "v = others E (Some (holder new)) (others E None w)"
    and "world_ok w" and "well_behaved E" and "\<not> is_vol new" and "real_types (types new)"
    and "holder new \<in> set (v_files (vol v))"
    and "tk_id new \<notin> tk_id ` set (tl_list (granted (Some (holder new)) v))"
    and "has_flag flags TKM_FLAGS_EXPECTNOCONFL" and "\<not> has_flag flags TKM_FLAGS_DOING_ASYNCGRANT"
    and "\<not> has_flag flags TKM_FLAGS_QUEUEREQUEST"
  shows "\<exists>code new' w'. tkm_GetFileToken E new flags lk w = Some (code, new', w') \<and> world_ok w' \<and>
    (if (\<forall>u \<in> competing (holder new) v. \<not> tokens_conflict u new) \<and> \<not> blocked E new v
     then code = TKM_SUCCESS \<and>
       tl_list (granted (Some (holder new)) w') =
         new'\<lparr>expiration := tkm_FreshExpTime new v\<rparr> # tl_list (granted (Some (holder new)) v) \<and>
       (\<forall>n. bit (types new) n \<longrightarrow> bit (types new') n) \<and>
       (\<not> has_flag flags TKM_FLAGS_OPTIMISTICGRANT \<longrightarrow> new' = new)
     else code = TKM_ERROR_TOKENCONFLICT \<and> granted (Some (holder new)) w' = granted (Some (holder new)) v)"
  using assms by (rule get_file_expect)

lemma get_file_token_decides_witness:
  "\<exists>t w'. tkm_GetFileToken quiet_env (tok 9 2 4) 0x80 False one_token = Some (TKM_ERROR_TOKENCONFLICT, t, w') \<and>
     world_ok w' \<and> granted (Some 0) w' = granted (Some 0) one_token"
proof -
  have flags: "has_flag 0x80 TKM_FLAGS_EXPECTNOCONFL" "\<not> has_flag 0x80 TKM_FLAGS_DOING_ASYNCGRANT"
    "\<not> has_flag 0x80 TKM_FLAGS_QUEUEREQUEST"
    by (simp_all add: has_flag_def TKM_FLAGS_EXPECTNOCONFL_def TKM_FLAGS_DOING_ASYNCGRANT_def
        TKM_FLAGS_QUEUEREQUEST_def)
  have v: "one_token = others quiet_env (Some (holder (tok 9 2 4))) (others quiet_env None one_token)"
    by (simp add: quiet_env_def)
  have f: "holder (tok 9 2 4) \<in> set (v_files (vol one_token))"
    unfolding one_token_def with_token_def grant_frame by (simp add: empty_world_def)
  have "tk_id (tok 9 2 4) \<notin> tk_id ` set (tl_list (granted (Some (holder (tok 9 2 4))) one_token))"
    using one_token_list by simp
  moreover have no: "\<not> ((\<forall>u \<in> competing (holder (tok 9 2 4)) one_token. \<not> tokens_conflict u (tok 9 2 4)) \<and>
      \<not> blocked quiet_env (tok 9 2 4) one_token)"
    using write_conflicts_read by (simp add: competing_def one_token_list)
  ultimately show ?thesis
    using get_file_token_decides [OF v one_token_ok quiet_well_behaved _ _ f _ flags, of False]
    unfolding if_not_P [OF no] by (auto simp: real_read_write)
qed

subsection \<open>Accepted rights\<close>

lemma remove_known_types:
  assumes ok: "mask_ok m M" and t: "t \<in># M" and sub: "\<forall>n. bit r n \<longrightarrow> bit t n"
  obtains m' where "tkm_RemoveFromTokenMask m r = Some m'"
    "\<forall>n. \<not> bit r n \<longrightarrow> bit (typeSum m') n = bit (typeSum m) n"
proof -
  have len: "length (counter m) = 15" using ok by (simp add: mask_ok_def)
  have pos: "\<forall>i \<in> set [0..<15]. bit r i \<longrightarrow> 0 < counter m ! i"
  proof (intro ballI impI)
    fix i assume "i \<in> set [0..<15]" "bit r i"
    then show "0 < counter m ! i"
      using ok t sub size_filter_pos [of "\<lambda>t. bit t i" M] by (auto simp: mask_ok_def)
  qed
  obtain m' where "remove_from_mask r [0..<15] m = Some m'"
      "\<forall>n. bit (typeSum m') n \<longleftrightarrow> bit (typeSum m) n \<and> \<not> (n \<in> set [0..<15] \<and> bit r n \<and> counter m ! n = 1)"
    using remove_from_mask [of "[0..<15]" m r] len pos by auto
  then show thesis using that [of m'] by (simp add: tkm_RemoveFromTokenMask_def TKM_ALL_TOKENS_def)
qed

text \<open> \<open>tkm_AdjustAccepted\<close> stores the types that the client accepted without taking the others out of the masks.
  When the only token of a file is a slice and dice token and its client accepts some of the offered types but not
  all, the file keeps in its mask the types that were not accepted after the client has returned what it accepted:
  its list is empty, its mask is not, and the assertion of \<open>tkm_TokenListInit\<close> fails when the file structure is
  used again.\<close>

theorem accepted_types_stay_in_mask:
  assumes ok: "world_ok w" and l: "tl_list (granted (Some f) w) = [t]" and g: "is_granting t" and rc: "refcount t = 0"
    and quiet: "others E None w = w" and off: "tokenID offered = tk_id t"
    and acc: "accepted \<noteq> 0" "\<forall>n. bit accepted n \<longrightarrow> bit (types t) n"
    and n: "bit (types t) n" "\<not> bit accepted n"
  shows "\<exists>w1 w2. tkm_AdjustAccepted E (Some (Some f, tk_id t)) offered accepted w = Some w1 \<and>
    tkm_RemoveTypes (Some f, tk_id t) accepted w1 = Some w2 \<and>
    tl_list (granted (Some f) w2) = [] \<and> bit (typeSum (tl_mask (granted (Some f) w2))) n \<and>
    tkm_TokenListInit (Some (tl_mask (granted (Some f) w2))) (tl_list (granted (Some f) w2)) = None"
proof -
  let ?r = "(Some f, tk_id t)" and ?l = "granted (Some f) w"
  have ref: "ref_of t = ?r" and lok: "list_ok ?l" and f: "f \<in> set (v_files (vol w))" "distinct (v_files (vol w))"
    and fm: "mask_ok (fileTokens (vol w)) (\<Sum>f\<leftarrow>v_files (vol w). types_of (Some f) w)"
    and gc: "?r \<in> set (gcList w)" and fr: "0 < f_refcount (files w f)"
  proof -
    show "ref_of t = ?r" using ok l by (auto simp: world_ok_def holders_ok_def dest: spec [of _ "Some f"])
    show "list_ok ?l" "distinct (v_files (vol w))"
        "mask_ok (fileTokens (vol w)) (\<Sum>f\<leftarrow>v_files (vol w). types_of (Some f) w)"
      using ok by (auto simp: world_ok_def masks_ok_def)
    show "f \<in> set (v_files (vol w))" using ok l by (auto simp: world_ok_def masks_ok_def)
    show "?r \<in> set (gcList w)" using ok l by (auto simp: world_ok_def counts_ok_def dest: spec [of _ "Some f"])
    have "length (tl_list (granted (Some f) w)) \<le> f_refcount (files w f)"
      using ok unfolding world_ok_def counts_ok_def by blast
    then show "0 < f_refcount (files w f)" using l by simp
  qed
  have vol: "\<not> is_vol t" using ref by (auto simp: ref_of_def split: if_splits)
  let ?a = "clear_granting (t\<lparr>types := accepted\<rparr>)"
  define w1 where "w1 = set_granted (Some f) (?l\<lparr>tl_list := [?a]\<rparr>) w"
  have t: "the_token ?r w = Some t" using l by (simp add: the_token_def)
  have w1: "on_token ?r (\<lambda>t. clear_granting (t\<lparr>types := accepted\<rparr>)) w = w1"
    using l by (simp add: w1_def on_token_def Let_def)
  have adjust: "tkm_AdjustAccepted E (Some ?r) offered accepted w = Some w1"
    using t g vol off acc(1) quiet w1 by (simp add: tkm_AdjustAccepted_def osi_assert_def)
  have lm: "mask_ok (tl_mask ?l) {#types t#}" using lok l by (simp add: list_ok_def)
  obtain m where m: "tkm_RemoveFromTokenMask (tl_mask ?l) accepted = Some m"
      "\<forall>n. \<not> bit accepted n \<longrightarrow> bit (typeSum m) n = bit (typeSum (tl_mask ?l)) n"
    using remove_known_types [OF lm _ acc(2)] by auto
  obtain R where "(\<Sum>f\<leftarrow>v_files (vol w). types_of (Some f) w) = types_of (Some f) w + R"
    using sum_list_remove [OF f(2,1), of "\<lambda>f. types_of (Some f) w"] by metis
  then have "types t \<in># (\<Sum>f\<leftarrow>v_files (vol w). types_of (Some f) w)" using l by (simp add: types_of_def)
  then obtain fm' where fm': "tkm_RemoveFromTokenMask (fileTokens (vol w)) accepted = Some fm'"
    using remove_known_types [OF fm _ acc(2)] by blast
  have t1: "the_token ?r w1 = Some ?a" by (simp add: w1_def tkm_frame)
  have same: "accepted AND NOT accepted = 0" "accepted AND accepted = accepted" by simp_all
  define w2 where "w2 = tkm_TriggerAsyncGrants ?a
     (on_vol (\<lambda>v. v\<lparr>fileTokens := fm'\<rparr>) (set_granted (Some f) \<lparr>tl_mask = m, tl_list = [?a]\<rparr> w))"
  have mask: "TKM_REMOVE_FROM_MASK (Some f) accepted w1 =
      Some (on_vol (\<lambda>v. v\<lparr>fileTokens := fm'\<rparr>) (set_granted (Some f) \<lparr>tl_mask = m, tl_list = [?a]\<rparr> w))"
  proof -
    have rec: "?l\<lparr>tl_list := [?a], tl_mask := m\<rparr> = \<lparr>tl_mask = m, tl_list = [?a]\<rparr>"
      by (rule tkm_tokenList.equality) simp_all
    show ?thesis using m fm' by (simp add: TKM_REMOVE_FROM_MASK_def w1_def tkm_frame rec)
  qed
  have g2: "granted (Some f) w2 = \<lparr>tl_mask = m, tl_list = [?a]\<rparr>" and gc2: "gcList w2 = gcList w"
    by (simp_all add: w2_def tkm_frame)
  have fr2: "0 < f_refcount (files w2 f)"
  proof -
    let ?u = "on_vol (\<lambda>v. v\<lparr>fileTokens := fm'\<rparr>) (set_granted (Some f) \<lparr>tl_mask = m, tl_list = [?a]\<rparr> w)"
    have "f_refcount (files ?u f) = f_refcount (files w f)" by (simp add: tkm_frame)
    then show ?thesis using trigger_frame(8) [of ?u f ?a] fr by (simp add: w2_def)
  qed
  let ?strip = "\<lambda>t. t\<lparr>types := types t AND NOT accepted, refused := refused t AND NOT accepted\<rparr>"
  define w3 where "w3 = on_token ?r ?strip w2"
  have g3: "granted (Some f) w3 = \<lparr>tl_mask = m, tl_list = [] @ ?strip ?a # []\<rparr>" and gc3: "gcList w3 = gcList w"
    and fr3: "0 < f_refcount (files w3 f)"
    using g2 gc2 fr2 by (simp_all add: w3_def tkm_frame)
  obtain w4 where w4: "tkm_ReturnFileToken f (tk_id t) w3 = Some w4"
      "granted (Some f) w4 = (granted (Some f) w3)\<lparr>tl_list := [] @ []\<rparr>"
    using return_token [of "Some f" w3 "[]" "?strip ?a" "[]" "tk_id t"] g3 gc gc3 fr3 by auto
  have remove: "tkm_RemoveTypes ?r accepted w1 = Some (tkm_PutTokenInFreeList w4)"
    using t1 mask acc(1) rc w4(1)
    by (simp add: tkm_RemoveTypes_def w2_def [symmetric] w3_def [symmetric])
  have fin: "granted (Some f) (tkm_PutTokenInFreeList w4) = \<lparr>tl_mask = m, tl_list = []\<rparr>"
    using w4(2) g3 by (simp add: tkm_frame)
  have bit: "bit (typeSum m) n" using m(2) n lok l by (simp add: list_ok_typeSum)
  then have "typeSum m \<noteq> 0" by auto
  then show ?thesis using adjust remove fin bit
    by (intro exI [of _ w1] exI [of _ "tkm_PutTokenInFreeList w4"]) (simp add: tkm_TokenListInit_def)
qed


lemma accepted_types_stay_in_mask_witness:
  "let t = (tok 7 1 (TKM_TOKENTYPE_MASK 3 OR TKM_TOKENTYPE_MASK 2))\<lparr>tk_flags := push_bit TKM_TOKEN_GRANTING 1\<rparr> in
   \<exists>w1 w2. tkm_AdjustAccepted quiet_env (Some (Some 0, 7)) (tkm_InternalToExternalToken t) (TKM_TOKENTYPE_MASK 2)
       (with_token t) = Some w1 \<and>
     tkm_RemoveTypes (Some 0, 7) (TKM_TOKENTYPE_MASK 2) w1 = Some w2 \<and>
     tkm_TokenListInit (Some (tl_mask (granted (Some 0) w2))) (tl_list (granted (Some 0) w2)) = None"
proof -
  let ?t = "(tok 7 1 (TKM_TOKENTYPE_MASK 3 OR TKM_TOKENTYPE_MASK 2))\<lparr>tk_flags := push_bit TKM_TOKEN_GRANTING 1\<rparr>"
  let ?e = "?t\<lparr>expiration := tkm_FreshExpTime ?t empty_world\<rparr>"
  have flags: "\<not> is_vol ?t" "is_granting ?e"
    by (simp_all add: is_vol_def is_granting_def tkm_flag_defs bit_push_bit_iff bit_1_iff)
  have bits: "bit (TKM_TOKENTYPE_MASK 3 OR TKM_TOKENTYPE_MASK 2) n \<longleftrightarrow> n = 3 \<or> n = 2"
      "bit (TKM_TOKENTYPE_MASK 2) n \<longleftrightarrow> n = 2" for n
    by (auto simp: bit_or_iff bit_type_mask)
  have nz: "TKM_TOKENTYPE_MASK 2 \<noteq> 0" using bits(2) [of 2] by auto
  have ok: "world_ok (with_token ?t)" using flags(1) by (intro with_token_ok) (auto simp: real_types_def bits)
  show ?thesis
    using accepted_types_stay_in_mask [OF ok with_token_list(1) flags(2), of quiet_env
        "tkm_InternalToExternalToken ?t" "TKM_TOKENTYPE_MASK 2" 3] nz
    by (auto simp: Let_def quiet_env_def tkm_InternalToExternalToken_def bits)
qed

end
