(* ===== verification/Dts_Arith.thy ===== *)
theory Dts_Arith
  imports Prelude "HOL-Library.Monad_Syntax"
begin

text \<open>
  The 64 bit arithmetic of the time service: the macros of \<^verbatim>\<open>dce/utils/misc/dce64.h\<close> and
  \<^verbatim>\<open>time/common/utc_arith.h\<close>, and the routines of \<^verbatim>\<open>time/common/arith.c\<close>, for hosts whose \<open>long\<close> has 32
  bits, where a 64 bit number is a pair of words.  A number is read as unsigned by \<open>uval\<close> and as two's
  complement by \<open>sval\<close>; \<open>w64\<close> is the 64 bit word.  The lemmas relate every operation to the arithmetic of words
  or of integers.
\<close>

section \<open>Numbers\<close>

datatype Bits64 = Bits64 (hi: u32) (lo: u32)

type_synonym UTCValue = Bits64
type_synonym ExtInacc = Bits64

abbreviation SIGN :: u32 where "SIGN \<equiv> 0x80000000"

definition U64CMP :: "Bits64 \<Rightarrow> Bits64 \<Rightarrow> int" where
  "U64CMP a b =
    (if sint (hi a) < sint (hi b) then - 1
     else if sint (hi a) > sint (hi b) then 1
     else if lo a < lo b then - 1
     else if lo a > lo b then 1 else 0)"

definition U64EQUAL :: "Bits64 \<Rightarrow> Bits64 \<Rightarrow> bool" where
  "U64EQUAL a b \<longleftrightarrow> lo a = lo b \<and> hi a = hi b"

definition U64ISZERO :: "Bits64 \<Rightarrow> bool" where
  "U64ISZERO a \<longleftrightarrow> lo a = 0 \<and> hi a = 0"

definition U64ISNEG :: "Bits64 \<Rightarrow> bool" where
  "U64ISNEG a \<longleftrightarrow> hi a AND SIGN \<noteq> 0"

definition U64LSHIFT :: "Bits64 \<Rightarrow> nat \<Rightarrow> Bits64" where
  "U64LSHIFT d i = Bits64 (push_bit i (hi d) OR drop_bit (32 - i) (lo d)) (push_bit i (lo d))"

definition U64RSHIFT :: "Bits64 \<Rightarrow> nat \<Rightarrow> Bits64" where
  "U64RSHIFT d i = Bits64 (drop_bit i (hi d)) (drop_bit i (lo d) OR push_bit (32 - i) (hi d))"

definition U64ADD32 :: "Bits64 \<Rightarrow> u32 \<Rightarrow> Bits64" where
  "U64ADD32 a i = Bits64
    (if (lo a XOR i) AND SIGN \<noteq> 0
     then (if (lo a + i) AND SIGN = 0 then hi a + 1 else hi a)
     else if lo a AND i AND SIGN \<noteq> 0 then hi a + 1 else hi a)
    (lo a + i)"

definition U64ADD :: "Bits64 \<Rightarrow> Bits64 \<Rightarrow> Bits64" where
  "U64ADD a b = (let a = U64ADD32 a (lo b) in Bits64 (hi a + hi b) (lo a))"

definition U64SUB :: "Bits64 \<Rightarrow> Bits64 \<Rightarrow> Bits64" where
  "U64SUB a b =
    (let a = U64ADD32 a (NOT (lo b));
         a = Bits64 (hi a + NOT (hi b)) (lo a)
     in U64ADD32 a 1)"

definition U64NEGATE :: "Bits64 \<Rightarrow> Bits64" where
  "U64NEGATE s = U64ADD32 (Bits64 (NOT (hi s)) (NOT (lo s))) 1"

definition U64IADD :: "Bits64 \<Rightarrow> u32 \<Rightarrow> Bits64" where
  "U64IADD add1 i =
    (let s = lo add1 AND SIGN \<noteq> 0;
         l = i + lo add1;
         h = hi add1
     in if s \<noteq> (sint i < 0)
        then let h = (if sint i < 0 then h - 1 else h);
                 h = (if l AND SIGN = 0 then h + 1 else h)
             in Bits64 h l
        else Bits64 h l)"

section \<open>Products\<close>

definition uemul :: "u32 \<Rightarrow> u32 \<Rightarrow> Bits64" where
  "uemul u v =
    (let u1 = drop_bit 16 u; u2 = u AND 0xffff; v1 = drop_bit 16 v; v2 = v AND 0xffff;
         temp = u2 * v2;
         l = temp AND 0xffff;
         temp = u1 * v2 + drop_bit 16 temp;
         h = drop_bit 16 temp;
         temp = u2 * v1 + (temp AND 0xffff);
         l = l + push_bit 16 (temp AND 0xffff);
         h = h + (u1 * v1 + drop_bit 16 temp)
     in Bits64 h l)"

definition emul :: "u32 \<Rightarrow> u32 \<Rightarrow> Bits64" where
  "emul u v =
    (let p = uemul u v;
         h = (if sint u < 0 then hi p - v else hi p);
         h = (if sint v < 0 then h - u else h)
     in Bits64 h (lo p))"

definition U64IMUL :: "Bits64 \<Rightarrow> u32 \<Rightarrow> Bits64" where
  "U64IMUL num i =
    (let r = uemul (lo num) i;
         h = hi r + hi num * i;
         h = (if sint i < 0 then h - lo num else h)
     in Bits64 h (lo r))"

datatype Bits128 = Bits128 (hihi: u32) (hilo: u32) (lohi: u32) (lolo: u32)

definition ueemul :: "Bits64 \<Rightarrow> Bits64 \<Rightarrow> Bits128" where
  "ueemul u v =
    (let temp = uemul (lo u) (lo v);
         ll = lo temp;
         temp2 = uemul (hi u) (lo v);
         temp2 = U64IADD temp2 (hi temp);
         hl = hi temp2;
         temp = uemul (lo u) (hi v);
         temp = U64IADD temp (lo temp2);
         lh = lo temp;
         temp2 = uemul (hi u) (hi v);
         temp2 = U64IADD temp2 (hi temp);
         temp2 = U64IADD temp2 hl
     in Bits128 (hi temp2) (lo temp2) lh ll)"

section \<open>Quotients\<close>

text \<open>
  The loops of \<open>uediv\<close>.  \<open>div_norm\<close> shifts the divisor until its top bit is set and the dividend along with it;
  \<open>None\<close> is the early return -1.  \<open>uediv\<close> has found the divisor to be nonzero: the test for 0 only makes the
  loops total.
\<close>

function div_norm :: "u32 \<Rightarrow> u32 \<Rightarrow> u32 \<Rightarrow> (u32 \<times> u32 \<times> u32) option" where
  "div_norm v uhigh ulow =
    (if v AND SIGN \<noteq> 0 \<or> v = 0 then Some (v, uhigh, ulow)
     else if uhigh AND SIGN \<noteq> 0 then None
     else div_norm (push_bit 1 v) (push_bit 1 uhigh OR drop_bit 31 ulow) (push_bit 1 ulow))"
  by pat_completeness auto

function div_unnorm :: "u32 \<Rightarrow> u32 \<Rightarrow> u32" where
  "div_unnorm v uhigh =
    (if v AND SIGN \<noteq> 0 \<or> v = 0 then uhigh else div_unnorm (push_bit 1 v) (drop_bit 1 uhigh))"
  by pat_completeness auto

text \<open>Step D3: the trial digit is too large as long as the first two digits of the divisor show it.\<close>

function trial_loop :: "u32 \<Rightarrow> u32 \<Rightarrow> u32 \<Rightarrow> u32 \<Rightarrow> u32 \<Rightarrow> u32" where
  "trial_loop v1 v2 uhigh u3 trial =
    (if (uhigh - v1 * trial) AND 0xffff0000 = 0 \<and>
        v2 * trial > push_bit 16 (uhigh - v1 * trial) + u3
     then trial_loop v1 v2 uhigh u3 (trial - 1) else trial)"
  by pat_completeness auto

lemma double: "unat v < 2147483648 \<Longrightarrow> unat (v * 2) = unat v * 2" for v :: u32
  by (simp add: unat_word_ariths)

lemma not_normalized: "v AND SIGN = 0 \<Longrightarrow> v \<noteq> 0 \<Longrightarrow> unat v < 2147483648 \<and> 0 < unat v"
  by (auto simp: sign_bit_tests bit31_iff word_greater_zero_iff unat_gt_0)

lemma double_measure: "v AND SIGN = 0 \<Longrightarrow> v \<noteq> 0 \<Longrightarrow> 4294967296 - unat (v * 2) < 4294967296 - unat v"
  using not_normalized [of v] double [of v] by (intro diff_less_mono2) auto

termination div_norm
  by (relation "measure (\<lambda>(v, _, _). 4294967296 - unat v)") (auto simp: double_measure)
termination div_unnorm
  by (relation "measure (\<lambda>(v, _). 4294967296 - unat v)") (auto simp: double_measure)
termination trial_loop
proof (relation "measure (\<lambda>(v1, v2, uhigh, u3, trial). unat trial)")
  fix v1 v2 uhigh u3 trial :: u32
  assume "(uhigh - v1 * trial) AND 0xffff0000 = 0 \<and> v2 * trial > push_bit 16 (uhigh - v1 * trial) + u3"
  then have "trial \<noteq> 0" by (metis mult_zero_right word_not_simps(1))
  then show "((v1, v2, uhigh, u3, trial - 1), (v1, v2, uhigh, u3, trial))
      \<in> measure (\<lambda>(v1, v2, uhigh, u3, trial). unat trial)"
    by (simp add: measure_unat)
qed simp
declare div_norm.simps [simp del] div_unnorm.simps [simp del] trial_loop.simps [simp del]

definition trial_digit :: "u32 \<Rightarrow> u32 \<Rightarrow> u32 \<Rightarrow> u32 \<Rightarrow> u32 \<Rightarrow> u32" where
  "trial_digit v1 v2 u1 uhigh u3 =
    trial_loop v1 v2 uhigh u3 (if u1 = v1 then 0xffff else uhigh div v1)"

text \<open>Step D4: multiply and subtract.\<close>

definition mult_sub :: "u32 \<Rightarrow> u32 \<Rightarrow> u32 \<Rightarrow> u32 \<Rightarrow> u32 \<Rightarrow> u32 \<times> u32" where
  "mult_sub v1 v2 trial u2 u3 =
    (let temp = v2 * trial;
         u3 = u3 - (temp AND 0xffff);
         (u2, u3) = (if u3 AND 0xffff0000 \<noteq> 0 then (u2 - 1, u3 AND 0xffff) else (u2, u3));
         u2 = u2 - (v1 * trial + drop_bit 16 temp)
     in (u2 AND 0xffff, u3))"

definition uediv :: "Bits64 \<Rightarrow> u32 \<Rightarrow> (u32 \<times> u32) option" where
  "uediv dividend divisor =
    (if divisor = 0 then None
     else case div_norm divisor (hi dividend) (lo dividend) of
       None \<Rightarrow> None
     | Some (v, uhigh, ulow) \<Rightarrow>
         let v1 = drop_bit 16 v; v2 = v AND 0xffff;
             u1 = drop_bit 16 uhigh; u2 = uhigh AND 0xffff;
             u3 = drop_bit 16 ulow; u4 = ulow AND 0xffff
         in if v \<le> uhigh then None
            else
              let q1 = trial_digit v1 v2 u1 uhigh u3;
                  (u2, u3) = mult_sub v1 v2 q1 u2 u3;
                  uhigh = push_bit 16 u2 + u3;
                  q2 = trial_digit v1 v2 u2 uhigh u4;
                  (u3, u4) = mult_sub v1 v2 q2 u3 u4
              in Some (push_bit 16 q1 + q2, div_unnorm divisor (push_bit 16 u3 + u4)))"

text \<open>
  \<open>ediv\<close> answers whether it succeeded, and the quot and the remainder; these are \<open>None\<close> when \<open>uediv\<close> failed and
  the caller is given variables that have never been written.
\<close>

definition ediv :: "Bits64 \<Rightarrow> u32 \<Rightarrow> bool \<times> (u32 \<times> u32) option" where
  "ediv dividend divisor =
    (let (negDividend, tempDividend) =
           (if hi dividend AND SIGN \<noteq> 0
            then let l = - lo dividend
                 in (True, Bits64 (if l \<noteq> 0 then NOT (hi dividend) else - hi dividend) l)
            else (False, dividend));
         negDivisor = (sint divisor < 0);
         tempDivisor = (if negDivisor then - divisor else divisor)
     in case uediv tempDividend tempDivisor of
          None \<Rightarrow> (False, None)
        | Some (quot, rest) \<Rightarrow>
            let remd = (if negDividend then - rest else rest)
            in if negDivisor \<noteq> negDividend
               then (\<not> sint (- quot) > 0, Some (- quot, remd))
               else (\<not> sint quot < 0, Some (quot, remd)))"

text \<open>The macro \<open>U64IDIV\<close> ignores the status of \<open>uediv\<close>; \<open>None\<close> is the use of a variable that was not written.\<close>

definition U64IDIV :: "Bits64 \<Rightarrow> u32 \<Rightarrow> (Bits64 \<times> u32) option" where
  "U64IDIV dividend i =
    (let negDividend = (hi dividend AND SIGN \<noteq> 0);
         l2 = (if negDividend then - lo dividend else lo dividend);
         l1 = (if negDividend then (if l2 AND 0xffffffff = 0 then NOT (hi dividend) + 1 else NOT (hi dividend))
               else hi dividend);
         d = (if sint i < 0 then - i else i)
     in do {
       (qh, r1) \<leftarrow> uediv (Bits64 0 l1) d;
       (ql, r2) \<leftarrow> uediv (Bits64 r1 l2) d;
       let (qh, ql) = (if negDividend \<noteq> (sint i < 0)
                       then (let ql' = - ql in (if ql' AND 0xffffffff = 0 then NOT qh + 1 else NOT qh, ql'))
                       else (qh, ql));
       Some (Bits64 qh ql, if negDividend then - r2 else r2)
     })"

section \<open>The names of \<^verbatim>\<open>utc_arith.h\<close>\<close>

definition UTCadd :: "UTCValue \<Rightarrow> UTCValue \<Rightarrow> UTCValue" where "UTCadd = U64ADD"
definition UTCsub :: "UTCValue \<Rightarrow> UTCValue \<Rightarrow> UTCValue" where "UTCsub = U64SUB"
definition UTCnegate :: "UTCValue \<Rightarrow> UTCValue" where "UTCnegate = U64NEGATE"
definition UTCiAdd :: "UTCValue \<Rightarrow> u32 \<Rightarrow> UTCValue" where "UTCiAdd = U64IADD"
definition UTCiMul :: "UTCValue \<Rightarrow> u32 \<Rightarrow> UTCValue" where "UTCiMul = U64IMUL"
definition UTCiDiv :: "UTCValue \<Rightarrow> u32 \<Rightarrow> (UTCValue \<times> u32) option" where "UTCiDiv = U64IDIV"
definition UTCdivideBy2 :: "UTCValue \<Rightarrow> UTCValue" where "UTCdivideBy2 a = U64RSHIFT a 1"
definition UTCzero :: UTCValue where "UTCzero = Bits64 0 0"
definition IsUTClt :: "UTCValue \<Rightarrow> UTCValue \<Rightarrow> bool" where "IsUTClt a b \<longleftrightarrow> U64CMP a b < 0"
definition IsUTCgt :: "UTCValue \<Rightarrow> UTCValue \<Rightarrow> bool" where "IsUTCgt a b \<longleftrightarrow> U64CMP a b = 1"
definition IsUTCle :: "UTCValue \<Rightarrow> UTCValue \<Rightarrow> bool" where "IsUTCle a b \<longleftrightarrow> U64CMP a b \<le> 0"
definition IsUTCge :: "UTCValue \<Rightarrow> UTCValue \<Rightarrow> bool" where "IsUTCge a b \<longleftrightarrow> U64CMP a b \<ge> 0"
definition IsUTCeq :: "UTCValue \<Rightarrow> UTCValue \<Rightarrow> bool" where "IsUTCeq a b \<longleftrightarrow> U64EQUAL a b"
definition IsUTCzero :: "UTCValue \<Rightarrow> bool" where "IsUTCzero a \<longleftrightarrow> U64ISZERO a"
definition IsUTCneg :: "UTCValue \<Rightarrow> bool" where "IsUTCneg a \<longleftrightarrow> U64ISNEG a"

definition UTCabsVal :: "UTCValue \<Rightarrow> UTCValue" where
  "UTCabsVal a = (if U64ISNEG a then UTCsub UTCzero a else a)"

text \<open>Inaccuracies have 48 bits; all bits set, and anything above, stands for an infinite one (\<^verbatim>\<open>dtssdef.h\<close>).\<close>

definition infiniteInacc :: ExtInacc where "infiniteInacc = Bits64 0xffff 0xffffffff"

definition IsInfiniteInacc :: "ExtInacc \<Rightarrow> bool" where
  "IsInfiniteInacc a \<longleftrightarrow> lo a = 0xffffffff \<and> hi a \<ge> 0xffff \<or> hi a > 0xffff"

section \<open>The pairs as 64 bit words\<close>

definition w64 :: "Bits64 \<Rightarrow> u64" where
  "w64 a = ucast (hi a) * 4294967296 + ucast (lo a)"

definition uval :: "Bits64 \<Rightarrow> int" where "uval a = uint (w64 a)"

definition sval :: "Bits64 \<Rightarrow> int" where "sval a = sint (w64 a)"

lemma uint_u32: "0 \<le> uint x" "uint x < 4294967296" for x :: u32
  using unsigned_greater_eq [of x] unsigned_less [of x, where ?'a = int] by simp_all

lemma uint_u64: "0 \<le> uint x" "uint x < 18446744073709551616" for x :: u64
  using unsigned_greater_eq [of x] unsigned_less [of x, where ?'a = int] by simp_all

lemma uint_ucast_u64 [simp]: "uint (ucast x :: u64) = uint x" for x :: u32
  using uint_u32 [of x] by (simp add: uint_up_ucast is_up)

lemma bit31_uint: "bit x 31 \<longleftrightarrow> 2147483648 \<le> uint x" for x :: u32
  unfolding bit31_iff uint_nat by linarith

lemma sint_u32: "sint x = (if 2147483648 \<le> uint x then uint x - 4294967296 else uint x)" for x :: u32
  using uint_u32 [of x] bit31_uint [of x]
  by (simp add: sint_uint signed_take_bit_eq_take_bit_minus take_bit_int_eq_self bit_uint_iff)

lemma sint_u64: "sint x = (if 9223372036854775808 \<le> uint x then uint x - 18446744073709551616 else uint x)" for x :: u64
proof -
  have "bit x 63 \<longleftrightarrow> odd (uint x div 9223372036854775808)"
    using bit_iff_odd [of "uint x" 63] by (simp add: bit_uint_iff)
  moreover have "uint x div 9223372036854775808 = (if 9223372036854775808 \<le> uint x then 1 else 0)"
    using uint_u64 [of x] by auto
  ultimately have "bit x 63 \<longleftrightarrow> 9223372036854775808 \<le> uint x"
    by (simp split: if_splits)
  then show ?thesis
    using uint_u64 [of x]
    by (simp add: sint_uint signed_take_bit_eq_take_bit_minus take_bit_int_eq_self bit_uint_iff)
qed

lemma sval_uval: "sval a = (if 9223372036854775808 \<le> uval a then uval a - 18446744073709551616 else uval a)"
  by (simp add: sval_def uval_def sint_u64)

lemma uval_pair: "uval a = uint (hi a) * 4294967296 + uint (lo a)"
  using uint_u32 [of "hi a"] uint_u32 [of "lo a"] by (simp add: uval_def w64_def uint_word_ariths)

lemma high_times: "(a mod 4294967296) * 4294967296 = (a * 4294967296) mod 18446744073709551616" for a :: int
  using mult_mod_right [of 4294967296 a 4294967296] by (simp add: mult.commute)

text \<open>The high word is added, multiplied and complemented modulo \<open>2\<^sup>3\<^sup>2\<close>, the low word with a carry.\<close>

lemma high_add: "ucast (a + b) * 4294967296 = (ucast a * 4294967296 + ucast b * 4294967296 :: u64)" for a b :: u32
  by (rule word_uint_eqI) (simp add: uint_word_ariths high_times mod_simps distrib_right)

lemma high_mult: "ucast (a * b) * 4294967296 = (ucast a * 4294967296 * ucast b :: u64)" for a b :: u32
  by (rule word_uint_eqI)
    (simp add: uint_word_ariths high_times mod_simps mult.assoc mult.commute [of 4294967296 "uint b"])

lemma high_uminus: "ucast (- a) * 4294967296 = (- (ucast a * 4294967296) :: u64)" for a :: u32
  by (rule word_uint_eqI) (simp add: uint_word_ariths high_times mod_simps)

lemma not_minus: "NOT a = - 1 - a" for a :: "'a :: len word"
  by (simp add: not_eq_complement)

lemma high_minus: "ucast (a - b) * 4294967296 = (ucast a * 4294967296 - ucast b * 4294967296 :: u64)" for a b :: u32
  using high_add [of a "- b"] by (simp add: high_uminus)

lemma high_not: "ucast (NOT a) * 4294967296 = (- (ucast a * 4294967296) - 4294967296 :: u64)" for a :: u32
  by (simp only: not_minus high_minus high_uminus) simp

lemma uint_not: "uint (NOT a) = 4294967295 - uint a" for a :: u32
  using uint_u32 [of a]
  by (simp add: not_minus uint_sub_if' unsigned_minus_1_eq_mask mask_eq_exp_minus_1)

lemma low_not: "ucast (NOT a) = (4294967295 - ucast a :: u64)" for a :: u32
  by (rule word_uint_eqI) (use uint_u32 [of a] in \<open>simp add: uint_not uint_sub_if'\<close>)

lemma low_add: "ucast (a + b) = (ucast a + ucast b - (if 4294967296 \<le> uint a + uint b then 4294967296 else 0) :: u64)"
  for a b :: u32
  by (rule word_uint_eqI) (use uint_u32 [of a] uint_u32 [of b] in \<open>simp add: uint_plus_if' uint_sub_if'\<close>)

lemma mod_wrap: "- 18446744073709551616 \<le> x \<Longrightarrow> x < 0 \<Longrightarrow> x mod 18446744073709551616 = x + 18446744073709551616" for x :: int
  using mod_add_self2 [of x 18446744073709551616] mod_pos_pos_trivial [of "x + 18446744073709551616" 18446744073709551616]
  by linarith

lemma low_scast: "(scast i :: u64) = ucast i - (if sint i < 0 then 4294967296 else 0)" for i :: u32
proof (rule word_uint_eqI)
  have "uint (scast i :: u64) = sint i mod 18446744073709551616"
    by (simp only: scast_eq uint_word_of_int) simp
  then show "uint (scast i :: u64) = uint (ucast i - (if sint i < 0 then 4294967296 else 0) :: u64)"
    using uint_u32 [of i] by (simp add: sint_u32 uint_sub_if' mod_wrap)
qed

lemma carry_xor: "(x XOR y) AND SIGN = 0 \<longleftrightarrow> (2147483648 \<le> uint x \<longleftrightarrow> 2147483648 \<le> uint y)" for x y :: u32
  unfolding sign_bit_tests(1) bit_xor_iff unfolding bit31_uint by blast

lemma carry_and: "x AND y AND SIGN = 0 \<longleftrightarrow> \<not> (2147483648 \<le> uint x \<and> 2147483648 \<le> uint y)" for x y :: u32
  unfolding and.assoc [symmetric] sign_bit_tests(1) bit_and_iff unfolding bit31_uint by blast

lemma sign_clear: "x AND SIGN = 0 \<longleftrightarrow> uint x < 2147483648" for x :: u32
  unfolding sign_bit_tests(1) bit31_uint by linarith

section \<open>Sums, differences and products\<close>

lemma w64_add32: "w64 (U64ADD32 a i) = w64 a + ucast i"
proof -
  have "hi (U64ADD32 a i) = hi a + (if 4294967296 \<le> uint (lo a) + uint i then 1 else 0)"
    using uint_u32 [of "lo a"] uint_u32 [of i]
    unfolding U64ADD32_def unfolding carry_xor carry_and unfolding sign_clear
    by (auto simp: uint_plus_if') (use uint_u32 [of "lo a"] uint_u32 [of i] in linarith)+
  then show ?thesis by (simp add: w64_def high_add low_add U64ADD32_def)
qed

lemma w64_add [simp]: "w64 (UTCadd a b) = w64 a + w64 b"
  using w64_add32 [of a "lo b"]
  by (simp add: UTCadd_def U64ADD_def Let_def w64_def high_add)

lemma w64_sub [simp]: "w64 (UTCsub a b) = w64 a - w64 b"
proof -
  define s where "s = U64ADD32 a (NOT (lo b))"
  have "w64 (UTCsub a b) = ucast (hi s + NOT (hi b)) * 4294967296 + ucast (lo s) + 1"
    by (simp add: UTCsub_def U64SUB_def Let_def w64_add32 s_def [symmetric]) (simp add: w64_def)
  also have "\<dots> = w64 s + ucast (NOT (hi b)) * 4294967296 + 1"
    by (simp add: w64_def high_add)
  also have "w64 s = w64 a + ucast (NOT (lo b))" unfolding s_def by (rule w64_add32)
  finally show ?thesis by (simp add: high_not low_not) (simp add: w64_def)
qed

lemma w64_negate [simp]: "w64 (UTCnegate a) = - w64 a"
  by (simp add: UTCnegate_def U64NEGATE_def w64_add32) (simp add: w64_def high_not low_not)

lemma w64_iadd [simp]: "w64 (UTCiAdd a i) = w64 a + scast i"
  using uint_u32 [of "lo a"] uint_u32 [of i]
  by (auto simp: UTCiAdd_def U64IADD_def Let_def w64_def high_add high_minus low_add low_scast
      sign_clear uint_plus_if' sint_u32)
    (use uint_u32 [of "lo a"] uint_u32 [of i] in linarith)+

lemma wrap_64: "18446744073709551616 * x = 0" "x * 18446744073709551616 = 0" "(18446744073709551616 :: u64) = 0" for x :: u64
proof -
  show *: "(18446744073709551616 :: u64) = 0" by simp
  show "18446744073709551616 * x = 0" "x * 18446744073709551616 = 0" unfolding * by simp_all
qed

lemma w64_uemul: "w64 (uemul u v) = ucast u * ucast v"
proof -
  have "unat (lo (uemul u v)) + 4294967296 * unat (hi (uemul u v)) = unat u * unat v"
    using knuth_product [of u v] by (simp add: uemul_def Let_def)
  then have "int (unat (lo (uemul u v)) + 4294967296 * unat (hi (uemul u v))) = int (unat u * unat v)"
    by (rule arg_cong)
  then have *: "uint (hi (uemul u v)) * 4294967296 + uint (lo (uemul u v)) = uint u * uint v"
    by (simp only: of_nat_add of_nat_mult uint_nat of_nat_numeral add.commute mult.commute [of 4294967296])
  have "uint (w64 (uemul u v)) = (uint u * uint v) mod 18446744073709551616"
    unfolding * [symmetric] by (simp add: w64_def uint_word_ariths mod_simps)
  also have "\<dots> = uint (ucast u * ucast v :: u64)" by (simp add: uint_word_ariths)
  finally show ?thesis by (rule word_uint_eqI)
qed

lemma w64_emul [simp]: "w64 (emul u v) = scast u * scast v"
  using w64_uemul [of u v]
  by (auto simp: emul_def Let_def w64_def high_minus low_scast wrap_64 algebra_simps)

lemma w64_imul [simp]: "w64 (UTCiMul a i) = w64 a * scast i"
  using w64_uemul [of "lo a" i]
  by (auto simp: UTCiMul_def U64IMUL_def Let_def w64_def high_add high_minus high_mult low_scast wrap_64 algebra_simps)

lemma w64_zero [simp]: "w64 UTCzero = 0"
  by (simp add: w64_def UTCzero_def)

section \<open>Order and halves\<close>

lemma sval_pair: "sval a = sint (hi a) * 4294967296 + uint (lo a)"
proof -
  define h l where "h = uint (hi a)" "l = uint (lo a)"
  have b: "0 \<le> h" "h < 4294967296" "0 \<le> l" "l < 4294967296"
    using uint_u32 unfolding h_l_def by simp_all
  show ?thesis
    unfolding sval_uval uval_pair sint_u32 h_l_def [symmetric] using b by simp
qed

lemma Bits64_eqI: "w64 a = w64 b \<Longrightarrow> a = b"
proof -
  assume "w64 a = w64 b"
  then have "uint (hi a) * 4294967296 + uint (lo a) = uint (hi b) * 4294967296 + uint (lo b)"
    unfolding uval_pair [symmetric] uval_def by simp
  then have "uint (hi a) = uint (hi b) \<and> uint (lo a) = uint (lo b)"
    using uint_u32 [of "lo a"] uint_u32 [of "lo b"]
    by (cases "uint (hi a)" "uint (hi b)" rule: linorder_cases) linarith+
  then show "a = b" by (intro Bits64.expand conjI word_uint_eqI) simp_all
qed

lemma w64_inject: "w64 a = w64 b \<longleftrightarrow> a = b" by (auto intro: Bits64_eqI)
lemma uval_inject: "uval a = uval b \<longleftrightarrow> a = b" using word_uint_eqI Bits64_eqI unfolding uval_def by blast
lemma sval_inject: "sval a = sval b \<longleftrightarrow> a = b" using signed_word_eqI Bits64_eqI unfolding sval_def by blast

lemma uval_bounds: "0 \<le> uval a" "uval a < 18446744073709551616"
  by (simp_all add: uval_def uint_u64)

lemma sval_bounds: "- 9223372036854775808 \<le> sval a" "sval a < 9223372036854775808"
  using uval_bounds [of a] by (simp_all add: sval_uval)

lemma U64CMP_sval: "U64CMP a b = cmp_int (sval a) (sval b)"
  by (auto simp: U64CMP_def cmp_int_def sval_pair word_less_def)
    (use uint_u32 [of "lo a"] uint_u32 [of "lo b"] in linarith)+

lemma IsUTCneg_sval: "IsUTCneg a \<longleftrightarrow> sval a < 0"
proof -
  have "IsUTCneg a \<longleftrightarrow> 2147483648 \<le> uint (hi a)"
    by (simp add: IsUTCneg_def U64ISNEG_def sign_clear not_less)
  also have "\<dots> \<longleftrightarrow> sval a < 0"
  proof (cases "2147483648 \<le> uint (hi a)")
    case True
    then have "sval a = (uint (hi a) - 4294967296) * 4294967296 + uint (lo a)" by (simp add: sval_pair sint_u32)
    then have "sval a < 0" using uint_u32 [of "hi a"] uint_u32 [of "lo a"] by simp
    with True show ?thesis by simp
  next
    case False
    then have "sval a = uint (hi a) * 4294967296 + uint (lo a)" by (simp add: sval_pair sint_u32)
    then have "\<not> sval a < 0" using uint_u32 [of "hi a"] uint_u32 [of "lo a"] by linarith
    with False show ?thesis by simp
  qed
  finally show ?thesis .
qed

lemma sval_zero [simp]: "sval UTCzero = 0"
  by (simp add: sval_def)

lemma compare_simps [simp]:
  "IsUTClt a b \<longleftrightarrow> sval a < sval b" "IsUTCgt a b \<longleftrightarrow> sval b < sval a"
  "IsUTCle a b \<longleftrightarrow> sval a \<le> sval b" "IsUTCge a b \<longleftrightarrow> sval b \<le> sval a"
  "IsUTCeq a b \<longleftrightarrow> a = b" "IsUTCzero a \<longleftrightarrow> sval a = 0" "IsUTCneg a \<longleftrightarrow> sval a < 0"
proof -
  show "IsUTCeq a b \<longleftrightarrow> a = b"
    by (auto simp: IsUTCeq_def U64EQUAL_def Bits64.expand)
  have "IsUTCzero a \<longleftrightarrow> a = UTCzero"
    by (auto simp: IsUTCzero_def U64ISZERO_def UTCzero_def Bits64.expand)
  then show "IsUTCzero a \<longleftrightarrow> sval a = 0"
    using sval_inject [of a UTCzero] by simp
  show "IsUTCneg a \<longleftrightarrow> sval a < 0" by (rule IsUTCneg_sval)
qed (simp_all add: IsUTClt_def IsUTCgt_def IsUTCle_def IsUTCge_def U64CMP_sval cmp_int_def not_less)

lemma uval_half: "uval (UTCdivideBy2 a) = uval a div 2"
proof -
  have d: "uint (drop_bit 1 x) = uint x div 2" for x :: u32
    by (simp only: unsigned_drop_bit_eq)
      (use uint_u32 [of x] in \<open>simp add: drop_bit_eq_div take_bit_int_eq_self\<close>)
  have p: "uint (push_bit 31 (hi a)) = (uint (hi a) mod 2) * 2147483648"
    using mult_mod_right [of 2147483648 "uint (hi a)" 2]
    by (simp add: push_bit_eq_mult uint_word_ariths mult.commute)
  have "drop_bit 1 (lo a) OR push_bit 31 (hi a) = drop_bit 1 (lo a) + push_bit 31 (hi a)"
    by (rule disjunctive_add [symmetric]) (auto simp: bit_simps dest: bit_imp_le_length)
  then have "uint (drop_bit 1 (lo a) OR push_bit 31 (hi a)) = uint (lo a) div 2 + (uint (hi a) mod 2) * 2147483648"
    using uint_u32 [of "lo a"] p d [of "lo a"] by (simp add: uint_plus_if')
  moreover have "(uint (hi a) * 4294967296 + uint (lo a)) div 2 = uint (hi a) * 2147483648 + uint (lo a) div 2"
    using div_mult_self1 [of 2 "uint (lo a)" "uint (hi a) * 2147483648"] by simp
  moreover have "uint (hi a) div 2 * 4294967296 + uint (hi a) mod 2 * 2147483648 = uint (hi a) * 2147483648"
    using div_mult_mod_eq [of "uint (hi a)" 2] by linarith
  ultimately show ?thesis
    using d [of "hi a"] by (simp add: uval_pair UTCdivideBy2_def U64RSHIFT_def)
qed

lemma infinite_uval: "IsInfiniteInacc a \<longleftrightarrow> 281474976710655 \<le> uval a"
proof -
  define h l where "h = uint (hi a)" "l = uint (lo a)"
  have b: "0 \<le> h" "h < 4294967296" "0 \<le> l" "l < 4294967296"
    using uint_u32 unfolding h_l_def by simp_all
  have "IsInfiniteInacc a \<longleftrightarrow> l = 4294967295 \<and> 65535 \<le> h \<or> 65535 < h"
    by (simp add: IsInfiniteInacc_def word_less_def word_le_def word_uint_eq_iff h_l_def)
  then show ?thesis
    unfolding uval_pair h_l_def [symmetric] using b by (cases "65535 < h") (simp_all, linarith+)
qed

end
