(* ===== verification/Dts_Div.thy ===== *)
theory Dts_Div
  imports Dts_Arith
begin

text \<open>
  The divisions of \<^verbatim>\<open>time/common/arith.c\<close> and \<^verbatim>\<open>utc_arith.h\<close> are those of the integers: \<open>uediv\<close> is Knuth's
  algorithm D for two digits of 16 bits, \<open>ediv\<close> and \<open>U64IDIV\<close> divide signed numbers with it.
\<close>

section \<open>The long division\<close>

text \<open>Knuth's digit: the loop over the trial digit ends at the digit of the quotient.\<close>

lemma trial_start:
  fixes U v1 v2 u3 :: nat
  assumes v1: "32768 \<le> v1" "v1 < 65536" and small: "v2 < 65536" "u3 < 65536"
    and U: "U < v1 * 65536 + v2"
  defines "q \<equiv> (U * 65536 + u3) div (v1 * 65536 + v2)"
    and "t \<equiv> if U div 65536 = v1 then 65535 else U div v1"
  shows "q \<le> t \<and> t < 65536 \<and> v1 * t \<le> U"
proof -
  have "q * (v1 * 65536 + v2) \<le> U * 65536 + u3"
    unfolding q_def by (metis div_times_less_eq_dividend)
  then have "q * v1 * 65536 \<le> U * 65536 + u3" by (simp add: distrib_left mult.assoc)
  then have "q * v1 \<le> U" using small by linarith
  then have q1: "q \<le> U div v1" using v1 by (simp add: less_eq_div_iff_mult_less_eq)
  have "U * 65536 + u3 < 65536 * (v1 * 65536 + v2)" using U small by (simp add: algebra_simps)
  then have q2: "q < 65536" unfolding q_def using v1 by (simp add: less_mult_imp_div_less)
  show ?thesis
  proof (cases "U div 65536 = v1")
    case True
    then have "v1 * 65536 \<le> U" by (metis div_times_less_eq_dividend)
    with True q2 show ?thesis unfolding t_def by simp
  next
    case False
    have "U div 65536 \<le> v1"
      using U small by (simp add: div_le_mono less_mult_imp_div_less less_Suc_eq_le [symmetric])
    with False have "U div 65536 < v1" by simp
    then have "U < v1 * 65536" by (simp add: div_less_iff_less_mult)
    then have "U div v1 < 65536" by (simp add: less_mult_imp_div_less mult.commute)
    with False q1 show ?thesis unfolding t_def by (simp add: mult.commute div_times_less_eq_dividend)
  qed
qed
lemma high_clear: "x AND 0xffff0000 = 0 \<longleftrightarrow> unat x < 65536" for x :: u32
proof -
  have B: "(0xffff0000 :: u32) = push_bit 16 (mask 16)"
    by (simp add: mask_eq_exp_minus_1 push_bit_eq_mult)
  have "x AND 0xffff0000 = push_bit 16 (drop_bit 16 x)"
    unfolding B by (rule bit_word_eqI) (auto simp: bit_simps)
  also have "\<dots> = 0 \<longleftrightarrow> unat x div 65536 = 0"
    using unat_push_low [of "drop_bit 16 x"] unat_u32_less [of x]
    by (simp only: unat_shift_high unat_eq_0 [symmetric]) (simp add: less_mult_imp_div_less)
  finally show ?thesis by auto
qed


lemma trial_test:
  fixes v1 v2 uhigh u3 t :: u32
  assumes small: "unat v1 < 65536" "unat v2 < 65536" "unat u3 < 65536"
    and t: "unat t < 65536" "unat v1 * unat t \<le> unat uhigh"
  shows "(uhigh - v1 * t) AND 0xffff0000 = 0 \<and> v2 * t > push_bit 16 (uhigh - v1 * t) + u3 \<longleftrightarrow>
    unat uhigh * 65536 + unat u3 < (unat v1 * 65536 + unat v2) * unat t"
proof -
  have m: "unat (v1 * t) = unat v1 * unat t" "unat (v2 * t) = unat v2 * unat t"
    using half_bound [OF small(1) t(1), of 0] half_bound [OF small(2) t(1), of 0] by (simp_all add: unat_mult_u32)
  define r where "r = unat uhigh - unat v1 * unat t"
  have r: "unat (uhigh - v1 * t) = r" using t m by (simp add: r_def unat_sub_if')
  have U: "unat uhigh = r + unat v1 * unat t" using t by (simp add: r_def)
  have *: "unat uhigh * 65536 + unat u3 < (unat v1 * 65536 + unat v2) * unat t \<longleftrightarrow>
      r * 65536 + unat u3 < unat v2 * unat t"
    unfolding U by (simp add: algebra_simps)
  show ?thesis
  proof (cases "r < 65536")
    case True
    then have "unat (push_bit 16 (uhigh - v1 * t)) = r * 65536" by (simp add: unat_push_low r)
    moreover have "r * 65536 + unat u3 < 4294967296" using True small by simp
    ultimately have "unat (push_bit 16 (uhigh - v1 * t) + u3) = r * 65536 + unat u3"
      by (simp add: unat_plus_u32)
    with True show ?thesis unfolding * high_clear by (simp add: word_less_nat_alt r m)
  next
    case False
    have "unat v2 * unat t < 4294967296" using half_bound [OF small(2) t(1), of 0] by simp
    with False have "\<not> r * 65536 + unat u3 < unat v2 * unat t" by simp
    with False show ?thesis unfolding * high_clear by (simp add: r)
  qed
qed

lemma trial_loop_ok:
  fixes v1 v2 uhigh u3 t :: u32
  defines "V \<equiv> unat v1 * 65536 + unat v2" and "N \<equiv> unat uhigh * 65536 + unat u3"
  assumes small: "unat v1 < 65536" "unat v2 < 65536" "unat u3 < 65536" and V: "0 < V"
    and t: "N div V \<le> unat t" "unat t < 65536" "unat v1 * unat t \<le> unat uhigh"
  shows "unat (trial_loop v1 v2 uhigh u3 t) = N div V"
  using t
proof (induction "unat t" arbitrary: t rule: less_induct)
  case less
  note test = trial_test [OF small less.prems(2,3), folded V_def N_def]
  show ?case
  proof (cases "N < V * unat t")
    case True
    then have q: "N div V < unat t" using V by (simp add: div_less_iff_less_mult mult.commute)
    then have t1: "unat (t - 1) = unat t - 1" by (intro unat_minus_one) auto
    have "unat v1 * (unat t - 1) \<le> unat uhigh"
      using less.prems(3) mult_le_mono2 [of "unat t - 1" "unat t" "unat v1"] by linarith
    with less.prems t1 q have "unat (trial_loop v1 v2 uhigh u3 (t - 1)) = N div V"
      by (intro less.hyps) simp_all
    with True show ?thesis using test by (subst trial_loop.simps) simp
  next
    case False
    then have "unat t \<le> N div V" using V by (simp add: less_eq_div_iff_mult_less_eq mult.commute)
    with False less.prems show ?thesis using test by (subst trial_loop.simps) auto
  qed
qed

lemma trial_digit_ok:
  fixes v1 v2 uhigh u3 :: u32
  defines "V \<equiv> unat v1 * 65536 + unat v2" and "N \<equiv> unat uhigh * 65536 + unat u3"
  assumes small: "32768 \<le> unat v1" "unat v1 < 65536" "unat v2 < 65536" "unat u3 < 65536" and U: "unat uhigh < V"
    and u1: "unat u1 = unat uhigh div 65536"
  shows "unat (trial_digit v1 v2 u1 uhigh u3) = N div V" and "N div V < 65536" and "unat v1 * (N div V) \<le> unat uhigh"
proof -
  define t where "t = (if unat uhigh div 65536 = unat v1 then 65535 else unat uhigh div unat v1)"
  have start: "N div V \<le> t \<and> t < 65536 \<and> unat v1 * t \<le> unat uhigh"
    unfolding V_def N_def t_def using trial_start [OF small U [unfolded V_def]] .
  have "unat (if u1 = v1 then 0xffff else uhigh div v1) = t"
    by (auto simp: t_def u1 unat_div word_unat_eq_iff)
  with start show "unat (trial_digit v1 v2 u1 uhigh u3) = N div V"
    unfolding trial_digit_def V_def N_def using small
    by (intro trial_loop_ok) (simp_all add: V_def N_def)
  show "N div V < 65536" using start by simp
  have "unat v1 * (N div V) \<le> unat v1 * t" using start by simp
  with start show "unat v1 * (N div V) \<le> unat uhigh" by linarith
qed

text \<open>Subtracting the product of the digit and the divisor leaves the remainder in two halves.\<close>

lemma uint_and_low: "uint (x AND 0xffff) = uint x mod 65536" for x :: u32
  by (simp only: uint_nat unat_and_low of_nat_mod of_nat_numeral)

lemma uint_shift_high: "uint (drop_bit 16 x) = uint x div 65536" for x :: u32
  by (simp only: uint_nat unat_shift_high of_nat_div of_nat_numeral)

lemma low16:
  fixes x y :: u32
  shows "uint (x + y) mod 65536 = (uint x + uint y) mod 65536"
    and "uint (x - y) mod 65536 = (uint x - uint y) mod 65536"
  by (simp_all add: uint_word_ariths mod_mod_cancel)

lemma mult_sub_ok:
  fixes v1 v2 u2 u3 t uhigh :: u32
  defines "V \<equiv> uint v1 * 65536 + uint v2" and "N \<equiv> uint uhigh * 65536 + uint u3"
  assumes small: "unat v1 < 65536" "unat v2 < 65536" "unat u3 < 65536" and V: "V < 4294967296" "0 < V"
    and u2: "uint u2 = uint uhigh mod 65536"
    and t: "uint t = N div V" "unat t < 65536"
  shows "mult_sub v1 v2 t u2 u3 = (a, b) \<Longrightarrow> uint a = N mod V div 65536 \<and> uint b = N mod V mod 65536"
proof -
  assume ab: "mult_sub v1 v2 t u2 u3 = (a, b)"
  define p where "p = uint v2 * uint t"
  define c :: int where "c = (if uint u3 < p mod 65536 then 1 else 0)"
  define L where "L = uint u3 - p mod 65536 + c * 65536"
  define H where "H = uint uhigh - uint v1 * uint t - p div 65536 - c"
  have pn: "unat (v1 * t) = unat v1 * unat t" "unat (v2 * t) = unat v2 * unat t"
    using half_bound [OF small(1) t(2), of 0] half_bound [OF small(2) t(2), of 0] by (simp_all add: unat_mult_u32)
  have p: "uint (v2 * t) = p" "uint (v1 * t) = uint v1 * uint t"
    unfolding p_def by (simp_all only: uint_nat pn of_nat_mult)
  have u3: "0 \<le> uint u3" "uint u3 < 65536" using small(3) unfolding uint_nat by linarith+
  have pm: "0 \<le> p mod 65536" "p mod 65536 < 65536" by simp_all
  have c: "c = 0 \<and> p mod 65536 \<le> uint u3 \<or> c = 1 \<and> uint u3 < p mod 65536"
    by (auto simp: c_def)
  have L: "0 \<le> L" "L < 65536" using u3 pm c unfolding L_def by linarith+
  have pp: "p = p div 65536 * 65536 + p mod 65536" by simp
  have "N = N div V * V + N mod V" by simp
  then have "N mod V = N - uint t * V" unfolding t(1) by linarith
  also have "\<dots> = uint uhigh * 65536 + uint u3 - uint t * (uint v1 * 65536) - p"
    by (simp add: N_def V_def p_def algebra_simps)
  also have "\<dots> = H * 65536 + L"
    unfolding H_def L_def by (subst pp) (simp add: algebra_simps)
  finally have R: "N mod V = H * 65536 + L" .
  have "N mod V < 4294967296" using V pos_mod_bound [of V N] by linarith
  moreover have "0 \<le> N mod V" using V pos_mod_sign [of V N] by linarith
  ultimately have H: "0 \<le> H" "H < 65536" unfolding R using L by linarith+
  define w where "w = u3 - ((v2 * t) AND 0xffff)"
  have w: "uint w = (if c = 0 then L else L + 4294901760)"
    using c u3 pm by (auto simp: w_def uint_sub_if' uint_and_low p L_def)
  have w_test: "w AND 0xffff0000 = 0 \<longleftrightarrow> c = 0"
  proof -
    have "w AND 0xffff0000 = 0 \<longleftrightarrow> uint w < 65536" unfolding high_clear uint_nat by linarith
    also have "\<dots> \<longleftrightarrow> c = 0" using w L c by auto
    finally show ?thesis .
  qed
  have res: "a = ((if c = 0 then u2 else u2 - 1) - (v1 * t + drop_bit 16 (v2 * t))) AND 0xffff"
    "b = (if c = 0 then w else w AND 0xffff)"
    using ab w_test unfolding mult_sub_def w_def [symmetric] Let_def by (auto split: if_splits)
  have "(L + 4294901760) mod 65536 = L" using mod_mult_self1 [of L 65535 65536] L by simp
  then have b: "uint b = L"
    using c w L by (auto simp: res uint_and_low mod_pos_pos_trivial)
  have "uint a = (uint u2 - c - (uint v1 * uint t + p div 65536)) mod 65536"
  proof -
    define y where "y = v1 * t + drop_bit 16 (v2 * t)"
    have "uint y mod 65536 = (uint v1 * uint t + p div 65536) mod 65536"
      by (simp only: y_def low16 uint_shift_high p)
    moreover have "uint (if c = 0 then u2 else u2 - 1) mod 65536 = (uint u2 - c) mod 65536"
      using c by (auto simp: low16)
    ultimately have "(uint (if c = 0 then u2 else u2 - 1) - uint y) mod 65536 =
        (uint u2 - c - (uint v1 * uint t + p div 65536)) mod 65536"
      by (rule mod_diff_cong [rotated])
    then show ?thesis by (simp only: res uint_and_low y_def [symmetric] low16)
  qed
  also have "\<dots> = H mod 65536"
    unfolding H_def u2 by (simp add: mod_simps algebra_simps)
  finally have "uint a = H" using H by simp
  with b show ?thesis using H L by (simp add: R)
qed

lemma div_norm_ok:
  assumes "v \<noteq> 0"
  shows "case div_norm v uh ul of
      None \<Rightarrow> unat v \<le> unat uh
    | Some (v', uh', ul') \<Rightarrow> \<exists>k. unat v' = unat v * 2 ^ k \<and> 2147483648 \<le> unat v' \<and>
        unat uh' * 4294967296 + unat ul' = (unat uh * 4294967296 + unat ul) * 2 ^ k"
  using assms
proof (induction v uh ul rule: div_norm.induct)
  case (1 v uh ul)
  show ?case
  proof (cases "v AND SIGN = 0")
    case False
    then have "2147483648 \<le> unat v" by (simp add: sign_bit_tests bit31_iff)
    then show ?thesis using False by (subst div_norm.simps) (auto intro!: exI [of _ 0])
  next
    case True
    then have v: "unat v < 2147483648" "unat (v * 2) = unat v * 2"
      using not_normalized [OF True] 1(2) double by auto
    show ?thesis
    proof (cases "uh AND SIGN = 0")
      case False
      then have "2147483648 \<le> unat uh" by (simp add: sign_bit_tests bit31_iff)
      then show ?thesis using True False 1(2) v by (subst div_norm.simps) simp
    next
      case uh: True
      then have uh': "unat uh < 2147483648" by (simp add: sign_bit_tests bit31_iff)
      define uh1 ul1 where "uh1 = push_bit 1 uh OR drop_bit 31 ul" "ul1 = push_bit 1 ul"
      have "push_bit 1 uh OR drop_bit 31 ul = push_bit 1 uh + drop_bit 31 ul"
      proof (rule disjunctive_add [symmetric])
        show "\<not> bit (push_bit 1 uh) n \<or> \<not> bit (drop_bit 31 ul) n" for n
          by (cases n) (auto simp: bit_simps bit_0 dest: bit_imp_le_length)
      qed
      moreover have d: "unat (drop_bit 31 ul) = unat ul div 2147483648"
        by (simp only: unsigned_drop_bit_eq)
          (use unat_u32_less [of ul] in \<open>simp add: drop_bit_eq_div take_bit_nat_eq_self\<close>)
      moreover have "unat (push_bit 1 uh) = unat uh * 2" using double [OF uh'] by simp
      moreover have "unat ul div 2147483648 < 2" using unat_u32_less [of ul] by (simp add: less_mult_imp_div_less)
      ultimately have h: "unat uh1 = unat uh * 2 + unat ul div 2147483648"
        using uh' by (simp add: uh1_ul1_def unat_plus_u32)
      have "unat (push_bit 1 ul) = (unat ul * 2) mod (2147483648 * 2)"
        by (simp add: unat_word_ariths)
      then have l: "unat ul1 = (unat ul mod 2147483648) * 2"
        by (simp only: mult_mod_left uh1_ul1_def)
      have val: "unat uh1 * 4294967296 + unat ul1 = (unat uh * 4294967296 + unat ul) * 2"
        unfolding h l by (simp add: algebra_simps) (use div_mult_mod_eq [of "unat ul" 2147483648] in linarith)
      have v2: "push_bit 1 v \<noteq> 0" using v 1(2) by (auto simp flip: unat_eq_0)
      have "\<not> (v AND SIGN \<noteq> 0 \<or> v = 0)" "\<not> uh AND SIGN \<noteq> 0" using True uh 1(2) by simp_all
      note IH = 1(1) [folded uh1_ul1_def, OF this v2]
      have step: "div_norm v uh ul = div_norm (push_bit 1 v) uh1 ul1"
        using True uh 1(2) unfolding uh1_ul1_def by (subst div_norm.simps) simp
      show ?thesis
      proof (cases "div_norm (push_bit 1 v) uh1 ul1")
        case None
        then have "unat v * 2 \<le> unat uh1" using IH v by simp
        then have "unat v \<le> unat uh" using h \<open>unat ul div 2147483648 < 2\<close> by linarith
        with None step show ?thesis by simp
      next
        case (Some r)
        obtain v' uh' ul' where r: "r = (v', uh', ul')" by (cases r)
        then obtain k where k: "unat v' = unat (push_bit 1 v) * 2 ^ k" "2147483648 \<le> unat v'"
          "unat uh' * 4294967296 + unat ul' = (unat uh1 * 4294967296 + unat ul1) * 2 ^ k"
          using IH unfolding Some r option.case prod.case by blast
        then have "unat v' = unat v * 2 ^ Suc k \<and> 2147483648 \<le> unat v' \<and>
            unat uh' * 4294967296 + unat ul' = (unat uh * 4294967296 + unat ul) * 2 ^ Suc k"
          unfolding val using v by (simp add: mult.assoc)
        then show ?thesis unfolding step Some r option.case prod.case by blast
      qed
    qed
  qed
qed

lemma div_unnorm_ok:
  assumes "unat v * 2 ^ k < 4294967296" "2147483648 \<le> unat v * 2 ^ k"
  shows "unat (div_unnorm v x) = unat x div 2 ^ k"
  using assms
proof (induction k arbitrary: v x)
  case 0
  then show ?case by (subst div_unnorm.simps) (simp add: sign_bit_tests bit31_iff)
next
  case (Suc k)
  have v: "unat v < 2147483648" 
  proof -
    have "unat v * 2 ^ k < 2147483648" using Suc.prems(1) by simp
    moreover have "unat v \<le> unat v * 2 ^ k" by simp
    ultimately show ?thesis by linarith
  qed
  then have v2: "unat (v * 2) = unat v * 2" by (rule double)
  have "v \<noteq> 0" using Suc.prems(2) by auto
  then have "div_unnorm v x = div_unnorm (v * 2) (drop_bit 1 x)"
    using v by (subst div_unnorm.simps) (simp add: sign_bit_tests bit31_iff)
  moreover have "unat (div_unnorm (v * 2) (drop_bit 1 x)) = unat (drop_bit 1 x) div 2 ^ k"
    using Suc.prems by (intro Suc.IH) (simp_all add: v2 algebra_simps)
  moreover have "unat (drop_bit 1 x) = unat x div 2"
    by (simp only: unsigned_drop_bit_eq)
      (use unat_u32_less [of x] in \<open>simp add: drop_bit_eq_div take_bit_nat_eq_self\<close>)
  ultimately show ?case by (simp add: div_mult2_eq)
qed

lemma div_step:
  fixes v uh u1 u2 u3 :: u32
  defines "v1 \<equiv> drop_bit 16 v" and "v2 \<equiv> v AND 0xffff" and "N \<equiv> unat uh * 65536 + unat u3"
  assumes v: "2147483648 \<le> unat v" and U: "uh < v" and u3: "unat u3 < 65536"
    and u1: "unat u1 = unat uh div 65536" and u2: "unat u2 = unat uh mod 65536"
    and ab: "mult_sub v1 v2 (trial_digit v1 v2 u1 uh u3) u2 u3 = (x, y)"
  shows "unat (trial_digit v1 v2 u1 uh u3) = N div unat v" and "N div unat v < 65536"
    and "unat x = N mod unat v div 65536" and "unat y = N mod unat v mod 65536"
proof -
  have h: "unat v1 = unat v div 65536" "unat v2 = unat v mod 65536"
    by (simp_all only: v1_def v2_def unat_shift_high unat_and_low)
  then have V: "unat v1 * 65536 + unat v2 = unat v" by simp
  have small: "32768 \<le> unat v1" "unat v1 < 65536" "unat v2 < 65536"
    using v unat_u32_less [of v] h by (simp_all add: less_mult_imp_div_less)
  note digit = trial_digit_ok [of v1 v2 u3 uh u1, unfolded V, OF small u3 _ u1, folded N_def]
  have U': "unat uh < unat v" using U by (simp add: word_less_nat_alt)
  note digit = digit [OF U']
  show "unat (trial_digit v1 v2 u1 uh u3) = N div unat v" "N div unat v < 65536"
    using digit by simp_all
  have VI: "uint v1 * 65536 + uint v2 = uint v"
    using arg_cong [OF V, of int] by (simp only: uint_nat of_nat_add of_nat_mult of_nat_numeral)
  have NI: "uint uh * 65536 + uint u3 = int N"
    by (simp only: N_def uint_nat of_nat_add of_nat_mult of_nat_numeral)
  have "uint x = int N mod uint v div 65536 \<and> uint y = int N mod uint v mod 65536"
  proof (rule mult_sub_ok [of v1 v2 u3 u2 uh, unfolded VI NI, OF small(2,3) u3 _ _ _ _ _ ab])
    show "uint v < 4294967296" by (rule uint_u32)
    show "0 < uint v" using v unfolding uint_nat by linarith
    show "uint u2 = uint uh mod 65536" by (simp only: uint_nat u2 of_nat_mod of_nat_numeral)
    show "uint (trial_digit v1 v2 u1 uh u3) = int N div uint v"
      by (simp only: uint_nat digit(1) of_nat_div)
    show "unat (trial_digit v1 v2 u1 uh u3) < 65536" using digit(1,2) by simp
  qed
  then have "int (unat x) = int (N mod unat v div 65536) \<and> int (unat y) = int (N mod unat v mod 65536)"
    by (simp only: uint_nat of_nat_mod of_nat_div of_nat_numeral)
  then show "unat x = N mod unat v div 65536" "unat y = N mod unat v mod 65536"
    by (simp_all only: of_nat_eq_iff)
qed

lemma join_halves: "unat x < 65536 \<Longrightarrow> unat y < 65536 \<Longrightarrow> unat (push_bit 16 x + y) = unat x * 65536 + unat y" for x y :: u32
  by (simp add: unat_push_low unat_plus_u32)

lemma uediv_nat:
  fixes a :: Bits64 and d :: u32
  assumes d: "d \<noteq> 0"
  defines "A \<equiv> unat (hi a) * 4294967296 + unat (lo a)"
  shows "case uediv a d of
      None \<Rightarrow> unat d \<le> unat (hi a)
    | Some (q, m) \<Rightarrow> unat (hi a) < unat d \<and> unat q = A div unat d \<and> unat m = A mod unat d"
proof -
  note norm = div_norm_ok [OF d, of "hi a" "lo a", folded A_def]
  show ?thesis
  proof (cases "div_norm d (hi a) (lo a)")
    case None
    then show ?thesis using norm d by (simp add: uediv_def)
  next
    case (Some r)
    obtain v uh ul where r: "r = (v, uh, ul)" by (cases r)
    obtain k where v: "unat v = unat d * 2 ^ k" "2147483648 \<le> unat v"
      and N: "unat uh * 4294967296 + unat ul = A * 2 ^ k"
      using norm unfolding Some r option.case prod.case by blast
    have fits: "uh < v \<longleftrightarrow> unat (hi a) < unat d"
    proof -
      have "unat uh < unat v \<longleftrightarrow> A * 2 ^ k < unat v * 4294967296"
        using N unat_u32_less [of ul] by linarith
      also have "\<dots> \<longleftrightarrow> A < unat d * 4294967296" by (simp add: v algebra_simps)
      also have "\<dots> \<longleftrightarrow> unat (hi a) < unat d"
        unfolding A_def using unat_u32_less [of "lo a"] by linarith
      finally show ?thesis by (simp add: word_less_nat_alt)
    qed
    show ?thesis
    proof (cases "uh < v")
      case False
      then have "uediv a d = None" using d Some r by (simp add: uediv_def Let_def not_less)
      then show ?thesis using fits False by simp
    next
      case True
      define u3 u4 where "u3 = drop_bit 16 ul" "u4 = ul AND 0xffff"
      have u: "unat u3 = unat ul div 65536" "unat u4 = unat ul mod 65536"
        by (simp_all only: u3_u4_def unat_shift_high unat_and_low)
      then have us: "unat u3 < 65536" "unat u4 < 65536"
        using unat_u32_less [of ul] by (simp_all add: less_mult_imp_div_less)
      define N1 where "N1 = unat uh * 65536 + unat u3"
      let ?t = "trial_digit (drop_bit 16 v) (v AND 0xffff)"
      let ?s = "mult_sub (drop_bit 16 v) (v AND 0xffff)"
      let ?q1 = "?t (drop_bit 16 uh) uh u3"
      obtain x y where xy: "?s ?q1 (uh AND 0xffff) u3 = (x, y)" by fastforce
      note s1 = div_step [OF v(2) True us(1) unat_shift_high unat_and_low xy, folded N1_def]
      have vpos: "0 < unat v" using v(2) by simp
      have small1: "unat x < 65536" "unat y < 65536"
        using s1(3,4) mod_less_divisor [OF vpos, of N1] unat_u32_less [of v] by (simp_all add: less_mult_imp_div_less)
      define uh2 where "uh2 = push_bit 16 x + y"
      have uh2: "unat uh2 = N1 mod unat v"
        unfolding uh2_def join_halves [OF small1] s1(3,4) by simp
      define N2 where "N2 = unat uh2 * 65536 + unat u4"
      let ?q2 = "?t x uh2 u4"
      have less2: "uh2 < v" using uh2 vpos by (simp add: word_less_nat_alt)
      obtain x' y' where xy': "?s ?q2 y u4 = (x', y')" by fastforce
      have "unat x = unat uh2 div 65536" "unat y = unat uh2 mod 65536" by (simp_all only: uh2 s1(3,4))
      note s2 = div_step [OF v(2) less2 us(2) this xy', folded N2_def]
      have small2: "unat x' < 65536" "unat y' < 65536"
        using s2(3,4) mod_less_divisor [OF vpos, of N2] unat_u32_less [of v] by (simp_all add: less_mult_imp_div_less)
      have res: "uediv a d = Some (push_bit 16 ?q1 + ?q2, div_unnorm d (push_bit 16 x' + y'))"
        using d True xy xy' by (simp add: uediv_def Let_def Some r u3_u4_def [symmetric] uh2_def [symmetric])
      have q: "unat (push_bit 16 ?q1 + ?q2) = unat ?q1 * 65536 + unat ?q2"
        using s1(1,2) s2(1,2) by (simp add: join_halves)
      have m: "unat (push_bit 16 x' + y') = N2 mod unat v"
        unfolding join_halves [OF small2] s2(3,4) by simp
      have "N1 * 65536 + unat u4 = unat uh * 4294967296 + (unat ul div 65536 * 65536 + unat ul mod 65536)"
        unfolding N1_def u by (simp add: distrib_right)
      then have "unat uh * 4294967296 + unat ul = N1 * 65536 + unat u4" by (simp only: div_mult_mod_eq)
      also have "N1 = unat ?q1 * unat v + unat uh2" by (simp add: s1(1) uh2)
      also have "(unat ?q1 * unat v + unat uh2) * 65536 + unat u4 = unat ?q1 * 65536 * unat v + N2"
        by (simp add: N2_def algebra_simps)
      also have "N2 = unat ?q2 * unat v + N2 mod unat v" by (simp add: s2(1))
      finally have T: "A * 2 ^ k = (unat ?q1 * 65536 + unat ?q2) * unat v + N2 mod unat v"
        unfolding N by (simp add: algebra_simps)
      have "unat ?q1 * 65536 + unat ?q2 = A * 2 ^ k div unat v"
        unfolding T using vpos by simp
      also have "\<dots> = A div unat d" by (simp add: v)
      finally have Q: "unat (push_bit 16 ?q1 + ?q2) = A div unat d" using q by simp
      have "A * 2 ^ k mod unat v = N2 mod unat v" unfolding T using vpos by simp
      then have "N2 mod unat v = A mod unat d * 2 ^ k" by (simp add: v mult_mod_left)
      then have "unat (div_unnorm d (push_bit 16 x' + y')) = A mod unat d"
        using div_unnorm_ok [of d k] v unat_u32_less [of v] by (simp add: m)
      then show ?thesis using res Q fits True by simp
    qed
  qed
qed

lemma uediv_ok:
  "uediv a d = (if uint (hi a) < uint d
     then Some (word_of_int (uval a div uint d), word_of_int (uval a mod uint d)) else None)"
proof (cases "d = 0")
  case True
  then show ?thesis using uint_u32 [of "hi a"] by (simp add: uediv_def)
next
  case d: False
  have A: "int (unat (hi a) * 4294967296 + unat (lo a)) = uval a"
    by (simp only: uval_pair uint_nat of_nat_add of_nat_mult of_nat_numeral)
  have less: "unat (hi a) < unat d \<longleftrightarrow> uint (hi a) < uint d" unfolding uint_nat by linarith
  note nat = uediv_nat [OF d, of a]
  show ?thesis
  proof (cases "uediv a d")
    case None
    with nat less show ?thesis by simp
  next
    case (Some qm)
    obtain q m where qm: "qm = (q, m)" by (cases qm)
    have "unat (hi a) < unat d" and *: "unat q = (unat (hi a) * 4294967296 + unat (lo a)) div unat d"
      "unat m = (unat (hi a) * 4294967296 + unat (lo a)) mod unat d"
      using nat unfolding Some qm by simp_all
    moreover have "uint q = uval a div uint d" "uint m = uval a mod uint d"
      by (simp_all only: uint_nat * of_nat_div of_nat_mod A [unfolded uint_nat])
    then have "q = word_of_int (uval a div uint d)" "m = word_of_int (uval a mod uint d)"
      by (metis word_of_int_uint)+
    ultimately show ?thesis using Some qm less by simp
  qed
qed

section \<open>Signed divisions\<close>

lemma and_all: "x AND 0xffffffff = x" for x :: u32
proof -
  have "(0xffffffff :: u32) = mask 32" by (simp add: mask_eq_exp_minus_1)
  then show ?thesis by (simp only: take_bit_eq_mask [symmetric]) (simp add: take_bit_word_eq_self)
qed

lemma w64_complement:
  "w64 (Bits64 (if - l = 0 then NOT h + 1 else NOT h) (- l)) = - w64 (Bits64 h l)"
proof -
  have "(ucast (- l) :: u64) = (if - l = 0 then 0 else 4294967296) - ucast l"
    by (rule word_uint_eqI) (use uint_u32 [of l] word_uint_eq_iff [of l 0] in \<open>auto simp: uint_sub_if' uint_word_ariths zmod_zminus1_eq_if\<close>)
  then show ?thesis by (auto simp: w64_def high_add high_not)
qed

lemma sdiv_parts:
  fixes a b :: int
  shows "a sdiv b = (if (a < 0) \<noteq> (b < 0) then - (\<bar>a\<bar> div \<bar>b\<bar>) else \<bar>a\<bar> div \<bar>b\<bar>)"
    and "a smod b = (if a < 0 then - (\<bar>a\<bar> mod \<bar>b\<bar>) else \<bar>a\<bar> mod \<bar>b\<bar>)"
proof -
  show "a sdiv b = (if (a < 0) \<noteq> (b < 0) then - (\<bar>a\<bar> div \<bar>b\<bar>) else \<bar>a\<bar> div \<bar>b\<bar>)"
    by (auto simp: signed_divide_int_def sgn_if)
  show "a smod b = (if a < 0 then - (\<bar>a\<bar> mod \<bar>b\<bar>) else \<bar>a\<bar> mod \<bar>b\<bar>)"
    by (auto simp: signed_modulo_int_def sgn_if)
qed

lemma abs_sint: "uint (if sint i < 0 then - i else i) = \<bar>sint i\<bar>" for i :: u32
  using uint_u32 [of i] by (auto simp: sint_u32 uint_word_ariths zmod_zminus1_eq_if)

lemma zdiv_less: "0 < d \<Longrightarrow> x < d * K \<Longrightarrow> x div d < K" for d x K :: int
proof (rule ccontr)
  assume "0 < d" "x < d * K" "\<not> x div d < K"
  then have "d * K \<le> d * (x div d)" by (intro mult_left_mono) simp_all
  also have "\<dots> \<le> x" using \<open>0 < d\<close> pos_mod_sign [of d x] mult_div_mod_eq [of d x] by linarith
  finally show False using \<open>x < d * K\<close> by simp
qed

lemma long_division:
  fixes h l d :: int
  assumes "0 < d"
  shows "(h * K + l) div d = h div d * K + ((h mod d) * K + l) div d"
    and "(h * K + l) mod d = ((h mod d) * K + l) mod d"
proof -
  have "h * K + l = (h div d * d + h mod d) * K + l" by (simp only: div_mult_mod_eq)
  also have "\<dots> = ((h mod d) * K + l) + (h div d * K) * d"
    by (simp only: distrib_right mult.assoc mult.commute [of d K] add.assoc add.commute add.left_commute)
  finally have eq: "h * K + l = ((h mod d) * K + l) + (h div d * K) * d" .
  show "(h * K + l) div d = h div d * K + ((h mod d) * K + l) div d"
    "(h * K + l) mod d = ((h mod d) * K + l) mod d" unfolding eq using assms by simp_all
qed

lemma abs_pair:
  "uval (if sval a < 0 then Bits64 (if - lo a = 0 then NOT (hi a) + 1 else NOT (hi a)) (- lo a) else a) = \<bar>sval a\<bar>"
proof (cases "sval a < 0")
  case True
  have "w64 (Bits64 (if - lo a = 0 then NOT (hi a) + 1 else NOT (hi a)) (- lo a)) = - w64 a"
    using w64_complement [of "lo a" "hi a"] by simp
  then have "uval (Bits64 (if - lo a = 0 then NOT (hi a) + 1 else NOT (hi a)) (- lo a)) = (- uval a) mod 18446744073709551616"
    by (simp add: uval_def uint_word_ariths)
  moreover have "9223372036854775808 \<le> uval a" using True uval_bounds [of a] unfolding sval_uval by (cases "9223372036854775808 \<le> uval a") simp_all
  moreover from this have "(- uval a) mod 18446744073709551616 = 18446744073709551616 - uval a"
    using mod_wrap [of "- uval a"] uval_bounds(2) [of a] by linarith
  moreover have "sval a = uval a - 18446744073709551616"
    using True uval_bounds [of a] unfolding sval_uval by (cases "9223372036854775808 \<le> uval a") simp_all
  ultimately have "uval (Bits64 (if - lo a = 0 then NOT (hi a) + 1 else NOT (hi a)) (- lo a)) = - sval a"
    by linarith
  with True show ?thesis by simp
next
  case False
  then show ?thesis using uval_bounds [of a] by (auto simp: sval_uval split: if_splits)
qed

lemma negative_hi: "hi a AND SIGN \<noteq> 0 \<longleftrightarrow> sval a < 0"
  unfolding IsUTCneg_sval [symmetric] IsUTCneg_def U64ISNEG_def ..

lemma w64_of_uval: "w64 a = word_of_int (uval a)"
  by (simp add: uval_def)

lemma idiv_ok:
  assumes i: "i \<noteq> 0"
  shows "\<exists>q r. UTCiDiv a i = Some (q, r) \<and> w64 q = word_of_int (sval a sdiv sint i) \<and>
    r = word_of_int (sval a smod sint i)"
proof -
  define neg where "neg \<longleftrightarrow> sval a < 0"
  define l2 where "l2 = (if neg then - lo a else lo a)"
  define l1 where "l1 = (if neg then (if l2 = 0 then NOT (hi a) + 1 else NOT (hi a)) else hi a)"
  define d where "d = (if sint i < 0 then - i else i)"
  have d: "uint d = \<bar>sint i\<bar>" unfolding d_def by (rule abs_sint)
  have "sint i \<noteq> 0" using i signed_word_eqI [of i 0] by fastforce
  then have dpos: "0 < uint d" using d by simp
  have A: "uint l1 * 4294967296 + uint l2 = \<bar>sval a\<bar>"
    using abs_pair [of a] by (cases "sval a < 0") (simp_all add: uval_pair l1_def l2_def neg_def)
  define qh r1 where "qh = (word_of_int (uint l1 div uint d) :: u32)" "r1 = (word_of_int (uint l1 mod uint d) :: u32)"
  have step1: "uediv (Bits64 0 l1) d = Some (qh, r1)"
    using dpos by (simp add: uediv_ok uval_pair qh_r1_def)
  have r1: "uint r1 = uint l1 mod uint d"
    using dpos uint_u32 [of d] pos_mod_bound [OF dpos, of "uint l1"] pos_mod_sign [OF dpos, of "uint l1"]
    by (simp add: qh_r1_def uint_word_of_int)
  have qh: "uint qh = uint l1 div uint d"
    using dpos uint_u32 [of l1] zdiv_less [OF dpos, of "uint l1" 4294967296]
    by (simp add: qh_r1_def uint_word_of_int pos_imp_zdiv_nonneg_iff)
  define X where "X = uint l1 mod uint d * 4294967296 + uint l2"
  have X: "0 \<le> X" "X < uint d * 4294967296"
    using pos_mod_bound [OF dpos, of "uint l1"] pos_mod_sign [OF dpos, of "uint l1"] uint_u32 [of l2]
    unfolding X_def by linarith+
  define ql r2 where "ql = (word_of_int (X div uint d) :: u32)" "r2 = (word_of_int (X mod uint d) :: u32)"
  have step2: "uediv (Bits64 r1 l2) d = Some (ql, r2)"
    using pos_mod_bound [OF dpos, of "uint l1"] by (simp add: uediv_ok uval_pair ql_r2_def r1 X_def)
  have ql: "uint ql = X div uint d"
  proof -
    have "X div uint d < 4294967296"
      using X(2) dpos zdiv_less by blast
    then show ?thesis using X(1) dpos by (simp add: ql_r2_def uint_word_of_int pos_imp_zdiv_nonneg_iff)
  qed
  have A2: "\<bar>sval a\<bar> div uint d = uint qh * 4294967296 + uint ql" "\<bar>sval a\<bar> mod uint d = X mod uint d"
    using long_division [OF dpos, of "uint l1" 4294967296 "uint l2"] by (simp_all add: A qh ql X_def)
  then have Q: "w64 (Bits64 qh ql) = word_of_int (\<bar>sval a\<bar> div uint d)"
    by (simp add: w64_of_uval uval_pair)
  have "UTCiDiv a i = Some (if neg \<noteq> (sint i < 0) then Bits64 (if - ql = 0 then NOT qh + 1 else NOT qh) (- ql)
      else Bits64 qh ql, if neg then - r2 else r2)"
    unfolding UTCiDiv_def U64IDIV_def Let_def and_all negative_hi
    unfolding neg_def [symmetric] l2_def [symmetric] d_def [symmetric]
    unfolding l1_def [symmetric] step1 by (simp add: step2)
  moreover have "w64 (if neg \<noteq> (sint i < 0) then Bits64 (if - ql = 0 then NOT qh + 1 else NOT qh) (- ql)
      else Bits64 qh ql) = word_of_int (sval a sdiv sint i)"
    unfolding sdiv_parts neg_def [symmetric] d [symmetric]
    using w64_complement [of ql qh] by (simp add: Q)
  moreover have "(if neg then - r2 else r2) = word_of_int (sval a smod sint i)"
    unfolding sdiv_parts neg_def [symmetric] d [symmetric] by (simp add: A2 ql_r2_def)
  ultimately show ?thesis by blast
qed

text \<open>\<open>ediv\<close> succeeds exactly when the quotient is a signed 32 bit number.\<close>

lemma ediv_ok:
  fixes a :: Bits64 and d :: u32
  defines "q \<equiv> sval a sdiv sint d"
  shows "fst (ediv a d) \<longleftrightarrow> d \<noteq> 0 \<and> - 2147483648 \<le> q \<and> q < 2147483648"
    and "fst (ediv a d) \<Longrightarrow> snd (ediv a d) = Some (word_of_int q, word_of_int (sval a smod sint d))"
proof -
  define neg where "neg \<longleftrightarrow> sval a < 0"
  define a' where "a' = (if neg then Bits64 (if - lo a \<noteq> 0 then NOT (hi a) else - hi a) (- lo a) else a)"
  define d' where "d' = (if sint d < 0 then - d else d)"
  have d': "uint d' = \<bar>sint d\<bar>" unfolding d'_def by (rule abs_sint)
  have "- x = NOT x + 1" for x :: u32 by (simp add: not_minus)
  then have "a' = (if neg then Bits64 (if - lo a = 0 then NOT (hi a) + 1 else NOT (hi a)) (- lo a) else a)"
    by (simp add: a'_def)
  then have a': "uval a' = \<bar>sval a\<bar>" using abs_pair [of a] by (simp add: neg_def)
  have ed: "ediv a d = (case uediv a' d' of None \<Rightarrow> (False, None)
     | Some (qu, rest) \<Rightarrow> let remd = (if neg then - rest else rest)
            in if (sint d < 0) \<noteq> neg then (\<not> sint (- qu) > 0, Some (- qu, remd))
               else (\<not> sint qu < 0, Some (qu, remd)))"
    unfolding ediv_def Let_def negative_hi neg_def [symmetric] a'_def d'_def
    by (cases neg) (simp_all only: if_True if_False prod.case)
  have d0: "sint d = 0 \<longleftrightarrow> d = 0" using signed_word_eqI [of d 0] by fastforce
  define Q where "Q = \<bar>sval a\<bar> div \<bar>sint d\<bar>"
  have Q: "0 \<le> Q" by (cases "sint d = 0") (simp_all add: Q_def pos_imp_zdiv_nonneg_iff)
  have q: "q = (if (sint d < 0) \<noteq> neg then - Q else Q)"
    by (auto simp: q_def sdiv_parts neg_def Q_def)
  have st: "(fst (ediv a d) \<longleftrightarrow> d \<noteq> 0 \<and> - 2147483648 \<le> q \<and> q < 2147483648) \<and>
    (fst (ediv a d) \<longrightarrow> snd (ediv a d) = Some (word_of_int q, word_of_int (sval a smod sint d)))"
  proof (cases "uint (hi a') < uint d'")
    case False
    then have no: "\<not> fst (ediv a d)" by (simp add: ed uediv_ok)
    have "4294967296 \<le> Q" if "d \<noteq> 0"
    proof -
      have pos: "0 < \<bar>sint d\<bar>" using that d0 by simp
      have "\<bar>sint d\<bar> * 4294967296 \<le> \<bar>sval a\<bar>"
        using False uint_u32 [of "lo a'"] unfolding a' [symmetric] d' [symmetric] uval_pair by linarith
      then have "\<bar>sint d\<bar> * 4294967296 div \<bar>sint d\<bar> \<le> Q" unfolding Q_def using pos by (intro zdiv_mono1)
      then show ?thesis using pos by simp
    qed
    then show ?thesis using no q by (auto split: if_splits)
  next
    case True
    then have pos: "0 < \<bar>sint d\<bar>" using uint_u32 [of "hi a'"] unfolding d' by linarith
    have "\<bar>sval a\<bar> < \<bar>sint d\<bar> * 4294967296"
      using True uint_u32 [of "lo a'"] unfolding a' [symmetric] d' [symmetric] uval_pair by linarith
    then have less: "Q < 4294967296" unfolding Q_def using pos zdiv_less by blast
    define qu rest where "qu = (word_of_int Q :: u32)" "rest = (word_of_int (\<bar>sval a\<bar> mod \<bar>sint d\<bar>) :: u32)"
    have uq: "uint qu = Q" using Q less by (simp add: qu_rest_def uint_word_of_int)
    then have uq': "uint (- qu) = (if Q = 0 then 0 else 4294967296 - Q)"
      using Q less by (auto simp: uint_word_ariths zmod_zminus1_eq_if)
    have "uediv a' d' = Some (qu, rest)" using True by (simp add: uediv_ok a' d' qu_rest_def Q_def)
    then have ed2: "ediv a d = (if (sint d < 0) \<noteq> neg then (\<not> sint (- qu) > 0, Some (- qu, if neg then - rest else rest))
               else (\<not> sint qu < 0, Some (qu, if neg then - rest else rest)))"
      by (simp add: ed)
    have rest: "(if neg then - rest else rest) = word_of_int (sval a smod sint d)"
      by (simp add: sdiv_parts neg_def qu_rest_def)
    have qw: "- qu = word_of_int (- Q)" by (simp add: qu_rest_def)
    show ?thesis
      unfolding ed2 rest q sint_u32 uq uq' using pos d0 Q less by (auto simp: qw) (auto simp: qu_rest_def)
  qed
  from st show "fst (ediv a d) \<longleftrightarrow> d \<noteq> 0 \<and> - 2147483648 \<le> q \<and> q < 2147483648" by blast
  from st show "fst (ediv a d) \<Longrightarrow> snd (ediv a d) = Some (word_of_int q, word_of_int (sval a smod sint d))" by blast
qed

end
