(* ===== verification/Dts_Utc.thy ===== *)
theory Dts_Utc
  imports Dts_Div
begin

text \<open>
  Binary timestamps (\<^verbatim>\<open>time/common/utcapi.c\<close>): a timestamp is 16 bytes with a time, an inaccuracy of 48 bits,
  a time differential factor of 12 bits and a version, in the byte order of the host that made it; every host
  reads both orders.  The theory has the conversions and the arithmetic on timestamps.  \<open>le\<close> says that the host
  has the least significant byte first.  The C routines take \<open>NULL\<close> for the current time: here the caller
  passes what \<open>utc_gettime\<close> returned.  Results are \<open>None\<close> where C returns -1.
\<close>

section \<open>The layout\<close>

type_synonym utc_t = "u8 list"

definition get16 :: "bool \<Rightarrow> utc_t \<Rightarrow> nat \<Rightarrow> u16" where
  "get16 le b i =
    (if le then ucast (b ! i) OR push_bit 8 (ucast (b ! (i + 1)))
     else ucast (b ! (i + 1)) OR push_bit 8 (ucast (b ! i)))"

definition get32 :: "bool \<Rightarrow> utc_t \<Rightarrow> nat \<Rightarrow> u32" where
  "get32 le b i =
    (if le then ucast (get16 le b i) OR push_bit 16 (ucast (get16 le b (i + 2)))
     else ucast (get16 le b (i + 2)) OR push_bit 16 (ucast (get16 le b i)))"

definition put16 :: "bool \<Rightarrow> u16 \<Rightarrow> utc_t" where
  "put16 le w = (if le then [ucast w, ucast (drop_bit 8 w)] else [ucast (drop_bit 8 w), ucast w])"

definition put32 :: "bool \<Rightarrow> u32 \<Rightarrow> utc_t" where
  "put32 le w =
    (if le then put16 le (ucast w) @ put16 le (ucast (drop_bit 16 w))
     else put16 le (ucast (drop_bit 16 w)) @ put16 le (ucast w))"

definition SWAP16 :: "u16 \<Rightarrow> u16" where
  "SWAP16 w = drop_bit 8 w + push_bit 8 w"

definition SWAP32 :: "u32 \<Rightarrow> u32" where
  "SWAP32 w = drop_bit 24 w + drop_bit 8 (w AND 0xff0000) + push_bit 8 (w AND 0xff00) + push_bit 24 w"

abbreviation SECS_PER_MIN :: int where "SECS_PER_MIN \<equiv> 60"
abbreviation K_100NS_PER_SEC :: u32 where "K_100NS_PER_SEC \<equiv> 10000000"

text \<open>
  The fields of \<open>struct UTC\<close>, read in the order of the host: \<open>little\<close> has the low words first, \<open>big\<close> the high
  words; byte 14 has bits of the time differential factor, byte 15 the flags.
\<close>

definition utc_comptime :: "bool \<Rightarrow> utc_t \<Rightarrow> (UTCValue \<times> ExtInacc \<times> u32) option" where
  "utc_comptime le autc =
    (let flags = autc ! 15 in
     if drop_bit 4 (flags AND 0x70) \<noteq> 1 then None
     else
       let (atdf, ainacc, time) =
         (if le
          then if flags AND 0x80 = 0
            then ((push_bit 8 (ucast (flags AND 0xf)) + ucast (autc ! 14) :: u32),
                  Bits64 (ucast (get16 le autc 12)) (get32 le autc 8),
                  Bits64 (get32 le autc 4) (get32 le autc 0))
            else (push_bit 4 (ucast (autc ! 14)) + ucast (flags AND 0xf),
                  Bits64 (ucast (SWAP16 (get16 le autc 8)))
                    (push_bit 16 (ucast (SWAP16 (get16 le autc 10))) + ucast (SWAP16 (get16 le autc 12))),
                  Bits64 (SWAP32 (get32 le autc 0)) (SWAP32 (get32 le autc 4)))
          else if flags AND 0x80 = 0x80
            then (push_bit 4 (ucast (autc ! 14)) + ucast (flags AND 0xf),
                  Bits64 (ucast (get16 le autc 8))
                    (push_bit 16 (ucast (get16 le autc 10)) + ucast (get16 le autc 12)),
                  Bits64 (get32 le autc 0) (get32 le autc 4))
            else (push_bit 8 (ucast (flags AND 0xf)) + ucast (autc ! 14),
                  Bits64 (ucast (SWAP16 (get16 le autc 12))) (SWAP32 (get32 le autc 8)),
                  Bits64 (SWAP32 (get32 le autc 4)) (SWAP32 (get32 le autc 0))));
           atdf = (if atdf > 0x7ff then atdf - 0x1000 else atdf)
       in Some (time, if IsInfiniteInacc ainacc then infiniteInacc else ainacc, atdf * 60))"

definition utc_mkcomptime :: "bool \<Rightarrow> UTCValue \<Rightarrow> ExtInacc option \<Rightarrow> u32 \<Rightarrow> utc_t" where
  "utc_mkcomptime le timevalue inaccvalue tdf =
    (let ainacc = (case inaccvalue of None \<Rightarrow> infiniteInacc
                   | Some i \<Rightarrow> if IsInfiniteInacc i then infiniteInacc else i);
         m = (word_of_int (sint tdf sdiv SECS_PER_MIN) :: u32)
     in if le
        then put32 le (lo timevalue) @ put32 le (hi timevalue) @ put32 le (lo ainacc) @
             put16 le (ucast (hi ainacc)) @
             [ucast (m AND 0xff), ucast ((signed_drop_bit 8 m AND 0xf) OR push_bit 4 1)]
        else put32 le (hi timevalue) @ put32 le (lo timevalue) @ put16 le (ucast (hi ainacc)) @
             put16 le (ucast (drop_bit 16 (lo ainacc))) @ put16 le (ucast (lo ainacc)) @
             [ucast (signed_drop_bit 4 m), ucast ((m AND 0xf) OR push_bit 4 1 OR 0x80)])"

section \<open>Intervals\<close>

definition utc_boundtime :: "bool \<Rightarrow> utc_t \<Rightarrow> utc_t \<Rightarrow> utc_t option" where
  "utc_boundtime le utcl utch = do {
     (timel, inaccl, _) \<leftarrow> utc_comptime le utcl;
     (timeh, inacch, tdfh) \<leftarrow> utc_comptime le utch;
     if IsInfiniteInacc inaccl \<or> IsInfiniteInacc inacch
     then if IsUTCgt timel timeh then None
       else let lowbits = (lo timel AND 1) + (lo timeh AND 1);
                times = UTCadd (UTCdivideBy2 timel) (UTCdivideBy2 timeh);
                times = UTCiAdd times (lowbits div 2)
            in Some (utc_mkcomptime le times None tdfh)
     else
       let timel = UTCsub timel inaccl; timeh = UTCadd timeh inacch
       in if IsUTCgt timel timeh then None
          else let lowbits = (lo timel AND 1) + (lo timeh AND 1);
                   timel = UTCdivideBy2 timel; timeh = UTCdivideBy2 timeh;
                   times = UTCadd timel timeh;
                   inaccs = UTCsub timeh timel;
                   times = UTCiAdd times (lowbits div 2);
                   inaccs = UTCiAdd inaccs ((lowbits + 1) div 2)
               in Some (utc_mkcomptime le times (Some inaccs) tdfh)
   }"

definition utc_spantime :: "bool \<Rightarrow> utc_t \<Rightarrow> utc_t \<Rightarrow> utc_t option" where
  "utc_spantime le utc1 utc2 = do {
     (time1, inacc1, _) \<leftarrow> utc_comptime le utc1;
     (time2, inacc2, tdf) \<leftarrow> utc_comptime le utc2;
     if IsInfiniteInacc inacc1 \<or> IsInfiniteInacc inacc2
     then let lowbits = (lo time1 AND 1) + (lo time2 AND 1);
              times = UTCadd (UTCdivideBy2 time1) (UTCdivideBy2 time2);
              times = UTCiAdd times (lowbits div 2)
          in Some (utc_mkcomptime le times None tdf)
     else
       let TempHi = UTCadd time1 inacc1; Temp = UTCadd time2 inacc2;
           TempHi = (if IsUTClt TempHi Temp then Temp else TempHi);
           TempLo = UTCsub time1 inacc1; Temp = UTCsub time2 inacc2;
           TempLo = (if IsUTCgt TempLo Temp then Temp else TempLo);
           lowbits = (lo TempLo AND 1) + (lo TempHi AND 1);
           TempLo = UTCdivideBy2 TempLo; TempHi = UTCdivideBy2 TempHi;
           times = UTCadd TempHi TempLo;
           inaccs = UTCsub TempHi TempLo;
           times = UTCiAdd times (lowbits div 2);
           inaccs = UTCiAdd inaccs ((lowbits + 1) div 2)
       in Some (utc_mkcomptime le times (Some inaccs) tdf)
   }"

text \<open>\<open>utc_pointtime\<close> writes its three results even when it returns -1 for an infinite inaccuracy.\<close>

definition utc_pointtime :: "bool \<Rightarrow> utc_t \<Rightarrow> (bool \<times> utc_t \<times> utc_t \<times> utc_t) option" where
  "utc_pointtime le utc = do {
     (time, inacc, tdf) \<leftarrow> utc_comptime le utc;
     let ok = (\<not> IsInfiniteInacc inacc);
     let timel = UTCsub time inacc;
     let timeh = UTCadd time inacc;
     let inacc = UTCzero;
     Some (ok, utc_mkcomptime le timel (Some inacc) tdf, utc_mkcomptime le time (Some inacc) tdf,
       utc_mkcomptime le timeh (Some inacc) tdf)
   }"

section \<open>Arithmetic\<close>

definition utc_addtime :: "bool \<Rightarrow> utc_t \<Rightarrow> utc_t \<Rightarrow> utc_t option" where
  "utc_addtime le utc1 utc2 = do {
     (time1, inacc1, tdf) \<leftarrow> utc_comptime le utc1;
     (time2, inacc2, _) \<leftarrow> utc_comptime le utc2;
     let resultinacc = (if IsInfiniteInacc inacc1 \<or> IsInfiniteInacc inacc2 then infiniteInacc
                        else UTCadd inacc1 inacc2);
     Some (utc_mkcomptime le (UTCadd time1 time2) (Some resultinacc) tdf)
   }"

definition utc_subtime :: "bool \<Rightarrow> utc_t \<Rightarrow> utc_t \<Rightarrow> utc_t option" where
  "utc_subtime le utc1 utc2 = do {
     (time1, inacc1, tdf) \<leftarrow> utc_comptime le utc1;
     (time2, inacc2, _) \<leftarrow> utc_comptime le utc2;
     let resultinacc = (if IsInfiniteInacc inacc1 \<or> IsInfiniteInacc inacc2 then infiniteInacc
                        else UTCadd inacc1 inacc2);
     Some (utc_mkcomptime le (UTCsub time1 time2) (Some resultinacc) tdf)
   }"

definition utc_multime :: "bool \<Rightarrow> utc_t \<Rightarrow> u32 \<Rightarrow> utc_t option" where
  "utc_multime le utc1 factor = do {
     (time1, inacc1, tdf) \<leftarrow> utc_comptime le utc1;
     let absfactor = (if sint factor < 0 then - factor else factor);
     let resultinacc = emul (hi inacc1) absfactor;
     let resultinacc = (if hi resultinacc \<noteq> 0 \<or> lo resultinacc > 0xffff then Bits64 0xffffffff 0xffffffff
                        else UTCiMul inacc1 absfactor);
     let resulttime = emul (hi time1) factor;
     let h = sint (hi resulttime);
     let l = sint (lo resulttime);
     if h < - 1 \<or> h > 0 \<or> hi resulttime = 0 \<and> l < 0 \<or> h = - 1 \<and> l \<ge> 0 then None
     else
       let resulttime = UTCiMul time1 factor
       in if ((\<not> IsUTCneg time1) \<noteq> (sint factor \<ge> 0)) \<noteq> IsUTCneg resulttime then None
          else Some (utc_mkcomptime le resulttime (Some resultinacc) tdf)
   }"

definition utc_abstime :: "bool \<Rightarrow> utc_t \<Rightarrow> utc_t option" where
  "utc_abstime le utc1 = do {
     (resulttime, resultinacc, tdf) \<leftarrow> utc_comptime le utc1;
     if IsUTCeq resulttime (Bits64 0 0x80000000) then None
     else Some (utc_mkcomptime le (UTCabsVal resulttime) (Some resultinacc) tdf)
   }"

definition utc_settdf :: "bool \<Rightarrow> utc_t \<Rightarrow> u32 \<Rightarrow> utc_t option" where
  "utc_settdf le utc1 tdf = do {
     (time, inacc, _) \<leftarrow> utc_comptime le utc1;
     Some (utc_mkcomptime le time (Some inacc) tdf)
   }"

section \<open>Comparison\<close>

datatype utc_cmptype = utc_lessThan | utc_equalTo | utc_greaterThan | utc_indeterminate

definition utc_cmpmidtime :: "bool \<Rightarrow> utc_t \<Rightarrow> utc_t \<Rightarrow> utc_cmptype option" where
  "utc_cmpmidtime le utc1 utc2 = do {
     (time1, _) \<leftarrow> utc_comptime le utc1;
     (time2, _) \<leftarrow> utc_comptime le utc2;
     Some (if IsUTClt time1 time2 then utc_lessThan
           else if IsUTCgt time1 time2 then utc_greaterThan else utc_equalTo)
   }"

definition utc_cmpintervaltime :: "bool \<Rightarrow> utc_t \<Rightarrow> utc_t \<Rightarrow> utc_cmptype option" where
  "utc_cmpintervaltime le utc1 utc2 = do {
     (time1, inacc1, _) \<leftarrow> utc_comptime le utc1;
     (time2, inacc2, _) \<leftarrow> utc_comptime le utc2;
     let relation = utc_indeterminate;
     let (inacc1, inacc2, relation) =
           (if IsUTClt time1 time2
            then let inacc1 = UTCadd time1 inacc1; inacc2 = UTCsub time2 inacc2
                 in (inacc1, inacc2, if IsUTClt inacc1 inacc2 then utc_lessThan else relation)
            else (inacc1, inacc2, relation));
     let (inacc1, inacc2, relation) =
           (if IsUTCgt time1 time2
            then let inacc1 = UTCsub time1 inacc1; inacc2 = UTCadd time2 inacc2
                 in (inacc1, inacc2, if IsUTCgt inacc1 inacc2 then utc_greaterThan else relation)
            else (inacc1, inacc2, relation));
     let relation = (if IsUTCeq time1 time2
           then (if IsUTCzero inacc1 \<and> IsUTCzero inacc2 then utc_equalTo else relation)
           else relation);
     Some relation
   }"

section \<open>Round trip\<close>

lemma SWAP16_get: "SWAP16 (get16 le b i) = get16 (\<not> le) b i"
proof -
  have "SWAP16 w = drop_bit 8 w OR push_bit 8 w" for w
    unfolding SWAP16_def by (rule disjunctive_add) (auto simp: bit_simps dest: bit_imp_le_length)
  then show ?thesis
    by (intro bit_word_eqI) (auto simp: get16_def bit_simps dest: bit_imp_le_length)
qed

definition word4 :: "u8 \<Rightarrow> u8 \<Rightarrow> u8 \<Rightarrow> u8 \<Rightarrow> u32" where
  "word4 a b c d = ucast a OR push_bit 8 (ucast b) OR push_bit 16 (ucast c) OR push_bit 24 (ucast d)"

lemma masks32: "(0xff0000 :: u32) = push_bit 16 (mask 8)" "(0xff00 :: u32) = push_bit 8 (mask 8)"
  by (simp_all add: mask_eq_exp_minus_1 push_bit_eq_mult)

lemma bit_word4: "bit (word4 a b c d) n \<longleftrightarrow>
  (if n < 8 then bit a n else if n < 16 then bit b (n - 8) else if n < 24 then bit c (n - 16) else n < 32 \<and> bit d (n - 24))"
  by (auto simp: word4_def bit_simps dest: bit_imp_le_length)

lemma word4_parts:
  "drop_bit 24 (word4 a b c d) = ucast d"
  "drop_bit 8 (word4 a b c d AND push_bit 16 (mask 8)) = push_bit 8 (ucast c)"
  "push_bit 8 (word4 a b c d AND push_bit 8 (mask 8)) = push_bit 16 (ucast b)"
  "push_bit 24 (word4 a b c d) = push_bit 24 (ucast a)"
  by (rule bit_word_eqI; auto simp: bit_word4 bit_simps dest: bit_imp_le_length)+

lemma word4_sum: "ucast a + push_bit 8 (ucast b) + push_bit 16 (ucast c) + push_bit 24 (ucast d) = word4 a b c d"
proof -
  have "ucast a + push_bit 8 (ucast b) = (ucast a OR push_bit 8 (ucast b) :: u32)"
    by (rule disjunctive_add) (auto simp: bit_simps dest: bit_imp_le_length)
  moreover have "(ucast a OR push_bit 8 (ucast b)) + push_bit 16 (ucast c) = (ucast a OR push_bit 8 (ucast b) OR push_bit 16 (ucast c) :: u32)"
    unfolding or.assoc [symmetric] by (rule disjunctive_add) (auto simp: bit_simps dest: bit_imp_le_length)
  moreover have "(ucast a OR push_bit 8 (ucast b) OR push_bit 16 (ucast c)) + push_bit 24 (ucast d) = word4 a b c d"
    unfolding word4_def or.assoc [symmetric] by (rule disjunctive_add) (auto simp: bit_simps dest: bit_imp_le_length)
  ultimately show ?thesis by simp
qed

lemma SWAP32_word4: "SWAP32 (word4 a b c d) = word4 d c b a"
  unfolding SWAP32_def masks32 word4_parts by (rule word4_sum)

lemma get32_word4: "get32 le b i =
  (if le then word4 (b ! i) (b ! (i + 1)) (b ! (i + 2)) (b ! (i + 3))
   else word4 (b ! (i + 3)) (b ! (i + 2)) (b ! (i + 1)) (b ! i))"
  by (rule bit_word_eqI) (auto simp: bit_word4 get32_def get16_def bit_simps numeral_3_eq_3 dest: bit_imp_le_length)

lemma SWAP32_get: "SWAP32 (get32 le b i) = get32 (\<not> le) b i"
  by (simp add: get32_word4 SWAP32_word4)

lemma join16: "ucast (ucast w :: u8) OR push_bit 8 (ucast (ucast (drop_bit 8 w) :: u8)) = w" for w :: u16
  by (rule bit_word_eqI) (auto simp: bit_simps)

lemma join32: "ucast (ucast w :: u16) OR push_bit 16 (ucast (ucast (drop_bit 16 w) :: u16)) = w" for w :: u32
  by (rule bit_word_eqI) (auto simp: bit_simps)

text \<open>What a timestamp says does not depend on the host that reads it.\<close>

definition tdf12 :: "u32 \<Rightarrow> u32" where
  "tdf12 m = (if m > 0x7ff then m - 0x1000 else m)"

definition normal_inacc :: "ExtInacc \<Rightarrow> ExtInacc" where
  "normal_inacc i = (if IsInfiniteInacc i then infiniteInacc else i)"

lemma flag_set: "x AND 0x80 = 0x80 \<longleftrightarrow> x AND 0x80 \<noteq> 0" for x :: u8
  using and_exp [of x 7] by (cases "bit x 7") simp_all

lemma comptime_fields: "utc_comptime le b =
  (let flags = b ! 15 in
   if drop_bit 4 (flags AND 0x70) \<noteq> 1 then None
   else if flags AND 0x80 = 0
   then Some (Bits64 (get32 True b 4) (get32 True b 0),
     normal_inacc (Bits64 (ucast (get16 True b 12)) (get32 True b 8)),
     tdf12 (push_bit 8 (ucast (flags AND 0xf)) + ucast (b ! 14)) * 60)
   else Some (Bits64 (get32 False b 0) (get32 False b 4),
     normal_inacc (Bits64 (ucast (get16 False b 8)) (push_bit 16 (ucast (get16 False b 10)) + ucast (get16 False b 12))),
     tdf12 (push_bit 4 (ucast (b ! 14)) + ucast (flags AND 0xf)) * 60))"
proof (cases "drop_bit 4 (b ! 15 AND 0x70) \<noteq> 1")
  case True
  then show ?thesis by (simp add: utc_comptime_def)
next
  case version: False
  note defs = utc_comptime_def Let_def flag_set SWAP32_get SWAP16_get normal_inacc_def tdf12_def
  show ?thesis
    using version by (cases le; cases "b ! 15 AND 0x80 = 0") (simp_all add: defs)
qed

lemma nibble_flags:
  fixes x :: u32
  assumes "x < 16"
  shows "drop_bit 4 ((ucast (x OR push_bit 4 1) :: u8) AND 0x70) = 1"
    and "(ucast (x OR push_bit 4 1) :: u8) AND 0x80 = 0"
    and "ucast ((ucast (x OR push_bit 4 1) :: u8) AND 0xf) = x"
    and "drop_bit 4 ((ucast (x OR push_bit 4 1 OR 0x80) :: u8) AND 0x70) = 1"
    and "(ucast (x OR push_bit 4 1 OR 0x80) :: u8) AND 0x80 = 0x80"
    and "ucast ((ucast (x OR push_bit 4 1 OR 0x80) :: u8) AND 0xf) = x"
proof -
  have "unat x < 16" using assms by (simp add: word_less_nat_alt)
  then obtain k where k: "k < 16" "x = word_of_nat k" using word_nat_cases [of x] by auto
  from k(1) have c: "k = 0 \<or> k = 1 \<or> k = 2 \<or> k = 3 \<or> k = 4 \<or> k = 5 \<or> k = 6 \<or> k = 7 \<or>
    k = 8 \<or> k = 9 \<or> k = 10 \<or> k = 11 \<or> k = 12 \<or> k = 13 \<or> k = 14 \<or> k = 15" by arith
  show "drop_bit 4 ((ucast (x OR push_bit 4 1) :: u8) AND 0x70) = 1"
    "(ucast (x OR push_bit 4 1) :: u8) AND 0x80 = 0"
    "ucast ((ucast (x OR push_bit 4 1) :: u8) AND 0xf) = x"
    "drop_bit 4 ((ucast (x OR push_bit 4 1 OR 0x80) :: u8) AND 0x70) = 1"
    "(ucast (x OR push_bit 4 1 OR 0x80) :: u8) AND 0x80 = 0x80"
    "ucast ((ucast (x OR push_bit 4 1 OR 0x80) :: u8) AND 0xf) = x"
    using c unfolding k(2) by (elim disjE; simp)+
qed

lemma low_nibble: "(m AND 0xf) < 16" for m :: u32
proof -
  have "(m AND 0xf) \<le> 0xf" by (rule word_and_le1)
  then show ?thesis by (rule le_less_trans) simp
qed

lemma tdf_little: "push_bit 8 (signed_drop_bit 8 m AND 0xf) + ucast (ucast (m AND 0xff) :: u8) = take_bit 12 m" for m :: u32
proof -
  have e: "(0xf :: u32) = mask 4" "(0xff :: u32) = mask 8" by (simp_all add: mask_eq_exp_minus_1)
  have "push_bit 8 (signed_drop_bit 8 m AND 0xf) + ucast (ucast (m AND 0xff) :: u8) =
      push_bit 8 (signed_drop_bit 8 m AND 0xf) OR ucast (ucast (m AND 0xff) :: u8)"
    unfolding e by (rule disjunctive_add) (auto simp: bit_simps)
  also have "\<dots> = take_bit 12 m"
    unfolding e by (rule bit_word_eqI) (auto simp: bit_simps)
  finally show ?thesis .
qed

lemma tdf_big: "push_bit 4 (ucast (ucast (signed_drop_bit 4 m) :: u8)) + (m AND 0xf) = take_bit 12 m" for m :: u32
proof -
  have e: "(0xf :: u32) = mask 4" by (simp add: mask_eq_exp_minus_1)
  have "push_bit 4 (ucast (ucast (signed_drop_bit 4 m) :: u8)) + (m AND 0xf) =
      push_bit 4 (ucast (ucast (signed_drop_bit 4 m) :: u8)) OR (m AND 0xf)"
    unfolding e by (rule disjunctive_add) (auto simp: bit_simps)
  also have "\<dots> = take_bit 12 m"
    unfolding e by (rule bit_word_eqI) (auto simp: bit_simps)
  finally show ?thesis .
qed

lemma inacc_words:
  "\<not> IsInfiniteInacc i \<Longrightarrow> ucast (ucast (hi i) :: u16) = hi i"
  "push_bit 16 (ucast (ucast (drop_bit 16 w) :: u16)) + ucast (ucast w :: u16) = (w :: u32)"
proof -
  assume "\<not> IsInfiniteInacc i"
  then have "uint (hi i) < 65536"
    unfolding infinite_uval uval_pair using uint_u32 [of "lo i"] by linarith
  then have "hi i = take_bit 16 (hi i)" by (intro word_uint_eqI) (simp add: unsigned_take_bit_eq take_bit_int_eq_self)
  also have "\<dots> = ucast (ucast (hi i) :: u16)" by (rule bit_word_eqI) (auto simp: bit_simps)
  finally show "ucast (ucast (hi i) :: u16) = hi i" by simp
next
  have "push_bit 16 (ucast (ucast (drop_bit 16 w) :: u16)) + ucast (ucast w :: u16)
     = push_bit 16 (ucast (ucast (drop_bit 16 w) :: u16)) OR (ucast (ucast w :: u16) :: u32)"
    by (rule disjunctive_add) (auto simp: bit_simps)
  also have "\<dots> = w" by (rule bit_word_eqI) (auto simp: bit_simps)
  finally show "push_bit 16 (ucast (ucast (drop_bit 16 w) :: u16)) + ucast (ucast w :: u16) = (w :: u32)" .
qed

lemma comptime_mkcomptime:
  "utc_comptime le' (utc_mkcomptime le t i tdf) =
    Some (t, (case i of None \<Rightarrow> infiniteInacc | Some j \<Rightarrow> normal_inacc j),
      tdf12 (take_bit 12 (word_of_int (sint tdf sdiv 60))) * 60)"
proof -
  define a where "a = (case i of None \<Rightarrow> infiniteInacc | Some j \<Rightarrow> normal_inacc j)"
  define m where "m = (word_of_int (sint tdf sdiv 60) :: u32)"
  have a: "normal_inacc a = a" "ucast (ucast (hi a) :: u16) = hi a"
    using inacc_words(1) by (auto simp: a_def normal_inacc_def infiniteInacc_def split: option.split)
  note low = low_nibble [of m] low_nibble [of "signed_drop_bit 8 m"]
  have bytes: "utc_mkcomptime le t i tdf =
      (if le
       then put32 le (lo t) @ put32 le (hi t) @ put32 le (lo a) @ put16 le (ucast (hi a)) @
             [ucast (m AND 0xff), ucast ((signed_drop_bit 8 m AND 0xf) OR push_bit 4 1)]
        else put32 le (hi t) @ put32 le (lo t) @ put16 le (ucast (hi a)) @
             put16 le (ucast (drop_bit 16 (lo a))) @ put16 le (ucast (lo a)) @
             [ucast (signed_drop_bit 4 m), ucast ((m AND 0xf) OR push_bit 4 1 OR 0x80)])"
    by (simp add: utc_mkcomptime_def a_def m_def normal_inacc_def Let_def cong: option.case_cong)
  show ?thesis unfolding a_def [symmetric] m_def [symmetric]
  proof (cases le)
    case True
    show "utc_comptime le' (utc_mkcomptime le t i tdf) = Some (t, a, tdf12 (take_bit 12 m) * 60)"
      unfolding bytes using nibble_flags(1-3) [OF low(2)] True tdf_little [of m]
      by (simp add: comptime_fields Let_def put32_def put16_def get32_def get16_def join16 join32 a)
  next
    case False
    show "utc_comptime le' (utc_mkcomptime le t i tdf) = Some (t, a, tdf12 (take_bit 12 m) * 60)"
      unfolding bytes using nibble_flags(4-6) [OF low(1)] False
      by (simp add: comptime_fields Let_def put32_def put16_def get32_def get16_def join16 join32 inacc_words tdf_big a)
  qed
qed

lemma tdf12_small:
  assumes "- 2048 \<le> sint m" "sint m < 2048"
  shows "tdf12 (take_bit 12 m) = m"
proof -
  have t: "uint (take_bit 12 m) = sint m mod 4096"
  proof -
    have "uint (take_bit 12 m) = uint m mod 4096" by (simp only: unsigned_take_bit_eq) (simp add: take_bit_eq_mod)
    then show ?thesis using mod_diff_right_eq [of "uint m" 4294967296 4096] by (simp add: sint_u32)
  qed
  show ?thesis
  proof (cases "0 \<le> sint m")
    case True
    then have s: "sint m = uint m" using uint_u32 [of m] by (simp add: sint_u32 split: if_splits)
    then have "uint (take_bit 12 m) = uint m" using assms True t by simp
    then have e: "take_bit 12 m = m" by (rule word_uint_eqI)
    have "uint m \<le> 2047" using s assms by simp
    then have "\<not> m > 0x7ff" by (simp add: word_less_def)
    then show ?thesis by (simp add: tdf12_def e)
  next
    case False
    then have "uint (take_bit 12 m) = sint m + 4096"
      using assms mod_add_self2 [of "sint m" 4096] mod_pos_pos_trivial [of "sint m + 4096" 4096]
      unfolding t by linarith
    moreover have "sint m = uint m - 4294967296" using False by (simp add: sint_u32 split: if_splits)
    ultimately have u: "uint (take_bit 12 m) = uint m - 4294963200" by simp
    have "take_bit 12 m = m - 4294963200"
      using u uint_u32 [of "take_bit 12 m"] by (intro word_uint_eqI) (simp add: uint_sub_if')
    moreover have "take_bit 12 m > 0x7ff" using assms \<open>uint (take_bit 12 m) = sint m + 4096\<close> by (simp add: word_less_def)
    ultimately show ?thesis by (simp add: tdf12_def)
  qed
qed

section \<open>Numbers without overflow\<close>

lemma w64_sval: "w64 a = word_of_int (sval a)"
  by (simp add: sval_def)

lemma sval_eqI: "w64 a = word_of_int k \<Longrightarrow> - 9223372036854775808 \<le> k \<Longrightarrow> k < 9223372036854775808 \<Longrightarrow> sval a = k"
proof -
  assume w: "w64 a = word_of_int k" and k: "- 9223372036854775808 \<le> k" "k < 9223372036854775808"
  have u: "uval a = k mod 18446744073709551616" by (simp add: uval_def w uint_word_of_int)
  show "sval a = k"
  proof (cases "0 \<le> k")
    case True
    then have "uval a = k" using k u by simp
    then show ?thesis using k by (simp add: sval_uval)
  next
    case False
    then have "uval a = k + 18446744073709551616" using k u mod_wrap [of k] by linarith
    then show ?thesis using k by (simp add: sval_uval)
  qed
qed

lemma uval_eqI: "w64 a = word_of_int k \<Longrightarrow> 0 \<le> k \<Longrightarrow> k < 18446744073709551616 \<Longrightarrow> uval a = k"
  by (simp add: uval_def uint_word_of_int)

lemma sval_add: "- 9223372036854775808 \<le> sval a + sval b \<Longrightarrow> sval a + sval b < 9223372036854775808 \<Longrightarrow>
    sval (UTCadd a b) = sval a + sval b"
  by (rule sval_eqI) (simp_all add: w64_sval [of a] w64_sval [of b])

lemma sval_sub: "- 9223372036854775808 \<le> sval a - sval b \<Longrightarrow> sval a - sval b < 9223372036854775808 \<Longrightarrow>
    sval (UTCsub a b) = sval a - sval b"
  by (rule sval_eqI) (simp_all add: w64_sval [of a] w64_sval [of b])

lemma finite_sval: "\<not> IsInfiniteInacc i \<Longrightarrow> sval i = uval i \<and> 0 \<le> uval i \<and> uval i < 281474976710655"
  using uval_bounds [of i] by (simp add: infinite_uval sval_uval)

lemma finite_normal: "\<not> IsInfiniteInacc i \<Longrightarrow> normal_inacc i = i"
  by (simp add: normal_inacc_def)

definition time_interval :: "UTCValue \<Rightarrow> ExtInacc \<Rightarrow> int set" where
  "time_interval t i = (if IsInfiniteInacc i then UNIV else {sval t - uval i .. sval t + uval i})"

definition utc_interval :: "utc_t \<Rightarrow> int set" where
  "utc_interval u = (case utc_comptime True u of None \<Rightarrow> {} | Some (t, i, _) \<Rightarrow> time_interval t i)"

lemma infinite_infinite: "IsInfiniteInacc infiniteInacc"
  by (simp add: IsInfiniteInacc_def infiniteInacc_def)

lemma time_interval_normal: "time_interval t (normal_inacc i) = time_interval t i"
  by (simp add: time_interval_def normal_inacc_def infinite_infinite)

lemma comptime_host: "utc_comptime le u = utc_comptime le' u"
  by (simp only: comptime_fields)

lemma utc_interval_Some: "utc_comptime le u = Some (t, i, d) \<Longrightarrow> utc_interval u = time_interval t i"
  using comptime_host [of le u True] by (simp add: utc_interval_def)

lemma utc_interval_mk:
  "utc_interval (utc_mkcomptime le t i tdf) = (case i of None \<Rightarrow> UNIV | Some j \<Rightarrow> time_interval t j)"
  by (simp add: utc_interval_def comptime_mkcomptime time_interval_normal split: option.split)
    (simp add: time_interval_def infinite_infinite)

section \<open>Halves of an interval\<close>

lemma uval_sval: "uval a = (if sval a < 0 then sval a + 18446744073709551616 else sval a)"
  using uval_bounds [of a] by (auto simp: sval_uval)

lemma even_uval: "uval a mod 2 = sval a mod 2"
  using mod_mult_self2 [of "sval a" 2 9223372036854775808] by (simp add: uval_sval)

lemma uint_low_bit: "uint (lo a AND 1) = sval a mod 2"
proof -
  have "uint (lo a AND 1) = uint (lo a) mod 2" by (simp add: and_one_eq uint_mod)
  also have "\<dots> = uval a mod 2"
    using mod_mult_self3 [of "uint (hi a) * 2147483648" 2 "uint (lo a)"] by (simp add: uval_pair mult.commute)
  finally show ?thesis by (simp add: even_uval)
qed

lemma low_bits:
  "uint ((lo a AND 1) + (lo b AND 1)) = sval a mod 2 + sval b mod 2"
  "sint (((lo a AND 1) + (lo b AND 1)) div 2) = (sval a mod 2 + sval b mod 2) div 2"
  "sint (((lo a AND 1) + (lo b AND 1) + 1) div 2) = (sval a mod 2 + sval b mod 2 + 1) div 2"
proof -
  have b: "0 \<le> sval a mod 2" "sval a mod 2 \<le> 1" "0 \<le> sval b mod 2" "sval b mod 2 \<le> 1"
    by (simp_all add: zle_diff1_eq [symmetric])
  show 1: "uint ((lo a AND 1) + (lo b AND 1)) = sval a mod 2 + sval b mod 2"
    using b by (simp add: uint_plus_if' uint_low_bit)
  have 2: "uint ((lo a AND 1) + (lo b AND 1) + 1) = sval a mod 2 + sval b mod 2 + 1"
    using b 1 uint_plus_if' [of "(lo a AND 1) + (lo b AND 1)" 1] by simp
  have h: "uint (x div 2) = uint x div 2" for x :: u32 by (simp add: uint_div)
  define p where "p = sval a mod 2 + sval b mod 2"
  have "0 \<le> p" "p \<le> 2" using b unfolding p_def by linarith+
  then have p: "\<not> 2147483648 \<le> p div 2" "\<not> 2147483648 \<le> (p + 1) div 2" by presburger+
  show "sint (((lo a AND 1) + (lo b AND 1)) div 2) = (sval a mod 2 + sval b mod 2) div 2"
    unfolding sint_u32 h 1 p_def [symmetric] using p by simp
  show "sint (((lo a AND 1) + (lo b AND 1) + 1) div 2) = (sval a mod 2 + sval b mod 2 + 1) div 2"
    unfolding sint_u32 h 2 p_def [symmetric] using p by simp
qed

lemma w64_half: "w64 (UTCdivideBy2 a) = word_of_int (sval a div 2 + (if sval a < 0 then 9223372036854775808 else 0))"
proof -
  have "uval a div 2 = sval a div 2 + (if sval a < 0 then 9223372036854775808 else 0)"
    using div_mult_self1 [of 2 "sval a" 9223372036854775808] by (simp add: uval_sval)
  then show ?thesis by (simp add: w64_of_uval uval_half)
qed

lemma halves_interval:
  fixes a b :: UTCValue
  defines "lowbits \<equiv> (lo a AND 1) + (lo b AND 1)"
  defines "m \<equiv> UTCiAdd (UTCadd (UTCdivideBy2 a) (UTCdivideBy2 b)) (lowbits div 2)"
    and "i \<equiv> UTCiAdd (UTCsub (UTCdivideBy2 b) (UTCdivideBy2 a)) ((lowbits + 1) div 2)"
  assumes ab: "sval a \<le> sval b" "sval b - sval a < 9223372036854775808"
  shows "(sval a < 0) = (sval b < 0) \<Longrightarrow>
      sval m = (sval a + sval b) div 2 \<and> uval i \<le> (sval b - sval a + 3) div 2 \<and> (sval b - sval a + 1) div 2 \<le> uval i"
    and "(sval a < 0) \<noteq> (sval b < 0) \<Longrightarrow> IsInfiniteInacc i"
    and "{sval a .. sval b} \<subseteq> time_interval m i"
proof -
  define a2 b2 l where "a2 = sval a div 2" "b2 = sval b div 2" "l = sval a mod 2 + sval b mod 2"
  note def2 = a2_b2_l_def
  define c where "c = (if sval a < 0 then 9223372036854775808 else 0 :: int)"
  define d where "d = (if sval b < 0 then 9223372036854775808 else 0 :: int)"
  have wm: "w64 m = word_of_int (a2 + b2 + l div 2 + c + d)"
    by (simp add: m_def lowbits_def w64_half scast_eq low_bits def2 c_def d_def add.commute add.left_commute)
  have wi: "w64 i = word_of_int (b2 - a2 + (l + 1) div 2 + d - c)"
    by (simp add: i_def lowbits_def w64_half scast_eq low_bits def2 c_def d_def)
  have sum: "a2 + b2 + l div 2 = (sval a + sval b) div 2" unfolding def2 by presburger
  define R where "R = b2 - a2 + (l + 1) div 2"
  have R: "R \<le> (sval b - sval a + 3) div 2" "(sval b - sval a + 1) div 2 \<le> R"
    unfolding R_def def2 by presburger+
  have bounds: "- 9223372036854775808 \<le> sval a" "sval b < 9223372036854775808" by (rule sval_bounds)+
  have m: "sval m = (sval a + sval b) div 2" and i: "uval i = R" if "(sval a < 0) = (sval b < 0)"
  proof -
    show "sval m = (sval a + sval b) div 2"
    proof (rule sval_eqI)
      show "w64 m = word_of_int ((sval a + sval b) div 2)"
        using that by (auto simp: wm c_def d_def sum [symmetric])
    qed (use that ab bounds in presburger)+
    show "uval i = R"
    proof (rule uval_eqI)
      show "w64 i = word_of_int R"
        using that by (simp add: wi c_def d_def R_def)
    qed (use ab R in presburger)+
  qed
  then show same: "sval m = (sval a + sval b) div 2 \<and> uval i \<le> (sval b - sval a + 3) div 2 \<and> (sval b - sval a + 1) div 2 \<le> uval i"
    if "(sval a < 0) = (sval b < 0)" using that R by simp
  show mixed: "IsInfiniteInacc i" if "(sval a < 0) \<noteq> (sval b < 0)"
  proof -
    have cd: "c = 9223372036854775808" "d = 0" using that ab by (auto simp: c_def d_def)
    have "uval i = R + 9223372036854775808"
    proof (rule uval_eqI)
      have "(y :: u64) - 9223372036854775808 = y + 9223372036854775808" for y
      proof -
        have "(y + 9223372036854775808) - (y - 9223372036854775808) = (0 :: u64)" by simp
        then show ?thesis by (simp only: right_minus_eq)
      qed
      then show "w64 i = word_of_int (R + 9223372036854775808)"
        unfolding wi cd R_def by simp
    qed (use ab R in presburger)+
    then show ?thesis using ab R unfolding infinite_uval by presburger
  qed
  show "{sval a .. sval b} \<subseteq> time_interval m i"
  proof (cases "(sval a < 0) = (sval b < 0)")
    case True
    have "(sval a + sval b) div 2 - R \<le> sval a" "sval b \<le> (sval a + sval b) div 2 + R"
      using R(2) by presburger+
    then show ?thesis using m [OF True] i [OF True] by (simp add: time_interval_def)
  next
    case False
    then show ?thesis using mixed by (simp add: time_interval_def)
  qed
qed

end
