(* ===== verification/Dts_Clock.thy ===== *)
theory Dts_Clock
  imports Dts_Utc "HOL-Library.Multiset"
begin

text \<open>
  The computation of the time from the answers of several servers (\<^verbatim>\<open>time/service/clock_adjust.c\<close>): each answer
  is translated to the moment of the synchronization, the ends of all intervals are sorted, and two scans find the
  part that all but \<open>f\<close> of the intervals share.  \<open>nextLS\<close>, the time of the next leap second, and the parameters of
  the clock are in shared memory; the routines get them as arguments.
\<close>

section \<open>Ends of intervals\<close>

datatype IntervalSize = non_infinite | infinite_size

datatype EndPointType = min_point | max_point

datatype EndPointElement = EndPoint (ep_value: UTCValue) (intervalSize: IntervalSize) (ep_type: EndPointType)

definition CalcIntervalEndPoints :: "UTCValue \<Rightarrow> ExtInacc \<Rightarrow> EndPointElement \<times> EndPointElement" where
  "CalcIntervalEndPoints T I =
    (if IsInfiniteInacc I then (EndPoint T infinite_size min_point, EndPoint T infinite_size max_point)
     else (EndPoint (UTCsub T I) non_infinite min_point, EndPoint (UTCadd T I) non_infinite max_point))"

definition end_points :: "(UTCValue \<times> ExtInacc) list \<Rightarrow> EndPointElement list" where
  "end_points ts = concat (map (\<lambda>(T, I). [fst (CalcIntervalEndPoints T I), snd (CalcIntervalEndPoints T I)]) ts)"

text \<open>\<open>None\<close> is the \<open>BugCheck\<close> for an interval with one infinite end.\<close>

definition CalcMidpointAndInacc :: "EndPointElement \<Rightarrow> EndPointElement \<Rightarrow> (UTCValue \<times> ExtInacc) option" where
  "CalcMidpointAndInacc minPoint maxPoint =
    (let lowBits = (if lo (ep_value minPoint) AND 1 \<noteq> 0 \<or> lo (ep_value maxPoint) AND 1 \<noteq> 0 then Bits64 0 1 else UTCzero);
         halfMin = UTCdivideBy2 (ep_value minPoint);
         halfMax = UTCdivideBy2 (ep_value maxPoint);
         midPoint = UTCadd halfMin halfMax
     in if intervalSize minPoint = non_infinite
        then if intervalSize maxPoint \<noteq> non_infinite then None
             else let inacc = UTCsub (ep_value maxPoint) (ep_value minPoint);
                      inacc = UTCdivideBy2 inacc
                  in Some (midPoint, UTCadd inacc lowBits)
        else Some (midPoint, infiniteInacc))"

definition CompareIntervalEndPoints :: "EndPointElement \<Rightarrow> EndPointElement \<Rightarrow> int" where
  "CompareIntervalEndPoints point1 point2 =
    (if intervalSize point1 = non_infinite \<and> intervalSize point2 = non_infinite
     then if IsUTClt (ep_value point1) (ep_value point2) then - 1
          else if IsUTCgt (ep_value point1) (ep_value point2) then 1
          else if ep_type point1 = ep_type point2 then 0
          else if ep_type point1 = min_point then - 1 else 1
     else if intervalSize point1 = non_infinite
     then if ep_type point2 = max_point then - 1 else 1
     else if intervalSize point2 = non_infinite
     then if ep_type point1 = min_point then - 1 else 1
     else if ep_type point1 = min_point \<and> ep_type point2 = max_point then - 1
     else if ep_type point1 = max_point \<and> ep_type point2 = min_point then 1
     else if IsUTClt (ep_value point1) (ep_value point2) then - 1
     else if IsUTCgt (ep_value point1) (ep_value point2) then 1 else 0)"

text \<open>The C library's \<open>qsort\<close>.\<close>

primrec qsort_insert :: "('a \<Rightarrow> 'a \<Rightarrow> int) \<Rightarrow> 'a \<Rightarrow> 'a list \<Rightarrow> 'a list" where
  "qsort_insert cmp x [] = [x]"
| "qsort_insert cmp x (y # ys) = (if cmp x y \<le> 0 then x # y # ys else y # qsort_insert cmp x ys)"

primrec qsort :: "('a \<Rightarrow> 'a \<Rightarrow> int) \<Rightarrow> 'a list \<Rightarrow> 'a list" where
  "qsort cmp [] = []"
| "qsort cmp (x # xs) = qsort_insert cmp x (qsort cmp xs)"

text \<open>
  The two scans.  The C loops have an index; \<open>end_scan\<close> gets the elements in the order of the index.  The pointer that
  the loops write is the element found, \<open>None\<close> as long as it is not written.
\<close>

fun end_scan :: "EndPointType \<Rightarrow> int \<Rightarrow> EndPointElement list \<Rightarrow> int \<Rightarrow> int \<Rightarrow> EndPointElement option \<Rightarrow>
    int \<times> EndPointElement option" where
  "end_scan k goal [] intersecting most p = (most, p)"
| "end_scan k goal (e # es) intersecting most p =
    (if most < goal
     then if ep_type e = k
          then (let intersecting = intersecting + 1
                in if intersecting > most then end_scan k goal es intersecting intersecting (Some e)
                   else end_scan k goal es intersecting most p)
          else end_scan k goal es (intersecting - 1) most p
     else (most, p))"

definition ComputedTimeMaximum :: "int \<Rightarrow> int \<Rightarrow> EndPointElement list \<Rightarrow> int \<times> EndPointElement option" where
  "ComputedTimeMaximum M f endPointArr =
    end_scan max_point (M - f) (rev (drop 1 (take (nat (2 * M)) endPointArr))) 0 0 None"

definition ComputedTimeMinimum :: "int \<Rightarrow> int \<Rightarrow> EndPointElement list \<Rightarrow> int \<times> EndPointElement option" where
  "ComputedTimeMinimum M f endPointArr =
    end_scan min_point (M - f) (take (nat (2 * M - 1)) endPointArr) 0 0 None"

section \<open>The time of a server\<close>

record ClockParams =
  clockResolution :: u32
  clockDrift :: u32

definition AddLSToInacc :: "ExtInacc \<Rightarrow> ExtInacc" where
  "AddLSToInacc I = (if \<not> IsInfiniteInacc I then UTCiAdd I K_100NS_PER_SEC else I)"

definition IsGreaterThanOrEqualNextLS :: "UTCValue \<Rightarrow> ExtInacc \<Rightarrow> UTCValue \<Rightarrow> bool" where
  "IsGreaterThanOrEqualNextLS T I nextLS \<longleftrightarrow> IsInfiniteInacc I \<or> \<not> IsUTClt (UTCadd T I) nextLS"

text \<open>
  \<open>EstimateServerTime\<close>: \<open>Inl\<close> is \<open>DTSS_ERROR\<close>.  \<open>None\<close> is the division by a drift of 0, and the use of a quotient that
  the second \<open>ediv\<close>, whose status is not looked at, has not computed.
\<close>

definition EstimateServerTime :: "ClockParams \<Rightarrow> UTCValue \<Rightarrow> UTCValue \<Rightarrow> UTCValue \<Rightarrow> ExtInacc \<Rightarrow> UTCValue \<Rightarrow>
    UTCValue \<Rightarrow> UTCValue \<Rightarrow> ExtInacc \<Rightarrow> (unit + UTCValue \<times> ExtInacc) option" where
  "EstimateServerTime clockParams nextLS Tsend Tresp Iresp procDelay Trec Tsync Isync =
    (if clockDrift clockParams = 0 then None
     else
       let resolution = clockResolution clockParams div 100;
           maxDriftReciprocal = 1000000000 div clockDrift clockParams;
           elapsedTime = UTCsub (UTCiAdd Trec resolution) Tsend
       in case ediv elapsedTime maxDriftReciprocal of
            (True, Some (maxDriftFactor, _)) \<Rightarrow>
              let elapsedTime = UTCdivideBy2 (UTCiAdd elapsedTime maxDriftFactor);
                  procDelayFactor = UTCdivideBy2 procDelay;
                  Tserv = UTCsub Tresp elapsedTime;
                  Tserv = UTCadd Tserv procDelayFactor;
                  Tserv = UTCsub Tserv Tsend;
                  Tserv = UTCadd Tserv Tsync
              in if \<not> IsInfiniteInacc Iresp
                 then let Iserv = UTCsub (UTCadd Iresp elapsedTime) procDelayFactor;
                          adjustBase = UTCsub Tsync Tsend
                      in case snd (ediv adjustBase maxDriftReciprocal) of
                           None \<Rightarrow> None
                         | Some (maxDriftFactor, _) \<Rightarrow>
                             let Iserv = UTCiAdd Iserv maxDriftFactor;
                                 Iserv = (if \<not> IsGreaterThanOrEqualNextLS Tresp Iresp nextLS \<and>
                                             IsGreaterThanOrEqualNextLS Tsync Isync nextLS
                                          then AddLSToInacc Iserv else Iserv)
                             in Some (Inr (Tserv, if IsInfiniteInacc Iserv then infiniteInacc else Iserv))
                 else Some (Inr (Tserv, infiniteInacc))
          | _ \<Rightarrow> Some (Inl ()))"

section \<open>Relations of intervals\<close>

definition IsIntervalIntersection :: "UTCValue \<Rightarrow> ExtInacc \<Rightarrow> UTCValue \<Rightarrow> ExtInacc \<Rightarrow> bool" where
  "IsIntervalIntersection time1 inacc1 time2 inacc2 =
    (if IsInfiniteInacc inacc1 \<or> IsInfiniteInacc inacc2 then True
     else let minTime1 = UTCsub time1 inacc1; maxTime1 = UTCadd time1 inacc1;
              minTime2 = UTCsub time2 inacc2; maxTime2 = UTCadd time2 inacc2
          in \<not> (IsUTClt maxTime1 minTime2 \<or> IsUTClt maxTime2 minTime1))"

definition IsInterval1InInterval2 :: "UTCValue \<Rightarrow> ExtInacc \<Rightarrow> UTCValue \<Rightarrow> ExtInacc \<Rightarrow> bool" where
  "IsInterval1InInterval2 time1 inacc1 time2 inacc2 =
    (if IsInfiniteInacc inacc2 then True
     else if IsInfiniteInacc inacc1 then False
     else let minTime1 = UTCsub time1 inacc1; maxTime1 = UTCadd time1 inacc1;
              minTime2 = UTCsub time2 inacc2; maxTime2 = UTCadd time2 inacc2
          in \<not> IsUTClt minTime1 minTime2 \<and> \<not> IsUTCgt maxTime1 maxTime2)"

end
