(* ===== verification/Dts_Marzullo.thy ===== *)
theory Dts_Marzullo
  imports Dts_Clock
begin

text \<open>
  Sorting the ends of the intervals and the two scans.  The comparison function is a linear order, so that
  \<open>qsort\<close> is \<^const>\<open>sort\<close>.  A moment that lies in \<open>M - f\<close> of the intervals lies between the two ends that the
  scans find.
\<close>

section \<open>The comparison and \<open>qsort\<close>\<close>

definition class_rank :: "EndPointElement \<Rightarrow> int" where
  "class_rank e = (if intervalSize e = non_infinite then 1 else if ep_type e = min_point then 0 else 2)"

definition point_key :: "EndPointElement \<Rightarrow> int \<times> int \<times> int" where
  "point_key e = (class_rank e, sval (ep_value e), if ep_type e = min_point then 0 else 1)"

lemma size_cases: "(s \<noteq> non_infinite) = (s = infinite_size)" "(s \<noteq> infinite_size) = (s = non_infinite)"
  by (cases s; simp)+

lemma type_cases: "(k \<noteq> min_point) = (k = max_point)" "(k \<noteq> max_point) = (k = min_point)"
  by (cases k; simp)+

lemma compare_key: "CompareIntervalEndPoints a b = cmp_int (point_key a) (point_key b)"
  by (cases a; cases b; cases "intervalSize a"; cases "intervalSize b"; cases "ep_type a"; cases "ep_type b")
    (auto simp: CompareIntervalEndPoints_def point_key_def class_rank_def cmp_int_pair, auto simp: cmp_int_def)

lemma point_key_inject: "point_key a = point_key b \<longleftrightarrow> a = b"
  by (cases a; cases b; cases "intervalSize a"; cases "intervalSize b"; cases "ep_type a"; cases "ep_type b")
    (auto simp: point_key_def class_rank_def sval_inject)

lemma cmp_int_signs: "cmp_int x y \<le> 0 \<longleftrightarrow> x \<le> y" "cmp_int x y < 0 \<longleftrightarrow> x < y"
  by (auto simp: cmp_int_def)

instantiation EndPointElement :: linorder
begin

definition "less_eq_EndPointElement a b \<longleftrightarrow> CompareIntervalEndPoints a b \<le> 0"
definition "less_EndPointElement a b \<longleftrightarrow> CompareIntervalEndPoints a b < 0"

instance
proof -
  have le: "a \<le> b \<longleftrightarrow> point_key a \<le> point_key b" for a b
    by (simp add: less_eq_EndPointElement_def compare_key cmp_int_signs)
  have less: "a < b \<longleftrightarrow> point_key a < point_key b" for a b
    by (simp add: less_EndPointElement_def compare_key cmp_int_signs)
  show "OFCLASS(EndPointElement, linorder_class)"
    by standard (auto simp: le less point_key_inject [symmetric])
qed

end

lemma le_key: "a \<le> b \<longleftrightarrow> point_key a \<le> point_key b"
  by (simp add: less_eq_EndPointElement_def compare_key cmp_int_signs)

interpretation point_order: three_way_comparison CompareIntervalEndPoints "\<lambda>_. True"
  by unfold_locales (auto simp: compare_key cmp_int_signs point_key_inject,
    (auto simp: cmp_int_def point_key_inject split: if_splits)+)

lemma qsort_sort: "qsort CompareIntervalEndPoints es = sort es"
proof -
  have "qsort_insert CompareIntervalEndPoints e es = insort e es" for e es
    by (induction es) (simp_all add: less_eq_EndPointElement_def)
  then show ?thesis by (induction es) simp_all
qed

text \<open>The result of \<open>qsort\<close> does not depend on the algorithm of the library.\<close>

lemma qsort_determined:
  assumes "mset ys = mset xs" "sorted_wrt (\<lambda>a b. CompareIntervalEndPoints a b \<le> 0) ys"
  shows "ys = qsort CompareIntervalEndPoints xs"
proof -
  have "(\<le>) = (\<lambda>a b. CompareIntervalEndPoints a b \<le> 0)" by (intro ext) (simp add: less_eq_EndPointElement_def)
  then have "sorted ys" using assms(2) by simp
  then show ?thesis using assms(1) by (simp add: qsort_sort properties_for_sort)
qed

section \<open>Scans\<close>

fun height :: "EndPointType \<Rightarrow> EndPointElement list \<Rightarrow> int" where
  "height k [] = 0"
| "height k (e # es) = (if ep_type e = k then 1 else - 1) + height k es"

lemma height_append [simp]: "height k (xs @ ys) = height k xs + height k ys"
  by (induction xs) simp_all

lemma height_rev [simp]: "height k (rev xs) = height k xs"
  by (induction xs) simp_all

lemma height_perm: "mset xs = mset ys \<Longrightarrow> height k xs = height k ys"
proof (induction xs arbitrary: ys)
  case (Cons x xs)
  have "x \<in> set ys" using Cons.prems by (metis list.set_intros(1) set_mset_mset)
  then obtain as bs where "ys = as @ x # bs" by (auto simp: in_set_conv_decomp)
  then show ?case using Cons.IH [of "as @ bs"] Cons.prems by simp
qed simp

text \<open>When some prefix has the height of the goal, the scan ends at the first element that reaches it.\<close>

lemma end_scan_done: "goal \<le> most \<Longrightarrow> end_scan k goal es n most p = (most, p)"
  by (cases es) simp_all

lemma end_scan_step:
  assumes "n \<le> most" "most < goal"
  shows "\<exists>q. end_scan k goal (e # es) n most p =
    end_scan k goal es (n + (if ep_type e = k then 1 else - 1)) (max most (n + (if ep_type e = k then 1 else - 1))) q \<and>
    q = (if ep_type e = k \<and> most < n + 1 then Some e else p)"
  using assms by (cases "ep_type e = k"; cases "most < n + 1") (simp_all add: Let_def)

lemma end_scan_reaches:
  assumes "n \<le> most" "most < goal" "m \<le> length es" "goal \<le> n + height k (take m es)"
  shows "\<exists>i<m. end_scan k goal es n most p = (goal, Some (es ! i)) \<and> ep_type (es ! i) = k \<and>
    n + height k (take (Suc i) es) = goal \<and> (\<forall>j\<le>i. n + height k (take j es) < goal)"
  using assms
proof (induction es arbitrary: n most m p)
  case Nil
  then show ?case by simp
next
  case (Cons e es)
  then obtain j where m: "m = Suc j" by (cases m) auto
  define n' where "n' = n + (if ep_type e = k then 1 else - 1)"
  have reach: "goal \<le> n' + height k (take j es)" using Cons.prems(4) by (simp add: m n'_def)
  obtain q where q: "end_scan k goal (e # es) n most p = end_scan k goal es n' (max most n') q"
    and q': "q = (if ep_type e = k \<and> most < n + 1 then Some e else p)"
    using end_scan_step [OF Cons.prems(1,2), of k e es p] by (auto simp only: n'_def)
  show ?case
  proof (cases "n' = goal")
    case True
    then have "ep_type e = k" "n + 1 = goal" "most = n" using Cons.prems by (auto simp: n'_def split: if_splits)
    then show ?thesis using m by (intro exI [of _ 0]) (simp add: q q' True end_scan_done)
  next
    case False
    have "n' \<le> max most n'" "max most n' < goal" "j \<le> length es"
      using False Cons.prems m by (auto simp: n'_def split: if_splits)
    from Cons.IH [OF this reach, of q] obtain i where i: "i < j" "end_scan k goal es n' (max most n') q = (goal, Some (es ! i))"
      "ep_type (es ! i) = k" "n' + height k (take (Suc i) es) = goal" "\<forall>j\<le>i. n' + height k (take j es) < goal"
      by blast
    have least: "n + height k (take l (e # es)) < goal" if "l \<le> Suc i" for l
      using that i(5) Cons.prems(1,2) by (cases l) (auto simp: n'_def)
    have "n + height k (take (Suc (Suc i)) (e # es)) = goal" using i(4) by (simp add: n'_def)
    moreover have "end_scan k goal (e # es) n most p = (goal, Some ((e # es) ! Suc i))" by (simp only: q i(2)) simp
    ultimately show ?thesis using i(1,3) m least by (intro exI [of _ "Suc i"]) simp
  qed
qed

text \<open>A goal that no prefix reaches is as good as the largest height.\<close>

lemma end_scan_cap:
  assumes "n \<le> most" "most \<le> c" "c \<le> goal" "\<forall>m\<le>length es. n + height k (take m es) \<le> c"
  shows "end_scan k goal es n most p = end_scan k c es n most p"
  using assms
proof (induction es arbitrary: n most p)
  case (Cons e es)
  define n' where "n' = n + (if ep_type e = k then 1 else - 1)"
  have h: "\<forall>m\<le>length es. n' + height k (take m es) \<le> c"
  proof (intro allI impI)
    fix m assume "m \<le> length es"
    then show "n' + height k (take m es) \<le> c" using Cons.prems(4) [rule_format, of "Suc m"] by (simp add: n'_def)
  qed
  have n': "n' \<le> c" using h [rule_format, of 0] by simp
  note IH = Cons.IH [of n' "max most n'", OF _ _ Cons.prems(3) h]
  consider "most = goal" | "most < goal" "most = c" | "most < goal" "most < c" using Cons.prems by linarith
  then show ?case
  proof cases
    case 1
    then show ?thesis using Cons.prems by simp
  next
    case 2
    have "end_scan k goal es n' c p = (c, p)"
      using IH [of p] n' 2 end_scan_done [of c c] by (simp add: max_def)
    moreover have "end_scan k goal (e # es) n most p = end_scan k goal es n' c p"
      using end_scan_step [OF Cons.prems(1) 2(1), of k e es p] n' 2(2) by (auto simp: n'_def max_def split: if_splits)
    ultimately show ?thesis using 2(2) end_scan_done [of c c] by simp
  next
    case 3
    show ?thesis
      using end_scan_step [OF Cons.prems(1) 3(1), of k e es p] end_scan_step [OF Cons.prems(1) 3(2), of k e es p]
        IH n' 3 by (auto simp: n'_def)
  qed
qed simp

text \<open>
  What one scan finds: the first element that reaches the largest height up to the goal.  The last element is not
  looked at.
\<close>

lemma scan_finds:
  assumes "1 \<le> goal" "L \<noteq> []" "ep_type (hd L) = k" "height k L = 0"
  shows "\<exists>g i. end_scan k goal (take (length L - 1) L) 0 0 None = (g, Some (L ! i)) \<and> i < length L \<and>
    ep_type (L ! i) = k \<and> 1 \<le> g \<and> g \<le> goal \<and> height k (take (Suc i) L) = g \<and> (\<forall>j\<le>i. height k (take j L) < g) \<and>
    (g < goal \<longrightarrow> (\<forall>m. height k (take m L) \<le> g))"
proof -
  define K where "K = take (length L - 1) L"
  define c where "c = Max ((\<lambda>m. height k (take m L)) ` {..length L})"
  have L: "L = hd L # tl L" using assms(2) by simp
  have one: "height k (take 1 L) = 1" using assms(3) by (subst L) simp
  have len: "2 \<le> length L" using assms(2,4) one by (cases L; cases "tl L") auto
  have c: "height k (take m L) \<le> c" for m
  proof (cases "m \<le> length L")
    case True
    then show ?thesis unfolding c_def by (intro Max_ge) auto
  next
    case False
    then have "take m L = take (length L) L" by simp
    then show ?thesis unfolding c_def by (intro Max_ge) (auto simp del: take_all)
  qed
  have "c \<in> (\<lambda>m. height k (take m L)) ` {..length L}" unfolding c_def by (intro Max_in) auto
  then obtain m where m: "m \<le> length L" "height k (take m L) = c" by auto
  have c1: "1 \<le> c" using c [of 1] one by simp
  then have "m \<noteq> length L" using m assms(4) by auto
  then have mK: "m \<le> length K" "height k (take m K) = c" using m by (simp_all add: K_def)
  have capK: "\<forall>m\<le>length K. 0 + height k (take m K) \<le> c" using c by (simp add: K_def)
  define g where "g = min goal c"
  have g: "1 \<le> g" "g \<le> goal" "g \<le> c" using assms(1) c1 by (auto simp: g_def)
  have "end_scan k goal K 0 0 None = end_scan k g K 0 0 None"
  proof (cases "goal \<le> c")
    case False
    then show ?thesis using end_scan_cap [of 0 0 c goal K k None] capK c1 by (simp add: g_def)
  qed (simp add: g_def)
  moreover obtain i where i: "i < m" "end_scan k g K 0 0 None = (g, Some (K ! i))" "ep_type (K ! i) = k"
    "height k (take (Suc i) K) = g" "\<forall>j\<le>i. height k (take j K) < g"
    using end_scan_reaches [of 0 0 g m K k None] g mK by auto
  moreover have "K ! i = L ! i" "take (Suc i) K = take (Suc i) L" using i(1) mK(1) by (simp_all add: K_def)
  moreover have "take j K = take j L" if "j \<le> i" for j using that i(1) mK(1) by (simp add: K_def)
  moreover have "i < length L" using i(1) m(1) by simp
  moreover have "height k (take m L) \<le> g" if "g < goal" for m using that c [of m] by (auto simp: g_def)
  ultimately show ?thesis unfolding K_def [symmetric] using g by (intro exI [of _ g] exI [of _ i]) auto
qed

section \<open>Moments\<close>

definition before :: "int \<Rightarrow> EndPointElement \<Rightarrow> bool" where
  "before x e = (if intervalSize e = non_infinite
     then if ep_type e = min_point then sval (ep_value e) \<le> x else sval (ep_value e) < x
     else ep_type e = min_point)"

lemma before_antimono: "a \<le> b \<Longrightarrow> before x b \<Longrightarrow> before x a"
  by (cases "intervalSize a"; cases "intervalSize b"; cases "ep_type a"; cases "ep_type b")
    (auto simp: le_key point_key_def class_rank_def before_def less_eq_prod_def)

lemma filter_prefix:
  assumes "sorted_wrt R L" "\<And>a b. R a b \<Longrightarrow> P b \<Longrightarrow> P a"
  shows "filter P L = take (length (filter P L)) L"
  using assms(1)
proof (induction L)
  case (Cons a L)
  show ?case
  proof (cases "P a")
    case False
    then have "\<not> P b" if "b \<in> set L" for b using that Cons.prems assms(2) by auto
    then show ?thesis using False by (simp add: filter_empty_conv)
  qed (use Cons in simp)
qed simp

lemma filter_prefix_drop:
  assumes "filter P L = take m L" "e \<in> set (drop m L)"
  shows "\<not> P e"
proof -
  have "\<forall>a\<in>set (take m L). P a" unfolding assms(1) [symmetric] by simp
  then have "filter P (take m L) = take m L" by simp
  moreover have "filter P (take m L) @ filter P (drop m L) = take m L"
    using assms(1) by (metis append_take_drop_id filter_append)
  ultimately have "filter P (drop m L) = []" by simp
  then show ?thesis using assms(2) by (simp add: filter_empty_conv)
qed

definition intervals_at :: "(UTCValue \<times> ExtInacc) list \<Rightarrow> int \<Rightarrow> int" where
  "intervals_at ts x = int (length (filter (\<lambda>(T, I). x \<in> time_interval T I) ts))"

definition no_overflow :: "UTCValue \<Rightarrow> ExtInacc \<Rightarrow> bool" where
  "no_overflow T I \<longleftrightarrow> IsInfiniteInacc I \<or>
    - 9223372036854775808 \<le> sval T - uval I \<and> sval T + uval I < 9223372036854775808"

lemma end_values:
  assumes "no_overflow T I" "\<not> IsInfiniteInacc I"
  shows "sval (UTCsub T I) = sval T - uval I" "sval (UTCadd T I) = sval T + uval I" "0 \<le> uval I"
  using assms finite_sval [OF assms(2)] sval_bounds [of T] by (auto simp: no_overflow_def sval_sub sval_add)

lemma height_before:
  assumes "\<forall>(T, I) \<in> set ts. no_overflow T I"
  shows "height min_point (filter (before x) (end_points ts)) = intervals_at ts x"
  using assms
proof (induction ts)
  case (Cons t ts)
  obtain T I where t: "t = (T, I)" by (cases t)
  have "height min_point (filter (before x) (end_points [t])) = (if x \<in> time_interval T I then 1 else 0)"
  proof (cases "IsInfiniteInacc I")
    case True
    then show ?thesis by (simp add: t end_points_def CalcIntervalEndPoints_def before_def time_interval_def)
  next
    case False
    then show ?thesis using end_values [of T I] Cons.prems
      by (auto simp: t end_points_def CalcIntervalEndPoints_def before_def time_interval_def)
  qed
  moreover have "end_points (t # ts) = end_points [t] @ end_points ts" by (simp add: end_points_def)
  ultimately show ?case using Cons by (simp add: intervals_at_def t)
qed (simp add: end_points_def intervals_at_def)

lemma height_ends: "height k (end_points ts) = 0"
  by (cases k; induction ts) (auto simp: end_points_def CalcIntervalEndPoints_def)

lemma height_opposite: "height max_point es = - height min_point es"
  by (induction es) (auto simp: type_cases)

lemma height_filter_not: "height k (filter P es) + height k (filter (\<lambda>e. \<not> P e) es) = height k es"
  by (induction es) simp_all

lemma height_after:
  assumes "\<forall>(T, I) \<in> set ts. no_overflow T I"
  shows "height max_point (filter (\<lambda>e. \<not> before x e) (end_points ts)) = intervals_at ts x"
  using height_before [OF assms, of x] height_filter_not [of min_point "before x" "end_points ts"]
  by (simp add: height_opposite height_ends)

section \<open>One side of the result\<close>

text \<open>
  \<open>P x\<close> are the ends that one meets before the moment \<open>x\<close>, coming from the start of \<open>L\<close>, and \<open>h x\<close> is the number of
  intervals around \<open>x\<close>.
\<close>

lemma hull_side:
  assumes sorted: "sorted_wrt R L" and refl: "\<And>e. R e e" and mono: "\<forall>x a b. R a b \<longrightarrow> P x b \<longrightarrow> P x a"
    and ht: "\<And>x. height k (filter (P x) L) = h x"
    and scan: "1 \<le> goal" "L \<noteq> []" "ep_type (hd L) = k" "height k L = 0"
  shows "\<exists>g e. end_scan k goal (take (length L - 1) L) 0 0 None = (g, Some e) \<and> e \<in> set L \<and> ep_type e = k \<and>
    1 \<le> g \<and> g \<le> goal \<and> (g < goal \<longrightarrow> (\<forall>x. h x \<le> g)) \<and> (\<forall>x. g \<le> h x \<longrightarrow> P x e) \<and>
    (\<forall>x. P x e \<longrightarrow> (\<forall>e'\<in>set L. R e e' \<longrightarrow> P x e' \<longrightarrow> ep_type e' = k) \<longrightarrow> g \<le> h x)"
proof -
  obtain g i where found: "end_scan k goal (take (length L - 1) L) 0 0 None = (g, Some (L ! i))" "i < length L"
    "ep_type (L ! i) = k" "1 \<le> g" "g \<le> goal" and g: "height k (take (Suc i) L) = g"
    and least: "\<forall>j\<le>i. height k (take j L) < g" and best: "g < goal \<longrightarrow> (\<forall>m. height k (take m L) \<le> g)"
    using scan_finds [OF scan] by blast
  define m where "m x = length (filter (P x) L)" for x
  have pre: "filter (P x) L = take (m x) L" for x 
    unfolding m_def by (rule filter_prefix [OF sorted]) (use mono in blast)
  have hm: "h x = height k (take (m x) L)" for x using ht [of x] by (simp only: pre)
  have "P x (L ! i)" if "g \<le> h x" for x
  proof -
    have "i < m x" using that least hm [of x] by (metis not_le)
    then have "L ! i \<in> set (take (m x) L)" using found(2) by (auto simp: in_set_conv_nth intro!: exI [of _ i])
    then show ?thesis unfolding pre [symmetric] by simp
  qed
  moreover have "g \<le> h x" if x: "P x (L ! i)" "\<forall>e'\<in>set L. R (L ! i) e' \<longrightarrow> P x e' \<longrightarrow> ep_type e' = k" for x
  proof -
    have "m x \<le> length L" by (simp add: m_def)
    have "i < m x"
    proof (rule ccontr)
      assume "\<not> i < m x"
      then have "L ! i \<in> set (drop (m x) L)"
        using found(2) by (auto simp: in_set_conv_nth intro!: exI [of _ "i - m x"])
      then show False using filter_prefix_drop [OF pre] x(1) by blast
    qed
    then have split: "take (m x) L = take (Suc i) L @ drop (Suc i) (take (m x) L)"
      by (metis Suc_leI append_take_drop_id min.absorb1 take_take)
    have up: "ep_type e' = k" if "e' \<in> set (drop (Suc i) (take (m x) L))" for e'
    proof -
      from that obtain l where l: "e' = L ! l" "i < l" "l < m x" "l < length L"
        by (auto simp: in_set_conv_nth)
      then have "R (L ! i) e'" using sorted by (simp add: sorted_wrt_iff_nth_less)
      moreover have "P x e'"
        using in_set_dropD [OF that] by (simp add: pre [of x, symmetric])
      ultimately show ?thesis using x(2) l(1,4) by simp
    qed
    have "0 \<le> height k es" if "\<forall>e'\<in>set es. ep_type e' = k" for es using that by (induction es) simp_all
    moreover have "h x = g + height k (drop (Suc i) (take (m x) L))"
      using height_append [of k "take (Suc i) L" "drop (Suc i) (take (m x) L)"] split g hm [of x] by simp
    ultimately show ?thesis using up by simp
  qed
  moreover have "h x \<le> g" if "g < goal" for x using best that by (simp add: hm)
  ultimately show ?thesis using found by (intro exI [of _ g] exI [of _ "L ! i"]) auto
qed

section \<open>Both sides\<close>

lemma partner:
  assumes "\<forall>(T, I) \<in> set ts. no_overflow T I" "e \<in> set (end_points ts)"
  shows "\<exists>e'\<in>set (end_points ts). ep_type e' \<noteq> ep_type e \<and> (if ep_type e = min_point then e < e' else e' < e)"
proof -
  obtain T I where t: "(T, I) \<in> set ts" "e = fst (CalcIntervalEndPoints T I) \<or> e = snd (CalcIntervalEndPoints T I)"
    using assms(2) by (auto simp: end_points_def)
  have "fst (CalcIntervalEndPoints T I) < snd (CalcIntervalEndPoints T I)"
    using end_values [of T I] bspec [OF assms(1) t(1)] uval_bounds(1) [of I]
    by (cases "IsInfiniteInacc I") (auto simp: CalcIntervalEndPoints_def less_EndPointElement_def CompareIntervalEndPoints_def)
  moreover have "ep_type (fst (CalcIntervalEndPoints T I)) = min_point" "ep_type (snd (CalcIntervalEndPoints T I)) = max_point"
    by (simp_all add: CalcIntervalEndPoints_def)
  moreover have "fst (CalcIntervalEndPoints T I) \<in> set (end_points ts)" "snd (CalcIntervalEndPoints T I) \<in> set (end_points ts)"
    using t(1) by (auto simp: end_points_def intro!: bexI [of _ "(T, I)"])
  ultimately show ?thesis using t(2) by (metis EndPointType.distinct(1))
qed

lemma first_last:
  assumes "\<forall>(T, I) \<in> set ts. no_overflow T I" "ts \<noteq> []"
  shows "ep_type (hd (sort (end_points ts))) = min_point" "ep_type (last (sort (end_points ts))) = max_point" "sort (end_points ts) \<noteq> []"
proof -
  define es where "es = sort (end_points ts)"
  obtain T I ts' where "ts = (T, I) # ts'" using assms(2) by (cases ts) auto
  then have "set (end_points ts) \<noteq> {}" by (simp add: end_points_def)
  moreover have s: "sorted es" "set es = set (end_points ts)" by (simp_all add: es_def)
  ultimately have ne: "es \<noteq> []" by auto
  have hd: "hd es \<le> e" if "e \<in> set es" for e using that s(1) ne by (cases es) auto
  have last: "e \<le> last es" if "e \<in> set es" for e
    using that s(1) by (auto simp: in_set_conv_nth last_conv_nth [OF ne] intro!: sorted_nth_mono)
  show "ep_type (hd (sort (end_points ts))) = min_point"
    using partner [OF assms(1), of "hd es"] hd ne s(2) unfolding es_def [symmetric]
    by (metis hd_in_set not_le)
  show "ep_type (last (sort (end_points ts))) = max_point"
    using partner [OF assms(1), of "last es"] last ne s(2) unfolding es_def [symmetric]
    by (metis last_in_set not_le type_cases(1))
  show "sort (end_points ts) \<noteq> []" using ne by (simp add: es_def)
qed

lemma length_end_points: "length (end_points ts) = 2 * length ts"
  by (induction ts) (auto simp: end_points_def)

lemma scanned_lists:
  assumes "length es = 2 * n"
  shows "take (nat (2 * int n - 1)) es = take (length es - 1) es"
    and "rev (drop 1 (take (nat (2 * int n)) es)) = take (length (rev es) - 1) (rev es)"
proof -
  show "take (nat (2 * int n - 1)) es = take (length es - 1) es" using assms by (simp add: nat_diff_distrib' nat_mult_distrib)
  have "take (nat (2 * int n)) es = es" using assms by (simp add: nat_mult_distrib)
  then show "rev (drop 1 (take (nat (2 * int n)) es)) = take (length (rev es) - 1) (rev es)"
    by (simp add: rev_drop)
qed

lemma height_sort_filter: "height k (filter P (sort es)) = height k (filter P es)"
  by (rule height_perm) (simp add: mset_filter)

text \<open>Before the first and after the last moment of 64 bits there are only the infinite intervals.\<close>

definition infinite_intervals :: "(UTCValue \<times> ExtInacc) list \<Rightarrow> int" where
  "infinite_intervals ts = int (length (filter (\<lambda>(T, I). IsInfiniteInacc I) ts))"

lemma outside:
  assumes "\<forall>(T, I) \<in> set ts. no_overflow T I" "x < - 9223372036854775808 \<or> 9223372036854775808 \<le> x"
  shows "intervals_at ts x = infinite_intervals ts"
proof -
  have "x \<in> time_interval T I \<longleftrightarrow> IsInfiniteInacc I" if "(T, I) \<in> set ts" for T I
    using bspec [OF assms(1) that] assms(2) by (auto simp: time_interval_def no_overflow_def)
  then show ?thesis unfolding intervals_at_def infinite_intervals_def by (auto intro!: arg_cong [of _ _ length] filter_cong)
qed

lemma before_outside:
  "before (- 9223372036854775809) e \<longleftrightarrow> intervalSize e = infinite_size \<and> ep_type e = min_point"
  "\<not> before 9223372036854775808 e \<longleftrightarrow> intervalSize e = infinite_size \<and> ep_type e = max_point"
  using sval_bounds [of "ep_value e"]
  by (cases "intervalSize e"; cases "ep_type e"; simp add: before_def)+

text \<open>Of the ends that are not before a given one in the order, those met before its own moment are of its kind.\<close>

lemma same_kind:
  assumes "intervalSize e = non_infinite" "before (sval (ep_value e)) e'" "e \<le> e'"
  shows "ep_type e' = min_point"
  using assms by (cases "intervalSize e'"; cases "ep_type e'")
    (auto simp: before_def le_key point_key_def class_rank_def less_eq_prod_def)

lemma same_kind_after:
  assumes "intervalSize e = non_infinite" "ep_type e = max_point" "\<not> before (sval (ep_value e)) e'" "e' \<le> e"
  shows "ep_type e' = max_point"
  using assms by (cases "intervalSize e'"; cases "ep_type e'")
    (auto simp: before_def le_key point_key_def class_rank_def less_eq_prod_def)

text \<open>
  The two scans agree on the number \<open>g\<close>, and find the ends of the hull of all moments that lie in \<open>g\<close> intervals;
  they are finite or infinite together.
\<close>

lemma computed_times:
  fixes ts f
  defines "M \<equiv> int (length ts)" and "es \<equiv> qsort CompareIntervalEndPoints (end_points ts)"
  assumes ok: "\<forall>(T, I) \<in> set ts. no_overflow T I" and f: "1 \<le> M - f" and ts: "ts \<noteq> []"
  shows "\<exists>g a b. ComputedTimeMinimum M f es = (g, Some a) \<and> ComputedTimeMaximum M f es = (g, Some b) \<and>
    ep_type a = min_point \<and> ep_type b = max_point \<and> intervalSize a = intervalSize b \<and>
    1 \<le> g \<and> g \<le> M - f \<and> (g < M - f \<longrightarrow> (\<forall>x. intervals_at ts x \<le> g)) \<and>
    (\<forall>x. g \<le> intervals_at ts x \<longrightarrow> before x a \<and> \<not> before x b) \<and>
    (if intervalSize a = non_infinite
     then g \<le> intervals_at ts (sval (ep_value a)) \<and> g \<le> intervals_at ts (sval (ep_value b))
     else g \<le> infinite_intervals ts)"
proof -
  have es: "es = sort (end_points ts)" by (simp add: es_def qsort_sort)
  note fl = first_last [OF ok ts, folded es]
  have len: "length es = 2 * length ts" by (simp add: es length_end_points)
  note lists = scanned_lists [OF len]
  have z: "height k es = 0" "height k (rev es) = 0" for k
    using height_perm [of es "end_points ts" k] height_ends [of k ts] by (simp_all add: es)
  have hb: "height min_point (filter (before x) es) = intervals_at ts x" for x
    by (simp add: es height_sort_filter height_before [OF ok])
  have ha: "height max_point (filter (\<lambda>e. \<not> before x e) (rev es)) = intervals_at ts x" for x
    by (simp add: es rev_filter [symmetric] height_sort_filter height_after [OF ok])
  have s: "sorted_wrt (\<le>) es" "sorted_wrt (\<lambda>a b. b \<le> a) (rev es)" by (simp_all add: es sorted_wrt_rev)
  have mono_before: "\<forall>x a b. a \<le> b \<longrightarrow> before x b \<longrightarrow> before x a" "\<forall>x a b. b \<le> a \<longrightarrow> \<not> before x b \<longrightarrow> \<not> before x a"
    using before_antimono by blast+
  obtain g a where a: "ComputedTimeMinimum M f es = (g, Some a)" "a \<in> set es" "ep_type a = min_point" "1 \<le> g" "g \<le> M - f"
    "g < M - f \<longrightarrow> (\<forall>x. intervals_at ts x \<le> g)" "\<forall>x. g \<le> intervals_at ts x \<longrightarrow> before x a"
    and wit_a: "\<forall>x. before x a \<longrightarrow> (\<forall>e'\<in>set es. a \<le> e' \<longrightarrow> before x e' \<longrightarrow> ep_type e' = min_point) \<longrightarrow> g \<le> intervals_at ts x"
    using hull_side [where P = before and R = "(\<le>)" and L = es, OF s(1) order_refl mono_before(1) hb f fl(3,1) z(1)]
    unfolding ComputedTimeMinimum_def M_def lists(1) by blast
  have rev: "ep_type (hd (rev es)) = max_point" "rev es \<noteq> []" using fl(2,3) by (simp_all add: hd_rev)
  obtain g' b where b: "ComputedTimeMaximum M f es = (g', Some b)" "b \<in> set es" "ep_type b = max_point" "1 \<le> g'"
    "g' \<le> M - f" "g' < M - f \<longrightarrow> (\<forall>x. intervals_at ts x \<le> g')" "\<forall>x. g' \<le> intervals_at ts x \<longrightarrow> \<not> before x b"
    and wit_b: "\<forall>x. \<not> before x b \<longrightarrow> (\<forall>e'\<in>set es. e' \<le> b \<longrightarrow> \<not> before x e' \<longrightarrow> ep_type e' = max_point) \<longrightarrow> g' \<le> intervals_at ts x"
    using hull_side [where P = "\<lambda>x e. \<not> before x e" and R = "\<lambda>a b. b \<le> a" and L = "rev es",
        OF s(2) order_refl mono_before(2) ha f rev(2,1) z(2)]
    unfolding ComputedTimeMaximum_def M_def lists(2) set_rev by blast
  have far: "intervals_at ts (- 9223372036854775809) = infinite_intervals ts" "intervals_at ts 9223372036854775808 = infinite_intervals ts"
    using outside [OF ok] by simp_all
  have sizes: "s = non_infinite \<or> s = infinite_size" for s by (cases s) simp_all
  have inf_a: "intervalSize a = infinite_size \<longleftrightarrow> g \<le> infinite_intervals ts"
    using a(3,7) wit_a far(1) before_outside(1) by metis
  have inf_b: "intervalSize b = infinite_size \<longleftrightarrow> g' \<le> infinite_intervals ts"
    using b(3,7) wit_b far(2) before_outside(2) by metis
  have fin_a: "g \<le> intervals_at ts (sval (ep_value a))" if "intervalSize a = non_infinite"
    by (rule wit_a [rule_format]) (use that a(3) in \<open>simp add: before_def\<close>, rule same_kind [OF that])
  have fin_b: "g' \<le> intervals_at ts (sval (ep_value b))" if "intervalSize b = non_infinite"
    by (rule wit_b [rule_format]) (use that b(3) in \<open>simp add: before_def\<close>, rule same_kind_after [OF that b(3)])
  obtain x where x: "g \<le> intervals_at ts x"
    using fin_a inf_a [folded far(1)] sizes [of "intervalSize a"] by blast
  obtain y where y: "g' \<le> intervals_at ts y"
    using fin_b inf_b [folded far(1)] sizes [of "intervalSize b"] by blast
  have "g < M - f \<Longrightarrow> intervals_at ts y \<le> g" "g' < M - f \<Longrightarrow> intervals_at ts x \<le> g'" using a(6) b(6) by simp_all
  then have "g = g'" using a(5) b(5) x y by (cases "g < M - f"; cases "g' < M - f"; linarith)
  then show ?thesis
    using a b inf_a inf_b fin_a fin_b sizes [of "intervalSize a"] sizes [of "intervalSize b"]
    by (intro exI [of _ g] exI [of _ a] exI [of _ b]) (auto split: if_splits)
qed

end
