(* ===== verification/Dts_Utc_Props.thy ===== *)
theory Dts_Utc_Props
  imports Dts_Utc
begin

text \<open>
  Properties of the binary timestamps: they survive the trip through the 16 bytes in either byte order, and
  the arithmetic on timestamps never loses a moment that the arguments allow, within the bounds given.
\<close>

section \<open>Examples\<close>

definition stamp :: "bool \<Rightarrow> u32 \<Rightarrow> u32 \<Rightarrow> utc_t" where
  "stamp le time inacc = utc_mkcomptime le (Bits64 0 time) (Some (Bits64 0 inacc)) 0"

definition unknown_stamp :: "bool \<Rightarrow> UTCValue \<Rightarrow> utc_t" where
  "unknown_stamp le time = utc_mkcomptime le time None 0"

lemma comptime_stamp: "utc_comptime le' (stamp le t i) = Some (Bits64 0 t, Bits64 0 i, 0)"
  by (simp add: stamp_def comptime_mkcomptime normal_inacc_def IsInfiniteInacc_def tdf12_def)

lemma comptime_unknown: "utc_comptime le' (unknown_stamp le t) = Some (t, infiniteInacc, 0)"
  by (simp add: unknown_stamp_def comptime_mkcomptime tdf12_def)

lemma finite_small: "\<not> IsInfiniteInacc (Bits64 0 i)"
  by (simp add: IsInfiniteInacc_def)

lemma values_small: "sval (Bits64 0 t) = uint t" "uval (Bits64 0 t) = uint t"
  by (simp_all add: sval_pair uval_pair)

lemma interval_stamp: "utc_interval (stamp le t i) = {uint t - uint i .. uint t + uint i}"
  by (simp add: utc_interval_Some [OF comptime_stamp] time_interval_def finite_small values_small)

lemma minus_one_u32: "uint (- 1 :: u32) = 4294967295" "sint (- 1 :: u32) = - 1"
  by (simp_all add: unsigned_minus_1_eq_mask mask_eq_exp_minus_1)

lemmas stamp_eval = UTCsub_def U64SUB_def UTCadd_def U64ADD_def U64ADD32_def UTCiMul_def U64IMUL_def emul_def uemul_def
  sval_pair minus_one_u32 Let_def

lemmas stamp_simps = comptime_stamp finite_small values_small interval_stamp

section \<open>What a reader gets\<close>

lemma tdf12_range:
  assumes "uint m < 4096"
  shows "\<exists>k. - 2048 \<le> k \<and> k < 2048 \<and> sint (tdf12 m * 60) = 60 * k"
proof -
  have g: "m > 0x7ff \<longleftrightarrow> 2047 < uint m" by (simp add: word_less_def)
  define k where "k = (if 2047 < uint m then uint m - 4096 else uint m)"
  have k: "- 2048 \<le> k" "k < 2048"
    unfolding k_def using assms uint_u32(1) [of m] by (cases "2047 < uint m"; simp, linarith?)+
  have "tdf12 m = word_of_int k" by (simp add: tdf12_def g k_def)
  then have "tdf12 m * 60 = word_of_int (60 * k)" by (simp add: mult.commute)
  then have "sint (tdf12 m * 60) = 60 * k"
    using k by (simp only: sint_sbintrunc') (simp add: signed_take_bit_int_eq_self)
  then show ?thesis using k by blast
qed

lemma tdf_bytes:
  fixes x f :: u8
  shows "uint (push_bit 8 (ucast (f AND 0xf)) + ucast x :: u32) < 4096"
    and "uint (push_bit 4 (ucast x) + ucast (f AND 0xf) :: u32) < 4096"
proof -
  have "(f AND 0xf) \<le> 0xf" by (rule word_and_le1)
  then have f: "uint (f AND 0xf) \<le> 15" by (simp add: word_le_def)
  have x: "uint x < 256" "0 \<le> uint x" "0 \<le> uint (f AND 0xf)" using unsigned_less [of x, where ?'a = int] by simp_all
  have u: "uint (ucast y :: u32) = uint y" for y :: u8 by (simp add: uint_up_ucast is_up)
  show "uint (push_bit 8 (ucast (f AND 0xf)) + ucast x :: u32) < 4096"
    "uint (push_bit 4 (ucast x) + ucast (f AND 0xf) :: u32) < 4096"
    using f x by (simp_all add: push_bit_eq_mult uint_word_ariths u)
qed

text \<open>C32.
  Whatever its bytes are, a timestamp that a reader accepts has an inaccuracy of at most 48 bits, with one value only
  for infinity, and a time differential factor that is a whole number of minutes between -2048 and 2047.
\<close>

theorem comptime_wellformed:
  assumes "utc_comptime le u = Some (t, i, d)"
  shows "uval i \<le> uval infiniteInacc \<and> (IsInfiniteInacc i = (i = infiniteInacc)) \<and>
    (\<exists>k. - 2048 \<le> k \<and> k < 2048 \<and> sint d = 60 * k)"
proof -
  obtain j m where i: "i = normal_inacc j" and d: "d = tdf12 m * 60" and m: "uint m < 4096"
    using assms tdf_bytes(1) [of "u ! 15" "u ! 14"] tdf_bytes(2) [of "u ! 14" "u ! 15"] by (auto simp: comptime_fields Let_def split: if_splits)
  have inf: "uval infiniteInacc = 281474976710655" by (simp add: infiniteInacc_def uval_pair)
  have "uval i \<le> uval infiniteInacc \<and> (IsInfiniteInacc i = (i = infiniteInacc))"
    unfolding i inf using infinite_infinite inf by (auto simp: normal_inacc_def infinite_uval)
  then show ?thesis using tdf12_range [OF m] d by blast
qed

theorem comptime_wellformed_witness: "uval (Bits64 0 10) \<le> uval infiniteInacc"
  using comptime_wellformed [OF comptime_stamp, of 10] by blast

section \<open>Intervals\<close>

text \<open>C16.
  \<open>utc_boundtime\<close> builds a timestamp that includes every event that happened after a moment of the first
  timestamp and before a moment of the second, provided the beginning of the first interval and the end of the second are
  64 bit numbers and less than \<open>2 ^ 63\<close> ticks apart.
\<close>

theorem boundtime_contains:
  assumes "utc_comptime le u = Some (t1, i1, d1)" "utc_comptime le v = Some (t2, i2, d2)"
    and "\<not> IsInfiniteInacc i1 \<Longrightarrow> - 9223372036854775808 \<le> sval t1 - uval i1"
    and "\<not> IsInfiniteInacc i2 \<Longrightarrow> sval t2 + uval i2 < 9223372036854775808"
    and "sval t2 + uval i2 - (sval t1 - uval i1) < 9223372036854775808"
    and "utc_boundtime le u v = Some r"
    and "x \<in> utc_interval u" "y \<in> utc_interval v" "x \<le> e" "e \<le> y"
  shows "e \<in> utc_interval r"
proof (cases "IsInfiniteInacc i1 \<or> IsInfiniteInacc i2")
  case True
  then show ?thesis using assms(1,2,6) by (auto simp: utc_boundtime_def utc_interval_mk Let_def split: if_splits)
next
  case False
  then have i: "\<not> IsInfiniteInacc i1" "\<not> IsInfiniteInacc i2" by simp_all
  note f = finite_sval [OF i(1)] finite_sval [OF i(2)]
  define a b where "a = UTCsub t1 i1" "b = UTCadd t2 i2"
  have a: "sval a = sval t1 - uval i1"
    using f assms(3) [OF i(1)] sval_bounds [of t1] unfolding a_b_def by (subst sval_sub) simp_all
  have b: "sval b = sval t2 + uval i2"
    using f assms(4) [OF i(2)] sval_bounds [of t2] unfolding a_b_def by (subst sval_add) simp_all
  have ord: "sval a \<le> sval b" and r: "r = utc_mkcomptime le
      (UTCiAdd (UTCadd (UTCdivideBy2 a) (UTCdivideBy2 b)) (((lo a AND 1) + (lo b AND 1)) div 2))
      (Some (UTCiAdd (UTCsub (UTCdivideBy2 b) (UTCdivideBy2 a)) (((lo a AND 1) + (lo b AND 1) + 1) div 2))) d2"
    using assms(1,2,6) i by (auto simp: utc_boundtime_def Let_def a_b_def not_less split: if_splits)
  have "sval a \<le> x" "y \<le> sval b"
    using assms(7,8) i a b by (simp_all add: utc_interval_Some [OF assms(1)] utc_interval_Some [OF assms(2)] time_interval_def)
  then have "e \<in> {sval a .. sval b}" using assms(9,10) by simp
  then show ?thesis
    using halves_interval(3) [OF ord] assms(5) by (auto simp: r utc_interval_mk a b)
qed

theorem boundtime_contains_witness:
  "(1500 :: int) \<in> utc_interval (the (utc_boundtime True (stamp True 1000 10) (stamp False 2001 20)))"
proof -
  have "utc_boundtime True (stamp True 1000 10) (stamp False 2001 20) \<noteq> None"
    by (simp add: utc_boundtime_def stamp_simps stamp_eval)
  then obtain r where r: "utc_boundtime True (stamp True 1000 10) (stamp False 2001 20) = Some r" by blast
  have "1500 \<in> utc_interval r"
    using boundtime_contains [OF comptime_stamp comptime_stamp _ _ _ r, of 1005 2000 1500] by (simp add: stamp_simps)
  then show ?thesis by (simp add: r)
qed

text \<open>C37.
  \<open>utc_spantime\<close> builds a timestamp whose interval contains both intervals, provided that, when both are finite, all four
  ends are 64 bit numbers and less than \<open>2 ^ 63\<close> ticks apart (the width must be a positive 64 bit number).
\<close>

theorem spantime_contains:
  assumes "utc_comptime le u = Some (t1, i1, d1)" "utc_comptime le v = Some (t2, i2, d2)"
    and range: "\<not> IsInfiniteInacc i1 \<and> \<not> IsInfiniteInacc i2 \<Longrightarrow>
      - 9223372036854775808 \<le> min (sval t1 - uval i1) (sval t2 - uval i2) \<and>
      max (sval t1 + uval i1) (sval t2 + uval i2) < 9223372036854775808 \<and>
      max (sval t1 + uval i1) (sval t2 + uval i2) - min (sval t1 - uval i1) (sval t2 - uval i2) < 9223372036854775808"
  shows "\<exists>r. utc_spantime le u v = Some r \<and> utc_interval u \<union> utc_interval v \<subseteq> utc_interval r"
proof (cases "IsInfiniteInacc i1 \<or> IsInfiniteInacc i2")
  case True
  then show ?thesis using assms(1,2) by (simp add: utc_spantime_def utc_interval_mk Let_def)
next
  case False
  then have i: "\<not> IsInfiniteInacc i1" "\<not> IsInfiniteInacc i2" by simp_all
  note f = finite_sval [OF i(1)] finite_sval [OF i(2)]
  have low: "- 9223372036854775808 \<le> sval t1 - uval i1" "- 9223372036854775808 \<le> sval t2 - uval i2"
    and high: "sval t1 + uval i1 < 9223372036854775808" "sval t2 + uval i2 < 9223372036854775808"
    using range i by simp_all
  define a b where "a = (if sval (UTCsub t1 i1) > sval (UTCsub t2 i2) then UTCsub t2 i2 else UTCsub t1 i1)"
    "b = (if sval (UTCadd t1 i1) < sval (UTCadd t2 i2) then UTCadd t2 i2 else UTCadd t1 i1)"
  have s: "sval (UTCsub t1 i1) = sval t1 - uval i1" "sval (UTCsub t2 i2) = sval t2 - uval i2"
    "sval (UTCadd t1 i1) = sval t1 + uval i1" "sval (UTCadd t2 i2) = sval t2 + uval i2"
    using f low high sval_bounds [of t1] sval_bounds [of t2] by (simp_all add: sval_sub sval_add)
  have a: "sval a = min (sval t1 - uval i1) (sval t2 - uval i2)" "sval b = max (sval t1 + uval i1) (sval t2 + uval i2)"
    by (auto simp: a_b_def s)
  have "utc_spantime le u v = Some (utc_mkcomptime le
      (UTCiAdd (UTCadd (UTCdivideBy2 b) (UTCdivideBy2 a)) (((lo a AND 1) + (lo b AND 1)) div 2))
      (Some (UTCiAdd (UTCsub (UTCdivideBy2 b) (UTCdivideBy2 a)) (((lo a AND 1) + (lo b AND 1) + 1) div 2))) d2)"
    using assms(1,2) i by (simp add: utc_spantime_def Let_def a_b_def)
  moreover have "UTCadd (UTCdivideBy2 b) (UTCdivideBy2 a) = UTCadd (UTCdivideBy2 a) (UTCdivideBy2 b)"
    by (rule Bits64_eqI) simp
  moreover have "{sval a .. sval b} \<subseteq> time_interval
      (UTCiAdd (UTCadd (UTCdivideBy2 a) (UTCdivideBy2 b)) (((lo a AND 1) + (lo b AND 1)) div 2))
      (UTCiAdd (UTCsub (UTCdivideBy2 b) (UTCdivideBy2 a)) (((lo a AND 1) + (lo b AND 1) + 1) div 2))"
    using f low high range i a by (intro halves_interval(3)) (simp_all add: min_def max_def)
  moreover have "utc_interval u \<union> utc_interval v \<subseteq> {sval a .. sval b}"
    using i f by (auto simp: utc_interval_Some [OF assms(1)] utc_interval_Some [OF assms(2)] time_interval_def a)
  ultimately show ?thesis by (auto simp: utc_interval_mk)
qed

theorem spantime_contains_witness:
  "\<exists>r. utc_spantime True (stamp True 1000 10) (stamp False 2001 20) = Some r \<and> {990..1010} \<union> {1981..2021} \<subseteq> utc_interval r"
  using spantime_contains [OF comptime_stamp [of True True 1000 10] comptime_stamp [of True False 2001 20]] by (simp add: stamp_simps)

lemma intervals_ordered:
  fixes a b c d :: int
  assumes "a \<le> b" "c \<le> d"
  shows "(\<forall>x\<in>{a..b}. \<forall>y\<in>{c..d}. x < y) \<longleftrightarrow> b < c" "(\<forall>x\<in>{a..b}. \<forall>y\<in>{c..d}. y < x) \<longleftrightarrow> d < a"
proof -
  have ends: "a \<in> {a..b}" "b \<in> {a..b}" "c \<in> {c..d}" "d \<in> {c..d}" using assms by simp_all
  then have "b < c" if "\<forall>x\<in>{a..b}. \<forall>y\<in>{c..d}. x < y" using that by blast
  then show "(\<forall>x\<in>{a..b}. \<forall>y\<in>{c..d}. x < y) \<longleftrightarrow> b < c" by auto
  from ends have "d < a" if "\<forall>x\<in>{a..b}. \<forall>y\<in>{c..d}. y < x" using that by blast
  then show "(\<forall>x\<in>{a..b}. \<forall>y\<in>{c..d}. y < x) \<longleftrightarrow> d < a" by auto
qed

text \<open>C25.
  For two timestamps with finite inaccuracies whose intervals have 64 bit ends: when \<open>utc_cmpintervaltime\<close> orders
  them, every moment of one is before every moment of the other; when it finds them equal they are the same moment; and
  it answers indeterminate only if neither is wholly before the other.  With infinite inaccuracies it is wrong
  (\<open>cmpintervaltime_infinite_ordered\<close>).
\<close>

theorem cmpintervaltime_sound:
  assumes "utc_comptime le u = Some (t1, i1, d1)" "utc_comptime le v = Some (t2, i2, d2)"
    and i: "\<not> IsInfiniteInacc i1" "\<not> IsInfiniteInacc i2"
    and range: "- 9223372036854775808 \<le> sval t1 - uval i1" "- 9223372036854775808 \<le> sval t2 - uval i2"
      "sval t1 + uval i1 < 9223372036854775808" "sval t2 + uval i2 < 9223372036854775808"
    and xy: "x \<in> utc_interval u" "y \<in> utc_interval v"
  shows "case the (utc_cmpintervaltime le u v) of
      utc_lessThan \<Rightarrow> x < y | utc_greaterThan \<Rightarrow> x > y | utc_equalTo \<Rightarrow> x = y
    | utc_indeterminate \<Rightarrow> \<not> (\<forall>x\<in>utc_interval u. \<forall>y\<in>utc_interval v. x < y) \<and>
        \<not> (\<forall>x\<in>utc_interval u. \<forall>y\<in>utc_interval v. x > y)"
proof -
  note f = finite_sval [OF i(1)] finite_sval [OF i(2)]
  have s: "sval (UTCsub t1 i1) = sval t1 - uval i1" "sval (UTCsub t2 i2) = sval t2 - uval i2"
    "sval (UTCadd t1 i1) = sval t1 + uval i1" "sval (UTCadd t2 i2) = sval t2 + uval i2"
    using f range sval_bounds [of t1] sval_bounds [of t2] by (simp_all add: sval_sub sval_add)
  have I: "utc_interval u = {sval t1 - uval i1 .. sval t1 + uval i1}" "utc_interval v = {sval t2 - uval i2 .. sval t2 + uval i2}"
    using i by (simp_all add: utc_interval_Some [OF assms(1)] utc_interval_Some [OF assms(2)] time_interval_def)
  have ord: "(\<forall>x\<in>utc_interval u. \<forall>y\<in>utc_interval v. x < y) \<longleftrightarrow> sval t1 + uval i1 < sval t2 - uval i2"
    "(\<forall>x\<in>utc_interval u. \<forall>y\<in>utc_interval v. y < x) \<longleftrightarrow> sval t2 + uval i2 < sval t1 - uval i1"
    unfolding I using f by (subst intervals_ordered; simp)+
  consider "sval t1 < sval t2" | "sval t1 > sval t2" | "sval t1 = sval t2" by linarith
  then show ?thesis
  proof cases
    case 1
    have "utc_cmpintervaltime le u v =
        Some (if sval t1 + uval i1 < sval t2 - uval i2 then utc_lessThan else utc_indeterminate)"
      using assms(1,2) 1 s by (auto simp: utc_cmpintervaltime_def Let_def)
    then show ?thesis using xy 1 f by (auto simp: ord) (auto simp: I)
  next
    case 2
    have "utc_cmpintervaltime le u v =
        Some (if sval t1 - uval i1 > sval t2 + uval i2 then utc_greaterThan else utc_indeterminate)"
      using assms(1,2) 2 s by (auto simp: utc_cmpintervaltime_def Let_def)
    then show ?thesis using xy 2 f by (auto simp: ord) (auto simp: I)
  next
    case 3
    then have "t1 = t2" by (simp add: sval_inject)
    then have "utc_cmpintervaltime le u v = Some (if uval i1 = 0 \<and> uval i2 = 0 then utc_equalTo else utc_indeterminate)"
      using assms(1,2) f by (auto simp: utc_cmpintervaltime_def Let_def)
    then show ?thesis using xy 3 f by (auto simp: ord) (auto simp: I)
  qed
qed

theorem cmpintervaltime_sound_witness:
  "utc_cmpintervaltime True (stamp True 1000 10) (stamp False 2001 20) = Some utc_lessThan \<and> (1010 :: int) < 1981"
proof -
  have "utc_cmpintervaltime True (stamp True 1000 10) (stamp False 2001 20) = Some utc_lessThan"
    by (simp add: utc_cmpintervaltime_def stamp_simps stamp_eval)
  with cmpintervaltime_sound [OF comptime_stamp comptime_stamp, of 10 20 1000 2001 1010 True 1981 False True] show ?thesis
    by (simp add: stamp_simps)
qed

text \<open>C26.
  A timestamp made on one host is read on any host with the same time, inaccuracy and time differential factor,
  provided the factor is a whole number of minutes below 2048; inaccuracies that need more than 48 bits become infinite.
\<close>

theorem utc_roundtrip:
  assumes "sint tdf = 60 * m" "- 2048 \<le> m" "m < 2048"
  shows "utc_comptime le' (utc_mkcomptime le t (Some i) tdf) =
    Some (t, if IsInfiniteInacc i then infiniteInacc else i, tdf)"
proof -
  have "sint tdf sdiv 60 = m" using assms by (simp add: signed_divide_int_def sgn_mult abs_mult sgn_mult_abs)
  moreover have "sint (word_of_int m :: u32) = m"
    using assms by (simp add: sint_sbintrunc' signed_take_bit_int_eq_self)
  ultimately have "tdf12 (take_bit 12 (word_of_int (sint tdf sdiv 60))) = word_of_int m"
    using assms tdf12_small [of "word_of_int m"] by simp
  moreover have "word_of_int m * 60 = tdf"
    using assms(1) by (metis mult.commute of_int_mult of_int_numeral of_int_sint scast_id)
  ultimately show ?thesis by (simp add: comptime_mkcomptime normal_inacc_def)
qed

theorem utc_roundtrip_witness:
  "utc_comptime True (utc_mkcomptime False (Bits64 1 2) (Some (Bits64 0 3)) (- 18000)) = Some (Bits64 1 2, Bits64 0 3, - 18000)"
  using utc_roundtrip [of "- 18000" "- 300" True False "Bits64 1 2" "Bits64 0 3"] by (simp add: finite_small)

text \<open>
  The sum and the difference of two timestamps contain the sum and the difference of any two moments of theirs,
  provided the midpoint of the result is a 64 bit number.
\<close>

theorem addtime_subtime_contain:
  assumes "utc_comptime le u = Some (t1, i1, d1)" "utc_comptime le v = Some (t2, i2, d2)"
    and "- 9223372036854775808 \<le> sval t1 + sval t2" "sval t1 + sval t2 < 9223372036854775808"
    and "- 9223372036854775808 \<le> sval t1 - sval t2" "sval t1 - sval t2 < 9223372036854775808"
    and xy: "x \<in> utc_interval u" "y \<in> utc_interval v"
  shows "\<exists>r d. utc_addtime le u v = Some r \<and> x + y \<in> utc_interval r \<and>
    utc_subtime le u v = Some d \<and> x - y \<in> utc_interval d"
proof (cases "IsInfiniteInacc i1 \<or> IsInfiniteInacc i2")
  case True
  then show ?thesis using assms(1,2)
    by (simp add: utc_addtime_def utc_subtime_def utc_interval_mk time_interval_def infinite_infinite Let_def)
next
  case False
  then have i: "\<not> IsInfiniteInacc i1" "\<not> IsInfiniteInacc i2" by simp_all
  note f = finite_sval [OF i(1)] finite_sval [OF i(2)]
  have I: "uval (UTCadd i1 i2) = uval i1 + uval i2"
    using f by (intro uval_eqI) (simp_all add: w64_of_uval [of i1] w64_of_uval [of i2])
  show ?thesis using assms i I f
    by (auto simp: utc_addtime_def utc_subtime_def utc_interval_mk Let_def sval_add sval_sub time_interval_def
        utc_interval_Some [OF assms(1)] utc_interval_Some [OF assms(2)])
qed

theorem addtime_subtime_contain_witness:
  "\<exists>r d. utc_addtime True (stamp True 2001 20) (stamp False 1000 10) = Some r \<and> (3031 :: int) \<in> utc_interval r \<and>
    utc_subtime True (stamp True 2001 20) (stamp False 1000 10) = Some d \<and> (1011 :: int) \<in> utc_interval d"
  using addtime_subtime_contain [OF comptime_stamp comptime_stamp, of 2001 1000 2021 True 20 1010 False 10 True]
  by (simp add: stamp_simps)

text \<open>
  \<open>utc_cmpintervaltime\<close> does not treat infinite inaccuracies as such: timestamps about which nothing is known are
  ordered as soon as their midpoints are more than \<open>2\<^sup>4\<^sup>9\<close> ticks (about 650 days) apart.
\<close>

theorem cmpintervaltime_infinite_ordered:
  assumes "utc_comptime le u = Some (t1, infiniteInacc, d1)" "utc_comptime le v = Some (t2, infiniteInacc, d2)"
    and "sval t1 + 562949953421312 < sval t2" "- 9000000000000000000 < sval t1" "sval t2 < 9000000000000000000"
  shows "utc_cmpintervaltime le u v = Some utc_lessThan \<and> utc_cmpintervaltime le v u = Some utc_greaterThan \<and>
    utc_interval u = UNIV \<and> utc_interval v = UNIV"
proof -
  have i: "sval infiniteInacc = 281474976710655" by (simp add: infiniteInacc_def sval_pair sint_u32)
  have s: "sval (UTCadd t1 infiniteInacc) = sval t1 + 281474976710655" "sval (UTCsub t2 infiniteInacc) = sval t2 - 281474976710655"
    using assms(3-5) i by (simp_all add: sval_add sval_sub)
  have "utc_cmpintervaltime le u v = Some utc_lessThan \<and> utc_cmpintervaltime le v u = Some utc_greaterThan"
    using assms s by (auto simp: utc_cmpintervaltime_def Let_def)
  then show ?thesis
    by (simp add: utc_interval_Some [OF assms(1)] utc_interval_Some [OF assms(2)] time_interval_def infinite_infinite)
qed

theorem cmpintervaltime_infinite_ordered_witness:
  "utc_cmpintervaltime True (unknown_stamp True (Bits64 0 0)) (unknown_stamp True (Bits64 0x30000 0)) = Some utc_lessThan"
  using cmpintervaltime_infinite_ordered [OF comptime_unknown comptime_unknown, of "Bits64 0 0" "Bits64 0x30000 0" True True True]
  by (simp add: sval_pair sint_u32)

section \<open>Products\<close>

lemma hi_lo_signed:
  "sint (hi p) < - 1 \<or> sint (hi p) > 0 \<or> hi p = 0 \<and> sint (lo p) < 0 \<or> sint (hi p) = - 1 \<and> sint (lo p) \<ge> 0 \<longleftrightarrow>
    \<not> (- 2147483648 \<le> sval p \<and> sval p < 2147483648)"
proof -
  have 0: "hi p = 0 \<longleftrightarrow> sint (hi p) = 0" using signed_word_eqI [of "hi p" 0] by fastforce
  show ?thesis
  proof -
    define h l where "h = sint (hi p)" "l = uint (lo p)"
    have l: "0 \<le> l" "l < 4294967296" "sint (lo p) = (if 2147483648 \<le> l then l - 4294967296 else l)"
      using uint_u32 [of "lo p"] by (simp_all add: h_l_def sint_u32)
    show ?thesis
      unfolding 0 sval_pair l(3) h_l_def [symmetric] using l(1,2)
      by (cases "2147483648 \<le> l") (simp_all, linarith+)
  qed
qed

lemma sval_emul: "sval (emul a b) = sint a * sint b"
proof (rule sval_eqI)
  have a: "\<bar>sint a\<bar> \<le> 2147483648" "\<bar>sint b\<bar> \<le> 2147483648"
    using uint_u32 [of a] uint_u32 [of b] by (auto simp: sint_u32)
  then have "\<bar>sint a * sint b\<bar> \<le> 2147483648 * 2147483648" unfolding abs_mult by (intro mult_mono) simp_all
  then show "- 9223372036854775808 \<le> sint a * sint b" "sint a * sint b < 9223372036854775808" by linarith+
  show "w64 (emul a b) = word_of_int (sint a * sint b)"
    unfolding w64_emul scast_eq by (simp only: of_int_mult)
qed

lemma sval_imul_wrap:
  "w64 (UTCiMul t f) = word_of_int (sval t * sint f)"
  unfolding w64_imul scast_eq w64_sval [of t] by (simp only: of_int_mult)

lemma sint_bounds32: "- 2147483648 \<le> sint f" "sint f < 2147483648" for f :: u32
  using sint_ge [of f] sint_lt [of f] by simp_all

text \<open>The time of the product: the test of the high words and the test of the sign leave only exact results.\<close>

lemma product_exact:
  assumes "- 2147483648 \<le> sint (hi t) * sint f" "sint (hi t) * sint f < 2147483648"
    and sign: "((\<not> sval t < 0) \<noteq> (sint f \<ge> 0)) = (sval (UTCiMul t f) < 0)"
  shows "sval (UTCiMul t f) = sval t * sint f"
proof -
  define T where "T = sval t * sint f"
  have T: "T = sint (hi t) * sint f * 4294967296 + uint (lo t) * sint f"
    by (simp add: T_def sval_pair algebra_simps)
  have "\<bar>uint (lo t) * sint f\<bar> \<le> 4294967295 * 2147483648"
    unfolding abs_mult using uint_u32 [of "lo t"] sint_bounds32 [of f] by (intro mult_mono) auto
  then have bounds: "- 18446744073709551616 < T" "T < 18446744073709551616"
    using assms(1,2) unfolding T by linarith+
  have w: "w64 (UTCiMul t f) = word_of_int T" unfolding T_def by (rule sval_imul_wrap)
  consider "- 9223372036854775808 \<le> T \<and> T < 9223372036854775808" | "9223372036854775808 \<le> T" | "T < - 9223372036854775808"
    by linarith
  then show ?thesis
  proof cases
    case 1
    then show ?thesis using sval_eqI [OF w] by (simp add: T_def)
  next
    case 2
    then have "uval (UTCiMul t f) = T" using uval_eqI [OF w] bounds by simp
    then have "sval (UTCiMul t f) < 0" using 2 bounds by (simp add: sval_uval)
    moreover have "0 < sval t \<and> 0 < sint f \<or> sval t < 0 \<and> sint f < 0"
      using 2 unfolding T_def by (simp flip: zero_less_mult_iff)
    ultimately show ?thesis using sign by auto
  next
    case 3
    have "w64 (UTCiMul t f) = word_of_int (T + 18446744073709551616)"
      by (simp only: w of_int_add of_int_numeral wrap_64 add_0_right)
    then have "uval (UTCiMul t f) = T + 18446744073709551616" using 3 bounds by (intro uval_eqI) simp_all
    then have "\<not> sval (UTCiMul t f) < 0" using 3 bounds by (simp add: sval_uval)
    moreover have "sval t < 0 \<and> 0 < sint f \<or> 0 < sval t \<and> sint f < 0"
      using 3 mult_less_0_iff [of "sval t" "sint f"] unfolding T_def by auto
    ultimately show ?thesis using sign by auto
  qed
qed

text \<open>The inaccuracy is multiplied without loss, or becomes infinite.\<close>

lemma large_pair: "0 \<le> sval p \<Longrightarrow> hi p \<noteq> 0 \<or> lo p > 0xffff \<longleftrightarrow> sval p > 65535"
proof -
  assume p: "0 \<le> sval p"
  have 0: "hi p = 0 \<longleftrightarrow> uint (hi p) = 0" by (simp add: word_uint_eq_iff)
  have u: "sval p = uint (hi p) * 4294967296 + uint (lo p)"
    using p uval_sval [of p] by (simp add: uval_pair)
  show ?thesis
  proof (cases "uint (hi p) = 0")
    case True
    then show ?thesis unfolding u 0 by (simp add: word_less_def)
  next
    case False
    then have "1 \<le> uint (hi p)" using uint_u32 [of "hi p"] by linarith
    then have "65535 < sval p" using uint_u32 [of "lo p"] unfolding u by linarith
    then show ?thesis using False unfolding 0 by simp
  qed
qed

lemma product_inacc:
  fixes i :: ExtInacc and f :: u32
  assumes i: "IsInfiniteInacc i \<Longrightarrow> i = infiniteInacc"
  defines "a \<equiv> if sint f < 0 then - f else f"
  defines "r \<equiv> if hi (emul (hi i) a) \<noteq> 0 \<or> lo (emul (hi i) a) > 0xffff then Bits64 0xffffffff 0xffffffff else UTCiMul i a"
  shows "IsInfiniteInacc r \<or> sint f = 0 \<and> uval r = 0 \<or> \<not> IsInfiniteInacc i \<and> uval r = uval i * \<bar>sint f\<bar>"
proof -
  define g h l where "g = \<bar>sint f\<bar>" "h = uint (hi i)" "l = uint (lo i)"
  have g: "uint a = g" "0 \<le> g" "g \<le> 2147483648"
    using abs_sint [of f] sint_bounds32 [of f] by (auto simp: a_def g_h_l_def)
  have hl: "0 \<le> h" "h \<le> 65535" "0 \<le> l" "l < 4294967296" "uval i = h * 4294967296 + l"
  proof -
    show "0 \<le> h" "0 \<le> l" "l < 4294967296" "uval i = h * 4294967296 + l"
      by (simp_all add: g_h_l_def uval_pair uint_u32)
    show "h \<le> 65535"
    proof (cases "IsInfiniteInacc i")
      case True
      then show ?thesis using i by (simp add: g_h_l_def infiniteInacc_def)
    next
      case False
      then show ?thesis using \<open>0 \<le> l\<close> \<open>uval i = _\<close> unfolding infinite_uval by linarith
    qed
  qed
  have si: "sval i = uval i" "sint (hi i) = h" using hl by (simp_all add: sval_uval sint_u32 g_h_l_def)
  have inf: "IsInfiniteInacc (Bits64 0xffffffff 0xffffffff)" by (simp add: IsInfiniteInacc_def)
  show ?thesis
  proof (cases "g < 2147483648")
    case True
    then have sa: "sint a = g" using g by (simp add: sint_u32)
    have "h * g \<le> 65535 * 2147483648" using hl g by (intro mult_mono) simp_all
    have p: "sval (emul (hi i) a) = h * g" by (simp add: sval_emul sa si)
    show ?thesis
    proof (cases "h * g > 65535")
      case True
      then have "r = Bits64 0xffffffff 0xffffffff" using large_pair [of "emul (hi i) a"] p by (simp add: r_def)
      then show ?thesis using inf by simp
    next
      case False
      then have r: "r = UTCiMul i a"
        using large_pair [of "emul (hi i) a"] p hl g by (simp add: r_def)
      have "l * g \<le> 4294967295 * 2147483648" using hl g by (intro mult_mono) simp_all
      then have "(h * g) * 4294967296 + l * g < 18446744073709551616" using False by linarith
      then have less: "uval i * g < 18446744073709551616" by (simp add: hl(5) algebra_simps)
      have "w64 r = word_of_int (uval i * g)"
        unfolding r using sval_imul_wrap [of i a] by (simp add: si sa)
      then have ur: "uval r = uval i * g" using less hl(5) hl g by (intro uval_eqI) (simp_all add: hl)
      show ?thesis
      proof (cases "IsInfiniteInacc i \<and> g \<noteq> 0")
        case True
        then have "uval i * 1 \<le> uval i * g" using g hl by (intro mult_left_mono) simp_all
        then have "IsInfiniteInacc r" using True unfolding infinite_uval ur by linarith
        then show ?thesis by simp
      next
        case False
        then show ?thesis using ur by (auto simp: g_h_l_def)
      qed
    qed
  next
    case False
    then have g31: "g = 2147483648" using g by simp
    then have sa: "sint a = - 2147483648" using g by (simp add: sint_u32)
    have p: "sval (emul (hi i) a) = - (h * 2147483648)" by (simp add: sval_emul sa si)
    show ?thesis
    proof (cases "h = 0")
      case True
      then have r: "r = UTCiMul i a"
        using large_pair [of "emul (hi i) a"] p by (simp add: r_def)
      have w: "w64 r = word_of_int (- (l * 2147483648))"
        unfolding r using sval_imul_wrap [of i a] hl True by (simp add: si sa)
      show ?thesis
      proof (cases "l = 0")
        case True
        then have "uval r = 0" using uval_eqI [OF w] by simp
        then show ?thesis using hl \<open>h = 0\<close> True by (simp add: infinite_uval)
      next
        case False
        have "w64 r = word_of_int (18446744073709551616 - l * 2147483648)" by (simp add: w)
        then have "uval r = 18446744073709551616 - l * 2147483648" using False hl by (intro uval_eqI) simp_all
        then have "IsInfiniteInacc r" using hl by (simp add: infinite_uval)
        then show ?thesis by simp
      qed
    next
      case False
      then have "sval (emul (hi i) a) < 0" using p hl by simp
      then have "hi (emul (hi i) a) \<noteq> 0"
        using uint_u32 [of "lo (emul (hi i) a)"] by (auto simp: sval_pair)
      then show ?thesis using inf by (simp add: r_def)
    qed
  qed
qed

text \<open>C29.
  A timestamp that \<open>utc_multime\<close> returns has exactly the product of the time and the factor as its midpoint, and
  contains the product of every moment of the argument with the factor.
\<close>

theorem multime_scales:
  assumes "utc_comptime le u = Some (t, i, d)" "utc_multime le u f = Some r" "x \<in> utc_interval u"
  shows "\<exists>t' i'. utc_comptime le r = Some (t', i', tdf12 (take_bit 12 (word_of_int (sint d sdiv 60))) * 60) \<and>
    sval t' = sval t * sint f \<and> x * sint f \<in> utc_interval r"
proof -
  define a where "a = (if sint f < 0 then - f else f)"
  define j where "j = (if hi (emul (hi i) a) \<noteq> 0 \<or> lo (emul (hi i) a) > 0xffff then Bits64 0xffffffff 0xffffffff
    else UTCiMul i a)"
  have i: "IsInfiniteInacc i \<Longrightarrow> i = infiniteInacc"
    using assms(1) by (auto simp: comptime_fields normal_inacc_def Let_def split: if_splits)
  note hl = hi_lo_signed [of "emul (hi t) f"]
  have M: "utc_multime le u f =
     (if sint (hi (emul (hi t) f)) < - 1 \<or> sint (hi (emul (hi t) f)) > 0 \<or>
        hi (emul (hi t) f) = 0 \<and> sint (lo (emul (hi t) f)) < 0 \<or>
        sint (hi (emul (hi t) f)) = - 1 \<and> sint (lo (emul (hi t) f)) \<ge> 0 then None
      else if ((\<not> sval t < 0) \<noteq> (sint f \<ge> 0)) \<noteq> (sval (UTCiMul t f) < 0) then None
      else Some (utc_mkcomptime le (UTCiMul t f) (Some j) d))"
    unfolding utc_multime_def assms(1) by (simp add: Let_def a_def j_def)
  from assms(2) have r: "r = utc_mkcomptime le (UTCiMul t f) (Some j) d"
    and ok: "- 2147483648 \<le> sint (hi t) * sint f" "sint (hi t) * sint f < 2147483648"
      "((\<not> sval t < 0) \<noteq> (sint f \<ge> 0)) = (sval (UTCiMul t f) < 0)"
    unfolding M hl sval_emul by (simp_all split: if_splits)
  have T: "sval (UTCiMul t f) = sval t * sint f" by (rule product_exact [OF ok])
  have J: "IsInfiniteInacc j \<or> sint f = 0 \<and> uval j = 0 \<or> \<not> IsInfiniteInacc i \<and> uval j = uval i * \<bar>sint f\<bar>"
    using product_inacc [OF i, of f] unfolding j_def a_def by simp
  have "x * sint f \<in> time_interval (UTCiMul t f) j"
  proof (cases "IsInfiniteInacc j \<or> sint f = 0")
    case True
    then show ?thesis using J uval_bounds [of j] by (auto simp: time_interval_def T)
  next
    case False
    then have fin: "\<not> IsInfiniteInacc i" "uval j = uval i * \<bar>sint f\<bar>" using J by auto
    have "\<bar>x - sval t\<bar> \<le> uval i" using assms(3) fin(1)
      by (auto simp: utc_interval_Some [OF assms(1)] time_interval_def)
    then have "\<bar>x - sval t\<bar> * \<bar>sint f\<bar> \<le> uval j" unfolding fin(2) by (intro mult_right_mono) simp_all
    then have "\<bar>x * sint f - sval t * sint f\<bar> \<le> uval j" by (simp flip: abs_mult left_diff_distrib)
    then show ?thesis by (auto simp: time_interval_def T)
  qed
  then show ?thesis using T unfolding r by (simp add: comptime_mkcomptime utc_interval_mk)
qed

theorem multime_scales_witness:
  "(- 3015 :: int) \<in> utc_interval (the (utc_multime True (stamp False 1000 10) (- 3)))"
proof -
  have "utc_multime True (stamp False 1000 10) (- 3) \<noteq> None"
    by (simp add: utc_multime_def stamp_simps stamp_eval)
  then show ?thesis
    using multime_scales [OF comptime_stamp, of True False 1000 10 "- 3" "the (utc_multime True (stamp False 1000 10) (- 3))" 1005]
    by (auto simp: stamp_simps)
qed

text \<open>
  \<open>utc_multime\<close> returns an error for products that fit in 64 bits: zero times a negative factor and a negative time
  times zero.
\<close>

theorem multime_refuses_zero:
  assumes "utc_comptime le u = Some (t, i, d)" "sval t = 0 \<and> sint f < 0 \<or> sval t < 0 \<and> sint f = 0"
  shows "utc_multime le u f = None"
proof -
  have "sval (UTCiMul t f) = 0"
    using assms(2) sval_eqI [OF sval_imul_wrap, of t f] by auto
  then show ?thesis using assms by (auto simp: utc_multime_def Let_def)
qed

theorem multime_refuses_zero_witness: "utc_multime True (stamp True 0 10) (- 1) = None"
  using multime_refuses_zero [OF comptime_stamp, of 0 "- 1" True True 10] by (simp add: stamp_simps)

section \<open>Quotients\<close>

text \<open>C18.
  Knuth's division in \<open>uediv\<close> gives the quotient and the remainder of the 64 bit dividend whenever the quotient has 32
  bits, and an error otherwise; its loops end.
\<close>

theorem uediv_exact:
  "uediv a d = (if uval a div 4294967296 < uint d
     then Some (word_of_int (uval a div uint d), word_of_int (uval a mod uint d)) else None)"
  using uediv_ok [of a d] uint_u32 [of "lo a"] by (simp add: uval_pair)

text \<open>
  The signed division truncates towards zero and succeeds exactly when the quotient is a signed 32 bit number.
\<close>

theorem ediv_exact:
  fixes a :: Bits64 and d :: u32
  defines "q \<equiv> sval a sdiv sint d"
  shows "if d \<noteq> 0 \<and> - 2147483648 \<le> q \<and> q < 2147483648
    then ediv a d = (True, Some (word_of_int q, word_of_int (sval a smod sint d)))
    else \<not> fst (ediv a d)"
  using ediv_ok [of a d] unfolding q_def by (cases "ediv a d") auto

end
