(* ===== verification/Dts_Clock_Props.thy ===== *)
theory Dts_Clock_Props
  imports Dts_Marzullo Dts_Utc_Props
begin

text \<open>
  Properties of the clock computations: the estimate of a server's time, the interval that the scans find, and the
  relations of intervals.
\<close>

section \<open>The estimate of a server's time\<close>

definition drift_reciprocal :: "ClockParams \<Rightarrow> int" where
  "drift_reciprocal p = 1000000000 div uint (clockDrift p)"

text \<open>How long the exchange of messages took at most, by a clock that may be slow.\<close>

definition elapsed :: "ClockParams \<Rightarrow> UTCValue \<Rightarrow> UTCValue \<Rightarrow> int" where
  "elapsed p Tsend Trec = sval Trec + uint (clockResolution p) div 100 - sval Tsend"

definition round_trip :: "ClockParams \<Rightarrow> UTCValue \<Rightarrow> UTCValue \<Rightarrow> int" where
  "round_trip p Tsend Trec = elapsed p Tsend Trec + elapsed p Tsend Trec div drift_reciprocal p"

definition drift_bound :: "ClockParams \<Rightarrow> UTCValue \<Rightarrow> UTCValue \<Rightarrow> int" where
  "drift_bound p Tsend Tsync = (sval Tsync - sval Tsend) div drift_reciprocal p"

lemma small_word: "uint x < 2147483648 \<Longrightarrow> sint x = uint x" for x :: u32
  by (simp add: sint_u32)

lemma sval_iadd: "- 9223372036854775808 \<le> sval a + sint i \<Longrightarrow> sval a + sint i < 9223372036854775808 \<Longrightarrow>
    sval (UTCiAdd a i) = sval a + sint i"
proof (rule sval_eqI)
  show "w64 (UTCiAdd a i) = word_of_int (sval a + sint i)"
    unfolding w64_iadd scast_eq w64_sval [of a] by (simp only: of_int_add)
qed

lemma sval_half: "0 \<le> sval a \<Longrightarrow> sval (UTCdivideBy2 a) = sval a div 2"
proof -
  assume a: "0 \<le> sval a"
  then have "uval (UTCdivideBy2 a) = sval a div 2" by (simp only: uval_half uval_sval [of a]) simp
  then show ?thesis using a sval_bounds [of a] by (simp add: sval_uval)
qed

lemma sdiv_nonneg: "0 \<le> a \<Longrightarrow> 0 \<le> b \<Longrightarrow> a sdiv b = a div b" for a b :: int
  by (simp add: sdiv_parts)

lemma sint_of_small: "0 \<le> k \<Longrightarrow> k < 2147483648 \<Longrightarrow> sint (word_of_int k :: u32) = k"
  by (simp only: sint_sbintrunc') (simp add: signed_take_bit_int_eq_self)

lemma ediv_nonneg:
  assumes "0 \<le> sval a" "0 \<le> sint d"
  shows "fst (ediv a d) \<longleftrightarrow> d \<noteq> 0 \<and> sval a div sint d < 2147483648"
    and "d \<noteq> 0 \<Longrightarrow> sval a div sint d < 2147483648 \<Longrightarrow>
      \<exists>q r. ediv a d = (True, Some (q, r)) \<and> sint q = sval a div sint d"
proof -
  note s = sdiv_nonneg [OF assms]
  have nn: "0 \<le> sval a div sint d"
    using assms by (cases "sint d = 0") (simp_all add: pos_imp_zdiv_nonneg_iff)
  show *: "fst (ediv a d) \<longleftrightarrow> d \<noteq> 0 \<and> sval a div sint d < 2147483648"
    using ediv_ok(1) [of a d] nn by (auto simp: s)
  show "\<exists>q r. ediv a d = (True, Some (q, r)) \<and> sint q = sval a div sint d"
    if "d \<noteq> 0" "sval a div sint d < 2147483648"
    using ediv_ok(2) [of a d] * that nn by (cases "ediv a d") (auto simp: s sint_of_small)
qed

text \<open>What the code computes, as numbers, when nothing overflows.\<close>

definition no_clock_overflow :: "ClockParams \<Rightarrow> UTCValue \<Rightarrow> UTCValue \<Rightarrow> ExtInacc \<Rightarrow> UTCValue \<Rightarrow> UTCValue \<Rightarrow> UTCValue \<Rightarrow> bool" where
  "no_clock_overflow p Tsend Tresp Iresp procDelay Trec Tsync \<longleftrightarrow>
    0 < uint (clockDrift p) \<and> uint (clockDrift p) \<le> 1000000000 \<and>
    (\<forall>T \<in> {Tsend, Tresp, procDelay, Trec, Tsync}. 0 \<le> sval T \<and> sval T < 1152921504606846976) \<and>
    0 \<le> elapsed p Tsend Trec \<and> sval Tsend \<le> sval Tsync \<and>
    elapsed p Tsend Trec div drift_reciprocal p < 2147483648 \<and> drift_bound p Tsend Tsync < 2147483648 \<and>
    sval procDelay \<le> round_trip p Tsend Trec"

lemma reciprocal_word:
  assumes "0 < uint (clockDrift p)" "uint (clockDrift p) \<le> 1000000000"
  shows "sint (1000000000 div clockDrift p) = drift_reciprocal p" "1 \<le> drift_reciprocal p" "1000000000 div clockDrift p \<noteq> 0"
proof -
  have u: "uint (1000000000 div clockDrift p) = drift_reciprocal p" by (simp add: uint_div drift_reciprocal_def)
  have "drift_reciprocal p \<le> 1000000000 div 1"
    unfolding drift_reciprocal_def using assms by (intro zdiv_mono2) simp_all
  then show "sint (1000000000 div clockDrift p) = drift_reciprocal p" using u by (simp add: small_word)
  show "1 \<le> drift_reciprocal p"
    unfolding drift_reciprocal_def using assms pos_imp_zdiv_pos_iff [of "uint (clockDrift p)" 1000000000] by simp
  then show "1000000000 div clockDrift p \<noteq> 0" using u by auto
qed

lemma estimate_numbers:
  assumes ok: "no_clock_overflow p Tsend Tresp Iresp procDelay Trec Tsync"
  defines "e \<equiv> round_trip p Tsend Trec div 2" and "w \<equiv> sval procDelay div 2"
  shows "\<exists>T I. EstimateServerTime p nextLS Tsend Tresp Iresp procDelay Trec Tsync Isync = Some (Inr (T, I)) \<and>
    sval T = sval Tresp - e + w - sval Tsend + sval Tsync \<and>
    (IsInfiniteInacc I \<or> \<not> IsInfiniteInacc Iresp \<and> uval Iresp + e - w + drift_bound p Tsend Tsync \<le> uval I)"
proof -
  define r where "r = drift_reciprocal p"
  define res where "res = clockResolution p div 100"
  define d where "d = 1000000000 div clockDrift p"
  have pos: "0 < uint (clockDrift p)" "uint (clockDrift p) \<le> 1000000000"
    and b: "0 \<le> sval Tsend" "sval Tsend < 1152921504606846976" "0 \<le> sval Tresp" "sval Tresp < 1152921504606846976"
      "0 \<le> sval procDelay" "sval procDelay < 1152921504606846976" "0 \<le> sval Trec" "sval Trec < 1152921504606846976"
      "0 \<le> sval Tsync" "sval Tsync < 1152921504606846976"
    and el: "0 \<le> elapsed p Tsend Trec" "elapsed p Tsend Trec div r < 2147483648"
    and sy: "sval Tsend \<le> sval Tsync" "drift_bound p Tsend Tsync < 2147483648"
    and w: "sval procDelay \<le> round_trip p Tsend Trec"
    using ok by (auto simp: no_clock_overflow_def r_def)
  note d = reciprocal_word [OF pos, folded d_def r_def]
  have drift: "clockDrift p \<noteq> 0" using pos by auto
  have "uint (clockResolution p) div 100 \<le> 42949672" using uint_u32(2) [of "clockResolution p"] by simp
  moreover have res: "uint res = uint (clockResolution p) div 100" by (simp add: res_def uint_div)
  ultimately have res_b: "sint res = uint (clockResolution p) div 100" "0 \<le> sint res" "sint res \<le> 42949672"
    using uint_u32(1) [of res] by (simp_all add: small_word)
  define E0 where "E0 = UTCsub (UTCiAdd Trec res) Tsend"
  have E0: "sval E0 = elapsed p Tsend Trec"
    using b res_b by (simp add: E0_def elapsed_def sval_sub sval_iadd)
  have E0b: "sval E0 < 1152921504649796648" using E0 b res_b by (simp add: elapsed_def)
  obtain q1 r1 where q1: "ediv E0 d = (True, Some (q1, r1))" "sint q1 = sval E0 div r"
    using ediv_nonneg(2) [of E0 d] el d by (auto simp: E0)
  have "0 \<le> sval E0 div r" using el(1) d(2) by (simp add: E0 pos_imp_zdiv_nonneg_iff)
  then have q1b: "0 \<le> sint q1" "sint q1 < 2147483648" using q1(2) el(2) by (simp_all add: E0)
  define E1 where "E1 = UTCdivideBy2 (UTCiAdd E0 q1)"
  have "sval (UTCiAdd E0 q1) = round_trip p Tsend Trec"
    using q1 q1b E0 E0b el(1) by (simp add: round_trip_def sval_iadd r_def)
  moreover have rt: "round_trip p Tsend Trec = sval E0 + sint q1" by (simp add: round_trip_def E0 q1 r_def)
  ultimately have E1: "sval E1 = e" "0 \<le> e" "e < 1152921506797280296"
    using q1b E0b el(1) unfolding E1_def e_def by (simp_all add: sval_half E0)
  define W where "W = UTCdivideBy2 procDelay"
  have W: "sval W = w" "0 \<le> w" "w < 1152921504606846976" "w \<le> e"
    using b(5,6) w unfolding W_def w_def e_def by (simp_all add: sval_half zdiv_mono1)
  define T where "T = UTCadd (UTCsub (UTCadd (UTCsub Tresp E1) W) Tsend) Tsync"
  have T: "sval T = sval Tresp - e + w - sval Tsend + sval Tsync"
    using b E1 W by (simp add: T_def sval_sub sval_add)
  show ?thesis
  proof (cases "IsInfiniteInacc Iresp")
    case True
    have "EstimateServerTime p nextLS Tsend Tresp Iresp procDelay Trec Tsync Isync = Some (Inr (T, infiniteInacc))"
      using True drift q1(1) by (simp add: EstimateServerTime_def Let_def res_def d_def E0_def E1_def W_def T_def)
    then show ?thesis using T infinite_infinite by auto
  next
    case False
    note i = finite_sval [OF False]
    define B where "B = UTCsub Tsync Tsend"
    have B: "sval B = sval Tsync - sval Tsend" using b by (simp add: B_def sval_sub)
    obtain q2 r2 where q2: "ediv B d = (True, Some (q2, r2))" "sint q2 = drift_bound p Tsend Tsync"
      using ediv_nonneg(2) [of B d] sy d by (auto simp: B drift_bound_def r_def)
    have q2b: "0 \<le> sint q2" "sint q2 < 2147483648"
      using q2(2) sy d(2) by (simp_all add: drift_bound_def r_def pos_imp_zdiv_nonneg_iff)
    define I where "I = UTCiAdd (UTCsub (UTCadd Iresp E1) W) q2"
    have I: "sval I = uval Iresp + e - w + drift_bound p Tsend Tsync" "0 \<le> sval I" "sval I < 1200000000000000000"
      using i E1 W q2 q2b by (simp_all add: I_def sval_sub sval_add sval_iadd)
    define J where "J = (if \<not> IsGreaterThanOrEqualNextLS Tresp Iresp nextLS \<and> IsGreaterThanOrEqualNextLS Tsync Isync nextLS
      then AddLSToInacc I else I)"
    have ls: "sint (10000000 :: u32) = 10000000" by simp
    have "sval I \<le> sval J \<and> 0 \<le> sval J"
      using I(2,3) ls by (auto simp: J_def AddLSToInacc_def sval_iadd)
    then have J: "sval I \<le> uval J" by (simp add: uval_sval)
    have "EstimateServerTime p nextLS Tsend Tresp Iresp procDelay Trec Tsync Isync =
      Some (Inr (T, if IsInfiniteInacc J then infiniteInacc else J))"
      using False drift q1(1) q2(1)
      by (simp add: EstimateServerTime_def Let_def res_def d_def E0_def E1_def W_def T_def I_def J_def B_def)
    then show ?thesis using T J I(1) infinite_infinite False by auto
  qed
qed

lemma estimate_interval:
  assumes "no_clock_overflow p Tsend Tresp Iresp procDelay Trec Tsync"
    and "EstimateServerTime p nextLS Tsend Tresp Iresp procDelay Trec Tsync Isync = Some (Inr (T, I))"
    and "s \<in> time_interval Tresp Iresp" "0 \<le> d" "d + sval procDelay < round_trip p Tsend Trec"
    and "\<bar>x - (s - d) - (sval Tsync - sval Tsend)\<bar> \<le> drift_bound p Tsend Tsync"
  shows "x \<in> time_interval T I"
proof (cases "IsInfiniteInacc I")
  case True
  then show ?thesis by (simp add: time_interval_def)
next
  case False
  define e w where "e = round_trip p Tsend Trec div 2" "w = sval procDelay div 2"
  have n: "sval T = sval Tresp - e + w - sval Tsend + sval Tsync" "\<not> IsInfiniteInacc Iresp"
    "uval Iresp + e - w + drift_bound p Tsend Tsync \<le> uval I"
    using estimate_numbers [OF assms(1), of nextLS Isync] assms(2) False by (auto simp: e_w_def)
  have "round_trip p Tsend Trec \<le> 2 * e + 1" "2 * w \<le> sval procDelay" unfolding e_w_def by presburger+
  moreover have "sval Tresp - uval Iresp \<le> s" "s \<le> sval Tresp + uval Iresp"
    using assms(3) n(2) by (simp_all add: time_interval_def)
  ultimately have "sval T - uval I \<le> x" "x \<le> sval T + uval I"
    using assms(4-6) n(1,3) unfolding abs_le_iff by linarith+
  then show ?thesis using False by (simp add: time_interval_def)
qed

text \<open>C13.
  The estimate of a server's time at the synchronization contains the true time \<open>x\<close>: when the server's answer contained
  the true time \<open>s\<close> at which it was stamped, the request was sent \<open>d\<close> before that, \<open>d\<close> is less than the time of the
  exchange without the delay the server reports, and the own clock ran within its drift since then.
\<close>

theorem estimate_contains:
  assumes "no_clock_overflow p Tsend Tresp Iresp procDelay Trec Tsync"
    and "EstimateServerTime p nextLS Tsend Tresp Iresp procDelay Trec Tsync Isync = Some (Inr (T, I))"
    and "s \<in> time_interval Tresp Iresp" "0 \<le> d" "d + sval procDelay < round_trip p Tsend Trec"
    and "\<bar>x - (s - d) - (sval Tsync - sval Tsend)\<bar> \<le> drift_bound p Tsend Tsync"
  shows "x \<in> time_interval T I"
  by (rule estimate_interval [OF assms])

text \<open>
  The halving of the elapsed time rounds down: when the exchange took all of its time before the stamp, the estimate can
  miss the true time by one tick.  Here the server's time 1000 is exact, the exchange took one tick, and the true time at
  the moment of sending may be 999, which the estimate excludes.
\<close>

theorem estimate_loses_tick:
  fixes p :: ClockParams
  defines "p \<equiv> \<lparr>clockResolution = 100, clockDrift = 1000\<rparr>"
  shows "round_trip p UTCzero UTCzero = 1 \<and>
    EstimateServerTime p (Bits64 0x7fffffff 0xffffffff) UTCzero (Bits64 0 1000) UTCzero UTCzero UTCzero UTCzero UTCzero =
      Some (Inr (Bits64 0 1000, UTCzero)) \<and> (999 :: int) \<notin> time_interval (Bits64 0 1000) UTCzero"
proof (intro conjI)
  show "round_trip p UTCzero UTCzero = 1"
    by (simp add: p_def round_trip_def elapsed_def drift_reciprocal_def)
  show "EstimateServerTime p (Bits64 0x7fffffff 0xffffffff) UTCzero (Bits64 0 1000) UTCzero UTCzero UTCzero UTCzero UTCzero =
      Some (Inr (Bits64 0 1000, UTCzero))"
    unfolding p_def by code_simp
  show "(999 :: int) \<notin> time_interval (Bits64 0 1000) UTCzero"
    by (simp add: time_interval_def sval_pair uval_pair IsInfiniteInacc_def UTCzero_def)
qed

theorem estimate_contains_witness:
  fixes p :: ClockParams
  defines "p \<equiv> \<lparr>clockResolution = 200, clockDrift = 1000\<rparr>"
  shows "(1499 :: int) \<in> time_interval (Bits64 0 1498) (Bits64 0 12)"
proof -
  have e: "EstimateServerTime p (Bits64 0x7fffffff 0xffffffff) (Bits64 0 0) (Bits64 0 1000) (Bits64 0 10) (Bits64 0 0)
      (Bits64 0 2) (Bits64 0 500) (Bits64 0 0) = Some (Inr (Bits64 0 1498, Bits64 0 12))"
    unfolding p_def by code_simp
  show ?thesis
    by (rule estimate_contains [OF _ e, of 1000 1])
      (simp_all add: p_def no_clock_overflow_def round_trip_def elapsed_def drift_reciprocal_def drift_bound_def
        values_small interval_stamp time_interval_def finite_small)
qed

end
