(* ===== verification/Dts_Synch.thy ===== *)
theory Dts_Synch
  imports Dts_Clock Uuid
begin

text \<open>
  The synchronization database and the synchronization itself (\<^verbatim>\<open>time/service/dtss_service_state.c\<close>,
  \<^verbatim>\<open>dtss_service.h\<close>): \<open>DoSynch\<close> translates the answers of all servers to the present, computes the time, checks
  for faulty clocks and sets or adjusts the clock.

  A queue is a list without its head.  A pointer from a response to the server in the cache is the address
  \<open>ce_addr\<close> of the cache element.  The counters, unsigned in C, are integers; the invariant of the state machine
  shows that they never go below 0.  The current time, the kernel's clock and the event log are outside: the time is an
  argument, the others are the list of actions that an operation returns.
\<close>

section \<open>Data\<close>

datatype VariantType = VTserver | VTclerk

datatype TSstate = STATE_OFF | STATE_ON | STATE_SYNCH_ADJUST | STATE_UPDATING | STATE_SYNCH_SET | STATE_NOT_CREATED

datatype CourierRole = ROLE_COURIER | ROLE_NONCOURIER | ROLE_BACKUPCOURIER

record MgtParams =
  checkInt :: UTCValue
  courierRole :: CourierRole
  isCourier :: bool
  epochNumber :: nat
  errorTolerance :: UTCValue
  maxInacc :: UTCValue
  minServers :: int
  repetitions :: int
  LANtimeOut :: UTCValue
  WANtimeOut :: UTCValue
  syncHold :: UTCValue
  variant :: VariantType
  TSstate :: TSstate
  hasProvider :: bool

record ShmBuf =
  nextLS :: UTCValue
  shm_mgtParams :: MgtParams
  clockParams :: ClockParams

datatype SocketType = SOCKET_DTS_8023 | SOCKET_DTS_RPC

record CacheElement =
  ce_addr :: nat
  ce_courierRole :: CourierRole
  datagram :: bool
  socketType :: SocketType
  ce_synchSerialNo :: u32
  ce_sync :: utc_t
  ce_serv :: utc_t
  serverUUID :: uuid

record ResponseElement =
  serverPtr :: nat
  re_msgIdSerial :: u32
  sendTime :: UTCValue
  serverTime :: utc_t
  processingDelay :: UTCValue
  recvTime :: UTCValue
  responseRecvd :: bool
  retriesLeft :: int
  differingEpoch :: bool

record ServerSet =
  cacheQ :: "CacheElement list"
  respQ :: "ResponseElement list"
  numServers :: int
  numServerSet :: int
  numResp :: int
  numRecvd :: int

record Sdb =
  mgtParams :: MgtParams
  localSet :: ServerSet
  globalSet :: ServerSet
  TPset :: ServerSet
  epochSet :: "(nat \<times> nat) list"
  TPnextPoll :: u32
  sdb_minServers :: int
  synchSerialNo :: u32
  msgIdSerial :: u32
  localSolDone :: bool
  doLANsolicit :: bool
  NScontacted :: bool
  checkIntTime :: bool
  TPvalid :: bool
  TPnoClockSet :: bool
  synchDoneFlag :: bool

abbreviation IsServer :: "ShmBuf \<Rightarrow> bool" where "IsServer shm \<equiv> variant (shm_mgtParams shm) = VTserver"
abbreviation IsState :: "ShmBuf \<Rightarrow> TSstate \<Rightarrow> bool" where "IsState shm s \<equiv> TSstate (shm_mgtParams shm) = s"

text \<open>What an operation tells the log, the timers, the kernel and other threads.\<close>

datatype action =
    LogUserReset
  | LogLocalFault bool
  | LogFaultyServer
  | LogSynchCompleted int
  | LogClockSet
  | LogTimeRep
  | LogServerNotInGroup
  | UnexportTimeService
  | LogTooFewServers int int
  | LogNoGlobalServers
  | LogServerNotResp nat
  | LogDiffEpoch "(nat \<times> nat) list"
  | LogTPfailure
  | LogTPtimeout
  | SetClock UTCValue ExtInacc UTCValue
  | AdjustClock UTCValue ExtInacc UTCValue ExtInacc
  | AdjustClkEnd
  | ContactTP
  | ReleaseTP
  | RequestTime nat u32
  | InitiateQueryTimer UTCValue
  | CancelQueryTimer
  | InitiateSynchTimer UTCValue

section \<open>The error tolerance\<close>

definition IsErrorToleranceExceeded :: "Sdb \<Rightarrow> UTCValue \<Rightarrow> ExtInacc \<Rightarrow> UTCValue \<Rightarrow> ExtInacc \<Rightarrow> bool" where
  "IsErrorToleranceExceeded sdb Tcomp Icomp Tsync Isync =
    (if IsInfiniteInacc (errorTolerance (mgtParams sdb)) then False
     else if IsInfiniteInacc Icomp \<or> IsInfiniteInacc Isync then False
     else
       let timeDiff = UTCsub Tsync Tcomp;
           timeDiff = UTCabsVal timeDiff;
           inaccDiff = UTCadd Icomp Isync
       in if IsUTCgt inaccDiff timeDiff then False
          else let timeDiff = UTCsub timeDiff inaccDiff
               in IsUTCgt timeDiff (errorTolerance (mgtParams sdb)))"

section \<open>The computation of the time\<close>

text \<open>
  The answers are turned into ends of intervals.  \<open>Inl\<close> is the return with \<open>DTSS_ERROR\<close>; \<open>None\<close> is the use of variables
  that were never written, also for a timestamp of an unknown version, for which the status of \<open>utc_comptime\<close> is
  not looked at.
\<close>

primrec CollectServerTimes :: "bool \<Rightarrow> ShmBuf \<Rightarrow> UTCValue \<Rightarrow> ExtInacc \<Rightarrow> ResponseElement list \<Rightarrow>
    (unit + (UTCValue \<times> ExtInacc) list) option" where
  "CollectServerTimes le shm Tsync Isync [] = Some (Inr [])"
| "CollectServerTimes le shm Tsync Isync (rp # rps) =
    (case utc_comptime le (serverTime rp) of
       None \<Rightarrow> None
     | Some (utcTime, utcInacc, _) \<Rightarrow>
         (case EstimateServerTime (clockParams shm) (nextLS shm) (sendTime rp) utcTime utcInacc (processingDelay rp)
                 (recvTime rp) Tsync Isync of
            None \<Rightarrow> None
          | Some (Inl e) \<Rightarrow> Some (Inl e)
          | Some (Inr serv) \<Rightarrow>
              (case CollectServerTimes le shm Tsync Isync rps of
                 None \<Rightarrow> None
               | Some (Inl e) \<Rightarrow> Some (Inl e)
               | Some (Inr servs) \<Rightarrow> Some (Inr (serv # servs)))))"

text \<open>The times of a time provider get the resolution of the own clock as additional inaccuracy.\<close>

definition add_resolution :: "bool \<Rightarrow> ShmBuf \<Rightarrow> ResponseElement \<Rightarrow> ResponseElement option" where
  "add_resolution le shm rp =
    (case utc_comptime le (serverTime rp) of
       None \<Rightarrow> None
     | Some (utcTime, utcInacc, _) \<Rightarrow>
         let utcInacc = (if \<not> IsInfiniteInacc utcInacc
                         then UTCiAdd utcInacc (clockResolution (clockParams shm) div 100) else utcInacc)
         in Some (rp\<lparr>serverTime := utc_mkcomptime le utcTime (Some utcInacc) 0\<rparr>))"

primrec add_resolutions :: "bool \<Rightarrow> ShmBuf \<Rightarrow> ResponseElement list \<Rightarrow> ResponseElement list option" where
  "add_resolutions le shm [] = Some []"
| "add_resolutions le shm (rp # rps) =
    (case add_resolution le shm rp of
       None \<Rightarrow> None
     | Some rp \<Rightarrow> (case add_resolutions le shm rps of None \<Rightarrow> None | Some rps \<Rightarrow> Some (rp # rps)))"

text \<open>
  From the answers to the computed time: the intervals at the moment of the synchronization (\<open>server_intervals\<close>, for
  the local servers, the global servers, and the time provider and the own clock), the two scans and the midpoint
  (\<open>computed_time\<close>), with the flag that not all intervals met.  Ends that would be written behind the array, or elements
  of it that are not written, make the result \<open>None\<close>.
\<close>

type_synonym intervals = "(UTCValue \<times> ExtInacc) list"

definition server_intervals :: "bool \<Rightarrow> ShmBuf \<Rightarrow> Sdb \<Rightarrow> UTCValue \<Rightarrow> ExtInacc \<Rightarrow>
    (unit + intervals \<times> intervals \<times> intervals) option" where
  "server_intervals le shm sdb Tsync Isync =
    (case CollectServerTimes le shm Tsync Isync (respQ (localSet sdb)) of
       None \<Rightarrow> None
     | Some (Inl e) \<Rightarrow> Some (Inl e)
     | Some (Inr l) \<Rightarrow>
         (case CollectServerTimes le shm Tsync Isync (respQ (globalSet sdb)) of
            None \<Rightarrow> None
          | Some (Inl e) \<Rightarrow> Some (Inl e)
          | Some (Inr g) \<Rightarrow>
              if IsServer shm
              then (case add_resolutions le shm (respQ (TPset sdb)) of
                      None \<Rightarrow> None
                    | Some tps \<Rightarrow>
                        (case CollectServerTimes le shm Tsync Isync tps of
                           None \<Rightarrow> None
                         | Some (Inl e) \<Rightarrow> Some (Inl e)
                         | Some (Inr t) \<Rightarrow> Some (Inr (l, g, t @ [(Tsync, Isync)]))))
              else Some (Inr (l, g, []))))"

text \<open>The resolution stays in the answers of the time provider, once the answers of the other servers are collected.\<close>

definition with_resolution :: "bool \<Rightarrow> ShmBuf \<Rightarrow> UTCValue \<Rightarrow> ExtInacc \<Rightarrow> Sdb \<Rightarrow> Sdb" where
  "with_resolution le shm Tsync Isync sdb =
    (case (CollectServerTimes le shm Tsync Isync (respQ (localSet sdb)),
           CollectServerTimes le shm Tsync Isync (respQ (globalSet sdb)), add_resolutions le shm (respQ (TPset sdb))) of
       (Some (Inr _), Some (Inr _), Some tps) \<Rightarrow>
         if IsServer shm then sdb\<lparr>TPset := (TPset sdb)\<lparr>respQ := tps\<rparr>\<rparr> else sdb
     | _ \<Rightarrow> sdb)"

definition computed_time :: "int \<Rightarrow> int \<Rightarrow> EndPointElement list \<Rightarrow> (UTCValue \<times> ExtInacc \<times> bool) option" where
  "computed_time M f endPointArr =
    (if int (length endPointArr) \<noteq> 2 * M then None
     else
       let endPointArr = qsort CompareIntervalEndPoints endPointArr
       in case (ComputedTimeMinimum M f endPointArr, ComputedTimeMaximum M f endPointArr) of
            ((mostMinIntersects, Some minPoint), (mostMaxIntersects, Some maxPoint)) \<Rightarrow>
              (case CalcMidpointAndInacc minPoint maxPoint of
                 None \<Rightarrow> None
               | Some (Tcomp, Icomp) \<Rightarrow> Some (Tcomp, Icomp, mostMinIntersects \<noteq> M \<or> mostMaxIntersects \<noteq> M))
          | _ \<Rightarrow> None)"

definition synch_M :: "ShmBuf \<Rightarrow> Sdb \<Rightarrow> int" where
  "synch_M shm sdb = numResp (localSet sdb) + numResp (globalSet sdb) + (if IsServer shm then numResp (TPset sdb) + 1 else 0)"

definition synch_f :: "ShmBuf \<Rightarrow> Sdb \<Rightarrow> int" where
  "synch_f shm sdb = (if IsServer shm then 0 else minServers (mgtParams sdb) div 2)"

definition UpdateServerCacheStatus :: "bool \<Rightarrow> u32 \<Rightarrow> u32 \<Rightarrow> UTCValue \<Rightarrow> ExtInacc \<Rightarrow> intervals \<Rightarrow> ServerSet \<Rightarrow> ServerSet" where
  "UpdateServerCacheStatus le theTDF serial Tsync Isync servs setP =
    setP\<lparr>cacheQ := fold (\<lambda>(rp, (Tserv, Iserv)).
        map (\<lambda>sp. if ce_addr sp \<noteq> serverPtr rp then sp
                   else if differingEpoch rp then sp\<lparr>ce_synchSerialNo := serial - 1\<rparr>
                   else sp\<lparr>ce_synchSerialNo := serial,
                            ce_sync := utc_mkcomptime le Tsync (Some Isync) theTDF,
                            ce_serv := utc_mkcomptime le Tserv (Some Iserv) theTDF\<rparr>))
      (zip (respQ setP) servs) (cacheQ setP)\<rparr>"

text \<open>The events that a computed time leads to.\<close>

definition fault_events :: "ShmBuf \<Rightarrow> Sdb \<Rightarrow> UTCValue \<Rightarrow> ExtInacc \<Rightarrow> UTCValue \<Rightarrow> ExtInacc \<Rightarrow> bool \<Rightarrow> action list" where
  "fault_events shm sdb Tcomp Icomp Tsync Isync notAllSrvTimesIntersectTcomp =
    (let TsyncIntersectsTcomp = IsIntervalIntersection Tcomp Icomp Tsync Isync;
         exceeded = IsErrorToleranceExceeded sdb Tcomp Icomp Tsync Isync
     in if \<not> TsyncIntersectsTcomp \<and> \<not> checkIntTime sdb
        then [LogLocalFault (\<not> (TPvalid sdb \<and> TPnoClockSet sdb) \<and> exceeded)]
        else if IsServer shm \<and> notAllSrvTimesIntersectTcomp
        then if \<not> TPvalid sdb \<or> checkIntTime sdb then [LogFaultyServer]
             else [LogLocalFault (\<not> TPnoClockSet sdb \<and> exceeded)]
        else [])"

text \<open>\<open>set_ok\<close> and \<open>adjust_ok\<close> are the statuses of the kernel's clock routines; \<open>None\<close> is \<open>BugCheckOSstatus\<close>.\<close>

definition clock_actions :: "ShmBuf \<Rightarrow> Sdb \<Rightarrow> UTCValue \<Rightarrow> ExtInacc \<Rightarrow> UTCValue \<Rightarrow> ExtInacc \<Rightarrow> bool \<Rightarrow> bool \<Rightarrow>
    action list option" where
  "clock_actions shm sdb Tcomp Icomp Tsync Isync set_ok adjust_ok =
    (let used = numRecvd (localSet sdb) + numRecvd (globalSet sdb) + (if IsServer shm then 1 else 0)
     in if \<not> (TPvalid sdb \<and> TPnoClockSet sdb)
        then if IsErrorToleranceExceeded sdb Tcomp Icomp Tsync Isync \<or> IsState shm STATE_SYNCH_SET
             then if \<not> set_ok then None
                  else Some [SetClock Tcomp Icomp Tsync, LogSynchCompleted used, LogClockSet]
             else Some (AdjustClock Tsync Isync Tcomp Icomp # (if adjust_ok then [LogSynchCompleted used] else []))
        else if \<not> set_ok then None
        else Some [SetClock Tcomp Icomp Tcomp])"

text \<open>
  \<open>curTime\<close> is what \<open>utc_gettime\<close> returned, \<open>None\<close> for its failure, and \<open>theTDF\<close> the time differential factor of the local
  zone.  The result is the computed inaccuracy, the database and the actions.  The estimated times that the code stores in
  the response elements are the lists \<open>l\<close>, \<open>g\<close> and \<open>t\<close> here; they are not kept.
\<close>

definition DoSynch :: "bool \<Rightarrow> ShmBuf \<Rightarrow> Sdb \<Rightarrow> utc_t option \<Rightarrow> u32 \<Rightarrow> bool \<Rightarrow> bool \<Rightarrow>
    (ExtInacc \<times> Sdb \<times> action list) option" where
  "DoSynch le shm sdb curTime theTDF set_ok adjust_ok =
    (case curTime of
       None \<Rightarrow> Some (infiniteInacc, sdb, [LogUserReset])
     | Some now \<Rightarrow>
         (case utc_comptime le now of
            None \<Rightarrow> None
          | Some (Tsync, Isync, _) \<Rightarrow>
              (case server_intervals le shm sdb Tsync Isync of
                 None \<Rightarrow> None
               | Some (Inl _) \<Rightarrow> Some (infiniteInacc, with_resolution le shm Tsync Isync sdb, [])
               | Some (Inr (l, g, t)) \<Rightarrow>
                   (case computed_time (synch_M shm sdb) (synch_f shm sdb) (end_points (l @ g @ t)) of
                      None \<Rightarrow> None
                    | Some (Tcomp, Icomp, notAll) \<Rightarrow>
                        let sdb = with_resolution le shm Tsync Isync sdb;
                            events = fault_events shm sdb Tcomp Icomp Tsync Isync notAll;
                            sdb = sdb\<lparr>localSet := UpdateServerCacheStatus le theTDF (synchSerialNo sdb) Tsync Isync l (localSet sdb),
                                      globalSet := UpdateServerCacheStatus le theTDF (synchSerialNo sdb) Tsync Isync g (globalSet sdb)\<rparr>
                        in if checkIntTime sdb then Some (Icomp, sdb, events)
                           else (case clock_actions shm sdb Tcomp Icomp Tsync Isync set_ok adjust_ok of
                                   None \<Rightarrow> None
                                 | Some actions \<Rightarrow> Some (Icomp, sdb, events @ actions))))))"

end
