(* ===== verification/Dts_Synch_Props.thy ===== *)
theory Dts_Synch_Props
  imports Dts_Clock_Props Dts_Synch
begin

text \<open>
  Properties of the synchronization: the interval computed from the answers of the servers is the hull of the moments
  that enough of them allow, and the clock is only set to intervals that contain the true time.
\<close>

section \<open>Midpoint and inaccuracy\<close>

lemma low_bit: "lo a AND 1 \<noteq> 0 \<longleftrightarrow> sval a mod 2 = 1"
proof -
  have "lo a AND 1 \<noteq> 0 \<longleftrightarrow> uint (lo a AND 1) \<noteq> 0" by (simp only: unsigned_eq_0_iff)
  then show ?thesis unfolding uint_low_bit by presburger
qed

lemma half_difference:
  assumes "sval a \<le> sval b" "sval b - sval a < 9223372036854775808"
  shows "uval (UTCdivideBy2 (UTCsub b a)) = (sval b - sval a) div 2"
proof -
  have "uval (UTCsub b a) = sval b - sval a"
    using assms by (intro uval_eqI) (simp_all add: w64_sval [of a] w64_sval [of b])
  then show ?thesis by (simp add: uval_half)
qed

lemma half_sum:
  assumes "(sval a < 0) = (sval b < 0)"
  shows "sval (UTCadd (UTCdivideBy2 a) (UTCdivideBy2 b)) = sval a div 2 + sval b div 2"
proof (rule sval_eqI)
  show "w64 (UTCadd (UTCdivideBy2 a) (UTCdivideBy2 b)) = word_of_int (sval a div 2 + sval b div 2)"
    using assms by (auto simp: w64_half)
qed (use sval_bounds [of a] sval_bounds [of b] in presburger)+

lemma midpoint_hull:
  assumes "ep_value a = va" "ep_value b = vb" "intervalSize a = non_infinite" "intervalSize b = non_infinite"
    and "sval va \<le> sval vb" "sval vb - sval va < 9223372036854775808" "(sval va < 0) = (sval vb < 0)"
  shows "\<exists>T I. CalcMidpointAndInacc a b = Some (T, I) \<and> {sval va .. sval vb} \<subseteq> time_interval T I \<and>
    uval I \<le> (sval vb - sval va) div 2 + 1"
proof -
  define low where "low = (if lo va AND 1 \<noteq> 0 \<or> lo vb AND 1 \<noteq> 0 then Bits64 0 1 else UTCzero)"
  define T where "T = UTCadd (UTCdivideBy2 va) (UTCdivideBy2 vb)"
  define I where "I = UTCadd (UTCdivideBy2 (UTCsub vb va)) low"
  have r: "CalcMidpointAndInacc a b = Some (T, I)"
    using assms(1-4) by (simp add: CalcMidpointAndInacc_def Let_def T_def I_def low_def)
  have T: "sval T = sval va div 2 + sval vb div 2" unfolding T_def by (rule half_sum [OF assms(7)])
  have l: "uval low = (if sval va mod 2 = 1 \<or> sval vb mod 2 = 1 then 1 else 0)"
    by (simp add: low_def low_bit uval_pair UTCzero_def)
  then have lb: "0 \<le> uval low" "uval low \<le> 1" by simp_all
  have h: "uval (UTCdivideBy2 (UTCsub vb va)) = (sval vb - sval va) div 2" by (rule half_difference [OF assms(5,6)])
  have "uval I = (sval vb - sval va) div 2 + uval low"
  proof (rule uval_eqI)
    show "w64 I = word_of_int ((sval vb - sval va) div 2 + uval low)"
      unfolding I_def w64_add h [symmetric] by (simp add: w64_of_uval [of low] w64_of_uval [of "UTCdivideBy2 (UTCsub vb va)"])
  qed (use assms(5,6) lb in presburger)+
  then have I: "uval I = (sval vb - sval va) div 2 + (if sval va mod 2 = 1 \<or> sval vb mod 2 = 1 then 1 else 0)"
    by (simp only: l)
  have "sval T - uval I \<le> sval va" "sval vb \<le> sval T + uval I" "uval I \<le> (sval vb - sval va) div 2 + 1"
    unfolding T I by presburger+
  then show ?thesis using r by (auto simp: time_interval_def)
qed

section \<open>The computed time\<close>

definition after_epoch :: "intervals \<Rightarrow> bool" where
  "after_epoch ts \<longleftrightarrow> (\<forall>(T, I) \<in> set ts. no_overflow T I \<and> (IsInfiniteInacc I \<or> 0 \<le> sval T - uval I))"

lemma before_epoch_empty:
  assumes "after_epoch ts" "x < 0"
  shows "intervals_at ts x = infinite_intervals ts"
proof -
  have "x \<in> time_interval T I \<longleftrightarrow> IsInfiniteInacc I" if "(T, I) \<in> set ts" for T I
    using that assms by (auto simp: time_interval_def after_epoch_def)
  then show ?thesis unfolding intervals_at_def infinite_intervals_def by (auto intro!: arg_cong [of _ _ length] filter_cong)
qed

lemma computed_time_hull:
  fixes ts f
  assumes "after_epoch ts" "0 \<le> f" "f < int (length ts)"
  shows "\<exists>g T I notAll. computed_time (int (length ts)) f (end_points ts) = Some (T, I, notAll) \<and> 1 \<le> g \<and>
    (g = int (length ts) - f \<or> g < int (length ts) - f \<and> (\<forall>x. intervals_at ts x \<le> g)) \<and>
    (\<forall>x. g \<le> intervals_at ts x \<longrightarrow> x \<in> time_interval T I) \<and>
    (IsInfiniteInacc I \<or> (\<exists>a b. g \<le> intervals_at ts a \<and> g \<le> intervals_at ts b \<and> uval I \<le> (b - a) div 2 + 1)) \<and>
    (notAll \<longleftrightarrow> g \<noteq> int (length ts))"
proof -
  define M where "M = int (length ts)"
  define es where "es = qsort CompareIntervalEndPoints (end_points ts)"
  have ok: "\<forall>(T, I) \<in> set ts. no_overflow T I" using assms(1) by (auto simp: after_epoch_def)
  have "1 \<le> M - f" "ts \<noteq> []" using assms(2,3) by (auto simp: M_def)
  then obtain g a b where scans: "ComputedTimeMinimum M f es = (g, Some a)" "ComputedTimeMaximum M f es = (g, Some b)"
    and types: "ep_type a = min_point" "ep_type b = max_point" "intervalSize a = intervalSize b"
    and g: "1 \<le> g" "g \<le> M - f" "g < M - f \<longrightarrow> (\<forall>x. intervals_at ts x \<le> g)"
    and hull: "\<forall>x. g \<le> intervals_at ts x \<longrightarrow> before x a \<and> \<not> before x b"
    and tight: "if intervalSize a = non_infinite
      then g \<le> intervals_at ts (sval (ep_value a)) \<and> g \<le> intervals_at ts (sval (ep_value b))
      else g \<le> infinite_intervals ts"
    using computed_times [OF ok, of f] unfolding M_def es_def by blast
  have result: "computed_time M f (end_points ts) =
      (case CalcMidpointAndInacc a b of None \<Rightarrow> None | Some (T, I) \<Rightarrow> Some (T, I, g \<noteq> M))"
    using scans by (simp add: computed_time_def length_end_points M_def Let_def split: option.split flip: es_def)
  have "\<exists>T I. CalcMidpointAndInacc a b = Some (T, I) \<and> (\<forall>x. g \<le> intervals_at ts x \<longrightarrow> x \<in> time_interval T I) \<and>
    (IsInfiniteInacc I \<or> (\<exists>a b. g \<le> intervals_at ts a \<and> g \<le> intervals_at ts b \<and> uval I \<le> (b - a) div 2 + 1))"
  proof (cases "intervalSize a = non_infinite")
    case False
    then show ?thesis by (simp add: CalcMidpointAndInacc_def Let_def time_interval_def infinite_infinite)
  next
    case True
    define va vb where "va = sval (ep_value a)" "vb = sval (ep_value b)"
    have fin: "intervalSize b = non_infinite" using True types(3) by simp
    have at: "g \<le> intervals_at ts va" "g \<le> intervals_at ts vb" using tight True by (simp_all add: va_vb_def)
    have "\<not> before va b" using hull at(1) by blast
    then have ord: "va \<le> vb" using fin types(2) by (simp add: before_def va_vb_def)
    have "0 \<le> va"
    proof (rule ccontr)
      assume "\<not> 0 \<le> va"
      then have "g \<le> intervals_at ts (- 9223372036854775809)"
        using at(1) before_epoch_empty [OF assms(1)] outside [OF ok] by simp
      then show False using hull before_outside(1) True by auto
    qed
    then obtain T I where "CalcMidpointAndInacc a b = Some (T, I)" "{va..vb} \<subseteq> time_interval T I" "uval I \<le> (vb - va) div 2 + 1"
      using midpoint_hull [OF refl refl True fin, folded va_vb_def, OF ord] ord sval_bounds [of "ep_value b"]
      by (auto simp flip: va_vb_def)
    moreover have "x \<in> {va..vb}" if "g \<le> intervals_at ts x" for x
      using spec [OF hull, of x] that True fin types by (simp add: before_def va_vb_def)
    ultimately show ?thesis using at by blast
  qed
  then obtain T I where TI: "CalcMidpointAndInacc a b = Some (T, I)" "\<forall>x. g \<le> intervals_at ts x \<longrightarrow> x \<in> time_interval T I"
    "IsInfiniteInacc I \<or> (\<exists>a b. g \<le> intervals_at ts a \<and> g \<le> intervals_at ts b \<and> uval I \<le> (b - a) div 2 + 1)"
    by blast
  have "computed_time (int (length ts)) f (end_points ts) = Some (T, I, g \<noteq> int (length ts))"
    using result TI(1) by (simp add: M_def)
  moreover have "g = int (length ts) - f \<or> g < int (length ts) - f \<and> (\<forall>x. intervals_at ts x \<le> g)"
    using g unfolding M_def by (cases "g < int (length ts) - f") auto
  ultimately show ?thesis using TI(2,3) g(1) by blast
qed

text \<open>C9.
  The computed time is the hull of the moments that lie in \<open>g\<close> of the intervals, where \<open>g\<close> is \<open>M - f\<close> or, when no
  moment lies in so many, the largest number of intervals with a common moment: every such moment lies in the result,
  and the result is at most a tick wider on each side than the smallest interval around them.  There is always a result:
  the scans find both ends, and one is infinite only if both are.  This is for \<open>0 \<le> f < M\<close> and intervals none of
  which wraps around: both ends fit in 64 bits and lower ends are not before the epoch (\<open>after_epoch\<close>).
\<close>

theorem computed_time_exact:
  fixes ts f
  assumes "after_epoch ts" "0 \<le> f" "f < int (length ts)"
  shows "\<exists>g T I notAll. computed_time (int (length ts)) f (end_points ts) = Some (T, I, notAll) \<and> 1 \<le> g \<and>
    (g = int (length ts) - f \<or> g < int (length ts) - f \<and> (\<forall>x. intervals_at ts x \<le> g)) \<and>
    (\<forall>x. g \<le> intervals_at ts x \<longrightarrow> x \<in> time_interval T I) \<and>
    (IsInfiniteInacc I \<or> (\<exists>a b. g \<le> intervals_at ts a \<and> g \<le> intervals_at ts b \<and> uval I \<le> (b - a) div 2 + 1)) \<and>
    (notAll \<longleftrightarrow> g \<noteq> int (length ts))"
  by (rule computed_time_hull [OF assms])

section \<open>The synchronization\<close>

text \<open>What makes the answer of a server good: nothing overflows, and the true time \<open>x\<close> is as \<open>estimate_contains\<close> says.\<close>

definition answer_ok :: "ShmBuf \<Rightarrow> UTCValue \<Rightarrow> ResponseElement \<Rightarrow> bool" where
  "answer_ok shm Tsync rp \<longleftrightarrow> (\<forall>T I d. utc_comptime True (serverTime rp) = Some (T, I, d) \<longrightarrow>
    no_clock_overflow (clockParams shm) (sendTime rp) T I (processingDelay rp) (recvTime rp) Tsync)"

definition answer_true :: "ShmBuf \<Rightarrow> UTCValue \<Rightarrow> int \<Rightarrow> ResponseElement \<Rightarrow> bool" where
  "answer_true shm Tsync x rp \<longleftrightarrow> (\<exists>s d. s \<in> utc_interval (serverTime rp) \<and> 0 \<le> d \<and>
    d + sval (processingDelay rp) < round_trip (clockParams shm) (sendTime rp) (recvTime rp) \<and>
    \<bar>x - (s - d) - (sval Tsync - sval (sendTime rp))\<bar> \<le> drift_bound (clockParams shm) (sendTime rp) Tsync)"

definition answer_good :: "ShmBuf \<Rightarrow> UTCValue \<Rightarrow> int \<Rightarrow> ResponseElement \<Rightarrow> bool" where
  "answer_good shm Tsync x rp \<longleftrightarrow> answer_ok shm Tsync rp \<and> answer_true shm Tsync x rp"

lemma collected:
  assumes "CollectServerTimes le shm Tsync Isync rps = Some (Inr ts)"
  shows "length ts = length rps \<and> int (length (filter (answer_good shm Tsync x) rps)) \<le> intervals_at ts x"
  using assms
proof (induction rps arbitrary: ts)
  case (Cons rp rps)
  from Cons.prems(1) obtain T I d T' I' ts' where c: "utc_comptime le (serverTime rp) = Some (T, I, d)"
    and e: "EstimateServerTime (clockParams shm) (nextLS shm) (sendTime rp) T I (processingDelay rp) (recvTime rp) Tsync Isync =
      Some (Inr (T', I'))"
    and r: "CollectServerTimes le shm Tsync Isync rps = Some (Inr ts')" "ts = (T', I') # ts'"
    by (auto split: option.splits sum.splits prod.splits)
  have "x \<in> time_interval T' I'" if good: "answer_good shm Tsync x rp"
  proof -
    have "no_clock_overflow (clockParams shm) (sendTime rp) T I (processingDelay rp) (recvTime rp) Tsync"
      using good c comptime_host [of True "serverTime rp" le] by (simp add: answer_good_def answer_ok_def)
    then show ?thesis
      using good estimate_interval [OF _ e] by (auto simp: answer_good_def answer_true_def utc_interval_Some [OF c])
  qed
  then show ?case using Cons.IH [OF r(1)] by (auto simp: r(2) intervals_at_def)
qed (auto simp: intervals_at_def)

definition answers :: "bool \<Rightarrow> ShmBuf \<Rightarrow> Sdb \<Rightarrow> ResponseElement list" where
  "answers le shm sdb = respQ (localSet sdb) @ respQ (globalSet sdb) @
    (if IsServer shm then the (add_resolutions le shm (respQ (TPset sdb))) else [])"

definition true_intervals :: "bool \<Rightarrow> ShmBuf \<Rightarrow> Sdb \<Rightarrow> UTCValue \<Rightarrow> ExtInacc \<Rightarrow> int \<Rightarrow> int" where
  "true_intervals le shm sdb Tsync Isync x = int (length (filter (answer_good shm Tsync x) (answers le shm sdb))) +
    (if IsServer shm \<and> x \<in> time_interval Tsync Isync then 1 else 0)"

lemma intervals_at_append [simp]: "intervals_at (ts @ us) x = intervals_at ts x + intervals_at us x"
  by (simp add: intervals_at_def)

lemma collected_all:
  assumes "server_intervals le shm sdb Tsync Isync = Some (Inr (l, g, t))"
  shows "true_intervals le shm sdb Tsync Isync x \<le> intervals_at (l @ g @ t) x"
proof (cases "IsServer shm")
  case False
  then have "CollectServerTimes le shm Tsync Isync (respQ (localSet sdb)) = Some (Inr l)"
    "CollectServerTimes le shm Tsync Isync (respQ (globalSet sdb)) = Some (Inr g)" "t = []"
    using assms(1) by (auto simp: server_intervals_def split: option.splits sum.splits)
  from collected [OF this(1), of x] collected [OF this(2), of x] False this(3)
  show ?thesis by (auto simp: answers_def true_intervals_def)
next
  case True
  then obtain tps t' where c: "CollectServerTimes le shm Tsync Isync (respQ (localSet sdb)) = Some (Inr l)"
    "CollectServerTimes le shm Tsync Isync (respQ (globalSet sdb)) = Some (Inr g)"
    "add_resolutions le shm (respQ (TPset sdb)) = Some tps" "CollectServerTimes le shm Tsync Isync tps = Some (Inr t')"
    "t = t' @ [(Tsync, Isync)]"
    using assms(1) by (auto simp: server_intervals_def split: option.splits sum.splits)
  from collected [OF c(1), of x] collected [OF c(2), of x] collected [OF c(4), of x] True c(3,5)
  show ?thesis by (auto simp: answers_def true_intervals_def intervals_at_def)
qed

lemma fault_events_only: "SetClock T I old \<notin> set (fault_events shm sdb Tc Ic Ts Is b)"
  "AdjustClock T0 I0 T I \<notin> set (fault_events shm sdb Tc Ic Ts Is b)"
  by (auto simp: fault_events_def Let_def)

lemma clock_actions_time:
  assumes "clock_actions shm sdb Tc Ic Ts Is True adjust_ok = Some actions"
  shows "SetClock T I old \<in> set actions \<Longrightarrow> T = Tc \<and> I = Ic" "AdjustClock T0 I0 T I \<in> set actions \<Longrightarrow> T = Tc \<and> I = Ic"
  using assms by (auto simp: clock_actions_def Let_def split: if_splits)

lemma clock_actions_returns: "\<exists>actions. clock_actions shm sdb Tc Ic Ts Is True adjust_ok = Some actions"
  by (simp add: clock_actions_def Let_def)

text \<open>C4.
  A synchronization returns, and sets or adjusts the clock only to an interval that contains the true time \<open>x\<close>, if the
  answers of at least \<open>M - f\<close> servers are good (true, and computed without overflow).  The other answers may say anything,
  with one exception: no collected interval may wrap around (\<open>after_epoch\<close>: both ends fit in 64 bits, lower ends are not
  negative), which a wrong answer can violate, with the consequence of \<open>wrapped_answer_defeats_tolerance\<close> below.
  \<open>M\<close> must be the number of intervals and \<open>0 \<le> f < M\<close>: a clerk tolerates half of the configured number of
  servers, a server none (its own clock and a time provider count).
\<close>

theorem synch_sets_true_time:
  assumes "utc_comptime le now = Some (Tsync, Isync, d)"
    and "server_intervals le shm sdb Tsync Isync = Some (Inr (l, g, t))" "after_epoch (l @ g @ t)"
    and "synch_M shm sdb = int (length (l @ g @ t))" "0 \<le> synch_f shm sdb" "synch_f shm sdb < synch_M shm sdb"
    and "synch_M shm sdb - synch_f shm sdb \<le> true_intervals le shm sdb Tsync Isync x"
    and "set_ok"
  shows "\<exists>Icomp sdb' actions. DoSynch le shm sdb (Some now) tdf set_ok adjust_ok = Some (Icomp, sdb', actions) \<and>
    (\<forall>T I old. SetClock T I old \<in> set actions \<longrightarrow> x \<in> time_interval T I) \<and>
    (\<forall>T0 I0 T I. AdjustClock T0 I0 T I \<in> set actions \<longrightarrow> x \<in> time_interval T I)"
proof -
  define M f where "M = synch_M shm sdb" "f = synch_f shm sdb"
  have M: "M = int (length (l @ g @ t))" using assms(4) by (simp add: M_f_def)
  obtain k T I notAll where c: "computed_time M f (end_points (l @ g @ t)) = Some (T, I, notAll)"
    and k: "k = M - f \<or> k < M - f" "\<forall>x. k \<le> intervals_at (l @ g @ t) x \<longrightarrow> x \<in> time_interval T I"
    using computed_time_hull [OF assms(3,5)] assms(6) unfolding M M_f_def(2) assms(4) by blast
  have "M - f \<le> intervals_at (l @ g @ t) x"
    using assms(7) collected_all [OF assms(2), of x] by (simp add: M_f_def)
  then have x: "x \<in> time_interval T I" using k by force
  define sdb1 where "sdb1 = with_resolution le shm Tsync Isync sdb"
  define sdb' where "sdb' = sdb1\<lparr>localSet := UpdateServerCacheStatus le tdf (synchSerialNo sdb1) Tsync Isync l (localSet sdb1),
    globalSet := UpdateServerCacheStatus le tdf (synchSerialNo sdb1) Tsync Isync g (globalSet sdb1)\<rparr>"
  define events where "events = fault_events shm sdb1 T I Tsync Isync notAll"
  obtain actions where a: "clock_actions shm sdb' T I Tsync Isync True adjust_ok = Some actions"
    using clock_actions_returns by blast
  have "DoSynch le shm sdb (Some now) tdf set_ok adjust_ok =
      Some (I, sdb', events @ (if checkIntTime sdb' then [] else actions))"
    using assms(1,2,8) c a by (simp add: DoSynch_def M_f_def Let_def events_def sdb'_def sdb1_def)
  then show ?thesis
    using x clock_actions_time [OF a] fault_events_only by (auto simp: events_def)
qed

text \<open>A clerk with three answers of which the last is wrong.\<close>

definition example_mgt :: MgtParams where
  "example_mgt = \<lparr>checkInt = Bits64 0 1000000, courierRole = ROLE_NONCOURIER, isCourier = False, epochNumber = 0,
    errorTolerance = infiniteInacc, maxInacc = Bits64 0 1000000, minServers = 3, repetitions = 3,
    LANtimeOut = Bits64 0 50000000, WANtimeOut = Bits64 0 150000000, syncHold = Bits64 0 1200000000,
    variant = VTclerk, TSstate = STATE_SYNCH_ADJUST, hasProvider = False\<rparr>"

definition example_shm :: ShmBuf where
  "example_shm = \<lparr>nextLS = Bits64 0x7fffffff 0xffffffff, shm_mgtParams = example_mgt,
    clockParams = \<lparr>clockResolution = 200, clockDrift = 1000\<rparr>\<rparr>"

definition example_answer :: "nat \<Rightarrow> u32 \<Rightarrow> ResponseElement" where
  "example_answer n time = \<lparr>serverPtr = n, re_msgIdSerial = 1, sendTime = Bits64 0 0, serverTime = stamp True time 10,
    processingDelay = Bits64 0 0, recvTime = Bits64 0 2, responseRecvd = True, retriesLeft = 3, differingEpoch = False\<rparr>"

definition example_set :: "ResponseElement list \<Rightarrow> ServerSet" where
  "example_set rps = \<lparr>cacheQ = [], respQ = rps, numServers = int (length rps), numServerSet = int (length rps),
    numResp = int (length rps), numRecvd = int (length rps)\<rparr>"

definition example_sdb :: Sdb where
  "example_sdb = \<lparr>mgtParams = example_mgt,
    localSet = example_set [example_answer 1 1000, example_answer 2 1000, example_answer 3 5000],
    globalSet = example_set [], TPset = example_set [], epochSet = [], TPnextPoll = 0, sdb_minServers = 3,
    synchSerialNo = 1, msgIdSerial = 1, localSolDone = True, doLANsolicit = False, NScontacted = True,
    checkIntTime = False, TPvalid = False, TPnoClockSet = False, synchDoneFlag = False\<rparr>"

lemma example_intervals:
  "server_intervals True example_shm example_sdb (Bits64 0 500) (Bits64 0 0) =
    Some (Inr ([(Bits64 0 1498, Bits64 0 12), (Bits64 0 1498, Bits64 0 12), (Bits64 0 5498, Bits64 0 12)], [], []))"
proof -
  have "EstimateServerTime \<lparr>clockResolution = 200, clockDrift = 1000\<rparr> (Bits64 0x7fffffff 0xffffffff) (Bits64 0 0)
      (Bits64 0 1000) (Bits64 0 10) (Bits64 0 0) (Bits64 0 2) (Bits64 0 500) (Bits64 0 0) = Some (Inr (Bits64 0 1498, Bits64 0 12))"
    by code_simp
  moreover have "EstimateServerTime \<lparr>clockResolution = 200, clockDrift = 1000\<rparr> (Bits64 0x7fffffff 0xffffffff) (Bits64 0 0)
      (Bits64 0 5000) (Bits64 0 10) (Bits64 0 0) (Bits64 0 2) (Bits64 0 500) (Bits64 0 0) = Some (Inr (Bits64 0 5498, Bits64 0 12))"
    by code_simp
  ultimately show ?thesis
    by (simp add: server_intervals_def example_sdb_def example_set_def example_answer_def example_shm_def example_mgt_def comptime_stamp)
qed

lemma example_answers:
  "answer_ok example_shm (Bits64 0 500) (example_answer n t)" if "t \<in> {1000, 5000}"
  using that by (auto simp: answer_ok_def example_answer_def example_shm_def comptime_stamp no_clock_overflow_def round_trip_def
      elapsed_def drift_reciprocal_def drift_bound_def values_small)

lemma example_true: "answer_true example_shm (Bits64 0 500) 1499 (example_answer n 1000)"
  unfolding answer_true_def
  by (rule exI [of _ 1000], rule exI [of _ 1])
    (simp add: example_answer_def example_shm_def interval_stamp round_trip_def elapsed_def drift_reciprocal_def
      drift_bound_def values_small)

theorem synch_sets_true_time_witness:
  "\<exists>Icomp sdb' actions. DoSynch True example_shm example_sdb (Some (stamp True 500 0)) 0 True True = Some (Icomp, sdb', actions) \<and>
    (\<forall>T0 I0 T I. AdjustClock T0 I0 T I \<in> set actions \<longrightarrow> (1499 :: int) \<in> time_interval T I)"
proof -
  have c: "utc_comptime True (stamp True 500 0) = Some (Bits64 0 500, Bits64 0 0, 0)" by (rule comptime_stamp)
  have M: "synch_M example_shm example_sdb = 3" "synch_f example_shm example_sdb = 1"
    by (simp_all add: synch_M_def synch_f_def example_sdb_def example_set_def example_shm_def example_mgt_def)
  have a: "answers True example_shm example_sdb = [example_answer 1 1000, example_answer 2 1000, example_answer 3 5000]"
    by (simp add: answers_def example_sdb_def example_set_def example_shm_def example_mgt_def)
  have "2 \<le> true_intervals True example_shm example_sdb (Bits64 0 500) (Bits64 0 0) 1499"
    by (simp add: true_intervals_def a answer_good_def example_true example_answers)
  moreover have "after_epoch ([(Bits64 0 1498, Bits64 0 12), (Bits64 0 1498, Bits64 0 12), (Bits64 0 5498, Bits64 0 12)] @ [] @ [])"
    by (simp add: after_epoch_def no_overflow_def values_small)
  ultimately show ?thesis
    using synch_sets_true_time [OF c example_intervals, of 1499 True 0 True] by (simp add: M a) blast
qed

text \<open>
  A clerk that asks five servers, and so tolerates two wrong answers.  Servers 1, 2 and 3 are right, server 4 is wrong, and
  server 5 is wrong so near to the end of time that its interval wraps around.
\<close>

definition wrapped_answer :: "nat \<Rightarrow> UTCValue \<Rightarrow> u32 \<Rightarrow> ResponseElement" where
  "wrapped_answer n time inacc = (example_answer n 0)\<lparr>serverTime := utc_mkcomptime True time (Some (Bits64 0 inacc)) 0\<rparr>"

definition wrapped_answers :: "ResponseElement list" where
  "wrapped_answers = [wrapped_answer 1 (Bits64 0 1000) 600, wrapped_answer 2 (Bits64 0 1000) 600,
     wrapped_answer 3 (Bits64 0 1000) 600, wrapped_answer 4 (Bits64 0 500) 10,
     wrapped_answer 5 (Bits64 0x7fffffff 0xfffffc00) 1000]"

definition wrapped_sdb :: Sdb where
  "wrapped_sdb = example_sdb\<lparr>mgtParams := example_mgt\<lparr>minServers := 5\<rparr>, localSet := example_set wrapped_answers\<rparr>"

lemma comptime_wrapped:
  "utc_comptime True (serverTime (wrapped_answer n t i)) = Some (t, Bits64 0 i, 0)"
  by (simp add: wrapped_answer_def comptime_mkcomptime normal_inacc_def IsInfiniteInacc_def tdf12_def)

definition wrapped_intervals :: intervals where
  "wrapped_intervals = [(Bits64 0 1498, Bits64 0 602), (Bits64 0 1498, Bits64 0 602), (Bits64 0 1498, Bits64 0 602),
     (Bits64 0 998, Bits64 0 12), (Bits64 0x7fffffff 0xfffffdf2, Bits64 0 1002)]"

lemma wrapped_estimates:
  "EstimateServerTime (clockParams example_shm) (nextLS example_shm) (sendTime (wrapped_answer n T i)) T (Bits64 0 i)
      (processingDelay (wrapped_answer n T i)) (recvTime (wrapped_answer n T i)) (Bits64 0 500) (Bits64 0 0) = Some (Inr (T', I'))"
  if "(T, i, T', I') \<in> {(Bits64 0 1000, 600, Bits64 0 1498, Bits64 0 602), (Bits64 0 500, 10, Bits64 0 998, Bits64 0 12),
    (Bits64 0x7fffffff 0xfffffc00, 1000, Bits64 0x7fffffff 0xfffffdf2, Bits64 0 1002)}"
proof -
  have e: "EstimateServerTime \<lparr>clockResolution = 200, clockDrift = 1000\<rparr> (Bits64 0x7fffffff 0xffffffff) (Bits64 0 0)
      T (Bits64 0 i) (Bits64 0 0) (Bits64 0 2) (Bits64 0 500) (Bits64 0 0) = Some (Inr (T', I'))"
    using that by (elim insertE emptyE; simp only: prod.inject; elim conjE; hypsubst; code_simp)
  show ?thesis unfolding example_shm_def by (simp add: wrapped_answer_def example_answer_def e)
qed

lemma wrapped_server_intervals:
  "server_intervals True example_shm wrapped_sdb (Bits64 0 500) (Bits64 0 0) = Some (Inr (wrapped_intervals, [], []))"
proof -
  have c: "CollectServerTimes True example_shm (Bits64 0 500) (Bits64 0 0) wrapped_answers = Some (Inr wrapped_intervals)"
    by (simp add: wrapped_answers_def wrapped_intervals_def comptime_wrapped wrapped_estimates)
  have "\<not> IsServer example_shm" by (simp add: example_shm_def example_mgt_def)
  moreover have "respQ (localSet wrapped_sdb) = wrapped_answers" "respQ (globalSet wrapped_sdb) = []"
    by (simp_all add: wrapped_sdb_def example_set_def example_sdb_def)
  ultimately show ?thesis by (simp add: server_intervals_def c)
qed

lemma wrapped_computed_time:
  "computed_time 5 2 (end_points wrapped_intervals) = Some (Bits64 0 998, Bits64 0 12, True)"
  by code_simp

lemma wrapped_good:
  "answer_good example_shm (Bits64 0 500) 1499 (wrapped_answer n (Bits64 0 1000) 600)"
proof -
  have "answer_ok example_shm (Bits64 0 500) (wrapped_answer n (Bits64 0 1000) 600)"
    by (simp add: answer_ok_def comptime_wrapped)
      (simp add: wrapped_answer_def example_answer_def example_shm_def no_clock_overflow_def round_trip_def
        elapsed_def drift_reciprocal_def drift_bound_def values_small)
  moreover have "answer_true example_shm (Bits64 0 500) 1499 (wrapped_answer n (Bits64 0 1000) 600)"
    unfolding answer_true_def
    by (rule exI [of _ 1000], rule exI [of _ 1])
      (simp add: utc_interval_Some [OF comptime_wrapped], simp add: wrapped_answer_def example_answer_def example_shm_def
        round_trip_def elapsed_def drift_reciprocal_def drift_bound_def time_interval_def finite_small values_small)
  ultimately show ?thesis by (simp add: answer_good_def)
qed

lemma wrapped_parameters:
  "synch_M example_shm wrapped_sdb = 5" "synch_f example_shm wrapped_sdb = 2" "\<not> IsServer example_shm"
  "answers True example_shm wrapped_sdb = wrapped_answers" "\<not> checkIntTime wrapped_sdb" "\<not> TPvalid wrapped_sdb"
  "errorTolerance (mgtParams wrapped_sdb) = infiniteInacc" "\<not> IsState example_shm STATE_SYNCH_SET"
  by (simp_all add: synch_M_def synch_f_def answers_def wrapped_sdb_def wrapped_answers_def example_set_def example_sdb_def
      example_shm_def example_mgt_def)

lemma with_resolution_clerk: "\<not> IsServer shm \<Longrightarrow> with_resolution le shm Tsync Isync sdb = sdb"
  by (simp add: with_resolution_def split: option.split sum.split)

text \<open>
  A wrong answer whose interval wraps around 64 bits counts for more than one: here the answers of three of five servers
  are good and \<open>f\<close> is 2, so that the other hypotheses of the theorem above hold, and yet the clock is adjusted to an
  interval without the true time 1499.
\<close>

theorem wrapped_answer_defeats_tolerance:
  "synch_M example_shm wrapped_sdb = 5 \<and> synch_f example_shm wrapped_sdb = 2 \<and>
    3 \<le> true_intervals True example_shm wrapped_sdb (Bits64 0 500) (Bits64 0 0) 1499 \<and>
    (\<exists>Icomp sdb' actions T I. DoSynch True example_shm wrapped_sdb (Some (stamp True 500 0)) 0 True True = Some (Icomp, sdb', actions) \<and>
      AdjustClock (Bits64 0 500) (Bits64 0 0) T I \<in> set actions \<and> 1499 \<notin> time_interval T I)"
proof -
  have "3 \<le> true_intervals True example_shm wrapped_sdb (Bits64 0 500) (Bits64 0 0) 1499"
    by (simp add: true_intervals_def wrapped_parameters) (simp add: wrapped_answers_def wrapped_good)
  moreover have "\<exists>Icomp sdb' actions. DoSynch True example_shm wrapped_sdb (Some (stamp True 500 0)) 0 True True = Some (Icomp, sdb', actions) \<and>
      AdjustClock (Bits64 0 500) (Bits64 0 0) (Bits64 0 998) (Bits64 0 12) \<in> set actions"
    by (simp add: DoSynch_def comptime_stamp wrapped_server_intervals wrapped_parameters wrapped_computed_time
        with_resolution_clerk clock_actions_def IsErrorToleranceExceeded_def infinite_infinite Let_def)
  moreover have "1499 \<notin> time_interval (Bits64 0 998) (Bits64 0 12)"
    by (simp add: time_interval_def finite_small values_small)
  ultimately show ?thesis using wrapped_parameters(1,2) by blast
qed

theorem computed_time_exact_witness:
  "\<exists>T I notAll. computed_time 3 1 (end_points [(Bits64 0 1498, Bits64 0 12), (Bits64 0 1500, Bits64 0 12), (Bits64 0 5498, Bits64 0 12)]) =
    Some (T, I, notAll) \<and> (1505 :: int) \<in> time_interval T I"
proof -
  define ts where "ts = [(Bits64 0 1498, Bits64 0 12), (Bits64 0 1500, Bits64 0 12), (Bits64 0 5498, Bits64 0 12)]"
  have "after_epoch ts" by (simp add: ts_def after_epoch_def no_overflow_def values_small)
  moreover have len: "int (length ts) = 3" by (simp add: ts_def)
  ultimately obtain g T I notAll where c: "computed_time 3 1 (end_points ts) = Some (T, I, notAll)"
    and g: "g = 2 \<or> g < 2" "\<forall>x. g \<le> intervals_at ts x \<longrightarrow> x \<in> time_interval T I"
    using computed_time_exact [of ts 1, unfolded len] by (simp only: zero_le_one) force
  have "intervals_at ts 1505 = 2"
    by (simp add: ts_def intervals_at_def time_interval_def finite_small values_small)
  then have "1505 \<in> time_interval T I" using g by force
  then show ?thesis using c unfolding ts_def by blast
qed

section \<open>Relations of intervals\<close>

text \<open>C33.
  The two tests on intervals are intersection and inclusion of sets of moments, infinite intervals included, as long as
  the ends of both fit in 64 bits (\<open>no_overflow\<close>).
\<close>

theorem interval_relations:
  assumes "no_overflow T1 I1" "no_overflow T2 I2"
  shows "(IsIntervalIntersection T1 I1 T2 I2 \<longleftrightarrow> time_interval T1 I1 \<inter> time_interval T2 I2 \<noteq> {}) \<and>
    (IsInterval1InInterval2 T1 I1 T2 I2 \<longleftrightarrow> time_interval T1 I1 \<subseteq> time_interval T2 I2)"
proof (cases "IsInfiniteInacc I1 \<or> IsInfiniteInacc I2")
  case True
  have "sval T1 \<in> time_interval T1 I1" "sval T2 \<in> time_interval T2 I2" "time_interval T I \<noteq> UNIV \<or> IsInfiniteInacc I" for T I
    using uval_bounds [of I1] uval_bounds [of I2]
    by (auto simp: time_interval_def set_eq_iff intro: exI [of _ "sval T + uval I + 1"])
  then show ?thesis using True
    by (auto simp: IsIntervalIntersection_def IsInterval1InInterval2_def time_interval_def)
next
  case False
  then have f: "\<not> IsInfiniteInacc I1" "\<not> IsInfiniteInacc I2" by simp_all
  note e = end_values [OF assms(1) f(1)] end_values [OF assms(2) f(2)]
  have t: "time_interval T1 I1 = {sval T1 - uval I1 .. sval T1 + uval I1}" "time_interval T2 I2 = {sval T2 - uval I2 .. sval T2 + uval I2}"
    using f by (simp_all add: time_interval_def)
  have "IsIntervalIntersection T1 I1 T2 I2 \<longleftrightarrow> max (sval T1 - uval I1) (sval T2 - uval I2) \<le> min (sval T1 + uval I1) (sval T2 + uval I2)"
    using f e by (auto simp: IsIntervalIntersection_def)
  also have "\<dots> \<longleftrightarrow> time_interval T1 I1 \<inter> time_interval T2 I2 \<noteq> {}"
    unfolding t Int_atLeastAtMost by auto
  finally show ?thesis using f e by (auto simp: t IsInterval1InInterval2_def)
qed

theorem interval_relations_witness:
  "\<not> IsIntervalIntersection (Bits64 0 100) (Bits64 0 10) (Bits64 0 121) (Bits64 0 10) \<and>
    IsInterval1InInterval2 (Bits64 0 100) (Bits64 0 10) (Bits64 0 105) (Bits64 0 15)"
  using interval_relations [of "Bits64 0 100" "Bits64 0 10" "Bits64 0 121" "Bits64 0 10"]
    interval_relations [of "Bits64 0 100" "Bits64 0 10" "Bits64 0 105" "Bits64 0 15"]
  by (simp add: no_overflow_def values_small time_interval_def finite_small)

lemma distance_of_intervals:
  fixes t1 i1 t2 i2 k :: int
  assumes "0 \<le> i1" "0 \<le> i2" "0 \<le> k"
  shows "(\<forall>x\<in>{t1 - i1..t1 + i1}. \<forall>y\<in>{t2 - i2..t2 + i2}. k < \<bar>x - y\<bar>) \<longleftrightarrow> k < \<bar>t1 - t2\<bar> - (i1 + i2)"
proof
  assume all: "\<forall>x\<in>{t1 - i1..t1 + i1}. \<forall>y\<in>{t2 - i2..t2 + i2}. k < \<bar>x - y\<bar>"
  define x y where "x = (if t1 \<le> t2 then min (t1 + i1) t2 else max (t1 - i1) t2)"
    "y = (if t1 \<le> t2 then max (t2 - i2) x else min (t2 + i2) x)"
  have "x \<in> {t1 - i1..t1 + i1}" "y \<in> {t2 - i2..t2 + i2}" using assms by (auto simp: x_y_def)
  then have "k < \<bar>x - y\<bar>" using all by blast
  then show "k < \<bar>t1 - t2\<bar> - (i1 + i2)" using assms by (auto simp: x_y_def split: if_splits)
qed auto

text \<open>
  The error tolerance is exceeded exactly when every moment of the computed interval is farther than the tolerance from
  every moment of the own clock.
\<close>

theorem tolerance_exceeded_iff:
  assumes "no_overflow Tc Ic" "no_overflow Ts Is" "0 \<le> sval Tc" "0 \<le> sval Ts"
    and "0 \<le> sval (errorTolerance (mgtParams sdb))" "\<not> IsInfiniteInacc (errorTolerance (mgtParams sdb))"
  shows "IsErrorToleranceExceeded sdb Tc Ic Ts Is \<longleftrightarrow>
    (\<forall>x\<in>time_interval Tc Ic. \<forall>y\<in>time_interval Ts Is. sval (errorTolerance (mgtParams sdb)) < \<bar>x - y\<bar>)"
proof (cases "IsInfiniteInacc Ic \<or> IsInfiniteInacc Is")
  case True
  have "sval Tc \<in> time_interval Tc Ic" "sval Ts \<in> time_interval Ts Is"
    using uval_bounds [of Ic] uval_bounds [of Is] by (auto simp: time_interval_def)
  then obtain z where "z \<in> time_interval Tc Ic" "z \<in> time_interval Ts Is"
    using that [of "sval Tc"] that [of "sval Ts"] True by (cases "IsInfiniteInacc Ic") (auto simp: time_interval_def)
  then have "\<not> (\<forall>x\<in>time_interval Tc Ic. \<forall>y\<in>time_interval Ts Is. sval (errorTolerance (mgtParams sdb)) < \<bar>x - y\<bar>)"
    using assms(5) by force
  then show ?thesis using True by (auto simp: IsErrorToleranceExceeded_def)
next
  case False
  then have f: "\<not> IsInfiniteInacc Ic" "\<not> IsInfiniteInacc Is" by simp_all
  note i = finite_sval [OF f(1)] finite_sval [OF f(2)]
  define D where "D = UTCsub Ts Tc"
  have D: "sval D = sval Ts - sval Tc" using assms(3,4) sval_bounds [of Ts] sval_bounds [of Tc] by (simp add: D_def sval_sub)
  have N: "U64ISNEG D \<longleftrightarrow> sval D < 0" using IsUTCneg_sval [of D] unfolding IsUTCneg_def .
  have A: "sval (UTCabsVal D) = \<bar>sval Ts - sval Tc\<bar>"
  proof (cases "sval D < 0")
    case True
    have "sval (UTCabsVal D) = sval (UTCsub UTCzero D)"
      using True by (simp add: UTCabsVal_def N)
    then show ?thesis using True D assms(3,4) sval_bounds [of Ts] sval_bounds [of Tc] by (simp add: sval_sub)
  next
    case False
    then have "UTCabsVal D = D" by (simp add: UTCabsVal_def N)
    then show ?thesis using False D by simp
  qed
  have S: "sval (UTCadd Ic Is) = uval Ic + uval Is" using i by (simp add: sval_add)
  have "IsErrorToleranceExceeded sdb Tc Ic Ts Is \<longleftrightarrow>
      sval (errorTolerance (mgtParams sdb)) < \<bar>sval Tc - sval Ts\<bar> - (uval Ic + uval Is)"
    using f assms(5,6) A S i sval_bounds [of "UTCabsVal D"]
    by (auto simp: IsErrorToleranceExceeded_def Let_def sval_sub abs_minus_commute simp flip: D_def)
  then show ?thesis using f i distance_of_intervals [of "uval Ic" "uval Is"] assms(5) by (simp add: time_interval_def)
qed

theorem tolerance_exceeded_iff_witness:
  "\<not> IsErrorToleranceExceeded (example_sdb\<lparr>mgtParams := example_mgt\<lparr>errorTolerance := Bits64 0 80\<rparr>\<rparr>)
    (Bits64 0 100) (Bits64 0 10) (Bits64 0 200) (Bits64 0 10)"
  by (subst tolerance_exceeded_iff) (simp_all add: no_overflow_def values_small finite_small time_interval_def bexI [of _ 110] bexI [of _ 190])

end
