(* ===== verification/Spec2Isabelle.thy ===== *)
theory Spec2Isabelle
  imports Uuid_String Uuid_Create Ubik_Props Udisk_Props Acl_Props Cn_Grp_Props Tkm_Props
    Dts_Synch_Props
begin

text \<open>
  OSF DCE 1.2.2: a verification library for parts of its C sources.

  DCE is a set of services on top of one remote procedure call runtime: the RPC runtime (\<^verbatim>\<open>src/rpc\<close>), the
  directory services (\<^verbatim>\<open>src/directory\<close>), the security service (\<^verbatim>\<open>src/security\<close>), the time service (\<^verbatim>\<open>src/time\<close>),
  the threads (\<^verbatim>\<open>src/threads\<close>) and the distributed file service DFS (\<^verbatim>\<open>src/file\<close>).  The library models routines
  that decide something: identifiers, votes, access, lifetimes of shared state, tokens.  They meet as in the
  code: UUIDs name objects, principals and servers everywhere (\<^verbatim>\<open>Ubik\<close> and \<^verbatim>\<open>Acl_Eval\<close> import \<^verbatim>\<open>Uuid\<close>); the file
  servers of DFS keep their location database in Ubik, guard files by DCE ACLs and hand out tokens.

  \<^bold>\<open>Conventions.\<close>  A C structure is a record with the names of its fields, an enumeration or tagged union a
  datatype, an integer a word of its width (read through \<open>sint\<close> when it is signed) or \<open>nat\<close> or \<open>int\<close> where
  the theory says so.  Routines that change state take the state and return it.  A status out parameter is part
  of the result.  \<open>None\<close> as the result of an operation stands for a failed assertion, an access that C does not
  define, or, for the loops that are partial functions, a call that does not return; the properties say which
  calls give \<open>Some\<close>.  Logging and tracing calls are left out.

  \<^bold>\<open>Theories and sources.\<close>

  \<^item> \<^verbatim>\<open>Prelude\<close>: names of the integer types, generic lemmas on words, lists and byte images, and the collections
    of facts \<open>frame\<close> and \<open>inv_intros\<close>.
  \<^item> \<^verbatim>\<open>Uuid\<close>, \<^verbatim>\<open>Uuid_String\<close>, \<^verbatim>\<open>Uuid_Create\<close> (\<^verbatim>\<open>rpc/runtime/uuid.c\<close>, \<^verbatim>\<open>uuidp.h\<close>, \<^verbatim>\<open>uuidsys.c\<close>): the values, their order,
    equality and hash; the string forms; the generator with its statics, the clock adjustment and the clock
    sequence.  The locale \<open>three_way_comparison\<close> turns a comparison into a linear order; UUIDs are an instance of
    \<open>linorder\<close>.
  \<^item> \<^verbatim>\<open>Ubik\<close>, \<^verbatim>\<open>Ubik_Safety\<close>, \<^verbatim>\<open>Ubik_Props\<close> (\<^verbatim>\<open>file/ncsubik/vote.c\<close>, \<^verbatim>\<open>beacon.c\<close>, with the resets of \<^verbatim>\<open>recovery.c\<close> and
    \<^verbatim>\<open>ubik.c\<close>): votes, beacons and the synchronization site.  \<^verbatim>\<open>Ubik_Safety\<close> runs the operations of all servers in
    any order, with skewed clocks, lost messages and restarts, and counts votes through the locale
    \<open>weighted_quorum\<close>; \<^verbatim>\<open>Ubik_Props\<close> shows that a run of the real handler is a step of that system.
  \<^item> \<^verbatim>\<open>Udisk\<close>, \<^verbatim>\<open>Udisk_Log\<close>, \<^verbatim>\<open>Udisk_Cache\<close>, \<^verbatim>\<open>Udisk_Txn\<close>, \<^verbatim>\<open>Udisk_Commit\<close>, \<^verbatim>\<open>Udisk_Crash\<close>, \<^verbatim>\<open>Udisk_Props\<close>
    (\<^verbatim>\<open>file/ncsubik/disk.c\<close>, \<^verbatim>\<open>phys.c\<close>, \<^verbatim>\<open>ReplayLog\<close> and \<^verbatim>\<open>InitializeDB\<close> of \<^verbatim>\<open>recovery.c\<close>): the database files of one
    server, the buffer cache, the redo log, transactions, and recovery.  \<^verbatim>\<open>Udisk\<close> has the operations; the others
    hold the log as bytes and as records with the two passes of the replay, the invariant of the cache, the
    invariant of a running transaction, the steps of the commit, and what a crash may leave of the files.
  \<^item> \<^verbatim>\<open>Ulock\<close> (\<^verbatim>\<open>file/ncsubik/lock.c\<close>): the lock of a database, with waiters as steps.
  \<^item> \<^verbatim>\<open>Acl_Eval\<close>, \<^verbatim>\<open>Acl_Props\<close> (\<^verbatim>\<open>dce/utils/acldb/acleval.c\<close>, \<^verbatim>\<open>security/idl/aclbase.idl\<close>): the two passes of the access
    algorithm and their abstract specification by the first category with a matching entry.
  \<^item> \<^verbatim>\<open>Cn_Sm\<close> (\<^verbatim>\<open>rpc/runtime/cnsm.c\<close>, \<^verbatim>\<open>cnsm.h\<close>): the engine of the connection protocol's state machines and its
    event list, against the locale \<open>bounded_queue\<close>; the locale \<open>cn_machine\<close> is what a set of action routines has
    to promise so that one event is one step.
  \<^item> \<^verbatim>\<open>Cn_Grp\<close>, \<^verbatim>\<open>Cn_Grp_Inv\<close>, \<^verbatim>\<open>Cn_Grp_Ops\<close>, \<^verbatim>\<open>Cn_Grp_Props\<close> (\<^verbatim>\<open>rpc/runtime/cncasgsm.c\<close>, \<^verbatim>\<open>cnsasgsm.c\<close>, \<^verbatim>\<open>cnassoc.c\<close>,
    \<^verbatim>\<open>cnnet.c\<close>, \<^verbatim>\<open>cnid.c\<close>): association groups, their client and server machines (both interpret \<open>cn_machine\<close>), the
    group table with its growth, the lookups, call counts, liveness monitoring and the rundown of context
    handles.
  \<^item> \<^verbatim>\<open>Tkm_Types\<close>, \<^verbatim>\<open>Tkm_Conflicts\<close>, \<^verbatim>\<open>Tkm_World\<close>, \<^verbatim>\<open>Tkm_Revoke\<close>, \<^verbatim>\<open>Tkm_Grant\<close>, \<^verbatim>\<open>Tkm_Tokens\<close> (\<^verbatim>\<open>file/tkm\<close>): the token
    manager.  \<^verbatim>\<open>Tkm_Types\<close> has the conflict tables, byte ranges, masks and lists (\<^verbatim>\<open>tkm_ctable.c\<close>, \<^verbatim>\<open>tkm_range.c\<close>,
    \<^verbatim>\<open>tkm_tokenlist.c\<close>), \<^verbatim>\<open>Tkm_Conflicts\<close> the search for conflicting tokens (\<^verbatim>\<open>tkm_conflicts.c\<close>), \<^verbatim>\<open>Tkm_World\<close> the files,
    the volume, and the granting, returning and recycling of tokens (\<^verbatim>\<open>tkm_internal.h\<close>, \<^verbatim>\<open>tkm_recycle.c\<close>),
    \<^verbatim>\<open>Tkm_Revoke\<close> the parallel revocation with offers (\<^verbatim>\<open>tkm_revokes.c\<close>), \<^verbatim>\<open>Tkm_Grant\<close> the grants for files and volumes
    with slice and dice (\<^verbatim>\<open>tkm_filetoken.c\<close>, \<^verbatim>\<open>tkm_voltoken.c\<close>), \<^verbatim>\<open>Tkm_Tokens\<close> the exported calls (\<^verbatim>\<open>tkm_tokens.c\<close>).
    \<^verbatim>\<open>Tkm_Inv\<close>, \<^verbatim>\<open>Tkm_Ops\<close>, \<^verbatim>\<open>Tkm_Grants\<close>, \<^verbatim>\<open>Tkm_Props\<close> have the invariant, its preservation and the properties.
  \<^item> \<^verbatim>\<open>Dts_Arith\<close>, \<^verbatim>\<open>Dts_Div\<close> (\<^verbatim>\<open>time/common/arith.c\<close>, \<^verbatim>\<open>utc_arith.h\<close>, \<^verbatim>\<open>dce/utils/misc/dce64.h\<close>): the 64 bit arithmetic of the
    time service on pairs of words, and the proof of its long division.  \<^verbatim>\<open>Dts_Utc\<close>, \<^verbatim>\<open>Dts_Utc_Props\<close>
    (\<^verbatim>\<open>time/common/utcapi.c\<close>): timestamps as 16 bytes, their arithmetic and comparison.  \<^verbatim>\<open>Dts_Clock\<close>, \<^verbatim>\<open>Dts_Marzullo\<close>,
    \<^verbatim>\<open>Dts_Clock_Props\<close> (\<^verbatim>\<open>time/service/clock_adjust.c\<close>): the estimate of a server's time, the order on the ends of
    intervals (another \<open>three_way_comparison\<close> and instance of \<open>linorder\<close>) and the two scans for the part that all but
    \<open>f\<close> intervals share.  \<^verbatim>\<open>Dts_Synch\<close>, \<^verbatim>\<open>Dts_Synch_Props\<close> (\<^verbatim>\<open>time/service/dtss_service_state.c\<close>): the synchronization of
    a clerk or server from the answers to the change of the clock.

  \<^bold>\<open>What the lemmas show.\<close>

  \<^item> UUIDs: the order, the round trip through strings, what the parser accepts, and when the generator returns,
    never repeats, or does repeat.
  \<^item> Ubik: at most one synchronization site at any moment; the promises of the vote; the answers to clients; the
    two sites that a misconfigured peer allows.
  \<^item> Ubik's database: a transaction that ends has all of its writes and one that is aborted has none; after a
    crash at any moment of a commit the recovery finds the database before or after the transaction, and after
    the commit returned it finds the second.  The crash theorems are for a host with most significant byte
    first (\<open>le = False\<close>), files of whole pages, no truncation in the transaction, numbers below \<open>2\<^sup>31\<close> and
    calls of the disk that do not fail before the crash (\<open>quiet\<close>); the other properties show what is lost when one of
    the first three does not hold.
  \<^item> The lock: a write lock is held alone, a release wakes a waiter, a reader that asks for a write lock waits
    forever.
  \<^item> ACLs: the result of the two passes, the masks that bound it, and that delegates and authentication are not
    looked at.
  \<^item> Association groups: operations applied where the callers may apply them return and keep the invariant of the
    table, context handles are run down exactly once, and the calls after which they are not.
  \<^item> Token manager: the conflict tables are the list of conflicting pairs, the search finds exactly the
    conflicting tokens, the parts offered in exchange are the rest of the byte range, no two hosts have
    conflicting tokens after a return or after a grant without revocation, and the types a client accepts leave
    the masks wrong.

  \<^bold>\<open>Loops and parameters.\<close>  Recursion that is not structural has a measure: the retries of a beacon, the
  allocation of tokens, the walk over a conflict queue.  Loops that wait for a clock or for other threads, the
  passes over Ubik's log, and the event loop of the state machines are partial functions over \<open>option\<close>.  Code outside of these components
  is a parameter: the operating system's clock and addresses in \<^verbatim>\<open>Uuid_Create\<close>; the answers of the RPC runtime and
  of the security service in \<^verbatim>\<open>Ubik\<close> and \<^verbatim>\<open>Acl_Eval\<close>; the routines of a network family and the application's
  rundown routine in \<^verbatim>\<open>Cn_Grp\<close>; in the token manager \<open>tkm_env\<close>, with the other threads (at every point where a lock
  is not held), the host package's calls to clients, and the memory behind the conflict table.  The properties
  of the token manager assume that other threads keep its invariant and leave a file alone whose lock is held
  (\<open>well_behaved\<close>).

  \<^bold>\<open>Not modelled.\<close>  Of the parts above: Ubik's remote disk calls and its client interface; the association and call
  machines of the connection protocol; the token manager's threads (garbage collection, periodic work,
  asynchronous grants), its hash tables of files and volumes, races and adjustment of replies, and the
  reference counts of hosts.  The threads that revoke tokens of different hosts run one after the other in the
  model.  Of the rest of DCE nothing is modelled yet: the datagram protocol, the IDL compiler, the directory and
  security servers, Episode, the cache manager, the time service, the administration programs.  Most of it is
  input and output, databases, kernel interfaces and user interfaces; Kerberos, Tcl and the like are third-party
  code.

  \<^bold>\<open>Next.\<close>  In this order: revocation in the grant of tokens under a rely condition on the other threads; Ubik's log
  and its replay; the transmit window of the datagram protocol; the interval arithmetic of the time service.
\<close>

end
